(* ===== verification/Scll_Prelude.thy ===== *)
theory Scll_Prelude
  imports Main "HOL-Library.Word"
begin

text \<open>
  Shared vocabulary of the development.

  \<^item> Machine types: \<open>u8\<close>, \<open>u16\<close>, \<open>u32\<close>, \<open>u64\<close> are words of that width; \<open>usize\<close> is
    a natural number, with the 64-bit bound written out at every \<open>checked_add\<close> of the source.
  \<^item> \<open>Result<A, E>\<close> is the sum \<open>'e + 'a\<close> (\<open>Inl\<close> the error); \<open>rbind\<close> is the source's
    \<open>?\<close> operator, \<open>ok_or\<close> and \<open>map_err\<close> are the methods of the same name.
  \<^item> A function of the source that mutates something is a \<open>prog\<close>: it takes the state and
    returns the result together with the new state, also when the result is an error.
  \<^item> A \<open>heapless::Vec<T, N>\<close> is a list; its capacity is checked where the source pushes
    (\<open>vec_push\<close>, \<open>vec_extend\<close>), and a full vector is left unchanged, as documented.
  \<^item> Slices: \<open>get_at\<close> and \<open>get_range\<close> are \<open>slice::get\<close> with an index and a range.
\<close>

unbundle bit_operations_syntax

named_theorems prog_simps \<open>evaluation rules of the state and result combinators\<close>
named_theorems limit_simps \<open>the capacity constants, unfolded\<close>

type_synonym u8 = "8 word"
type_synonym u16 = "16 word"
type_synonym u32 = "32 word"
type_synonym u64 = "64 word"
type_synonym usize = nat
type_synonym bytes = "u8 list"

subsection \<open>Results\<close>

definition rbind :: "'e + 'a \<Rightarrow> ('a \<Rightarrow> 'e + 'b) \<Rightarrow> 'e + 'b" where
  "rbind m f = (case m of Inl e \<Rightarrow> Inl e | Inr x \<Rightarrow> f x)"

definition ok_or :: "'e \<Rightarrow> 'a option \<Rightarrow> 'e + 'a" where
  "ok_or e m = (case m of None \<Rightarrow> Inl e | Some x \<Rightarrow> Inr x)"

definition map_err :: "('e \<Rightarrow> 'f) \<Rightarrow> 'e + 'a \<Rightarrow> 'f + 'a" where
  "map_err h m = (case m of Inl e \<Rightarrow> Inl (h e) | Inr x \<Rightarrow> Inr x)"

definition is_ok :: "'e + 'a \<Rightarrow> bool" where
  "is_ok m = (case m of Inl _ \<Rightarrow> False | Inr _ \<Rightarrow> True)"

definition ok :: "'e + 'a \<Rightarrow> 'a option" where
  "ok m = (case m of Inl _ \<Rightarrow> None | Inr x \<Rightarrow> Some x)"

lemma rbind_simps [simp, prog_simps]:
  "rbind (Inl e) f = Inl e" "rbind (Inr x) f = f x"
  by (simp_all add: rbind_def)

lemma ok_or_simps [simp, prog_simps]:
  "ok_or e None = Inl e" "ok_or e (Some x) = Inr x"
  by (simp_all add: ok_or_def)

lemma map_err_simps [simp, prog_simps]:
  "map_err h (Inl e) = Inl (h e)" "map_err h (Inr x) = Inr x"
  by (simp_all add: map_err_def)

lemma is_ok_simps [simp, prog_simps]: "\<not> is_ok (Inl e)" "is_ok (Inr x)"
  by (simp_all add: is_ok_def)

lemma ok_simps [simp, prog_simps]: "ok (Inl e) = None" "ok (Inr x) = Some x"
  by (simp_all add: ok_def)

lemma is_ok_iff: "is_ok m \<longleftrightarrow> (\<exists>x. m = Inr x)"
  by (cases m) auto

lemma ok_eq_Some [simp]: "ok m = Some x \<longleftrightarrow> m = Inr x"
  by (cases m) auto

lemma rbind_eq_Inr [simp]: "rbind m f = Inr y \<longleftrightarrow> (\<exists>x. m = Inr x \<and> f x = Inr y)"
  by (cases m) auto

lemma rbind_eq_Inl: "rbind m f = Inl e \<longleftrightarrow> m = Inl e \<or> (\<exists>x. m = Inr x \<and> f x = Inl e)"
  by (cases m) auto

lemma ok_or_eq_Inr [simp]: "ok_or e m = Inr x \<longleftrightarrow> m = Some x"
  by (cases m) auto

lemma ok_or_eq_Inl [simp]: "ok_or e m = Inl e' \<longleftrightarrow> m = None \<and> e' = e"
  by (cases m) auto

lemma map_err_eq_Inr [simp]: "map_err h m = Inr x \<longleftrightarrow> m = Inr x"
  by (cases m) auto

lemma map_err_eq_Inl [simp]: "map_err h m = Inl e \<longleftrightarrow> (\<exists>e'. m = Inl e' \<and> e = h e')"
  by (cases m) auto

lemma rbind_cong [fundef_cong]:
  "m = m' \<Longrightarrow> (\<And>x. m' = Inr x \<Longrightarrow> f x = f' x) \<Longrightarrow> rbind m f = rbind m' f'"
  by (cases m') auto

lemma rbind_assoc: "rbind (rbind m f) g = rbind m (\<lambda>x. rbind (f x) g)"
  by (cases m) auto

subsection \<open>Programs over a state\<close>

type_synonym ('s, 'e, 'a) prog = "'s \<Rightarrow> ('e + 'a) \<times> 's"

definition ret :: "'a \<Rightarrow> ('s, 'e, 'a) prog" where
  "ret x = (\<lambda>s. (Inr x, s))"

definition throw :: "'e \<Rightarrow> ('s, 'e, 'a) prog" where
  "throw e = (\<lambda>s. (Inl e, s))"

definition bindP :: "('s, 'e, 'a) prog \<Rightarrow> ('a \<Rightarrow> ('s, 'e, 'b) prog) \<Rightarrow> ('s, 'e, 'b) prog" where
  "bindP m f = (\<lambda>s. case m s of (r, s') \<Rightarrow>
     (case r of Inl e \<Rightarrow> (Inl e, s') | Inr x \<Rightarrow> f x s'))"

definition liftR :: "'e + 'a \<Rightarrow> ('s, 'e, 'a) prog" where
  "liftR r = (\<lambda>s. (r, s))"

definition map_errP :: "('e \<Rightarrow> 'f) \<Rightarrow> ('s, 'e, 'a) prog \<Rightarrow> ('s, 'f, 'a) prog" where
  "map_errP h m = (\<lambda>s. case m s of (r, s') \<Rightarrow> (map_err h r, s'))"

text \<open>\<open>m; n\<close> with the unit result of \<open>m\<close> dropped.\<close>

definition thenP :: "('s, 'e, 'a) prog \<Rightarrow> ('s, 'e, 'b) prog \<Rightarrow> ('s, 'e, 'b) prog" where
  "thenP m n = bindP m (\<lambda>_. n)"

text \<open>Running a program on one half of a pair of states.\<close>

definition on_fst :: "('s, 'e, 'a) prog \<Rightarrow> ('s \<times> 't, 'e, 'a) prog" where
  "on_fst m = (\<lambda>(s, t). case m s of (r, s') \<Rightarrow> (r, (s', t)))"

definition on_snd :: "('t, 'e, 'a) prog \<Rightarrow> ('s \<times> 't, 'e, 'a) prog" where
  "on_snd m = (\<lambda>(s, t). case m t of (r, t') \<Rightarrow> (r, (s, t')))"

lemma prog_apply [simp, prog_simps]:
  "ret x s = (Inr x, s)"
  "throw e s = (Inl e, s)"
  "liftR r s = (r, s)"
  by (simp_all add: ret_def throw_def liftR_def)

lemma bindP_apply [prog_simps]:
  "m s = (Inr x, s') \<Longrightarrow> bindP m f s = f x s'"
  "m s = (Inl e, s') \<Longrightarrow> bindP m f s = (Inl e, s')"
  by (simp_all add: bindP_def)

lemma bindP_lift [simp, prog_simps]:
  "bindP (ret x) f = f x"
  "bindP (throw e) f = throw e"
  "bindP (liftR (Inr x)) f = f x"
  "bindP (liftR (Inl e)) f = throw e"
  by (auto simp: bindP_def fun_eq_iff)

lemma thenP_eq_Inr: "thenP m n s = (Inr y, t) \<longleftrightarrow> (\<exists>x s'. m s = (Inr x, s') \<and> n s' = (Inr y, t))"
  by (auto simp: thenP_def bindP_def split: prod.splits sum.splits)

lemma map_errP_apply [simp, prog_simps]:
  "map_errP h m s = (case m s of (r, s') \<Rightarrow> (map_err h r, s'))"
  by (simp add: map_errP_def)

lemma on_fst_apply [simp, prog_simps]: "on_fst m (s, t) = (case m s of (r, s') \<Rightarrow> (r, (s', t)))"
  by (simp add: on_fst_def)

lemma on_snd_apply [simp, prog_simps]: "on_snd m (s, t) = (case m t of (r, t') \<Rightarrow> (r, (s, t')))"
  by (simp add: on_snd_def)

lemma bindP_eq_Inr:
  "bindP m f s = (Inr y, t) \<longleftrightarrow> (\<exists>x s'. m s = (Inr x, s') \<and> f x s' = (Inr y, t))"
  by (auto simp: bindP_def split: prod.splits sum.splits)

lemma bindP_eq_Inl:
  "bindP m f s = (Inl e, t) \<longleftrightarrow>
     m s = (Inl e, t) \<or> (\<exists>x s'. m s = (Inr x, s') \<and> f x s' = (Inl e, t))"
  by (auto simp: bindP_def split: prod.splits sum.splits)

lemma liftR_Inr: "liftR r s = (Inr x, s') \<longleftrightarrow> r = Inr x \<and> s' = s"
  by auto

lemma throw_not_Inr: "throw e s \<noteq> (Inr x, s')"
  by simp

lemma if_throw_Inr: "(if c then throw e else m) s = (Inr x, s') \<longleftrightarrow> \<not> c \<and> m s = (Inr x, s')"
  by simp

lemma case_pair_Inr: "(case p of (a, b) \<Rightarrow> f a b) s = (Inr x, s') \<longleftrightarrow> f (fst p) (snd p) s = (Inr x, s')"
  by (cases p) simp

lemmas success_simps = bindP_eq_Inr liftR_Inr throw_not_Inr if_throw_Inr case_pair_Inr

text \<open>A program run for every element of a list, collecting the results.\<close>

primrec each :: "('a \<Rightarrow> ('s, 'e, 'b) prog) \<Rightarrow> 'a list \<Rightarrow> ('s, 'e, 'b list) prog" where
  "each f [] = ret []"
| "each f (x # xs) = bindP (f x) (\<lambda>y. bindP (each f xs) (\<lambda>ys. ret (y # ys)))"

lemma each_Nil: "each f [] s = (Inr ys, s') \<longleftrightarrow> ys = [] \<and> s' = s"
  by (auto simp: ret_def)

lemma each_Cons:
  "each f (x # xs) s = (Inr zs, s') \<longleftrightarrow>
     (\<exists>y ys s1. f x s = (Inr y, s1) \<and> each f xs s1 = (Inr ys, s') \<and> zs = y # ys)"
  by (simp only: each.simps bindP_eq_Inr) (auto simp: ret_def)

text \<open>An invariant of the state that a program keeps, whatever it returns.\<close>

definition keeps :: "('s \<Rightarrow> bool) \<Rightarrow> ('s, 'e, 'a) prog \<Rightarrow> bool" where
  "keeps I m \<longleftrightarrow> (\<forall>s r s'. I s \<longrightarrow> m s = (r, s') \<longrightarrow> I s')"

lemma keepsI: "(\<And>s r s'. I s \<Longrightarrow> m s = (r, s') \<Longrightarrow> I s') \<Longrightarrow> keeps I m"
  by (auto simp: keeps_def)

lemma keepsD: "keeps I m \<Longrightarrow> I s \<Longrightarrow> m s = (r, s') \<Longrightarrow> I s'"
  by (auto simp: keeps_def)

lemma keeps_prims [simp, intro]: "keeps I (ret x)" "keeps I (throw e)" "keeps I (liftR r)"
  by (auto simp: keeps_def)

lemma keeps_bindP [intro]: "keeps I m \<Longrightarrow> (\<And>x. keeps I (f x)) \<Longrightarrow> keeps I (bindP m f)"
proof (rule keepsI)
  fix s r s' assume m: "keeps I m" and f: "\<And>x. keeps I (f x)" and s: "I s"
    and run: "bindP m f s = (r, s')"
  obtain r1 s1 where ms: "m s = (r1, s1)" by (cases "m s")
  then have s1: "I s1" using m s by (blast dest: keepsD)
  show "I s'"
  proof (cases r1)
    case (Inl e) then show ?thesis using run ms s1 by (simp add: bindP_def)
  next
    case (Inr x)
    then have "f x s1 = (r, s')" using run ms by (simp add: bindP_def)
    then show ?thesis using f [of x] s1 by (blast dest: keepsD)
  qed
qed

lemma keeps_thenP [intro]: "keeps I m \<Longrightarrow> keeps I n \<Longrightarrow> keeps I (thenP m n)"
  by (auto simp: thenP_def)

lemma keeps_each [intro]: "(\<And>x. keeps I (f x)) \<Longrightarrow> keeps I (each f xs)"
  by (induction xs) auto

lemma keeps_map_errP [intro]: "keeps I m \<Longrightarrow> keeps I (map_errP h m)"
  by (rule keepsI) (auto split: prod.splits dest: keepsD)

lemma keeps_cases [intro]:
  "keeps I m \<Longrightarrow> keeps I n \<Longrightarrow> keeps I (if c then m else n)"
  "(\<And>a b. keeps I (f a b)) \<Longrightarrow> keeps I (case p of (a, b) \<Rightarrow> f a b)"
  "keeps I m \<Longrightarrow> (\<And>x. keeps I (g x)) \<Longrightarrow> keeps I (case v of None \<Rightarrow> m | Some x \<Rightarrow> g x)"
  by (auto split: prod.split option.split)

lemma keeps_on_fst [intro]: "(\<And>t. keeps (\<lambda>s. I (s, t)) m) \<Longrightarrow> keeps I (on_fst m)"
  unfolding keeps_def by (auto split: prod.splits)

lemma keeps_on_snd [intro]: "(\<And>s. keeps (\<lambda>t. I (s, t)) m) \<Longrightarrow> keeps I (on_snd m)"
  unfolding keeps_def by (auto split: prod.splits)

lemma keeps_const: "keeps (\<lambda>s. c) m"
  by (auto simp: keeps_def)

lemmas keeps_intros = keeps_prims keeps_bindP keeps_thenP keeps_each keeps_map_errP keeps_cases keeps_on_fst keeps_on_snd

subsection \<open>Slices and bounded vectors\<close>

definition get_at :: "'a list \<Rightarrow> usize \<Rightarrow> 'a option" where
  "get_at xs i = (if i < length xs then Some (xs ! i) else None)"

definition get_range :: "'a list \<Rightarrow> usize \<Rightarrow> usize \<Rightarrow> 'a list option" where
  "get_range xs a b = (if a \<le> b \<and> b \<le> length xs then Some (take (b - a) (drop a xs)) else None)"

definition vec_push :: "nat \<Rightarrow> 'a list \<Rightarrow> 'a \<Rightarrow> 'a list option" where
  "vec_push cap v x = (if length v < cap then Some (v @ [x]) else None)"

definition vec_extend :: "nat \<Rightarrow> 'a list \<Rightarrow> 'a list \<Rightarrow> 'a list option" where
  "vec_extend cap v src = (if length v + length src \<le> cap then Some (v @ src) else None)"

text \<open>\<open>let _ = v.push(x)\<close> and \<open>let _ = v.extend_from_slice(src)\<close>: an overflow leaves \<open>v\<close> as it was.\<close>

definition push_ignore :: "nat \<Rightarrow> 'a list \<Rightarrow> 'a \<Rightarrow> 'a list" where
  "push_ignore cap v x = (case vec_push cap v x of Some v' \<Rightarrow> v' | None \<Rightarrow> v)"

definition extend_ignore :: "nat \<Rightarrow> 'a list \<Rightarrow> 'a list \<Rightarrow> 'a list" where
  "extend_ignore cap v src = (case vec_extend cap v src of Some v' \<Rightarrow> v' | None \<Rightarrow> v)"

definition checked_add :: "usize \<Rightarrow> usize \<Rightarrow> usize option" where
  "checked_add a b = (if a + b < 2 ^ 64 then Some (a + b) else None)"

text \<open>\<open>u8::try_from(n).ok()\<close> on a \<open>usize\<close>, and \<open>u8::checked_add\<close>.\<close>

definition u8_try_from :: "usize \<Rightarrow> u8 option" where
  "u8_try_from n = (if n < 256 then Some (of_nat n) else None)"

definition u8_checked_add :: "u8 \<Rightarrow> u8 \<Rightarrow> u8 option" where
  "u8_checked_add a b = (if unat a + unat b < 256 then Some (a + b) else None)"

text \<open>The bound is compared as an integer when \<open>checked_add\<close> is evaluated.\<close>

lemma checked_add_code [code]:
  "checked_add a b = (if int a + int b < 18446744073709551616 then Some (a + b) else None)"
proof -
  have "int a + int b < 18446744073709551616 \<longleftrightarrow> a + b < 2 ^ 64"
    by (simp flip: of_nat_add)
  then show ?thesis by (simp add: checked_add_def)
qed

lemma get_at_eq_Some [simp]: "get_at xs i = Some x \<longleftrightarrow> i < length xs \<and> xs ! i = x"
  by (auto simp: get_at_def)

lemma get_at_eq_None [simp]: "get_at xs i = None \<longleftrightarrow> length xs \<le> i"
  by (auto simp: get_at_def)

lemma get_at_drop: "get_at xs i = (case drop i xs of [] \<Rightarrow> None | x # _ \<Rightarrow> Some x)"
proof (cases "i < length xs")
  case True
  then have "drop i xs = xs ! i # drop (Suc i) xs" by (rule Cons_nth_drop_Suc [symmetric])
  then show ?thesis using True by (simp add: get_at_def)
qed (simp add: get_at_def)

lemma get_range_eq_Some [simp]:
  "get_range xs a b = Some ys \<longleftrightarrow> a \<le> b \<and> b \<le> length xs \<and> ys = take (b - a) (drop a xs)"
  by (auto simp: get_range_def)

lemma vec_push_eq_Some [simp]: "vec_push cap v x = Some w \<longleftrightarrow> length v < cap \<and> w = v @ [x]"
  by (auto simp: vec_push_def)

lemma vec_extend_eq_Some [simp]:
  "vec_extend cap v src = Some w \<longleftrightarrow> length v + length src \<le> cap \<and> w = v @ src"
  by (auto simp: vec_extend_def)

lemma vec_extend_eq_None [simp]: "vec_extend cap v src = None \<longleftrightarrow> cap < length v + length src"
  by (auto simp: vec_extend_def)

subsection \<open>Big-endian and little-endian byte strings\<close>

text \<open>\<open>be_bytes k n\<close> is the \<open>k\<close>-octet \<open>to_be_bytes\<close> of \<open>n\<close>, \<open>from_be\<close> its inverse.\<close>

primrec be_bytes :: "nat \<Rightarrow> nat \<Rightarrow> bytes" where
  "be_bytes 0 n = []"
| "be_bytes (Suc k) n = be_bytes k (n div 256) @ [of_nat n]"

definition from_be :: "bytes \<Rightarrow> nat" where
  "from_be bs = foldl (\<lambda>a b. a * 256 + unat b) 0 bs"

definition from_le :: "bytes \<Rightarrow> nat" where
  "from_le bs = from_be (rev bs)"

lemma length_be_bytes [simp]: "length (be_bytes k n) = k"
  by (induction k arbitrary: n) auto

lemma from_be_Nil [simp]: "from_be [] = 0"
  by (simp add: from_be_def)

lemma from_be_snoc [simp]: "from_be (bs @ [b]) = from_be bs * 256 + unat b"
  by (simp add: from_be_def)

lemma unat_u8_of_nat: "unat (of_nat n :: u8) = n mod 256"
  by (simp add: unat_of_nat)

lemma from_be_be_bytes: "from_be (be_bytes k n) = n mod 256 ^ k"
proof (induction k arbitrary: n)
  case (Suc k)
  have "n div 256 mod 256 ^ k * 256 + n mod 256 = n mod (256 * 256 ^ k)"
    by (simp add: mod_mult2_eq)
  then show ?case using Suc.IH by (simp add: unat_u8_of_nat)
qed simp

lemma unat_u8_lt: "unat (b :: u8) < 256"
  using unsigned_less [of b] by simp

lemma from_be_append: "from_be (xs @ ys) = from_be xs * 256 ^ length ys + from_be ys"
proof (induction ys rule: rev_induct)
  case (snoc y ys)
  have "from_be ((xs @ ys) @ [y]) = (from_be xs * 256 ^ length ys + from_be ys) * 256 + unat y"
    unfolding from_be_snoc snoc.IH by simp
  then show ?case by (simp add: algebra_simps)
qed simp

lemma from_be_Cons: "from_be (x # xs) = unat x * 256 ^ length xs + from_be xs"
  using from_be_append [of "[x]" xs] by (simp add: from_be_def)

lemma from_be_lt: "from_be bs < 256 ^ length bs"
proof (induction bs rule: rev_induct)
  case (snoc b bs)
  have "from_be bs * 256 + unat b < (from_be bs + 1) * 256" using unat_u8_lt [of b] by simp
  also have "\<dots> \<le> 256 ^ length bs * 256" using snoc by (intro mult_right_mono) auto
  finally show ?case by simp
qed simp

lemma be_bytes_from_be: "be_bytes (length bs) (from_be bs) = bs"
proof (induction bs rule: rev_induct)
  case (snoc b bs)
  have b: "unat b < 256" by (rule unat_u8_lt)
  then have "of_nat (from_be bs * 256 + unat b) = (b :: u8)"
    unfolding word_unat_eq_iff unat_of_nat by simp
  moreover have "(from_be bs * 256 + unat b) div 256 = from_be bs" using b by simp
  ultimately show ?case using snoc by simp
qed simp

lemma from_be_dropWhile: "from_be (dropWhile (\<lambda>b. b = 0) bs) = from_be bs"
  by (induction bs) (auto simp: from_be_Cons)

text \<open>\<open>to_be_bytes\<close> of a word of \<open>k\<close> octets.\<close>

definition to_be_bytes :: "nat \<Rightarrow> 'a::len word \<Rightarrow> bytes" where
  "to_be_bytes k w = map (\<lambda>i. ucast (drop_bit (8 * i) w)) (rev [0..<k])"

lemma to_be_bytes_eq: "to_be_bytes k w = be_bytes k (unat w)"
proof (induction k arbitrary: w)
  case (Suc k)
  have "map (\<lambda>i. ucast (drop_bit (8 * i) w)) (rev [0..<Suc k]) =
      map (\<lambda>i. ucast (drop_bit (8 * i) (drop_bit 8 w))) (rev [0..<k]) @ [ucast w :: u8]"
    by (simp add: upt_conv_Cons map_Suc_upt [symmetric] rev_map [symmetric] comp_def add.commute
        del: upt_Suc)
  moreover have "unat (drop_bit 8 w) = unat w div 256"
    unfolding unat_drop_bit_eq by (simp add: drop_bit_eq_div)
  ultimately show ?case using Suc.IH [of "drop_bit 8 w"] by (simp add: to_be_bytes_def del: upt_Suc)
qed (simp add: to_be_bytes_def)

subsection \<open>Octets\<close>

text \<open>A fact about one octet is decided by evaluating it on all 256 of them.\<close>

lemma u8_all: "(\<forall>b :: u8. P b) \<longleftrightarrow> list_all P (map of_nat [0..<256])"
proof -
  have "P b" if a: "list_all P (map of_nat [0..<256])" for b :: u8
  proof -
    have "unat b \<in> set [0..<256]" using unat_u8_lt by simp
    then have "P (of_nat (unat b))" using a unfolding list_all_iff set_map by blast
    then show "P b" by simp
  qed
  then show ?thesis by (auto simp: list_all_iff)
qed

text \<open>\<open>(acc << 8) | b\<close>, the accumulation step of every big-endian reader of the source.\<close>

lemma unat_shift_in:
  fixes w :: "'a::len word" and b :: u8
  assumes l: "8 \<le> LENGTH('a)" and w: "unat w * 256 + 255 < 2 ^ LENGTH('a)"
  shows "unat (push_bit 8 w OR ucast b) = unat w * 256 + unat b"
proof -
  have "push_bit 8 w AND ucast b = (0 :: 'a word)"
    by (rule bit_eqI) (auto simp: bit_simps dest: bit_imp_le_length)
  then have "push_bit 8 w OR ucast b = push_bit 8 w + (ucast b :: 'a word)"
    by (metis disjunctive_add_eq_or)
  moreover have "unat (push_bit 8 w) = unat w * 256"
    using w by (subst unsigned_push_bit_eq) (simp add: push_bit_eq_mult take_bit_nat_eq_self)
  moreover have "unat (ucast b :: 'a word) = unat b"
    using l less_le_trans [OF unat_u8_lt [of b] power_increasing [OF l, of "2::nat", simplified]]
    by (simp add: unsigned_ucast_eq take_bit_nat_eq_self_iff)
  moreover have "unat b \<le> 255" using unat_u8_lt [of b] by linarith
  ultimately show ?thesis using w by (simp add: unat_word_ariths)
qed

lemma u8_high_bit: "((b :: u8) AND 0x80 = 0) \<longleftrightarrow> unat b < 128"
proof -
  have "list_all (\<lambda>b :: u8. (b AND 0x80 = 0) = (unat b < 128)) (map of_nat [0..<256])" by code_simp
  then show ?thesis unfolding u8_all [symmetric] by blast
qed

end
