(* ===== verification/Scll_Limits.thy ===== *)
theory Scll_Limits
  imports Scll_Prelude
begin

text \<open>
  \<open>scll-core/src/limits.rs\<close>: the capacity constants of the fixed-capacity collections. The
  collection \<open>limit_simps\<close> unfolds them; every model of a \<open>heapless\<close> collection names the
  constant it is bounded by.
\<close>

definition AID_MAX :: usize where [limit_simps]: "AID_MAX = 16"
definition CAPDU_MAX :: usize where [limit_simps]: "CAPDU_MAX = 261"
definition RAPDU_MAX :: usize where [limit_simps]: "RAPDU_MAX = 258"
definition ATR_ATS_MAX :: usize where [limit_simps]: "ATR_ATS_MAX = 255"
definition HASH_MAX :: usize where [limit_simps]: "HASH_MAX = 64"
definition GETDATA_RAW_MAX :: usize where [limit_simps]: "GETDATA_RAW_MAX = 256"
definition INSTALL_PARAMS_MAX :: usize where [limit_simps]: "INSTALL_PARAMS_MAX = 255"
definition IIN_MAX :: usize where [limit_simps]: "IIN_MAX = 16"
definition CIN_MAX :: usize where [limit_simps]: "CIN_MAX = 16"
definition KEY_BYTES_MAX :: usize where [limit_simps]: "KEY_BYTES_MAX = 32"
definition ENC_KEY_BLOCK_MAX :: usize where [limit_simps]: "ENC_KEY_BLOCK_MAX = 32"
definition KCV_LEN :: usize where [limit_simps]: "KCV_LEN = 3"
definition MAC_CHAIN_LEN :: usize where [limit_simps]: "MAC_CHAIN_LEN = 16"
definition SCP03_S16_MAX :: usize where [limit_simps]: "SCP03_S16_MAX = 16"
definition MAX_SCP_VARIANTS :: usize where [limit_simps]: "MAX_SCP_VARIANTS = 8"
definition MAX_KEYSETS :: usize where [limit_simps]: "MAX_KEYSETS = 16"
definition MAX_KEYS_PER_SET :: usize where [limit_simps]: "MAX_KEYS_PER_SET = 16"
definition MAX_CIPHERS :: usize where [limit_simps]: "MAX_CIPHERS = 16"
definition MAX_PRIVILEGE_BYTES :: usize where [limit_simps]: "MAX_PRIVILEGE_BYTES = 8"
definition MAX_SDS :: usize where [limit_simps]: "MAX_SDS = 8"
definition MAX_APPLETS :: usize where [limit_simps]: "MAX_APPLETS = 48"
definition MAX_ELFS :: usize where [limit_simps]: "MAX_ELFS = 32"
definition MAX_REGISTRY_ENTRIES :: usize where [limit_simps]: "MAX_REGISTRY_ENTRIES = 64"
definition MAX_STATUS_PAGES :: usize where [limit_simps]: "MAX_STATUS_PAGES = 16"
definition MAX_STATUS_SCOPE_BYTES :: usize where [limit_simps]: "MAX_STATUS_SCOPE_BYTES = MAX_STATUS_PAGES * RAPDU_MAX"
definition MAX_MODULES_PER_ELF :: usize where [limit_simps]: "MAX_MODULES_PER_ELF = 16"
definition MAX_REMOVED_OBJECTS :: usize where [limit_simps]: "MAX_REMOVED_OBJECTS = 32"
definition MAX_CAP_IMPORTS :: usize where [limit_simps]: "MAX_CAP_IMPORTS = 16"
definition MAX_CAP_APPLETS :: usize where [limit_simps]: "MAX_CAP_APPLETS = 8"
definition MAX_WARNINGS :: usize where [limit_simps]: "MAX_WARNINGS = 16"
definition MAX_QUIRKS :: usize where [limit_simps]: "MAX_QUIRKS = 8"
definition MAX_KEYTYPE_SUPPORTED :: usize where [limit_simps]: "MAX_KEYTYPE_SUPPORTED = 16"
definition MAX_TLVS :: usize where [limit_simps]: "MAX_TLVS = 64"
definition TRANSPORT_NAME_MAX :: usize where [limit_simps]: "TRANSPORT_NAME_MAX = 16"
definition WARNING_DETAIL_MAX :: usize where [limit_simps]: "WARNING_DETAIL_MAX = 128"
definition OTHER_DETAIL_MAX :: usize where [limit_simps]: "OTHER_DETAIL_MAX = 64"
definition LOAD_BLOCK_DATA :: usize where [limit_simps]: "LOAD_BLOCK_DATA = 223"
definition INFLATE_WINDOW :: usize where [limit_simps]: "INFLATE_WINDOW = 32 * 1024"

text \<open>The relations between the constants that the code relies on.\<close>

lemma MAX_REGISTRY_ENTRIES_eq: "MAX_REGISTRY_ENTRIES = MAX_TLVS"
  by (simp add: limit_simps)

lemma GETDATA_RAW_MAX_eq: "GETDATA_RAW_MAX + 2 = RAPDU_MAX"
  by (simp add: limit_simps)

end
