(* ===== verification/Scll_Tlv.thy ===== *)
theory Scll_Tlv
  imports Scll_Limits
begin

text \<open>
  \<open>scll-core/src/tlv.rs\<close>: the BER-TLV parser and encoder.

  The parser keeps the source's cursor: \<open>parse_tag\<close> and \<open>parse_len\<close> read \<open>input\<close> at a
  position that is their state. The encoder's state is the caller's output buffer. The
  abstract side is the relation \<open>ber_tlv\<close> (every definite-length BER encoding of an object,
  long forms that are not minimal included) and the function \<open>enc_tlv\<close> (the canonical one).
  The lemmas show that the parser accepts exactly the concatenations of BER encodings, that
  the encoder writes exactly the canonical one, and that the two compose to the identity.
\<close>

section \<open>The program\<close>

record tlv =
  tlv_tag :: u32
  tlv_value :: bytes

datatype tlv_error = Truncated | BadLength | TooMany | TlvOverflow

definition TAG_MULTIBYTE :: u8 where "TAG_MULTIBYTE = 0x1F"
definition TAG_MORE :: u8 where "TAG_MORE = 0x80"
definition TAG_MAX_OCTETS :: usize where "TAG_MAX_OCTETS = 4"
definition LEN_LONG :: u8 where "LEN_LONG = 0x80"
definition USIZE_OCTETS :: usize where "USIZE_OCTETS = 8"

lemmas tlv_consts = TAG_MULTIBYTE_def TAG_MORE_def TAG_MAX_OCTETS_def LEN_LONG_def USIZE_OCTETS_def

text \<open>\<open>*input.get(*pos).ok_or(Truncated)?; *pos += 1\<close>\<close>

definition next_octet :: "bytes \<Rightarrow> (usize, tlv_error, u8) prog" where
  "next_octet input pos = (case get_at input pos of
     None \<Rightarrow> (Inl Truncated, pos)
   | Some b \<Rightarrow> (Inr b, pos + 1))"

function parse_tag_loop :: "bytes \<Rightarrow> usize \<Rightarrow> u32 \<Rightarrow> (usize, tlv_error, u32) prog" where
  "parse_tag_loop input octets tag = bindP (next_octet input) (\<lambda>b.
     let octets = octets + 1 in
     if octets > TAG_MAX_OCTETS then throw BadLength
     else let tag = push_bit 8 tag OR ucast b in
       if b AND TAG_MORE = 0 then ret tag
       else parse_tag_loop input octets tag)"
  by pat_completeness auto
termination by (relation "measure (\<lambda>(_, octets, _). TAG_MAX_OCTETS - octets)")
  (auto simp: TAG_MAX_OCTETS_def)

declare parse_tag_loop.simps [simp del]

definition parse_tag :: "bytes \<Rightarrow> (usize, tlv_error, u32) prog" where
  "parse_tag input = bindP (next_octet input) (\<lambda>b0.
     let tag = ucast b0 in
     if b0 AND TAG_MULTIBYTE = TAG_MULTIBYTE then parse_tag_loop input 1 tag
     else ret tag)"

primrec parse_len_loop :: "bytes \<Rightarrow> nat \<Rightarrow> u64 \<Rightarrow> (usize, tlv_error, u64) prog" where
  "parse_len_loop input 0 len = ret len"
| "parse_len_loop input (Suc n) len = bindP (next_octet input) (\<lambda>b.
     parse_len_loop input n (push_bit 8 len OR ucast b))"

definition parse_len :: "bytes \<Rightarrow> (usize, tlv_error, usize) prog" where
  "parse_len input = bindP (next_octet input) (\<lambda>b0.
     if b0 AND LEN_LONG = 0 then ret (unat b0)
     else let count = unat (b0 AND NOT LEN_LONG) in
       if count = 0 \<or> count > USIZE_OCTETS then throw BadLength
       else bindP (parse_len_loop input count 0) (\<lambda>len. ret (unat len)))"

lemma next_octet_Inr [simp]:
  "next_octet input pos = (Inr b, pos') \<longleftrightarrow> pos < length input \<and> b = input ! pos \<and> pos' = pos + 1"
  by (auto simp: next_octet_def split: option.splits)

lemma bind_next_octet [simp]:
  "bindP (next_octet input) f pos =
    (if pos < length input then f (input ! pos) (pos + 1) else (Inl Truncated, pos))"
  by (simp add: bindP_def next_octet_def get_at_def)

text \<open>A successful read moves the cursor forward: the loop of \<open>parse\<close> ends.\<close>

lemma parse_tag_loop_mono:
  "parse_tag_loop input octets tag pos = (Inr t, pos') \<Longrightarrow> pos < pos'"
proof (induction input octets tag arbitrary: pos rule: parse_tag_loop.induct)
  case (1 input octets tag)
  have "q < pos'" if "parse_tag_loop input (octets + 1) (push_bit 8 tag OR ucast b) q = (Inr t, pos')"
    "\<not> octets + 1 > TAG_MAX_OCTETS" "b AND TAG_MORE \<noteq> 0" for b q
    using "1.IH" [OF refl that(2) refl that(3) that(1)] .
  with "1.prems" show ?case
    by (subst (asm) parse_tag_loop.simps) (fastforce simp: bindP_eq_Inr Let_def split: if_splits)
qed

lemma parse_tag_mono: "parse_tag input pos = (Inr t, pos') \<Longrightarrow> pos < pos'"
  by (auto simp: parse_tag_def Let_def bindP_eq_Inr dest!: parse_tag_loop_mono split: if_splits)

lemma parse_len_loop_mono: "parse_len_loop input n len pos = (Inr l, pos') \<Longrightarrow> pos \<le> pos'"
proof (induction n arbitrary: len pos)
  case (Suc n)
  then show ?case by (auto split: if_splits dest!: Suc.IH)
qed simp

lemma parse_len_mono: "parse_len input pos = (Inr l, pos') \<Longrightarrow> pos < pos'"
  by (auto simp: parse_len_def Let_def bindP_eq_Inr dest!: parse_len_loop_mono split: if_splits)

function parse_loop :: "bytes \<Rightarrow> tlv list \<Rightarrow> usize \<Rightarrow> tlv_error + tlv list" where
  "parse_loop input out pos = (if pos < length input then
     (case parse_tag input pos of (Inl e, _) \<Rightarrow> Inl e
      | (Inr tag, pos) \<Rightarrow>
     (case parse_len input pos of (Inl e, _) \<Rightarrow> Inl e
      | (Inr len, pos) \<Rightarrow>
     (case checked_add pos len of None \<Rightarrow> Inl Truncated
      | Some stop \<Rightarrow>
        if stop > length input then Inl Truncated
        else (case vec_push MAX_TLVS out \<lparr>tlv_tag = tag, tlv_value = take (stop - pos) (drop pos input)\<rparr> of
            None \<Rightarrow> Inl TooMany
          | Some out \<Rightarrow> parse_loop input out stop))))
   else Inr out)"
  by pat_completeness auto
termination
  by (relation "measure (\<lambda>(input, _, pos). length input - pos)")
    (auto simp: checked_add_def dest!: parse_tag_mono [OF sym] parse_len_mono [OF sym] split: if_splits)

declare parse_loop.simps [simp del]

definition parse :: "bytes \<Rightarrow> tlv_error + tlv list" where
  "parse input = parse_loop input [] 0"

definition write_bytes :: "usize \<Rightarrow> bytes \<Rightarrow> (bytes, tlv_error, usize) prog" where
  "write_bytes pos src out = (case checked_add pos (length src) of
     None \<Rightarrow> (Inl TlvOverflow, out)
   | Some stop \<Rightarrow>
      if stop > length out then (Inl TlvOverflow, out)
      else (Inr stop, take pos out @ src @ drop stop out))"

text \<open>\<open>&bytes[start..]\<close> with \<open>start\<close> the first significant octet, or the last one.\<close>

definition significant :: "bytes \<Rightarrow> bytes" where
  "significant bs = (let start = (case List.find (\<lambda>i. bs ! i \<noteq> 0) [0..<length bs] of
       None \<Rightarrow> length bs - 1 | Some i \<Rightarrow> i) in drop start bs)"

definition write_tag :: "u32 \<Rightarrow> usize \<Rightarrow> (bytes, tlv_error, usize) prog" where
  "write_tag tag pos = write_bytes pos (significant (to_be_bytes 4 tag))"

definition write_len :: "usize \<Rightarrow> usize \<Rightarrow> (bytes, tlv_error, usize) prog" where
  "write_len len pos =
    (if len < unat LEN_LONG then
       (if len < 256 then write_bytes pos [of_nat len] else throw TlvOverflow)
     else
       let body = significant (be_bytes USIZE_OCTETS len) in
       if length body < 256 then
         bindP (write_bytes pos [LEN_LONG OR of_nat (length body)]) (\<lambda>pos. write_bytes pos body)
       else throw TlvOverflow)"

primrec encode_loop :: "tlv list \<Rightarrow> usize \<Rightarrow> (bytes, tlv_error, usize) prog" where
  "encode_loop [] pos = ret pos"
| "encode_loop (item # items) pos =
     bindP (write_tag (tlv_tag item) pos) (\<lambda>pos.
     bindP (write_len (length (tlv_value item)) pos) (\<lambda>pos.
     bindP (write_bytes pos (tlv_value item)) (\<lambda>pos. encode_loop items pos)))"

definition encode :: "tlv list \<Rightarrow> (bytes, tlv_error, usize) prog" where
  "encode items = encode_loop items 0"

section \<open>The abstract encodings\<close>

text \<open>
  The octets of a tag (ISO/IEC 7816-4 5.2.2.1): a leading octet whose low five bits are not
  all set stands alone; otherwise further octets follow, all but the last with b8 set. The
  program represents at most four octets.
\<close>

primrec tag_tail :: "nat \<Rightarrow> bytes \<Rightarrow> bool" where
  "tag_tail n [] = False"
| "tag_tail n (b # bs) =
     (n < TAG_MAX_OCTETS \<and> (if b AND TAG_MORE = 0 then bs = [] else tag_tail (n + 1) bs))"

fun ber_tag :: "bytes \<Rightarrow> bool" where
  "ber_tag [] = False"
| "ber_tag (b # bs) = (if b AND TAG_MULTIBYTE = TAG_MULTIBYTE then tag_tail 1 bs else bs = [])"

text \<open>The number a definite-form length field denotes, in short or (any) long form.\<close>

fun ber_len :: "bytes \<Rightarrow> nat option" where
  "ber_len [] = None"
| "ber_len (b # bs) =
    (if unat b < 128 then (if bs = [] then Some (unat b) else None)
     else if length bs = unat b - 128 \<and> bs \<noteq> [] \<and> length bs \<le> 8 then Some (from_be bs)
     else None)"

inductive ber_tlv :: "tlv \<Rightarrow> bytes \<Rightarrow> bool" where
  ber_tlvI: "ber_tag tb \<Longrightarrow> from_be tb = unat (tlv_tag t) \<Longrightarrow> ber_len lb = Some (length (tlv_value t))
    \<Longrightarrow> ber_tlv t (tb @ lb @ tlv_value t)"

inductive ber_seq :: "tlv list \<Rightarrow> bytes \<Rightarrow> bool" where
  ber_seq_Nil: "ber_seq [] []"
| ber_seq_Cons: "ber_tlv t bs \<Longrightarrow> ber_seq ts rest \<Longrightarrow> ber_seq (t # ts) (bs @ rest)"

inductive_simps ber_seq_Nil_iff [simp]: "ber_seq [] bs"
inductive_cases ber_seq_ConsE: "ber_seq (t # ts) bs"
inductive_cases ber_tlvE: "ber_tlv t bs"

text \<open>The canonical encoding.\<close>

definition enc_tag :: "u32 \<Rightarrow> bytes" where
  "enc_tag tag = significant (to_be_bytes 4 tag)"

definition enc_len :: "nat \<Rightarrow> bytes" where
  "enc_len n = (if n < 128 then [of_nat n]
     else let body = significant (be_bytes 8 n) in (0x80 OR of_nat (length body)) # body)"

definition enc_tlv :: "tlv \<Rightarrow> bytes" where
  "enc_tlv t = enc_tag (tlv_tag t) @ enc_len (length (tlv_value t)) @ tlv_value t"

definition tag_ok :: "u32 \<Rightarrow> bool" where
  "tag_ok tag = ber_tag (enc_tag tag)"

definition tlv_ok :: "tlv \<Rightarrow> bool" where
  "tlv_ok t = (tag_ok (tlv_tag t) \<and> length (tlv_value t) < 2 ^ 64)"

section \<open>The parser reads the encodings\<close>

lemma parse_tag_loop_complete:
  assumes "tag_tail n bs" "unat tag < 256 ^ n"
  shows "\<exists>t. parse_tag_loop (pre @ bs @ post) n tag (length pre) = (Inr t, length pre + length bs)
    \<and> unat t = unat tag * 256 ^ length bs + from_be bs"
  using assms
proof (induction bs arbitrary: n tag pre)
  case (Cons b bs)
  let ?tag = "push_bit 8 tag OR ucast b :: u32"
  have n: "n < 4" using Cons.prems by (simp add: TAG_MAX_OCTETS_def)
  have "(256::nat) ^ n \<le> 256 ^ 3" using n by (intro power_increasing) auto
  then have lt: "unat tag < 256 ^ 3" using Cons.prems(2) by simp
  have u: "unat ?tag = unat tag * 256 + unat b" using lt by (intro unat_shift_in) auto
  have "(unat tag + 1) * 256 \<le> 256 ^ n * 256" using Cons.prems(2) by (intro mult_right_mono) auto
  then have b: "unat ?tag < 256 ^ (n + 1)" using unat_u8_lt [of b] unfolding u by simp
  have step: "parse_tag_loop (pre @ (b # bs) @ post) n tag (length pre) =
    (if b AND TAG_MORE = 0 then (Inr ?tag, Suc (length pre))
     else parse_tag_loop ((pre @ [b]) @ bs @ post) (n + 1) ?tag (length (pre @ [b])))"
    using n by (subst parse_tag_loop.simps) (simp add: TAG_MAX_OCTETS_def)
  show ?case
  proof (cases "b AND TAG_MORE = 0")
    case True
    then show ?thesis using Cons.prems(1) step u by (simp add: from_be_Cons)
  next
    case False
    then have "tag_tail (n + 1) bs" using Cons.prems(1) by simp
    from Cons.IH [OF this b, of "pre @ [b]"] False show ?thesis
      unfolding step by (auto simp: u from_be_Cons algebra_simps)
  qed
qed simp

lemma parse_tag_loop_sound:
  "parse_tag_loop input n tag pos = (Inr t, pos') \<Longrightarrow>
     \<exists>bs. tag_tail n bs \<and> pos' = pos + length bs \<and> take (length bs) (drop pos input) = bs"
proof (induction input n tag arbitrary: pos rule: parse_tag_loop.induct)
  case (1 input n tag)
  let ?b = "input ! pos"
  from "1.prems" have pos: "pos < length input" and n: "n < TAG_MAX_OCTETS"
    by (subst (asm) parse_tag_loop.simps; auto simp: bindP_eq_Inr Let_def split: if_splits)+
  have hd: "take (Suc k) (drop pos input) = ?b # take k (drop (Suc pos) input)" for k
    using pos by (simp add: Cons_nth_drop_Suc [symmetric])
  show ?case
  proof (cases "?b AND TAG_MORE = 0")
    case True
    then have "pos' = Suc pos" using "1.prems"
      by (subst (asm) parse_tag_loop.simps) (auto simp: bindP_eq_Inr Let_def split: if_splits)
    then show ?thesis using True n hd [of 0] by (intro exI [of _ "[?b]"]) simp
  next
    case False
    then have "parse_tag_loop input (n + 1) (push_bit 8 tag OR ucast ?b) (Suc pos) = (Inr t, pos')"
      using "1.prems" by (subst (asm) parse_tag_loop.simps) (auto simp: bindP_eq_Inr Let_def split: if_splits)
    from "1.IH" [OF refl _ refl False this] n obtain bs where
      "tag_tail (n + 1) bs" "pos' = Suc pos + length bs" "take (length bs) (drop (Suc pos) input) = bs"
      by auto
    then show ?thesis using False n hd by (intro exI [of _ "?b # bs"]) simp
  qed
qed

lemma parse_tag_complete:
  assumes "ber_tag bs"
  shows "parse_tag (pre @ bs @ post) (length pre) = (Inr (of_nat (from_be bs)), length pre + length bs)"
proof (cases bs)
  case (Cons b tl)
  show ?thesis
  proof (cases "b AND TAG_MULTIBYTE = TAG_MULTIBYTE")
    case True
    then have "tag_tail 1 tl" using assms Cons by simp
    moreover have ub: "unat (ucast b :: u32) = unat b"
      using unat_u8_lt [of b] by (simp add: unsigned_ucast_eq take_bit_nat_eq_self)
    ultimately obtain t where
      "parse_tag_loop ((pre @ [b]) @ tl @ post) 1 (ucast b) (length (pre @ [b])) =
        (Inr t, length (pre @ [b]) + length tl)"
      "unat t = unat b * 256 ^ length tl + from_be tl"
      using parse_tag_loop_complete [of 1 tl "ucast b" "pre @ [b]" post] unat_u8_lt [of b] by auto
    moreover have "of_nat (unat t) = t" by simp
    ultimately show ?thesis using True Cons by (simp add: parse_tag_def from_be_Cons del: of_nat_unat)
  next
    case False
    then have "tl = []" using assms Cons by simp
    then show ?thesis using False Cons by (simp add: parse_tag_def from_be_Cons)
  qed
qed (use assms in simp)

lemma parse_tag_sound:
  assumes "parse_tag input pos = (Inr t, pos')"
  shows "\<exists>bs. ber_tag bs \<and> pos' = pos + length bs \<and> take (length bs) (drop pos input) = bs"
proof -
  let ?b = "input ! pos"
  from assms have pos: "pos < length input" by (auto simp: parse_tag_def split: if_splits)
  have hd: "take (Suc k) (drop pos input) = ?b # take k (drop (Suc pos) input)" for k
    using pos by (simp add: Cons_nth_drop_Suc [symmetric])
  show ?thesis
  proof (cases "?b AND TAG_MULTIBYTE = TAG_MULTIBYTE")
    case True
    then have "parse_tag_loop input 1 (ucast ?b) (Suc pos) = (Inr t, pos')"
      using assms pos by (simp add: parse_tag_def)
    from parse_tag_loop_sound [OF this] obtain bs where
      "tag_tail 1 bs" "pos' = Suc pos + length bs" "take (length bs) (drop (Suc pos) input) = bs" by auto
    then show ?thesis using True hd by (intro exI [of _ "?b # bs"]) simp
  next
    case False
    then have "pos' = Suc pos" using assms pos by (simp add: parse_tag_def)
    then show ?thesis using False hd [of 0] by (intro exI [of _ "[?b]"]) simp
  qed
qed

lemma parse_len_loop_complete:
  assumes "unat len * 256 ^ length bs + 256 ^ length bs \<le> 2 ^ 64"
  shows "\<exists>l. parse_len_loop (pre @ bs @ post) (length bs) len (length pre) = (Inr l, length pre + length bs)
    \<and> unat l = unat len * 256 ^ length bs + from_be bs"
  using assms
proof (induction bs arbitrary: len pre)
  case (Cons b bs)
  let ?len = "push_bit 8 len OR ucast b :: u64"
  have one: "1 \<le> (256::nat) ^ length bs" by simp
  have "(unat len * 256 + 256) * 1 \<le> (unat len * 256 + 256) * 256 ^ length bs"
    by (intro mult_left_mono) auto
  also have "\<dots> \<le> 2 ^ 64" using Cons.prems by (simp add: algebra_simps)
  finally have u: "unat ?len = unat len * 256 + unat b" by (intro unat_shift_in) auto
  have "(unat ?len + 1) * 256 ^ length bs \<le> (unat len * 256 + 256) * 256 ^ length bs"
    using unat_u8_lt [of b] unfolding u by (intro mult_right_mono) auto
  also have "\<dots> \<le> 2 ^ 64" using Cons.prems by (simp add: algebra_simps)
  finally have "unat ?len * 256 ^ length bs + 256 ^ length bs \<le> 2 ^ 64" by (simp add: algebra_simps)
  from Cons.IH [OF this, of "pre @ [b]"] show ?case by (auto simp: u from_be_Cons algebra_simps)
qed simp

lemma parse_len_loop_sound:
  "parse_len_loop input n len pos = (Inr l, pos') \<Longrightarrow>
     pos' = pos + n \<and> length (take n (drop pos input)) = n"
proof (induction n arbitrary: len pos)
  case (Suc n)
  then have "parse_len_loop input n (push_bit 8 len OR ucast (input ! pos)) (Suc pos) = (Inr l, pos')"
    by (auto split: if_splits)
  from Suc.IH [OF this] Suc.prems show ?case by (auto split: if_splits)
qed simp

lemma len_long_count: "\<not> unat (b :: u8) < 128 \<Longrightarrow> unat (b AND NOT LEN_LONG) = unat b - 128"
proof -
  have "list_all (\<lambda>b :: u8. \<not> unat b < 128 \<longrightarrow> unat (b AND NOT 0x80) = unat b - 128) (map of_nat [0..<256])"
    by code_simp
  then show "\<not> unat b < 128 \<Longrightarrow> unat (b AND NOT LEN_LONG) = unat b - 128"
    unfolding u8_all [symmetric] LEN_LONG_def by blast
qed

lemma parse_len_complete:
  assumes "ber_len bs = Some n"
  shows "parse_len (pre @ bs @ post) (length pre) = (Inr n, length pre + length bs)"
proof (cases bs)
  case (Cons b tl)
  show ?thesis
  proof (cases "unat b < 128")
    case True
    then show ?thesis using assms Cons
      by (auto simp: parse_len_def LEN_LONG_def u8_high_bit split: if_splits)
  next
    case False
    then have tl: "length tl = unat b - 128" "tl \<noteq> []" "length tl \<le> 8" "n = from_be tl"
      using assms Cons by (auto split: if_splits)
    have "(256::nat) ^ length tl \<le> 256 ^ 8" using tl by (intro power_increasing) auto
    then obtain l where
      "parse_len_loop ((pre @ [b]) @ tl @ post) (length tl) 0 (length (pre @ [b])) =
        (Inr l, length (pre @ [b]) + length tl)" "unat l = from_be tl"
      using parse_len_loop_complete [of 0 tl "pre @ [b]" post] by auto
    moreover have "128 < unat b" using tl by (cases tl) auto
    ultimately show ?thesis using False Cons tl
      by (simp add: parse_len_def u8_high_bit len_long_count USIZE_OCTETS_def
          LEN_LONG_def [THEN arg_cong, of "\<lambda>x. b AND x = 0"] bindP_apply)
  qed
qed (use assms in simp)

lemma parse_len_sound:
  assumes "parse_len input pos = (Inr n, pos')"
  shows "\<exists>bs. ber_len bs = Some n \<and> pos' = pos + length bs \<and> take (length bs) (drop pos input) = bs"
proof -
  let ?b = "input ! pos"
  from assms have pos: "pos < length input" by (auto simp: parse_len_def split: if_splits)
  have hd: "take (Suc k) (drop pos input) = ?b # take k (drop (Suc pos) input)" for k
    using pos by (simp add: Cons_nth_drop_Suc [symmetric])
  show ?thesis
  proof (cases "unat ?b < 128")
    case True
    then have "n = unat ?b" "pos' = Suc pos"
      using assms pos by (auto simp: parse_len_def LEN_LONG_def u8_high_bit)
    then show ?thesis using True hd [of 0] by (intro exI [of _ "[?b]"]) simp
  next
    case False
    let ?n = "unat ?b - 128"
    from False have hb: "?b AND LEN_LONG \<noteq> 0" by (simp add: LEN_LONG_def u8_high_bit)
    from assms pos hb have n: "?n \<noteq> 0" "?n \<le> 8"
      by (auto simp: parse_len_def len_long_count [OF False] USIZE_OCTETS_def Let_def split: if_splits)
    with assms pos hb obtain l where l: "parse_len_loop input ?n 0 (Suc pos) = (Inr l, pos')"
      by (auto simp: parse_len_def len_long_count [OF False] USIZE_OCTETS_def bindP_eq_Inr Let_def
          split: if_splits)
    define tl where "tl = take ?n (drop (Suc pos) input)"
    from parse_len_loop_sound [OF l] have p: "pos' = Suc pos + ?n" "length tl = ?n"
      by (simp_all add: tl_def)
    then have "take (Suc (length tl)) (drop pos input) = ?b # tl" using hd by (simp add: tl_def)
    moreover have "ber_len (?b # tl) = Some (from_be tl)" using p n False by auto
    moreover from this have "n = from_be tl"
    proof -
      have "input = take pos input @ (?b # tl) @ drop (pos + Suc (length tl)) input"
        using \<open>take (Suc (length tl)) (drop pos input) = ?b # tl\<close>
        by (metis append_take_drop_id drop_drop add.commute)
      then show ?thesis
        using parse_len_complete [OF \<open>ber_len (?b # tl) = _\<close>, of "take pos input"] assms pos
        by (metis Pair_inject length_take less_imp_le_nat min.absorb2 sum.inject(2))
    qed
    ultimately show ?thesis using p by (intro exI [of _ "?b # tl"]) simp
  qed
qed

lemma slice_append: "take (length bs) (drop pos xs) = bs \<Longrightarrow> drop pos xs = bs @ drop (pos + length bs) xs"
  by (metis append_take_drop_id drop_drop add.commute)

lemma ber_tag_len_ne: "ber_tag bs \<Longrightarrow> bs \<noteq> []" "ber_len bs = Some n \<Longrightarrow> bs \<noteq> []"
  by auto

lemma tag_tail_length: "tag_tail n bs \<Longrightarrow> n + length bs \<le> 4"
  by (induction bs arbitrary: n) (fastforce simp: TAG_MAX_OCTETS_def split: if_splits)+

lemma ber_tag_length: "ber_tag bs \<Longrightarrow> length bs \<le> 4"
  by (cases bs) (auto dest: tag_tail_length split: if_splits)

lemma parse_loop_complete:
  assumes "ber_seq items bs" "length out + length items \<le> MAX_TLVS" "length (pre @ bs) < 2 ^ 64"
  shows "parse_loop (pre @ bs) out (length pre) = Inr (out @ items)"
  using assms
proof (induction items bs arbitrary: pre out rule: ber_seq.induct)
  case ber_seq_Nil
  then show ?case by (subst parse_loop.simps) simp
next
  case (ber_seq_Cons t bs ts rest)
  from ber_seq_Cons.hyps(1) obtain tb lb where
    bs: "bs = tb @ lb @ tlv_value t" and tb: "ber_tag tb" "from_be tb = unat (tlv_tag t)"
    and lb: "ber_len lb = Some (length (tlv_value t))" by (rule ber_tlvE)
  let ?in = "pre @ tb @ lb @ tlv_value t @ rest"
  have 1: "parse_tag ?in (length pre) = (Inr (tlv_tag t), length pre + length tb)"
    using parse_tag_complete [OF tb(1), of pre "lb @ tlv_value t @ rest"] by (simp add: tb(2))
  have 2: "parse_len ?in (length pre + length tb) =
      (Inr (length (tlv_value t)), length pre + length tb + length lb)"
    using parse_len_complete [OF lb, of "pre @ tb" "tlv_value t @ rest"] by simp
  have 3: "parse_loop ((pre @ bs) @ rest) (out @ [t]) (length (pre @ bs)) = Inr ((out @ [t]) @ ts)"
    by (rule ber_seq_Cons.IH) (use ber_seq_Cons.prems in auto)
  have eta: "\<lparr>tlv_tag = tlv_tag t, tlv_value = tlv_value t\<rparr> = t" by simp
  show ?case using ber_tag_len_ne(1) [OF tb(1)] ber_seq_Cons.prems 3
    by (subst parse_loop.simps)
      (simp add: 1 2 bs checked_add_def vec_push_def add.assoc eta)
qed

lemma parse_loop_sound:
  "parse_loop input out pos = Inr res \<Longrightarrow> pos \<le> length input \<Longrightarrow> length out \<le> MAX_TLVS \<Longrightarrow>
     \<exists>items. res = out @ items \<and> length res \<le> MAX_TLVS \<and> ber_seq items (drop pos input)"
proof (induction input out pos rule: parse_loop.induct)
  case (1 input out pos)
  show ?case
  proof (cases "pos < length input")
    case False
    then show ?thesis using "1.prems" by (subst (asm) parse_loop.simps) auto
  next
    case True
    with "1.prems" obtain tag p1 len p2 where
      t: "parse_tag input pos = (Inr tag, p1)" and l: "parse_len input p1 = (Inr len, p2)"
      and e: "checked_add p2 len = Some (p2 + len)" "p2 + len \<le> length input"
      and c: "length out < MAX_TLVS"
      and r: "parse_loop input (out @ [\<lparr>tlv_tag = tag, tlv_value = take len (drop p2 input)\<rparr>]) (p2 + len) = Inr res"
      by (subst (asm) parse_loop.simps)
        (auto simp: checked_add_def vec_push_def split: prod.splits sum.splits if_splits)
    let ?t = "\<lparr>tlv_tag = tag, tlv_value = take len (drop p2 input)\<rparr>"
    from "1.IH" [OF True t [symmetric] refl l [symmetric] refl e(1) _ _ r] e(2) c
    obtain items where items: "res = (out @ [?t]) @ items" "length res \<le> MAX_TLVS"
      "ber_seq items (drop (p2 + len) input)" by (auto simp: vec_push_def)
    from parse_tag_sound [OF t] obtain tb where
      tb: "ber_tag tb" "p1 = pos + length tb" "take (length tb) (drop pos input) = tb" by auto
    from parse_len_sound [OF l] obtain lb where
      lb: "ber_len lb = Some len" "p2 = p1 + length lb" "take (length lb) (drop p1 input) = lb" by auto
    have "drop pos input = (tb @ lb @ take len (drop p2 input)) @ drop (p2 + len) input"
      using slice_append [OF tb(3)] slice_append [OF lb(3)] tb(2) lb(2)
      by (metis append.assoc append_take_drop_id drop_drop add.commute)
    moreover have "ber_tlv ?t (tb @ lb @ tlv_value ?t)"
    proof (rule ber_tlvI)
      have "parse_tag (take pos input @ tb @ drop p1 input) (length (take pos input)) =
          (Inr (of_nat (from_be tb)), length (take pos input) + length tb)"
        by (rule parse_tag_complete [OF tb(1)])
      moreover have "take pos input @ tb @ drop p1 input = input"
        using slice_append [OF tb(3)] tb(2) by (metis append_take_drop_id)
      ultimately have "tag = of_nat (from_be tb)" using t True by simp
      moreover have "from_be tb < 256 ^ 4"
        using from_be_lt [of tb] power_increasing [OF ber_tag_length [OF tb(1)], of "256::nat"] by simp
      ultimately show "from_be tb = unat (tlv_tag ?t)" by (simp add: unat_of_nat)
    qed (use tb lb e in auto)
    ultimately show ?thesis using items ber_seq_Cons by fastforce
  qed
qed

lemma parse_eq_Inr:
  assumes "length input < 2 ^ 64"
  shows "parse input = Inr items \<longleftrightarrow> ber_seq items input \<and> length items \<le> MAX_TLVS"
  using parse_loop_complete [of items input "[]" "[]"] parse_loop_sound [of input "[]" 0 items] assms
  by (auto simp: parse_def)

text \<open>C20: \<open>parse\<close> accepts exactly the byte strings that are a concatenation of at most
  \<open>MAX_TLVS\<close> BER encodings, and returns the encoded objects in order.\<close>

theorem parse_iff:
  "length input < 2 ^ 64 \<Longrightarrow>
     parse input = Inr items \<longleftrightarrow> ber_seq items input \<and> length items \<le> MAX_TLVS"
  by (rule parse_eq_Inr)

lemma parse_iff_witness:
  "parse [0x84, 0x81, 1, 0xAA] = Inr [\<lparr>tlv_tag = 0x84, tlv_value = [0xAA]\<rparr>] \<longleftrightarrow>
     ber_seq [\<lparr>tlv_tag = 0x84, tlv_value = [0xAA]\<rparr>] [0x84, 0x81, 1, 0xAA]
     \<and> length [\<lparr>tlv_tag = 0x84, tlv_value = [0xAA]\<rparr>] \<le> MAX_TLVS"
  by (rule parse_iff) simp

section \<open>The encoder writes the canonical encoding\<close>

lemma find_map_conv: "List.find P (map f xs) = map_option f (List.find (\<lambda>x. P (f x)) xs)"
  by (induction xs) auto

lemma significant_Cons_0: "bs \<noteq> [] \<Longrightarrow> significant (0 # bs) = significant bs"
proof -
  assume ne: "bs \<noteq> []"
  have "List.find (\<lambda>i. (0 # bs) ! i \<noteq> 0) [0..<length (0 # bs)] =
      map_option Suc (List.find (\<lambda>i. bs ! i \<noteq> 0) [0..<length bs])"
    by (simp add: upt_conv_Cons map_Suc_upt [symmetric] find_map_conv del: upt_Suc)
  moreover have "drop (length bs) (0 # bs) = drop (length bs - 1) bs" using ne by (cases bs) auto
  ultimately show ?thesis using ne by (auto simp: significant_def Let_def simp del: upt_Suc split: option.splits)
qed

lemma significant_Cons: "b \<noteq> 0 \<Longrightarrow> significant (b # bs) = b # bs"
  by (simp add: significant_def Let_def upt_conv_Cons del: upt_Suc)

lemma significant_single: "significant [b] = [b]"
  by (cases "b = 0") (simp_all add: significant_def)

lemma significant_simps:
  "significant (b # bs) = (if b = 0 \<and> bs \<noteq> [] then significant bs else b # bs)"
  using significant_Cons_0 significant_Cons significant_single by (cases bs) auto

lemma from_be_significant: "from_be (significant bs) = from_be bs"
proof (induction bs)
  case Nil then show ?case by (simp add: significant_def)
next
  case (Cons b bs) then show ?case by (simp add: significant_simps from_be_Cons)
qed

lemma significant_length: "bs \<noteq> [] \<Longrightarrow> 0 < length (significant bs) \<and> length (significant bs) \<le> length bs"
  by (induction bs) (auto simp: significant_simps)

text \<open>
  \<open>emits m bs\<close>: started behind any written prefix, the step \<open>m\<close> appends \<open>bs\<close> over the rest of
  the buffer if they fit, and fails with \<open>TlvOverflow\<close> otherwise. Steps compose.
\<close>

definition emits :: "(usize \<Rightarrow> (bytes, tlv_error, usize) prog) \<Rightarrow> bytes \<Rightarrow> bool" where
  "emits m bs \<longleftrightarrow> (\<forall>pre out. length (pre @ out) < 2 ^ 64 \<longrightarrow>
     (if length bs \<le> length out
      then m (length pre) (pre @ out) =
        (Inr (length pre + length bs), pre @ bs @ drop (length bs) out)
      else \<exists>out'. m (length pre) (pre @ out) = (Inl TlvOverflow, out') \<and> length out' = length (pre @ out)))"

lemma emits_ret: "emits ret []"
  by (simp add: emits_def)

lemma emits_write_bytes: "emits (\<lambda>pos. write_bytes pos src) src"
  by (auto simp: emits_def write_bytes_def checked_add_def)

lemma emits_seq:
  assumes "emits m1 a" "emits m2 b"
  shows "emits (\<lambda>pos. bindP (m1 pos) m2) (a @ b)"
  unfolding emits_def
proof (intro allI impI)
  fix pre out :: bytes assume l: "length (pre @ out) < 2 ^ 64"
  note 1 = assms(1) [unfolded emits_def, rule_format, OF l]
  show "if length (a @ b) \<le> length out
      then bindP (m1 (length pre)) m2 (pre @ out) =
        (Inr (length pre + length (a @ b)), pre @ (a @ b) @ drop (length (a @ b)) out)
      else \<exists>out'. bindP (m1 (length pre)) m2 (pre @ out) = (Inl TlvOverflow, out')
        \<and> length out' = length (pre @ out)"
  proof (cases "length a \<le> length out")
    case False
    then show ?thesis using 1 by (auto simp: bindP_def)
  next
    case True
    have "length ((pre @ a) @ drop (length a) out) < 2 ^ 64" using l True by simp
    note 2 = assms(2) [unfolded emits_def, rule_format, OF this]
    have "bindP (m1 (length pre)) m2 (pre @ out) = m2 (length (pre @ a)) ((pre @ a) @ drop (length a) out)"
      using 1 True by (simp add: bindP_def)
    then show ?thesis using 2 True by (auto simp: add.assoc add.commute split: if_splits)
  qed
qed

lemma emits_write_tag: "emits (write_tag tag) (enc_tag tag)"
proof -
  have "write_tag tag = (\<lambda>pos. write_bytes pos (enc_tag tag))"
    by (simp add: write_tag_def enc_tag_def fun_eq_iff)
  then show ?thesis by (simp only: emits_write_bytes)
qed

lemma enc_len_body: "length (significant (be_bytes 8 n)) \<le> 8" "0 < length (significant (be_bytes 8 n))"
  using significant_length [of "be_bytes 8 n"] by (auto simp flip: length_greater_0_conv simp del: be_bytes.simps)

lemma emits_write_len: "emits (write_len n) (enc_len n)"
proof (cases "n < 128")
  case True
  then have "write_len n = (\<lambda>pos. write_bytes pos (enc_len n))"
    by (auto simp: write_len_def enc_len_def LEN_LONG_def fun_eq_iff)
  then show ?thesis by (simp add: emits_write_bytes)
next
  case False
  let ?body = "significant (be_bytes 8 n)"
  have "write_len n = (\<lambda>pos. bindP (write_bytes pos [LEN_LONG OR of_nat (length ?body)])
      (\<lambda>pos. write_bytes pos ?body))"
    using False enc_len_body(1) [of n]
    by (auto simp: write_len_def LEN_LONG_def USIZE_OCTETS_def Let_def fun_eq_iff simp del: be_bytes.simps)
  then show ?thesis
    using emits_seq [OF emits_write_bytes emits_write_bytes, of "[LEN_LONG OR of_nat (length ?body)]" ?body] False
    by (simp add: enc_len_def Let_def LEN_LONG_def del: be_bytes.simps)
qed

lemma emits_encode_loop: "emits (encode_loop items) (concat (map enc_tlv items))"
proof (induction items)
  case Nil
  have "encode_loop [] = ret" by (simp add: fun_eq_iff)
  then show ?case by (metis emits_ret concat.simps(1) list.simps(8))
next
  case (Cons t items)
  have "encode_loop (t # items) = (\<lambda>pos.
     bindP (write_tag (tlv_tag t) pos) (\<lambda>pos.
     bindP (write_len (length (tlv_value t)) pos) (\<lambda>pos.
     bindP (write_bytes pos (tlv_value t)) (encode_loop items))))" by (simp add: fun_eq_iff)
  moreover have "emits \<dots> (enc_tag (tlv_tag t) @ enc_len (length (tlv_value t)) @ tlv_value t @
      concat (map enc_tlv items))"
    by (intro emits_seq emits_write_tag emits_write_len emits_write_bytes Cons.IH)
  ultimately show ?case by (simp only: list.map concat.simps enc_tlv_def [of t] append.assoc)
qed

lemma encode_cases:
  assumes "length out < 2 ^ 64"
  shows "if length (concat (map enc_tlv items)) \<le> length out
    then encode items out = (Inr (length (concat (map enc_tlv items))),
      concat (map enc_tlv items) @ drop (length (concat (map enc_tlv items))) out)
    else \<exists>out'. encode items out = (Inl TlvOverflow, out') \<and> length out' = length out"
  using emits_encode_loop [of items, unfolded emits_def, rule_format, of "[]" out] assms
  by (simp only: encode_def append_Nil list.size add_0 True_implies_equals)

text \<open>C22: \<open>encode\<close> writes the concatenated canonical encodings at the front of the buffer and leaves
  the octets behind them as they were; it fails with \<open>Overflow\<close> exactly when they do not fit.\<close>

theorem encode_spec:
  assumes "length out < 2 ^ 64"
  shows "(fst (encode items out) = Inr n \<longleftrightarrow>
            n = length (concat (map enc_tlv items)) \<and> n \<le> length out)
       \<and> (fst (encode items out) = Inr n \<longrightarrow>
            snd (encode items out) = concat (map enc_tlv items) @ drop n out)
       \<and> (\<forall>e. fst (encode items out) = Inl e \<longrightarrow> e = TlvOverflow)
       \<and> length (snd (encode items out)) = length out"
  using encode_cases [OF assms, of items] by (auto split: if_splits)

lemma encode_spec_witness:
  "snd (encode [\<lparr>tlv_tag = 0x4F, tlv_value = [1, 2]\<rparr>] (replicate 5 0xFF)) =
     concat (map enc_tlv [\<lparr>tlv_tag = 0x4F, tlv_value = [1, 2]\<rparr>]) @ drop 4 (replicate 5 0xFF)"
proof -
  have "fst (encode [\<lparr>tlv_tag = 0x4F, tlv_value = [1, 2]\<rparr>] (replicate 5 0xFF)) = Inr 4" by code_simp
  then show ?thesis
    using encode_spec [of "replicate 5 0xFF" "[\<lparr>tlv_tag = 0x4F, tlv_value = [1, 2]\<rparr>]" 4] by simp
qed

section \<open>Round trip\<close>

lemma from_be_enc_tag: "from_be (enc_tag tag) = unat tag"
  using unsigned_less [of tag, where ?'a = nat]
  by (simp add: enc_tag_def from_be_significant from_be_be_bytes to_be_bytes_eq del: be_bytes.simps)

lemma long_form_octet: "0 < k \<Longrightarrow> k \<le> 8 \<Longrightarrow> unat ((0x80 :: u8) OR of_nat k) = 128 + k"
proof -
  have "list_all (\<lambda>k. unat ((0x80 :: u8) OR of_nat k) = 128 + k) [1..<9]" by code_simp
  then show "0 < k \<Longrightarrow> k \<le> 8 \<Longrightarrow> ?thesis" unfolding list_all_iff by auto
qed

lemma ber_len_enc_len: "n < 2 ^ 64 \<Longrightarrow> ber_len (enc_len n) = Some n"
proof (cases "n < 128")
  case True
  then show ?thesis by (simp add: enc_len_def unat_of_nat)
next
  case False
  assume n: "n < 2 ^ 64"
  let ?body = "significant (be_bytes 8 n)"
  have "from_be ?body = n" using n by (simp add: from_be_significant from_be_be_bytes del: be_bytes.simps)
  moreover have "?body \<noteq> []" using enc_len_body(2) [of n] by auto
  ultimately show ?thesis using False enc_len_body [of n] long_form_octet [of "length ?body"]
    by (simp add: enc_len_def Let_def del: be_bytes.simps)
qed

lemma ber_tlv_enc_tlv: "tlv_ok t \<Longrightarrow> ber_tlv t (enc_tlv t)"
  unfolding enc_tlv_def
  by (rule ber_tlvI) (auto simp: tlv_ok_def tag_ok_def from_be_enc_tag ber_len_enc_len)

lemma ber_seq_enc: "list_all tlv_ok items \<Longrightarrow> ber_seq items (concat (map enc_tlv items))"
  by (induction items) (auto intro: ber_seq.intros ber_tlv_enc_tlv)

text \<open>C21: parsing what \<open>encode\<close> wrote gives back the objects, provided every tag is the big-endian
  concatenation of well-formed BER identifier octets and there are at most \<open>MAX_TLVS\<close> objects.\<close>

theorem parse_encode:
  assumes "encode items out = (Inr n, out')" "list_all tlv_ok items" "length items \<le> MAX_TLVS"
    "length out < 2 ^ 64"
  shows "parse (take n out') = Inr items"
proof -
  have "n = length (concat (map enc_tlv items))" "n \<le> length out"
    and "out' = concat (map enc_tlv items) @ drop n out"
    using encode_cases [OF assms(4), of items] assms(1) by (auto split: if_splits)
  then have "take n out' = concat (map enc_tlv items)" and "length (take n out') < 2 ^ 64"
    using assms(4) by auto
  then show ?thesis using parse_eq_Inr ber_seq_enc [OF assms(2)] assms(3) by metis
qed

lemma parse_encode_witness:
  "parse (take 6 [0x9F, 0x70, 3, 1, 2, 3, 0xFF]) = Inr [\<lparr>tlv_tag = 0x9F70, tlv_value = [1, 2, 3]\<rparr>]"
proof -
  have "encode [\<lparr>tlv_tag = 0x9F70, tlv_value = [1, 2, 3]\<rparr>] (replicate 7 0xFF) =
      (Inr 6, [0x9F, 0x70, 3, 1, 2, 3, 0xFF])"
    by code_simp
  note e = this
  have "tag_ok 0x9F70" by code_simp
  then show ?thesis
    by (intro parse_encode [OF e]) (simp_all add: tlv_ok_def limit_simps)
qed

text \<open>A tag that is not made of well-formed identifier octets does not survive the round trip: the
  hypothesis of the theorem is needed.\<close>

lemma ill_formed_tag_lost:
  "encode [\<lparr>tlv_tag = 0x9F, tlv_value = []\<rparr>] (replicate 4 0) = (Inr 2, [0x9F, 0, 0, 0])"
  "parse [0x9F, 0] = Inl Truncated"
  by code_simp+

end
