(* ===== verification/Scll_Model.thy ===== *)
theory Scll_Model
  imports Scll_Tlv
begin

text \<open>
  The data of the library: the error enumerations of \<open>error.rs\<close>, \<open>command/mod.rs\<close>,
  \<open>cap/mod.rs\<close> and \<open>transport.rs\<close>, the validated identifier of \<open>aid.rs\<close>, the card model of
  \<open>model.rs\<close> and the enumerations of \<open>report.rs\<close>. Message texts are kept as strings where the
  source carries one.
\<close>

section \<open>Errors\<close>

datatype build_error = BuildOverflow | EmptyKeyScope

datatype cap_error = NotAZip | MissingComponent string | Malformed | Inflate

datatype backend_error =
    KeyImport string | KeyGen string | Crypto string | Rng string | Unsupported string

datatype transport_error =
    TeCardRemoved | TeReaderGone | TeTimeout | TeProtocolError | TeOther string

datatype scll_error =
    TransportUnavailable | CardRemoved | ReaderGone | Timeout
  | ScpProtocolUnsupported | NoCommonSecurityLevel | KvnMismatch | CardCryptogramFail
  | CardChallengeFail | ExternalAuthFail u16 | SecurityStatusNotSatisfied | NoOpenChannel
  | KeyNotFound | KeyTypeUnsupported u8 bytes | KeyCheckValueMismatch | CannotDeleteActiveKeyset
  | InvalidAid usize | AidAlreadyExists | PackageAidExists | PackageNotFound | ResidentSdNotFound
  | LoadTooLarge | SsdHasApplets | ElfHasOtherInstances
  | CardNotUsable | IllegalLifecycleTransition | ConditionsNotSatisfied | IsdAidNotFound
  | SessionNotIsd | TargetNoLongerExists | TerminateOutOfScope
  | ParentLacksAm | UnsupportedPrivilege
  | Card u16
  | MalformedResponse tlv_error | Build build_error | Cap cap_error
  | Backend backend_error

definition from_general_sw :: "u16 \<Rightarrow> scll_error" where
  "from_general_sw sw =
    (if sw = 0x6982 then SecurityStatusNotSatisfied
     else if sw = 0x6985 then ConditionsNotSatisfied
     else Card sw)"

datatype warning_kind =
    CardRecognitionDataMissing | KeyInformationTemplateMissing | CardCapabilityInfoMissing
  | UnknownLifecycleByte u8 | GetStatusParseFailed | LifecycleNoOp | InventoryTruncated

record warning =
  warning_kind :: warning_kind
  warning_detail :: string

section \<open>Application identifiers\<close>

datatype aid = Aid bytes

primrec as_bytes :: "aid \<Rightarrow> bytes" where
  "as_bytes (Aid bs) = bs"

definition AID_MIN :: usize where [limit_simps]: "AID_MIN = 5"

definition aid_new :: "bytes \<Rightarrow> scll_error + aid" where
  "aid_new bs =
    (if \<not> (AID_MIN \<le> length bs \<and> length bs \<le> AID_MAX) then Inl (InvalidAid (length bs))
     else (case vec_extend AID_MAX [] bs of
         None \<Rightarrow> Inl (InvalidAid (length bs))
       | Some v \<Rightarrow> Inr (Aid v)))"

text \<open>The field of \<open>Aid\<close> is private: \<open>aid_new\<close> is its only constructor, so this holds of every
  \<open>Aid\<close> of the program.\<close>

definition aid_ok :: "aid \<Rightarrow> bool" where
  "aid_ok a = (AID_MIN \<le> length (as_bytes a) \<and> length (as_bytes a) \<le> AID_MAX)"

lemma aid_new_Inr [simp]: "aid_new bs = Inr a \<longleftrightarrow> a = Aid bs \<and> 5 \<le> length bs \<and> length bs \<le> 16"
  by (auto simp: aid_new_def vec_extend_def limit_simps)

lemma aid_new_ok: "aid_new bs = Inr a \<Longrightarrow> aid_ok a \<and> as_bytes a = bs"
  by (simp add: aid_ok_def limit_simps)

lemma aid_new_as_bytes: "aid_ok a \<Longrightarrow> aid_new (as_bytes a) = Inr a"
  by (cases a) (simp add: aid_ok_def limit_simps)

section \<open>The card model\<close>

datatype scp_variant = Scp02 u8 | Scp03 u8

datatype key_type =
    Des | Aes | RsaPublic | RsaPrivateCrt | RsaPrivateExponent | EccPublic | EccPrivate
  | EccParametersRef | KeyTypeOther u8

record key_info =
  ki_kid :: u8
  ki_key_type :: key_type
  ki_key_length :: u8

record keyset =
  ks_kvn :: u8
  ks_keys :: "key_info list"

datatype key_template_format = Basic | Extended

datatype cipher_alg =
    Aes128 | Aes192 | Aes256 | TripleDes | Rsa1024 | Rsa2048 | Rsa3072 | Rsa4096
  | EccP256 | EccP384 | EccP521 | Sha1 | Sha256 | Sha384 | Sha512 | CipherOther string

record card_capabilities =
  max_logical_channels :: u8
  ciphers_supported :: "cipher_alg list"
  privileges_supported :: bytes
  memory_total_bytes :: "u32 option"
  memory_free_bytes :: "u32 option"
  cci_raw :: bytes

text \<open>A privileges field is the three octets of the source's \<open>[u8; 3]\<close>.\<close>

type_synonym privileges = "u8 \<times> u8 \<times> u8"

datatype priv_len = Canonical | Jcop1Byte

record security_domain_entry =
  sde_aid :: aid
  sde_life_cycle_state :: u8
  sde_privileges :: privileges
  sde_associated_sd_aid :: "aid option"

record application_entry =
  ape_aid :: aid
  ape_life_cycle_state :: u8
  ape_privileges :: privileges
  ape_associated_sd_aid :: aid
  ape_associated_elf_aid :: "aid option"

record executable_load_file_entry =
  elfe_aid :: aid
  elfe_life_cycle_state :: u8
  elfe_associated_sd_aid :: aid
  elfe_modules :: "aid list"

record card_inventory =
  inv_security_domains :: "security_domain_entry list"
  inv_applets :: "application_entry list"
  inv_elfs :: "executable_load_file_entry list"

datatype card_life_cycle =
  OpReady | Initialized | Secured | CardLocked | Terminated | Unknown u8

datatype transport_protocol = T0 | T1 | TCl

end
