(* ===== verification/Scll_Lifecycle.thy ===== *)
theory Scll_Lifecycle
  imports Scll_Model
begin

text \<open>
  \<open>scll-core/src/lifecycle.rs\<close>: the legality check of a card life-cycle transition, with the
  decoder of the raw life-cycle byte (\<open>response.rs\<close>). The card is a step relation: it moves to
  the state whose byte a legal SET STATUS carries.
\<close>

section \<open>The program\<close>

definition P2_INITIALIZED :: u8 where "P2_INITIALIZED = 0x07"
definition P2_SECURED :: u8 where "P2_SECURED = 0x0F"
definition P2_CARD_LOCKED :: u8 where "P2_CARD_LOCKED = 0x7F"

lemmas p2_consts = P2_INITIALIZED_def P2_SECURED_def P2_CARD_LOCKED_def

datatype transition_plan = NoOp | Apply u8

fun is_unknown :: "card_life_cycle \<Rightarrow> bool" where
  "is_unknown (Unknown _) = True"
| "is_unknown _ = False"

fun transition_p2 :: "card_life_cycle \<Rightarrow> card_life_cycle \<Rightarrow> bool \<Rightarrow> u8 option" where
  "transition_p2 OpReady Initialized force = Some P2_INITIALIZED"
| "transition_p2 Initialized Secured force = Some P2_SECURED"
| "transition_p2 CardLocked Secured force = Some P2_SECURED"
| "transition_p2 OpReady Secured force = (if force then Some P2_SECURED else None)"
| "transition_p2 Secured CardLocked force = Some P2_CARD_LOCKED"
| "transition_p2 _ _ force = None"

definition check_transition ::
    "card_life_cycle \<Rightarrow> card_life_cycle \<Rightarrow> bool \<Rightarrow> scll_error + transition_plan" where
  "check_transition current target force =
    (if target = Terminated then Inl TerminateOutOfScope
     else if is_unknown target then Inl IllegalLifecycleTransition
     else if current = target then Inr NoOp
     else if current = Terminated \<or> is_unknown current then Inl IllegalLifecycleTransition
     else (case transition_p2 current target force of
         Some p2 \<Rightarrow> Inr (Apply p2)
       | None \<Rightarrow> Inl IllegalLifecycleTransition))"

definition decode_life_cycle :: "u8 \<Rightarrow> card_life_cycle" where
  "decode_life_cycle byte =
    (if byte = 0x01 then OpReady
     else if byte = 0x07 then Initialized
     else if byte = 0x0F then Secured
     else if byte = 0x7F then CardLocked
     else if byte = 0xFF then Terminated
     else Unknown byte)"

section \<open>The card as a step relation\<close>

text \<open>The raw byte of a state (Table 11-6), the inverse of the decoder.\<close>

primrec life_cycle_byte :: "card_life_cycle \<Rightarrow> u8" where
  "life_cycle_byte OpReady = 0x01"
| "life_cycle_byte Initialized = 0x07"
| "life_cycle_byte Secured = 0x0F"
| "life_cycle_byte CardLocked = 0x7F"
| "life_cycle_byte Terminated = 0xFF"
| "life_cycle_byte (Unknown b) = b"

text \<open>A host that follows \<open>check_transition\<close> and a card that obeys the P2 byte it is sent.\<close>

inductive lc_step :: "bool \<Rightarrow> card_life_cycle \<Rightarrow> card_life_cycle \<Rightarrow> bool" where
  "check_transition c t force = Inr (Apply p2) \<Longrightarrow> lc_step force c (decode_life_cycle p2)"

inductive lc_reach :: "card_life_cycle \<Rightarrow> card_life_cycle \<Rightarrow> bool" where
  lc_refl: "lc_reach c c"
| lc_trans: "lc_reach c c' \<Longrightarrow> lc_step force c' c'' \<Longrightarrow> lc_reach c c''"

inductive_cases lc_stepE: "lc_step force c c'"

lemma decode_life_cycle_byte:
  "decode_life_cycle (life_cycle_byte c) = c \<longleftrightarrow> (\<forall>b. c = Unknown b \<longrightarrow> b \<notin> {0x01, 0x07, 0x0F, 0x7F, 0xFF})"
  by (cases c) (auto simp: decode_life_cycle_def)

lemma life_cycle_byte_decode [simp]: "life_cycle_byte (decode_life_cycle b) = b"
  by (simp add: decode_life_cycle_def)

lemma is_unknown_iff: "is_unknown c \<longleftrightarrow> (\<exists>b. c = Unknown b)"
  by (cases c) auto

lemma transition_p2_Some:
  "transition_p2 c t force = Some p2 \<longleftrightarrow>
    (c, t, p2) \<in> {(OpReady, Initialized, 0x07), (Initialized, Secured, 0x0F),
                  (CardLocked, Secured, 0x0F), (Secured, CardLocked, 0x7F)}
    \<or> (c, t, p2) = (OpReady, Secured, 0x0F) \<and> force"
  by (cases c; cases t) (auto simp: p2_consts)

lemma check_transition_Apply:
  "check_transition c t force = Inr (Apply p2) \<longleftrightarrow> transition_p2 c t force = Some p2"
  by (cases c; cases t) (auto simp: check_transition_def split: option.splits)

lemma transition_p2_byte:
  "transition_p2 c t force = Some p2 \<Longrightarrow> p2 = life_cycle_byte t \<and> decode_life_cycle p2 = t"
  by (auto simp: transition_p2_Some decode_life_cycle_def)

definition lc_moves :: "(card_life_cycle \<times> card_life_cycle) set" where
  "lc_moves = {(OpReady, Initialized), (Initialized, Secured), (CardLocked, Secured),
     (Secured, CardLocked), (OpReady, Secured)}"

lemma lc_step_moves: "lc_step force c c' \<Longrightarrow> (c, c') \<in> lc_moves"
  by (auto elim!: lc_stepE dest!: transition_p2_byte
      simp: check_transition_Apply lc_moves_def transition_p2_Some decode_life_cycle_def)

lemma lc_stepI: "transition_p2 c c' force = Some p2 \<Longrightarrow> lc_step force c c'"
  using lc_step.intros [of c c' force p2] transition_p2_byte [of c c' force p2]
  by (simp add: check_transition_Apply)

text \<open>The legality matrix, complete: every pair of states and both values of \<open>force\<close>. The three
  refusals, the no-op and the four transitions (plus the forced skip-ahead) are exactly these, and
  the byte to send is the byte of the target state.\<close>

lemma check_transition_matrix:
  "check_transition c t force =
    (if t = Terminated then Inl TerminateOutOfScope
     else if (\<exists>b. t = Unknown b) then Inl IllegalLifecycleTransition
     else if c = t then Inr NoOp
     else if (c, t) \<in> {(OpReady, Initialized), (Initialized, Secured), (CardLocked, Secured), (Secured, CardLocked)}
        \<or> (c, t) = (OpReady, Secured) \<and> force
     then Inr (Apply (life_cycle_byte t))
     else Inl IllegalLifecycleTransition)"
  by (cases c; cases t) (auto simp: check_transition_def p2_consts)

lemma lc_reach_closed:
  "lc_reach c c' \<Longrightarrow> (\<And>a b. (a, b) \<in> lc_moves \<Longrightarrow> a \<in> S \<Longrightarrow> b \<in> S) \<Longrightarrow> c \<in> S \<Longrightarrow> c' \<in> S"
  by (induction rule: lc_reach.induct) (auto dest: lc_step_moves)

lemma lc_reach_last: "lc_reach c c' \<Longrightarrow> c = c' \<or> (\<exists>a. (a, c') \<in> lc_moves)"
  by (cases rule: lc_reach.cases) (auto dest: lc_step_moves)

lemma lc_reach_first: "lc_reach c c' \<Longrightarrow> c = c' \<or> (\<exists>b. (c, b) \<in> lc_moves)"
  by (induction rule: lc_reach.induct) (auto dest: lc_step_moves)

text \<open>C18: provisioning is one-way. Whatever transitions the host asks for, forced or not, a card that
  has reached \<open>SECURED\<close> or \<open>CARD_LOCKED\<close> only ever alternates between the two; it is never sent to
  \<open>TERMINATED\<close>, and a terminated or unknown state is never left.\<close>

theorem provisioning_one_way:
  assumes "lc_reach c c'"
  shows "(c \<in> {Secured, CardLocked} \<longrightarrow> c' \<in> {Secured, CardLocked})
       \<and> (c' = Terminated \<longrightarrow> c = Terminated)
       \<and> (c' = OpReady \<longrightarrow> c = OpReady)
       \<and> (c = Terminated \<or> (\<exists>b. c = Unknown b) \<longrightarrow> c' = c)"
  using lc_reach_closed [OF assms, of "{Secured, CardLocked}"] lc_reach_last [OF assms]
    lc_reach_first [OF assms]
  by (auto simp: lc_moves_def)

lemma provisioning_one_way_witness:
  "lc_reach Secured CardLocked \<and> CardLocked \<in> {Secured, CardLocked} \<and> CardLocked \<noteq> OpReady"
proof -
  have "lc_step False Secured CardLocked" by (rule lc_stepI) simp
  then have r: "lc_reach Secured CardLocked" by (rule lc_trans [OF lc_refl])
  show ?thesis using provisioning_one_way [OF r] r by simp
qed

end
