(* ===== verification/Scll_Response.thy ===== *)
theory Scll_Response
  imports Scll_Lifecycle
begin

text \<open>
  \<open>scll-core/src/response.rs\<close>: the decoders of the card's responses, on top of the BER-TLV
  parser. A \<open>for\<close> loop over the filtered objects of a template that can fail with \<open>?\<close> is a
  recursion over the list of those objects, with the vectors it fills as accumulators.

  The lemmas give each decoder a closed form: the key information template is grouped by key
  version, completely and in order; the registry decoder returns one entry per \<open>'E3'\<close> object;
  the card recognition data yields the advertised protocols in order.
\<close>

section \<open>The program\<close>

definition TAG_CRD :: u32 where "TAG_CRD = 0x66"
definition TAG_CRD_BODY :: u32 where "TAG_CRD_BODY = 0x73"
definition TAG_SCP_ENTRY :: u32 where "TAG_SCP_ENTRY = 0x64"
definition TAG_OID :: u32 where "TAG_OID = 0x06"
definition TAG_KEY_TEMPLATE :: u32 where "TAG_KEY_TEMPLATE = 0xE0"
definition TAG_KEY_ENTRY :: u32 where "TAG_KEY_ENTRY = 0xC0"
definition KEY_EXTENDED_MARKER :: u8 where "KEY_EXTENDED_MARKER = 0xB9"
definition TAG_CCI :: u32 where "TAG_CCI = 0x67"
definition TAG_CCI_CHANNELS :: u32 where "TAG_CCI_CHANNELS = 0xA0"
definition TAG_CCI_PRIVILEGES :: u32 where "TAG_CCI_PRIVILEGES = 0xA3"
definition TAG_GP_REGISTRY :: u32 where "TAG_GP_REGISTRY = 0xE3"
definition TAG_LIFE_CYCLE :: u32 where "TAG_LIFE_CYCLE = 0x9F70"
definition TAG_AID :: u32 where "TAG_AID = 0x4F"
definition TAG_PRIVILEGES :: u32 where "TAG_PRIVILEGES = 0xC5"
definition TAG_ASSOC_SD_AID :: u32 where "TAG_ASSOC_SD_AID = 0xCC"
definition TAG_ELF_AID :: u32 where "TAG_ELF_AID = 0xC4"
definition TAG_MODULE_AID :: u32 where "TAG_MODULE_AID = 0x84"

definition KEY_TYPE_DES :: u8 where "KEY_TYPE_DES = 0x80"
definition KEY_TYPE_AES :: u8 where "KEY_TYPE_AES = 0x88"
definition KEY_TYPE_RSA_PUBLIC :: u8 where "KEY_TYPE_RSA_PUBLIC = 0xA1"
definition KEY_TYPE_RSA_PRIVATE_CRT :: u8 where "KEY_TYPE_RSA_PRIVATE_CRT = 0xA2"
definition KEY_TYPE_RSA_PRIVATE_EXP :: u8 where "KEY_TYPE_RSA_PRIVATE_EXP = 0xA3"
definition KEY_TYPE_ECC_PUBLIC :: u8 where "KEY_TYPE_ECC_PUBLIC = 0xB0"
definition KEY_TYPE_ECC_PRIVATE :: u8 where "KEY_TYPE_ECC_PRIVATE = 0xB1"
definition KEY_TYPE_ECC_PARAMS_REF :: u8 where "KEY_TYPE_ECC_PARAMS_REF = 0xB2"

definition find_tlv :: "tlv list \<Rightarrow> u32 \<Rightarrow> bytes option" where
  "find_tlv tlvs t = map_option tlv_value (List.find (\<lambda>x. tlv_tag x = t) tlvs)"

text \<open>\<open>v.first()\<close>\<close>

definition first :: "'a list \<Rightarrow> 'a option" where
  "first xs = get_at xs 0"

subsection \<open>Card recognition data\<close>

record card_recognition =
  cr_scp :: "scp_variant list"

definition scp_variant_of :: "u8 \<Rightarrow> u8 \<Rightarrow> scp_variant option" where
  "scp_variant_of scp_id i_param =
    (if scp_id = 0x02 then Some (Scp02 i_param)
     else if scp_id = 0x03 then Some (Scp03 i_param)
     else None)"

text \<open>\<open>if let [.., scp_id, i] = oid\<close>\<close>

definition last_two :: "bytes \<Rightarrow> (u8 \<times> u8) option" where
  "last_two oid = (case rev oid of i # scp_id # _ \<Rightarrow> Some (scp_id, i) | _ \<Rightarrow> None)"

primrec crd_loop :: "tlv list \<Rightarrow> scp_variant list \<Rightarrow> tlv_error + scp_variant list" where
  "crd_loop [] scp = Inr scp"
| "crd_loop (entry # entries) scp =
     rbind (parse (tlv_value entry)) (\<lambda>oid_tlvs.
     case find_tlv oid_tlvs TAG_OID of
       None \<Rightarrow> crd_loop entries scp
     | Some oid \<Rightarrow>
        (case last_two oid of
           None \<Rightarrow> crd_loop entries scp
         | Some (scp_id, i) \<Rightarrow>
            (case scp_variant_of scp_id i of
               None \<Rightarrow> crd_loop entries scp
             | Some variant \<Rightarrow>
                (case vec_push MAX_SCP_VARIANTS scp variant of
                   None \<Rightarrow> Inl TooMany
                 | Some scp \<Rightarrow> crd_loop entries scp))))"

definition parse_card_recognition :: "bytes \<Rightarrow> tlv_error + card_recognition" where
  "parse_card_recognition data =
    (if data = [] then Inr \<lparr>cr_scp = []\<rparr>
     else rbind (parse data) (\<lambda>top.
       rbind (case find_tlv top TAG_CRD of
           Some v66 \<Rightarrow> rbind (parse v66) (\<lambda>wrapped. Inr (find_tlv wrapped TAG_CRD_BODY))
         | None \<Rightarrow> Inr (find_tlv top TAG_CRD_BODY)) (\<lambda>body.
       case body of
         None \<Rightarrow> Inr \<lparr>cr_scp = []\<rparr>
       | Some body \<Rightarrow>
          rbind (parse body) (\<lambda>entries.
          rbind (crd_loop (filter (\<lambda>t. tlv_tag t = TAG_SCP_ENTRY) entries) []) (\<lambda>scp.
          Inr \<lparr>cr_scp = scp\<rparr>)))))"

subsection \<open>Key information template\<close>

record key_information =
  ki_format :: key_template_format
  ki_keysets :: "keyset list"

definition decode_key_type :: "u8 \<Rightarrow> key_type" where
  "decode_key_type byte =
    (if byte = KEY_TYPE_DES then Des
     else if byte = KEY_TYPE_AES then Aes
     else if byte = KEY_TYPE_RSA_PUBLIC then RsaPublic
     else if byte = KEY_TYPE_RSA_PRIVATE_CRT then RsaPrivateCrt
     else if byte = KEY_TYPE_RSA_PRIVATE_EXP then RsaPrivateExponent
     else if byte = KEY_TYPE_ECC_PUBLIC then EccPublic
     else if byte = KEY_TYPE_ECC_PRIVATE then EccPrivate
     else if byte = KEY_TYPE_ECC_PARAMS_REF then EccParametersRef
     else KeyTypeOther byte)"

text \<open>\<open>push_key\<close> first looks for the keyset of the version (\<open>push_existing\<close>: \<open>None\<close> when there is
  none) and otherwise appends a new one.\<close>

primrec push_existing :: "keyset list \<Rightarrow> u8 \<Rightarrow> key_info \<Rightarrow> (tlv_error + keyset list) option" where
  "push_existing [] kvn key = None"
| "push_existing (s # ss) kvn key =
    (if ks_kvn s = kvn then Some (case vec_push MAX_KEYS_PER_SET (ks_keys s) key of
         None \<Rightarrow> Inl TooMany
       | Some keys \<Rightarrow> Inr (s\<lparr>ks_keys := keys\<rparr> # ss))
     else map_option (\<lambda>r. rbind r (\<lambda>ss. Inr (s # ss))) (push_existing ss kvn key))"

definition push_key :: "u8 \<Rightarrow> key_info \<Rightarrow> keyset list \<Rightarrow> tlv_error + keyset list" where
  "push_key kvn key keysets = (case push_existing keysets kvn key of
     Some r \<Rightarrow> r
   | None \<Rightarrow>
      (case vec_push MAX_KEYS_PER_SET [] key of
         None \<Rightarrow> Inl TooMany
       | Some keys \<Rightarrow>
          (case vec_push MAX_KEYSETS keysets \<lparr>ks_kvn = kvn, ks_keys = keys\<rparr> of
             None \<Rightarrow> Inl TooMany
           | Some keysets \<Rightarrow> Inr keysets)))"

text \<open>\<open>rest.chunks_exact(2)\<close>\<close>

fun chunks_exact2 :: "bytes \<Rightarrow> (u8 \<times> u8) list" where
  "chunks_exact2 (a # b # rest) = (a, b) # chunks_exact2 rest"
| "chunks_exact2 _ = []"

primrec push_pairs :: "u8 \<Rightarrow> u8 \<Rightarrow> (u8 \<times> u8) list \<Rightarrow> keyset list \<Rightarrow> tlv_error + keyset list" where
  "push_pairs kvn kid [] keysets = Inr keysets"
| "push_pairs kvn kid (pair # pairs) keysets =
     rbind (push_key kvn \<lparr>ki_kid = kid, ki_key_type = decode_key_type (fst pair), ki_key_length = snd pair\<rparr>
       keysets) (push_pairs kvn kid pairs)"

primrec kit_loop ::
    "tlv list \<Rightarrow> key_template_format \<Rightarrow> keyset list \<Rightarrow> tlv_error + (key_template_format \<times> keyset list)" where
  "kit_loop [] format keysets = Inr (format, keysets)"
| "kit_loop (entry # entries) format keysets =
    (let val = tlv_value entry in
     case (first val, get_at val 1) of
       (Some kid, Some kvn) \<Rightarrow>
         (let rest = drop 2 val in
          if first rest = Some KEY_EXTENDED_MARKER then
            rbind (push_key kvn \<lparr>ki_kid = kid, ki_key_type = KeyTypeOther KEY_EXTENDED_MARKER, ki_key_length = 0\<rparr>
              keysets) (\<lambda>keysets. kit_loop entries Extended keysets)
          else
            rbind (push_pairs kvn kid (chunks_exact2 rest) keysets) (\<lambda>keysets.
            kit_loop entries format keysets))
     | _ \<Rightarrow> kit_loop entries format keysets)"

definition parse_key_information :: "bytes \<Rightarrow> tlv_error + key_information" where
  "parse_key_information data =
    (if data = [] then Inr \<lparr>ki_format = Basic, ki_keysets = []\<rparr>
     else rbind (parse data) (\<lambda>top.
       let body = (case find_tlv top TAG_KEY_TEMPLATE of Some b \<Rightarrow> b | None \<Rightarrow> data) in
       rbind (parse body) (\<lambda>entries.
       rbind (kit_loop (filter (\<lambda>t. tlv_tag t = TAG_KEY_ENTRY) entries) Basic []) (\<lambda>(format, keysets).
       Inr \<lparr>ki_format = format, ki_keysets = keysets\<rparr>))))"

subsection \<open>Card capability information\<close>

definition parse_card_capabilities :: "bytes \<Rightarrow> tlv_error + card_capabilities" where
  "parse_card_capabilities data =
    (let raw_len = min (length data) GETDATA_RAW_MAX;
         caps = \<lparr>max_logical_channels = 1, ciphers_supported = [], privileges_supported = [],
           memory_total_bytes = None, memory_free_bytes = None, cci_raw = take raw_len data\<rparr> in
     if data = [] then Inr caps
     else rbind (parse data) (\<lambda>top.
       let body = (case find_tlv top TAG_CCI of Some b \<Rightarrow> b | None \<Rightarrow> data) in
       rbind (parse body) (\<lambda>subs.
       let caps = (case find_tlv subs TAG_CCI_CHANNELS of
             None \<Rightarrow> caps
           | Some channels \<Rightarrow> (case first channels of None \<Rightarrow> caps | Some n \<Rightarrow> caps\<lparr>max_logical_channels := n\<rparr>));
           caps = (case find_tlv subs TAG_CCI_PRIVILEGES of
             None \<Rightarrow> caps
           | Some privs \<Rightarrow> caps\<lparr>privileges_supported := take (min (length privs) MAX_PRIVILEGE_BYTES) privs\<rparr>)
       in Inr caps)))"

subsection \<open>Registry entries\<close>

definition parse_status_e3 :: "bytes \<Rightarrow> tlv_error + card_life_cycle option" where
  "parse_status_e3 data =
    (if data = [] then Inr None
     else rbind (parse data) (\<lambda>top.
       case find_tlv top TAG_GP_REGISTRY of
         None \<Rightarrow> Inr None
       | Some registry \<Rightarrow>
          rbind (parse registry) (\<lambda>objs.
          case find_tlv objs TAG_LIFE_CYCLE of
            None \<Rightarrow> Inr None
          | Some life_cycle \<Rightarrow> Inr (map_option decode_life_cycle (first life_cycle)))))"

record registry_entry =
  re_aid :: bytes
  re_life_cycle :: u8
  re_privileges :: privileges
  re_associated_sd_aid :: "bytes option"
  re_elf_aid :: "bytes option"
  re_modules :: "bytes list"

text \<open>\<open>p[..n].copy_from_slice(&b[..n])\<close> into three zero octets.\<close>

definition privileges_to_3 :: "bytes option \<Rightarrow> privileges" where
  "privileges_to_3 v = (case v of
     None \<Rightarrow> (0, 0, 0)
   | Some b \<Rightarrow>
      let n = min (length b) 3; p = take n b @ drop n [0, 0, 0] in (p ! 0, p ! 1, p ! 2))"

primrec collect_modules :: "tlv list \<Rightarrow> bytes list \<Rightarrow> bytes list" where
  "collect_modules [] modules = modules"
| "collect_modules (m # ms) modules = (case vec_push MAX_MODULES_PER_ELF modules (tlv_value m) of
     None \<Rightarrow> modules
   | Some modules \<Rightarrow> collect_modules ms modules)"

definition registry_entry_of :: "tlv list \<Rightarrow> registry_entry" where
  "registry_entry_of objs =
    \<lparr>re_aid = (case find_tlv objs TAG_AID of Some a \<Rightarrow> a | None \<Rightarrow> []),
     re_life_cycle = (case Option.bind (find_tlv objs TAG_LIFE_CYCLE) first of Some b \<Rightarrow> b | None \<Rightarrow> 0),
     re_privileges = privileges_to_3 (find_tlv objs TAG_PRIVILEGES),
     re_associated_sd_aid = find_tlv objs TAG_ASSOC_SD_AID,
     re_elf_aid = find_tlv objs TAG_ELF_AID,
     re_modules = collect_modules (filter (\<lambda>t. tlv_tag t = TAG_MODULE_AID) objs) []\<rparr>"

primrec registry_loop :: "tlv list \<Rightarrow> registry_entry list \<Rightarrow> tlv_error + registry_entry list" where
  "registry_loop [] out = Inr out"
| "registry_loop (e3 # es) out =
     rbind (parse (tlv_value e3)) (\<lambda>objs.
     case vec_push MAX_REGISTRY_ENTRIES out (registry_entry_of objs) of
       None \<Rightarrow> Inr out
     | Some out \<Rightarrow> registry_loop es out)"

definition parse_status_registry :: "bytes \<Rightarrow> tlv_error + registry_entry list" where
  "parse_status_registry data =
    (if data = [] then Inr []
     else rbind (parse data) (\<lambda>top.
       registry_loop (filter (\<lambda>t. tlv_tag t = TAG_GP_REGISTRY) top) []))"

section \<open>Closed forms\<close>

subsection \<open>Grouping the key slots by version\<close>

text \<open>The key slots a template lists, in order, each with its key version.\<close>

definition entry_slots :: "tlv \<Rightarrow> (u8 \<times> key_info) list" where
  "entry_slots entry = (case tlv_value entry of
     kid # kvn # rest \<Rightarrow>
       (if first rest = Some KEY_EXTENDED_MARKER
        then [(kvn, \<lparr>ki_kid = kid, ki_key_type = KeyTypeOther KEY_EXTENDED_MARKER, ki_key_length = 0\<rparr>)]
        else map (\<lambda>(t, l). (kvn, \<lparr>ki_kid = kid, ki_key_type = decode_key_type t, ki_key_length = l\<rparr>))
               (chunks_exact2 rest))
   | _ \<Rightarrow> [])"

definition entry_extended :: "tlv \<Rightarrow> bool" where
  "entry_extended entry = (2 \<le> length (tlv_value entry) \<and>
     first (drop 2 (tlv_value entry)) = Some KEY_EXTENDED_MARKER)"

definition slot_kvns :: "(u8 \<times> key_info) list \<Rightarrow> u8 list" where
  "slot_kvns slots = rev (remdups (rev (map fst slots)))"

definition slot_keys :: "(u8 \<times> key_info) list \<Rightarrow> u8 \<Rightarrow> key_info list" where
  "slot_keys slots v = map snd (filter (\<lambda>s. fst s = v) slots)"

definition group_slots :: "(u8 \<times> key_info) list \<Rightarrow> keyset list" where
  "group_slots slots = map (\<lambda>v. \<lparr>ks_kvn = v, ks_keys = slot_keys slots v\<rparr>) (slot_kvns slots)"

definition slots_fit :: "(u8 \<times> key_info) list \<Rightarrow> bool" where
  "slots_fit slots = (length (slot_kvns slots) \<le> MAX_KEYSETS \<and>
     (\<forall>v \<in> set (slot_kvns slots). length (slot_keys slots v) \<le> MAX_KEYS_PER_SET))"

primrec push_slots :: "(u8 \<times> key_info) list \<Rightarrow> keyset list \<Rightarrow> tlv_error + keyset list" where
  "push_slots [] keysets = Inr keysets"
| "push_slots (s # ss) keysets = rbind (push_key (fst s) (snd s) keysets) (push_slots ss)"

lemma push_slots_append: "push_slots (a @ b) ks = rbind (push_slots a ks) (push_slots b)"
  by (induction a arbitrary: ks) (auto simp: rbind_def split: sum.splits)

lemma push_pairs_slots:
  "push_pairs kvn kid ps ks = push_slots
     (map (\<lambda>(t, l). (kvn, \<lparr>ki_kid = kid, ki_key_type = decode_key_type t, ki_key_length = l\<rparr>)) ps) ks"
  by (induction ps arbitrary: ks) (auto simp: rbind_def split: sum.splits)

lemma kit_loop_step:
  "kit_loop (e # es) format ks =
     rbind (push_slots (entry_slots e) ks) (\<lambda>ks. kit_loop es (if entry_extended e then Extended else format) ks)"
proof (cases "tlv_value e")
  case v1: (Cons kid r)
  show ?thesis
  proof (cases r)
    case (Cons kvn rest)
    with v1 have v: "tlv_value e = kid # kvn # rest" by simp
    show ?thesis
      by (cases "first rest = Some KEY_EXTENDED_MARKER")
        (simp_all add: v first_def entry_slots_def entry_extended_def push_pairs_slots get_at_def rbind_assoc)
  qed (simp add: v1 entry_slots_def entry_extended_def first_def get_at_def)
qed (simp add: entry_slots_def entry_extended_def first_def get_at_def)

lemma kit_loop_slots:
  "kit_loop entries format ks =
     rbind (push_slots (concat (map entry_slots entries)) ks) (\<lambda>ks.
     Inr (if \<exists>e \<in> set entries. entry_extended e then Extended else format, ks))"
proof (induction entries arbitrary: format ks)
  case (Cons e entries)
  show ?case
    unfolding kit_loop_step Cons.IH list.map concat.simps push_slots_append rbind_assoc by simp
qed simp

lemma slot_kvns_snoc: "slot_kvns (xs @ [s]) =
    (if fst s \<in> set (slot_kvns xs) then slot_kvns xs else slot_kvns xs @ [fst s])"
  by (simp add: slot_kvns_def)

lemma slot_kvns_set [simp]: "set (slot_kvns xs) = fst ` set xs"
  by (simp add: slot_kvns_def)

lemma slot_kvns_distinct [simp]: "distinct (slot_kvns xs)"
  by (simp add: slot_kvns_def)

lemma slot_keys_snoc: "slot_keys (xs @ [s]) w = slot_keys xs w @ (if w = fst s then [snd s] else [])"
  by (simp add: slot_keys_def)

lemma slot_keys_none: "v \<notin> fst ` set xs \<Longrightarrow> slot_keys xs v = []"
  by (auto simp: slot_keys_def filter_empty_conv)

lemma push_existing_map:
  "distinct vs \<Longrightarrow> push_existing (map (\<lambda>v. \<lparr>ks_kvn = v, ks_keys = f v\<rparr>) vs) v k =
    (if v \<notin> set vs then None
     else Some (if length (f v) < MAX_KEYS_PER_SET
       then Inr (map (\<lambda>w. \<lparr>ks_kvn = w, ks_keys = f w @ (if w = v then [k] else [])\<rparr>) vs)
       else Inl TooMany))"
proof (induction vs)
  case (Cons w vs)
  have "map (\<lambda>w. \<lparr>ks_kvn = w, ks_keys = f w @ (if w = v then [k] else [])\<rparr>) vs
      = map (\<lambda>w. \<lparr>ks_kvn = w, ks_keys = f w\<rparr>) vs" if "v \<notin> set vs"
    using that by (intro map_cong) auto
  with Cons show ?case by (auto simp: vec_push_def)
qed simp

lemma slots_fit_snoc: "slots_fit (xs @ [s]) \<Longrightarrow> slots_fit xs"
proof -
  assume f: "slots_fit (xs @ [s])"
  have "length (slot_kvns xs) \<le> length (slot_kvns (xs @ [s]))"
    and "length (slot_keys xs v) \<le> length (slot_keys (xs @ [s]) v)" for v
    by (simp_all add: slot_kvns_snoc slot_keys_snoc)
  moreover have "set (slot_kvns xs) \<subseteq> set (slot_kvns (xs @ [s]))" by auto
  ultimately show "slots_fit xs" using f unfolding slots_fit_def by (meson le_trans subsetD)
qed

lemma push_key_group:
  assumes "slots_fit xs"
  shows "push_key v k (group_slots xs) =
    (if slots_fit (xs @ [(v, k)]) then Inr (group_slots (xs @ [(v, k)])) else Inl TooMany)"
proof (cases "v \<in> fst ` set xs")
  case True
  have "slots_fit (xs @ [(v, k)]) \<longleftrightarrow> length (slot_keys xs v) < MAX_KEYS_PER_SET"
    using assms True by (auto simp: slots_fit_def slot_kvns_snoc slot_keys_snoc)
  then show ?thesis using True
    by (simp add: push_key_def group_slots_def push_existing_map slot_kvns_snoc slot_keys_snoc)
next
  case False
  have "slots_fit (xs @ [(v, k)]) \<longleftrightarrow> length (slot_kvns xs) < MAX_KEYSETS"
    using assms False slot_keys_none [OF False]
    by (auto simp: slots_fit_def slot_kvns_snoc slot_keys_snoc limit_simps)
  moreover have "map (\<lambda>w. \<lparr>ks_kvn = w, ks_keys = slot_keys xs w @ (if w = v then [k] else [])\<rparr>) (slot_kvns xs)
      = map (\<lambda>w. \<lparr>ks_kvn = w, ks_keys = slot_keys xs w\<rparr>) (slot_kvns xs)"
    using False by (intro map_cong) auto
  moreover have "push_key v k (group_slots xs) =
      (if length (slot_kvns xs) < MAX_KEYSETS
       then Inr (group_slots xs @ [\<lparr>ks_kvn = v, ks_keys = [k]\<rparr>]) else Inl TooMany)"
    using False by (simp add: push_key_def group_slots_def push_existing_map vec_push_def MAX_KEYS_PER_SET_def)
  ultimately show ?thesis using False slot_keys_none [OF False]
    unfolding group_slots_def slot_kvns_snoc slot_keys_snoc by auto
qed

lemma push_slots_group:
  "push_slots xs [] = (if slots_fit xs then Inr (group_slots xs) else Inl TooMany)"
proof (induction xs rule: rev_induct)
  case Nil
  show ?case by (simp add: slots_fit_def group_slots_def slot_kvns_def limit_simps)
next
  case (snoc s xs)
  show ?case
  proof (cases "slots_fit xs")
    case True
    then have "push_slots (xs @ [s]) [] = push_key (fst s) (snd s) (group_slots xs)"
      unfolding push_slots_append snoc.IH by (simp add: rbind_def split: sum.splits)
    then show ?thesis using push_key_group [OF True, of "fst s" "snd s"] by simp
  next
    case False
    then have "\<not> slots_fit (xs @ [s])" using slots_fit_snoc by blast
    then show ?thesis using False unfolding push_slots_append snoc.IH by simp
  qed
qed

text \<open>The \<open>'C0'\<close> entries of a key information template, under the outer \<open>'E0'\<close> or bare.\<close>

definition key_entries :: "bytes \<Rightarrow> tlv_error + tlv list" where
  "key_entries data =
    (if data = [] then Inr []
     else rbind (parse data) (\<lambda>top.
       rbind (parse (case find_tlv top TAG_KEY_TEMPLATE of Some b \<Rightarrow> b | None \<Rightarrow> data)) (\<lambda>objs.
       Inr (filter (\<lambda>t. tlv_tag t = TAG_KEY_ENTRY) objs))))"

lemma parse_key_information_eq:
  "parse_key_information data = rbind (key_entries data) (\<lambda>es.
     let slots = concat (map entry_slots es) in
     if slots_fit slots
     then Inr \<lparr>ki_format = (if \<exists>e \<in> set es. entry_extended e then Extended else Basic),
               ki_keysets = group_slots slots\<rparr>
     else Inl TooMany)"
proof (cases "data = []")
  case True
  then show ?thesis
    by (simp add: parse_key_information_def key_entries_def slots_fit_def group_slots_def slot_kvns_def)
next
  case False
  then show ?thesis
    unfolding parse_key_information_def key_entries_def kit_loop_slots push_slots_group Let_def
    by (auto simp: rbind_def split: sum.splits)
qed

lemma slot_keys_set: "k \<in> set (slot_keys slots v) \<longleftrightarrow> (v, k) \<in> set slots"
  by (force simp: slot_keys_def)

lemma group_slots_ok:
  assumes "slots_fit slots"
  shows "map ks_kvn (group_slots slots) = slot_kvns slots \<and> distinct (map ks_kvn (group_slots slots))
    \<and> (\<forall>s \<in> set (group_slots slots). ks_keys s = slot_keys slots (ks_kvn s) \<and> ks_keys s \<noteq> []
         \<and> length (ks_keys s) \<le> MAX_KEYS_PER_SET)
    \<and> (\<forall>(v, k) \<in> set slots. \<exists>s \<in> set (group_slots slots). ks_kvn s = v \<and> k \<in> set (ks_keys s))
    \<and> length (group_slots slots) \<le> MAX_KEYSETS"
proof -
  have 1: "map ks_kvn (group_slots slots) = slot_kvns slots" by (simp add: group_slots_def comp_def)
  have 2: "slot_keys slots v \<noteq> []" if "(v, k) \<in> set slots" for v k
    using that slot_keys_set [of k slots v] by auto
  have 3: "\<forall>(v, k) \<in> set slots. \<exists>s \<in> set (group_slots slots). ks_kvn s = v \<and> k \<in> set (ks_keys s)"
    by (force simp: group_slots_def slot_keys_set)
  show ?thesis using assms 1 2 3 by (auto simp: group_slots_def slots_fit_def)
qed


definition kit_example :: bytes where
  "kit_example = [0xE0, 18, 0xC0, 4, 1, 0x30, 0x88, 16, 0xC0, 4, 2, 0x30, 0x88, 16, 0xC0, 4, 1, 0x31, 0x80, 16]"


subsection \<open>The registry page\<close>

text \<open>The fields of every \<open>'E3'\<close> object of a page, in order.\<close>

primrec parse_all :: "tlv list \<Rightarrow> tlv_error + tlv list list" where
  "parse_all [] = Inr []"
| "parse_all (t # ts) = rbind (parse (tlv_value t)) (\<lambda>objs. rbind (parse_all ts) (\<lambda>rest. Inr (objs # rest)))"

lemma parse_all_length: "parse_all ts = Inr os \<Longrightarrow> length os = length ts"
  by (induction ts arbitrary: os) auto

lemma registry_loop_eq:
  "length out + length es \<le> MAX_REGISTRY_ENTRIES \<Longrightarrow>
     registry_loop es out = rbind (parse_all es) (\<lambda>os. Inr (out @ map registry_entry_of os))"
proof (induction es arbitrary: out)
  case (Cons e es)
  then show ?case by (cases "parse (tlv_value e)") (simp_all add: vec_push_def rbind_assoc)
qed simp

lemma collect_modules_eq:
  "length ms \<le> MAX_MODULES_PER_ELF \<Longrightarrow>
     collect_modules ts ms = ms @ take (MAX_MODULES_PER_ELF - length ms) (map tlv_value ts)"
proof (induction ts arbitrary: ms)
  case (Cons t ts)
  show ?case
  proof (cases "length ms < MAX_MODULES_PER_ELF")
    case True
    then have "MAX_MODULES_PER_ELF - length ms = Suc (MAX_MODULES_PER_ELF - Suc (length ms))" by simp
    then show ?thesis using True Cons.IH [of "ms @ [tlv_value t]"] by (simp add: vec_push_def)
  qed (use Cons.prems in \<open>simp add: vec_push_def\<close>)
qed simp

text \<open>C33: a registry page decodes to one entry per \<open>'E3'\<close> object, in order, none dropped: the capacity of
  the entry vector is never reached before the BER-TLV parser's own bound. The module list of
  an entry is the first \<open>MAX_MODULES_PER_ELF\<close> module identifiers of its object.\<close>

theorem status_registry_complete:
  assumes "length data < 2 ^ 64"
  shows "parse_status_registry data = Inr es \<longleftrightarrow>
    (\<exists>top os. parse data = Inr top \<and> parse_all (filter (\<lambda>t. tlv_tag t = TAG_GP_REGISTRY) top) = Inr os
       \<and> es = map registry_entry_of os
       \<and> length es = length (filter (\<lambda>t. tlv_tag t = TAG_GP_REGISTRY) top)
       \<and> map re_modules es =
           map (\<lambda>f. take MAX_MODULES_PER_ELF (map tlv_value (filter (\<lambda>t. tlv_tag t = TAG_MODULE_AID) f))) os)"
proof -
  have "parse_status_registry data =
      rbind (parse data) (\<lambda>top. registry_loop (filter (\<lambda>t. tlv_tag t = TAG_GP_REGISTRY) top) [])"
    by (simp add: parse_status_registry_def parse_def parse_loop.simps)
  moreover have "registry_loop (filter P top) [] =
      rbind (parse_all (filter P top)) (\<lambda>os. Inr (map registry_entry_of os))" if "parse data = Inr top" for top P
  proof -
    have "length top \<le> MAX_TLVS" using that parse_eq_Inr [OF assms] by blast
    then have "length (filter P top) \<le> MAX_REGISTRY_ENTRIES"
      unfolding MAX_REGISTRY_ENTRIES_eq by (rule order_trans [OF length_filter_le])
    then show ?thesis using registry_loop_eq [of "[]" "filter P top"] by simp
  qed
  moreover have "re_modules (registry_entry_of os) =
      take MAX_MODULES_PER_ELF (map tlv_value (filter (\<lambda>t. tlv_tag t = TAG_MODULE_AID) os))" for os
    using collect_modules_eq [of "[]"] by (simp add: registry_entry_of_def)
  ultimately show ?thesis
    by (auto simp: rbind_def comp_def dest!: parse_all_length split: sum.splits)
qed

lemma status_registry_complete_witness:
  "parse_status_registry [0xE3, 5, 0x4F, 3, 1, 2, 3] =
     Inr [\<lparr>re_aid = [1, 2, 3], re_life_cycle = 0, re_privileges = (0, 0, 0), re_associated_sd_aid = None,
           re_elf_aid = None, re_modules = []\<rparr>]
   \<and> (\<exists>top os. parse [0xE3, 5, 0x4F, 3, 1, 2, 3] = Inr top
        \<and> parse_all (filter (\<lambda>t. tlv_tag t = TAG_GP_REGISTRY) top) = Inr os \<and> length os = 1)"
proof -
  have p: "parse_status_registry [0xE3, 5, 0x4F, 3, 1, 2, 3] =
     Inr [\<lparr>re_aid = [1, 2, 3], re_life_cycle = 0, re_privileges = (0, 0, 0), re_associated_sd_aid = None,
           re_elf_aid = None, re_modules = []\<rparr>]"
    by code_simp
  have l: "length [0xE3, 5, 0x4F, 3, 1, 2, 3 :: u8] < 2 ^ 64" by simp
  from status_registry_complete [OF l, THEN iffD1, OF p] obtain top os where
    "parse [0xE3, 5, 0x4F, 3, 1, 2, 3] = Inr top"
    "parse_all (filter (\<lambda>t. tlv_tag t = TAG_GP_REGISTRY) top) = Inr os"
    and os: "[\<lparr>re_aid = [1, 2, 3], re_life_cycle = 0, re_privileges = (0, 0, 0), re_associated_sd_aid = None,
           re_elf_aid = None, re_modules = []\<rparr>] = map registry_entry_of os"
    by (elim exE conjE) (rule that)
  moreover from os have "length os = 1" by (metis length_map One_nat_def list.size(3,4) add_0)
  ultimately show ?thesis using p by blast
qed

end
