(* ===== verification/Scll_Command.thy ===== *)
theory Scll_Command
  imports Scll_Model
begin

text \<open>
  \<open>scll-core/src/command/\<close>: the builders of the plaintext command APDUs.

  A builder appends to a bounded buffer (\<open>Capdu\<close>, at most 261 octets), so \<open>push\<close>, \<open>push_lv\<close> and
  \<open>push_privileges\<close> are programs over that buffer. \<open>short_apdu\<close> is the layout of ISO/IEC 7816-4
  and \<open>split_apdu\<close> reads it back; \<open>built\<close> collects everything the builders can return.
\<close>

section \<open>The program\<close>

type_synonym capdu = bytes

definition push :: "bytes \<Rightarrow> (capdu, build_error, unit) prog" where
  "push src out = (case vec_extend CAPDU_MAX out src of
     None \<Rightarrow> (Inl BuildOverflow, out)
   | Some out \<Rightarrow> (Inr (), out))"

definition push_lv :: "bytes \<Rightarrow> (capdu, build_error, unit) prog" where
  "push_lv bs = (case u8_try_from (length bs) of
     None \<Rightarrow> throw BuildOverflow
   | Some len \<Rightarrow> thenP (push [len]) (push bs))"

text \<open>Run a sequence of pushes on a fresh buffer and take the buffer.\<close>

definition capdu_of :: "(capdu, build_error, unit) prog \<Rightarrow> build_error + capdu" where
  "capdu_of m = (case m [] of (Inl e, _) \<Rightarrow> Inl e | (Inr _, out) \<Rightarrow> Inr out)"

definition build :: "u8 \<Rightarrow> u8 \<Rightarrow> u8 \<Rightarrow> u8 \<Rightarrow> bytes \<Rightarrow> bool \<Rightarrow> build_error + capdu" where
  "build cla ins p1 p2 data le = capdu_of (
     thenP (push [cla, ins, p1, p2]) (
     thenP (if data \<noteq> [] then
              (case u8_try_from (length data) of
                 None \<Rightarrow> throw BuildOverflow
               | Some lc \<Rightarrow> thenP (push [lc]) (push data))
            else ret ()) (
     if le then push [0x00] else ret ())))"

definition delete_object :: "bytes \<Rightarrow> bool \<Rightarrow> build_error + capdu" where
  "delete_object aid cascade =
     rbind (capdu_of (thenP (push [0x4F]) (push_lv aid))) (\<lambda>data.
     let p2 = (if cascade then 0x80 else 0x00) in
     build 0x84 0xE4 0x00 p2 data True)"

definition delete_key :: "u8 option \<Rightarrow> u8 option \<Rightarrow> build_error + capdu" where
  "delete_key kid kvn =
    (if kid = None \<and> kvn = None then Inl EmptyKeyScope
     else rbind (capdu_of (
        thenP (case kid of Some kid \<Rightarrow> push [0xD0, 0x01, kid] | None \<Rightarrow> ret ())
              (case kvn of Some kvn \<Rightarrow> push [0xD2, 0x01, kvn] | None \<Rightarrow> ret ()))) (\<lambda>data.
      build 0x84 0xE4 0x00 0x00 data True))"

definition get_data :: "u16 \<Rightarrow> build_error + capdu" where
  "get_data tag_p1p2 =
    (let p1 = ucast (drop_bit 8 tag_p1p2); p2 = ucast tag_p1p2 in build 0x80 0xCA p1 p2 [] True)"

definition P2_FIRST_TLV :: u8 where "P2_FIRST_TLV = 0x02"
definition P2_NEXT_TLV :: u8 where "P2_NEXT_TLV = 0x03"

definition get_status_p2 :: "u8 \<Rightarrow> u8 \<Rightarrow> bytes \<Rightarrow> build_error + capdu" where
  "get_status_p2 p1 p2 aid_qualifier =
     rbind (capdu_of (thenP (push [0x4F]) (push_lv aid_qualifier))) (\<lambda>data.
     build 0x80 0xF2 p1 p2 data True)"

definition get_status :: "u8 \<Rightarrow> bytes \<Rightarrow> build_error + capdu" where
  "get_status p1 aid_qualifier = get_status_p2 p1 P2_FIRST_TLV aid_qualifier"

definition push_privileges :: "privileges \<Rightarrow> priv_len \<Rightarrow> (capdu, build_error, unit) prog" where
  "push_privileges privileges enc =
    (case privileges of (b0, b1, b2) \<Rightarrow>
     let has_extended = (b1 \<noteq> 0 \<or> b2 \<noteq> 0);
         len = (if has_extended then 3 else (case enc of Canonical \<Rightarrow> 3 | Jcop1Byte \<Rightarrow> 1))
     in push_lv (take len [b0, b1, b2]))"

definition install_for_load :: "bytes \<Rightarrow> bytes \<Rightarrow> bytes \<Rightarrow> build_error + capdu" where
  "install_for_load package_aid target_sd_aid lfdb_hash =
     rbind (capdu_of (
       thenP (push_lv package_aid) (
       thenP (push_lv target_sd_aid) (
       thenP (push_lv lfdb_hash) (
       thenP (push_lv []) (push_lv [])))))) (\<lambda>data.
     build 0x84 0xE6 0x02 0x00 data True)"

definition install_for_install_make_selectable ::
    "bytes \<Rightarrow> bytes \<Rightarrow> bytes \<Rightarrow> privileges \<Rightarrow> priv_len \<Rightarrow> bytes \<Rightarrow> build_error + capdu" where
  "install_for_install_make_selectable elf_aid module_aid instance_aid privileges priv_len install_params =
     rbind (capdu_of (
       thenP (push_lv elf_aid) (
       thenP (push_lv module_aid) (
       thenP (push_lv instance_aid) (
       thenP (push_privileges privileges priv_len) (
       thenP (push_lv install_params) (push_lv []))))))) (\<lambda>data.
     build 0x84 0xE6 0x0C 0x00 data True)"

definition load_block :: "u8 \<Rightarrow> bool \<Rightarrow> bytes \<Rightarrow> build_error + capdu" where
  "load_block block_no is_last chunk =
    (let p1 = (if is_last then 0x80 else 0x00) in build 0x84 0xE8 p1 block_no chunk True)"

definition PUT_KEY_TYPE_AES :: u8 where "PUT_KEY_TYPE_AES = 0x88"

record key_block =
  kb_key_type :: u8
  kb_encrypted_key :: bytes
  kb_kcv :: bytes
  kb_clear_key_len :: u8

definition push_key_block :: "key_block \<Rightarrow> (capdu, build_error, unit) prog" where
  "push_key_block block = (case u8_try_from (length (kb_encrypted_key block)) of
     None \<Rightarrow> throw BuildOverflow
   | Some key_len \<Rightarrow>
      thenP (if kb_key_type block = PUT_KEY_TYPE_AES then
          (case u8_checked_add key_len 1 of
             None \<Rightarrow> throw BuildOverflow
           | Some block_len \<Rightarrow> push [kb_key_type block, block_len, kb_clear_key_len block])
        else push [kb_key_type block, key_len]) (
      thenP (push (kb_encrypted_key block)) (
      thenP (push [0x03]) (push (kb_kcv block)))))"

primrec push_key_blocks :: "key_block list \<Rightarrow> (capdu, build_error, unit) prog" where
  "push_key_blocks [] = ret ()"
| "push_key_blocks (block # blocks) = thenP (push_key_block block) (push_key_blocks blocks)"

definition put_key :: "u8 \<Rightarrow> u8 \<Rightarrow> key_block list \<Rightarrow> build_error + capdu" where
  "put_key p1 new_kvn blocks =
     rbind (capdu_of (thenP (push [new_kvn]) (push_key_blocks blocks))) (\<lambda>data.
     build 0x84 0xD8 p1 0x81 data True)"

definition BEGIN_P1_RMAC :: u8 where "BEGIN_P1_RMAC = 0x10"
definition END_P2_END_AND_RETURN :: u8 where "END_P2_END_AND_RETURN = 0x03"
definition END_P2_RETURN_ONLY :: u8 where "END_P2_RETURN_ONLY = 0x01"

definition begin_rmac_session :: "bytes \<Rightarrow> build_error + capdu" where
  "begin_rmac_session data =
    (if data = [] \<or> length data > 24 then Inl BuildOverflow
     else rbind (capdu_of (push_lv data)) (\<lambda>field. build 0x80 0x7A BEGIN_P1_RMAC 0x00 field True))"

definition end_rmac_session :: "bool \<Rightarrow> capdu" where
  "end_rmac_session end_session =
    (let p2 = (if end_session then END_P2_END_AND_RETURN else END_P2_RETURN_ONLY)
     in case vec_extend CAPDU_MAX [] [0x80, 0x78, 0x00, p2, 0x00] of None \<Rightarrow> [] | Some apdu \<Rightarrow> apdu)"

definition select_by_aid :: "bytes \<Rightarrow> build_error + capdu" where
  "select_by_aid aid = build 0x00 0xA4 0x04 0x00 aid True"

definition set_card_status_cmd :: "u8 \<Rightarrow> bytes \<Rightarrow> build_error + capdu" where
  "set_card_status_cmd p2_state isd_aid = build 0x84 0xF0 0x80 p2_state isd_aid False"

section \<open>Layout of a short APDU\<close>

definition short_apdu :: "u8 \<Rightarrow> u8 \<Rightarrow> u8 \<Rightarrow> u8 \<Rightarrow> bytes \<Rightarrow> bool \<Rightarrow> bytes" where
  "short_apdu cla ins p1 p2 data le =
     [cla, ins, p1, p2] @ (if data = [] then [] else of_nat (length data) # data) @ (if le then [0] else [])"

definition lv :: "bytes \<Rightarrow> bytes" where
  "lv bs = of_nat (length bs) # bs"

text \<open>The four cases of ISO/IEC 7816-4, read back: header, data field, presence of Le.\<close>

fun split_apdu :: "bytes \<Rightarrow> ((u8 \<times> u8 \<times> u8 \<times> u8) \<times> bytes \<times> bool) option" where
  "split_apdu [cla, ins, p1, p2] = Some ((cla, ins, p1, p2), [], False)"
| "split_apdu [cla, ins, p1, p2, le] = (if le = 0 then Some ((cla, ins, p1, p2), [], True) else None)"
| "split_apdu (cla # ins # p1 # p2 # lc # rest) =
    (if lc = 0 then None
     else if length rest = unat lc then Some ((cla, ins, p1, p2), rest, False)
     else if length rest = unat lc + 1 \<and> last rest = 0 then Some ((cla, ins, p1, p2), butlast rest, True)
     else None)"
| "split_apdu _ = None"

lemma split_short_apdu:
  assumes "length data \<le> 255"
  shows "split_apdu (short_apdu cla ins p1 p2 data le) = Some ((cla, ins, p1, p2), data, le)"
proof (cases data)
  case Nil
  then show ?thesis by (simp add: short_apdu_def)
next
  case (Cons d ds)
  let ?lc = "of_nat (length data) :: u8"
  have lc: "unat ?lc = length data" using assms by (simp add: unat_of_nat)
  then have "?lc \<noteq> 0" using Cons by (metis list.discI length_0_conv unat_0)
  moreover have "short_apdu cla ins p1 p2 data le = cla # ins # p1 # p2 # ?lc # d # ds @ (if le then [0] else [])"
    using Cons by (simp add: short_apdu_def)
  ultimately show ?thesis using lc Cons by (cases le) (auto simp: butlast_append)
qed

lemma length_short_apdu: "length (short_apdu cla ins p1 p2 data le) \<le> length data + 6"
  by (simp add: short_apdu_def)

text \<open>
  \<open>writes m bs\<close>: on a buffer that becomes a command's data field, \<open>m\<close> appends \<open>bs\<close> when the
  result still has at most 255 octets; otherwise it either fails with \<open>Overflow\<close> or leaves more
  than 255 octets, which \<open>build\<close> then refuses.
\<close>

definition writes :: "(capdu, build_error, unit) prog \<Rightarrow> bytes \<Rightarrow> bool" where
  "writes m bs \<longleftrightarrow> (\<forall>out.
     (length out + length bs \<le> 255 \<longrightarrow> m out = (Inr (), out @ bs)) \<and>
     (255 < length out + length bs \<longrightarrow>
        (case m out of (Inl e, _) \<Rightarrow> e = BuildOverflow | (Inr _, out') \<Rightarrow> 255 < length out')))"

lemma writes_push [intro]: "writes (push bs) bs"
  by (auto simp: writes_def push_def vec_extend_def limit_simps)

lemma writes_ret [intro]: "writes (ret ()) []"
  by (simp add: writes_def)

lemma writes_throw: "255 < length bs \<Longrightarrow> writes (throw BuildOverflow) bs"
  by (simp add: writes_def)

lemma writes_seq [intro]:
  assumes "writes m a" "writes n b"
  shows "writes (thenP m n) (a @ b)"
  unfolding writes_def
proof (intro allI)
  fix out
  show "(length out + length (a @ b) \<le> 255 \<longrightarrow> thenP m n out = (Inr (), out @ a @ b)) \<and>
     (255 < length out + length (a @ b) \<longrightarrow>
        (case thenP m n out of (Inl e, _) \<Rightarrow> e = BuildOverflow | (Inr _, out') \<Rightarrow> 255 < length out'))"
  proof (cases "length out + length a \<le> 255")
    case True
    then have "thenP m n out = n (out @ a)" using assms(1) by (simp add: writes_def thenP_def bindP_def)
    then show ?thesis using assms(2) [unfolded writes_def, rule_format, of "out @ a"] by (simp add: add.assoc)
  next
    case False
    then have m: "case m out of (Inl e, _) \<Rightarrow> e = BuildOverflow | (Inr _, out') \<Rightarrow> 255 < length out'"
      using assms(1) by (simp add: writes_def)
    have n: "case n out' of (Inl e, _) \<Rightarrow> e = BuildOverflow | (Inr _, out'') \<Rightarrow> 255 < length out''"
      if "255 < length out'" for out'
      using assms(2) that by (simp add: writes_def)
    show ?thesis
    proof (cases "m out")
      case (Pair r out1)
      then show ?thesis using False m n [of out1] by (cases r) (simp_all add: thenP_def bindP_def)
    qed
  qed
qed

lemma writes_lv [intro]: "writes (push_lv bs) (lv bs)"
proof (cases "length bs < 256")
  case True
  then show ?thesis
    using writes_seq [OF writes_push writes_push, of "[of_nat (length bs)]" bs]
    by (simp add: push_lv_def u8_try_from_def lv_def)
next
  case False
  then show ?thesis using writes_throw [of "lv bs"] by (simp add: push_lv_def u8_try_from_def lv_def)
qed

lemma build_eq:
  "build cla ins p1 p2 data le =
    (if length data \<le> 255 then Inr (short_apdu cla ins p1 p2 data le) else Inl BuildOverflow)"
  by (auto simp: build_def capdu_of_def push_def vec_extend_def u8_try_from_def thenP_def bindP_def
      short_apdu_def limit_simps)

lemma framed:
  assumes "writes m bs"
  shows "rbind (capdu_of m) (\<lambda>data. build cla ins p1 p2 data le) =
    (if length bs \<le> 255 then Inr (short_apdu cla ins p1 p2 bs le) else Inl BuildOverflow)"
  using assms [unfolded writes_def, rule_format, of "[]"]
  by (auto simp: capdu_of_def build_eq split: prod.splits sum.splits)

section \<open>What each builder returns\<close>

lemma lv_length [simp]: "length (lv bs) = Suc (length bs)"
  by (simp add: lv_def)

lemma delete_object_eq:
  "delete_object aid cascade = (if length aid \<le> 253
     then Inr (short_apdu 0x84 0xE4 0x00 (if cascade then 0x80 else 0x00) (0x4F # lv aid) True)
     else Inl BuildOverflow)"
  unfolding delete_object_def Let_def
  by (subst framed [OF writes_seq [OF writes_push writes_lv]]) simp

lemma get_status_p2_eq:
  "get_status_p2 p1 p2 aid = (if length aid \<le> 253
     then Inr (short_apdu 0x80 0xF2 p1 p2 (0x4F # lv aid) True) else Inl BuildOverflow)"
  unfolding get_status_p2_def
  by (subst framed [OF writes_seq [OF writes_push writes_lv]]) simp

definition key_scope :: "u8 option \<Rightarrow> u8 option \<Rightarrow> bytes" where
  "key_scope kid kvn =
     (case kid of Some k \<Rightarrow> [0xD0, 0x01, k] | None \<Rightarrow> []) @ (case kvn of Some v \<Rightarrow> [0xD2, 0x01, v] | None \<Rightarrow> [])"

lemma delete_key_eq:
  "delete_key kid kvn = (if kid = None \<and> kvn = None then Inl EmptyKeyScope
     else Inr (short_apdu 0x84 0xE4 0x00 0x00 (key_scope kid kvn) True))"
proof -
  have "writes (thenP (case kid of Some kid \<Rightarrow> push [0xD0, 0x01, kid] | None \<Rightarrow> ret ())
              (case kvn of Some kvn \<Rightarrow> push [0xD2, 0x01, kvn] | None \<Rightarrow> ret ())) (key_scope kid kvn)"
    unfolding key_scope_def by (intro writes_seq) (auto split: option.splits)
  moreover have "length (key_scope kid kvn) \<le> 255" by (auto simp: key_scope_def split: option.splits)
  ultimately show ?thesis by (simp add: delete_key_def framed)
qed

lemma get_data_eq:
  "get_data tag = Inr (short_apdu 0x80 0xCA (ucast (drop_bit 8 tag)) (ucast tag) [] True)"
  by (simp add: get_data_def build_eq)

lemma install_for_load_eq:
  "install_for_load p t h =
    (if length p + length t + length h \<le> 250
     then Inr (short_apdu 0x84 0xE6 0x02 0x00 (concat (map lv [p, t, h, [], []])) True)
     else Inl BuildOverflow)"
proof -
  have "writes (thenP (push_lv p) (thenP (push_lv t) (thenP (push_lv h) (thenP (push_lv []) (push_lv [])))))
      (lv p @ lv t @ lv h @ lv [] @ lv [])"
    by (intro writes_seq writes_lv)
  from framed [OF this] show ?thesis by (simp add: install_for_load_def)
qed

definition privileges_field :: "privileges \<Rightarrow> priv_len \<Rightarrow> bytes" where
  "privileges_field p enc = (case p of (b0, b1, b2) \<Rightarrow>
     if b1 = 0 \<and> b2 = 0 \<and> enc = Jcop1Byte then [b0] else [b0, b1, b2])"

lemma push_privileges_eq: "push_privileges p enc = push_lv (privileges_field p enc)"
  by (cases enc) (auto simp: push_privileges_def privileges_field_def split: prod.splits)

lemma install_for_install_make_selectable_eq:
  "install_for_install_make_selectable e m a p enc params =
    (if length (concat (map lv [e, m, a, privileges_field p enc, params, []])) \<le> 255
     then Inr (short_apdu 0x84 0xE6 0x0C 0x00 (concat (map lv [e, m, a, privileges_field p enc, params, []])) True)
     else Inl BuildOverflow)"
proof -
  have "writes (thenP (push_lv e) (thenP (push_lv m) (thenP (push_lv a) (thenP (push_privileges p enc)
      (thenP (push_lv params) (push_lv []))))))
      (lv e @ lv m @ lv a @ lv (privileges_field p enc) @ lv params @ lv [])"
    unfolding push_privileges_eq by (intro writes_seq writes_lv)
  from framed [OF this] show ?thesis
    by (simp only: install_for_install_make_selectable_def list.map concat.simps append_Nil2)
qed

lemma load_block_eq:
  "load_block n is_last chunk = (if length chunk \<le> 255
     then Inr (short_apdu 0x84 0xE8 (if is_last then 0x80 else 0x00) n chunk True) else Inl BuildOverflow)"
  by (simp add: load_block_def Let_def build_eq)

definition key_block_bytes :: "key_block \<Rightarrow> bytes" where
  "key_block_bytes b =
    (if kb_key_type b = 0x88
     then [0x88, of_nat (length (kb_encrypted_key b) + 1), kb_clear_key_len b]
     else [kb_key_type b, of_nat (length (kb_encrypted_key b))])
    @ kb_encrypted_key b @ [0x03] @ kb_kcv b"

lemma writes_push4:
  "writes (thenP (push a) (thenP (push b) (thenP (push c) (push d)))) (a @ b @ c @ d)"
  by (intro writes_seq writes_push)

lemma writes_key_block: "writes (push_key_block b) (key_block_bytes b)"
proof (cases "length (kb_encrypted_key b) < 255")
  case True
  then have l: "u8_try_from (length (kb_encrypted_key b)) = Some (of_nat (length (kb_encrypted_key b)))"
    and a: "u8_checked_add (of_nat (length (kb_encrypted_key b))) 1 =
        Some (of_nat (length (kb_encrypted_key b) + 1))"
    by (simp_all add: u8_try_from_def u8_checked_add_def unat_of_nat)
  then show ?thesis
    using writes_push4 [of "[0x88, of_nat (length (kb_encrypted_key b) + 1), kb_clear_key_len b]"
        "kb_encrypted_key b" "[0x03]" "kb_kcv b"]
      writes_push4 [of "[kb_key_type b, of_nat (length (kb_encrypted_key b))]"
        "kb_encrypted_key b" "[0x03]" "kb_kcv b"]
    by (cases "kb_key_type b = 0x88")
      (simp_all add: push_key_block_def key_block_bytes_def PUT_KEY_TYPE_AES_def l a)
next
  case False
  show ?thesis
  proof (cases "kb_key_type b \<noteq> 0x88 \<and> length (kb_encrypted_key b) = 255")
    case True
    then have l: "u8_try_from (length (kb_encrypted_key b)) = Some (of_nat (length (kb_encrypted_key b)))"
      by (simp add: u8_try_from_def)
    then show ?thesis using True
        writes_push4 [of "[kb_key_type b, of_nat (length (kb_encrypted_key b))]"
          "kb_encrypted_key b" "[0x03]" "kb_kcv b"]
      by (simp add: push_key_block_def key_block_bytes_def PUT_KEY_TYPE_AES_def l)
  next
    case 2: False
    have "push_key_block b = throw BuildOverflow"
    proof (cases "length (kb_encrypted_key b) = 255")
      case True
      then show ?thesis using 2
        by (simp add: push_key_block_def u8_try_from_def u8_checked_add_def PUT_KEY_TYPE_AES_def
            thenP_def unat_of_nat)
    next
      case 3: False
      then show ?thesis using False by (simp add: push_key_block_def u8_try_from_def)
    qed
    then show ?thesis using False writes_throw [of "key_block_bytes b"] by (simp add: key_block_bytes_def)
  qed
qed

lemma writes_key_blocks: "writes (push_key_blocks bs) (concat (map key_block_bytes bs))"
  by (induction bs)
    (simp_all only: push_key_blocks.simps list.map concat.simps writes_ret writes_seq writes_key_block)

lemma put_key_eq:
  "put_key p1 kvn blocks =
    (if length (concat (map key_block_bytes blocks)) \<le> 254
     then Inr (short_apdu 0x84 0xD8 p1 0x81 (kvn # concat (map key_block_bytes blocks)) True)
     else Inl BuildOverflow)"
  unfolding put_key_def
  by (subst framed [OF writes_seq [OF writes_push writes_key_blocks]]) simp

text \<open>C36: PUT KEY carries the new key version, then one block per key: for an AES key its type, the
  block length, the clear key length, the encrypted key, and the check value behind its length;
  for a triple-DES key the same without the clear key length. It fails exactly when the data
  field exceeds 255 octets.\<close>

theorem put_key_layout:
  "put_key p1 kvn blocks =
    (if length (concat (map key_block_bytes blocks)) \<le> 254
     then Inr (short_apdu 0x84 0xD8 p1 0x81 (kvn # concat (map key_block_bytes blocks)) True)
     else Inl BuildOverflow)"
  by (rule put_key_eq)

lemma begin_rmac_session_eq:
  "begin_rmac_session data = (if data = [] \<or> length data > 24 then Inl BuildOverflow
     else Inr (short_apdu 0x80 0x7A 0x10 0x00 (lv data) True))"
  by (simp add: begin_rmac_session_def framed [OF writes_lv] BEGIN_P1_RMAC_def)

lemma end_rmac_session_eq:
  "end_rmac_session e = short_apdu 0x80 0x78 0x00 (if e then 0x03 else 0x01) [] True"
  by (simp add: end_rmac_session_def short_apdu_def vec_extend_def limit_simps
      END_P2_END_AND_RETURN_def END_P2_RETURN_ONLY_def)

lemma select_by_aid_eq:
  "select_by_aid aid = (if length aid \<le> 255
     then Inr (short_apdu 0x00 0xA4 0x04 0x00 aid True) else Inl BuildOverflow)"
  by (simp add: select_by_aid_def build_eq)

lemma set_card_status_cmd_eq:
  "set_card_status_cmd p2 aid = (if length aid \<le> 255
     then Inr (short_apdu 0x84 0xF0 0x80 p2 aid False) else Inl BuildOverflow)"
  by (simp add: set_card_status_cmd_def build_eq)

section \<open>Every built command is a short APDU\<close>

text \<open>The commands the library can build.\<close>

inductive built :: "bytes \<Rightarrow> bool" where
  "delete_object aid cascade = Inr apdu \<Longrightarrow> built apdu"
| "delete_key kid kvn = Inr apdu \<Longrightarrow> built apdu"
| "get_data tag = Inr apdu \<Longrightarrow> built apdu"
| "get_status_p2 p1 p2 aid = Inr apdu \<Longrightarrow> built apdu"
| "install_for_load package sd hash = Inr apdu \<Longrightarrow> built apdu"
| "install_for_install_make_selectable elf module inst privs enc params = Inr apdu \<Longrightarrow> built apdu"
| "load_block n is_last chunk = Inr apdu \<Longrightarrow> built apdu"
| "put_key p1 kvn blocks = Inr apdu \<Longrightarrow> built apdu"
| "begin_rmac_session data = Inr apdu \<Longrightarrow> built apdu"
| "built (end_rmac_session e)"
| "select_by_aid aid = Inr apdu \<Longrightarrow> built apdu"
| "set_card_status_cmd p2 aid = Inr apdu \<Longrightarrow> built apdu"

lemmas builder_eqs = delete_object_eq delete_key_eq get_data_eq get_status_p2_eq install_for_load_eq
  install_for_install_make_selectable_eq load_block_eq put_key_eq begin_rmac_session_eq
  select_by_aid_eq set_card_status_cmd_eq

lemma built_short_apdu:
  "built apdu \<Longrightarrow> \<exists>cla ins p1 p2 data le. apdu = short_apdu cla ins p1 p2 data le \<and> length data \<le> 255"
proof (induction rule: built.induct)
  case (2 kid kvn apdu)
  have "length (key_scope kid kvn) \<le> 255" by (auto simp: key_scope_def split: option.splits)
  moreover have "apdu = short_apdu 0x84 0xE4 0x00 0x00 (key_scope kid kvn) True"
    using 2 unfolding delete_key_eq by (auto split: if_splits)
  ultimately show ?case by blast
next
  case (5 package sd hash apdu)
  let ?d = "concat (map lv [package, sd, hash, [], []])"
  have "length ?d \<le> 255" "apdu = short_apdu 0x84 0xE6 0x02 0x00 ?d True"
    using 5 unfolding install_for_load_eq by (auto split: if_splits)
  then show ?case by blast
next
  case (8 p1 kvn blocks apdu)
  let ?d = "kvn # concat (map key_block_bytes blocks)"
  have "length ?d \<le> 255" "apdu = short_apdu 0x84 0xD8 p1 0x81 ?d True"
    using 8 unfolding put_key_eq by (auto split: if_splits)
  then show ?case by blast
qed (use end_rmac_session_eq in \<open>fastforce simp: builder_eqs split: if_splits\<close>)+

text \<open>C30: every command a builder returns is a short APDU of at most \<open>CAPDU_MAX\<close> octets whose
  header, data field and Le can be read back without ambiguity.\<close>

theorem built_is_short_apdu:
  assumes "built apdu"
  shows "length apdu \<le> CAPDU_MAX \<and>
    (\<exists>cla ins p1 p2 data le. split_apdu apdu = Some ((cla, ins, p1, p2), data, le)
       \<and> length data \<le> 255 \<and> apdu = short_apdu cla ins p1 p2 data le)"
proof -
  obtain cla ins p1 p2 data le where a: "apdu = short_apdu cla ins p1 p2 data le" "length data \<le> 255"
    using built_short_apdu [OF assms] by blast
  then have "length apdu \<le> 261" using length_short_apdu [of cla ins p1 p2 data le] by simp
  moreover have "split_apdu apdu = Some ((cla, ins, p1, p2), data, le)"
    unfolding a(1) by (rule split_short_apdu [OF a(2)])
  ultimately show ?thesis using a by (auto simp: limit_simps)
qed

lemma built_is_short_apdu_witness:
  "length [0x84, 0xE4, 0, 0, 3, 0xD2, 1, 0x30, 0 :: u8] \<le> CAPDU_MAX"
proof -
  have "delete_key None (Some 0x30) = Inr [0x84, 0xE4, 0, 0, 3, 0xD2, 1, 0x30, 0]" by code_simp
  from built_is_short_apdu [OF built.intros(2) [OF this]] show ?thesis by blast
qed

section \<open>Reading the length-prefixed fields back\<close>

function read_lvs :: "bytes \<Rightarrow> bytes list option" where
  "read_lvs [] = Some []"
| "read_lvs (l # rest) = (if length rest < unat l then None
     else map_option ((#) (take (unat l) rest)) (read_lvs (drop (unat l) rest)))"
  by pat_completeness auto
termination by (relation "measure length") auto

lemma read_lvs_lv: "length f \<le> 255 \<Longrightarrow> read_lvs (lv f @ rest) = map_option ((#) f) (read_lvs rest)"
  by (simp add: lv_def unat_of_nat)

lemma read_lvs_concat: "\<forall>f \<in> set fs. length f \<le> 255 \<Longrightarrow> read_lvs (concat (map lv fs)) = Some fs"
  by (induction fs) (auto simp: read_lvs_lv)

end
