(* ===== verification/Scll_Scp.thy ===== *)
theory Scll_Scp
  imports Scll_Command
begin

text \<open>
  \<open>scll-core/src/scp/\<close>, the pure part: selection of the protocol version, the framing of
  INITIALIZE UPDATE and EXTERNAL AUTHENTICATE, the parsing of the card's answer, and the capping
  of the security level. The names of the two protocol modules carry the suffixes 03 and 02.
\<close>

section \<open>The program\<close>

subsection \<open>SCP03\<close>

definition INS_INITIALIZE_UPDATE :: u8 where "INS_INITIALIZE_UPDATE = 0x50"
definition INS_EXTERNAL_AUTHENTICATE :: u8 where "INS_EXTERNAL_AUTHENTICATE = 0x82"
definition SCP_ID_SCP03 :: u8 where "SCP_ID_SCP03 = 0x03"
definition IU_PREFIX_LEN :: usize where "IU_PREFIX_LEN = 13"
definition IU_I_OFFSET :: usize where "IU_I_OFFSET = 12"
definition SEQ_COUNTER_LEN :: usize where "SEQ_COUNTER_LEN = 3"
definition I_S16 :: u8 where "I_S16 = 0x08"
definition I_PSEUDO_RANDOM :: u8 where "I_PSEUDO_RANDOM = 0x10"
definition I_RMAC :: u8 where "I_RMAC = 0x20"
definition I_RENC :: u8 where "I_RENC = 0x40"

lemmas i_bits = I_S16_def I_PSEUDO_RANDOM_def I_RMAC_def I_RENC_def
lemmas iu_consts = IU_PREFIX_LEN_def IU_I_OFFSET_def SEQ_COUNTER_LEN_def SCP_ID_SCP03_def

datatype scp_mode = S8 | S16

definition from_i :: "u8 \<Rightarrow> scp_mode" where
  "from_i i_param = (if i_param AND 0x08 \<noteq> 0 then S16 else S8)"

primrec field_len :: "scp_mode \<Rightarrow> usize" where
  "field_len S8 = 8"
| "field_len S16 = 16"

definition mac_len :: "scp_mode \<Rightarrow> usize" where
  "mac_len m = field_len m"

primrec l_bits :: "scp_mode \<Rightarrow> u16" where
  "l_bits S8 = 0x0040"
| "l_bits S16 = 0x0080"

record iu_response03 =
  iu3_kvn :: u8
  iu3_i_param :: u8
  iu3_mode :: scp_mode
  iu3_card_challenge :: bytes
  iu3_card_cryptogram :: bytes
  iu3_sequence_counter :: "bytes option"

definition i_supported :: "u8 \<Rightarrow> bool" where
  "i_supported i_param =
    (if i_param AND NOT (I_S16 OR I_PSEUDO_RANDOM OR I_RMAC OR I_RENC) \<noteq> 0 then False
     else \<not> (i_param AND I_RENC \<noteq> 0 \<and> i_param AND I_RMAC = 0))"

text \<open>\<open>extend\<close>: append to the command buffer, with the error wrapped for the caller.\<close>

definition extend_apdu :: "bytes \<Rightarrow> (capdu, scll_error, unit) prog" where
  "extend_apdu src = map_errP (\<lambda>_. Build BuildOverflow) (push src)"

definition apdu_of :: "(capdu, scll_error, unit) prog \<Rightarrow> scll_error + capdu" where
  "apdu_of m = (case m [] of (Inl e, _) \<Rightarrow> Inl e | (Inr _, out) \<Rightarrow> Inr out)"

definition iu_command03 :: "u8 \<Rightarrow> bytes \<Rightarrow> scll_error + capdu" where
  "iu_command03 kvn host_challenge =
     rbind (ok_or (Build BuildOverflow) (u8_try_from (length host_challenge))) (\<lambda>lc.
     apdu_of (thenP (extend_apdu [0x80, INS_INITIALIZE_UPDATE, kvn, 0x00, lc]) (
       thenP (extend_apdu host_challenge) (extend_apdu [0x00]))))"

definition ea_plaintext03 :: "u8 \<Rightarrow> bytes \<Rightarrow> scll_error + capdu" where
  "ea_plaintext03 security_level host_cryptogram =
     rbind (ok_or (Build BuildOverflow) (u8_try_from (length host_cryptogram))) (\<lambda>lc.
     apdu_of (thenP (extend_apdu [0x84, INS_EXTERNAL_AUTHENTICATE, security_level, 0x00, lc])
       (extend_apdu host_cryptogram)))"

text \<open>\<open>bytes[a..b]\<close>, used where the source has checked the length before.\<close>

definition subslice :: "bytes \<Rightarrow> usize \<Rightarrow> usize \<Rightarrow> bytes" where
  "subslice bs a b = take (b - a) (drop a bs)"

definition parse_iu_response03 :: "bytes \<Rightarrow> scll_error + iu_response03" where
  "parse_iu_response03 bs =
    (if length bs < IU_PREFIX_LEN \<or> bs ! 11 \<noteq> SCP_ID_SCP03 then Inl ScpProtocolUnsupported
     else
       let i_param = bs ! IU_I_OFFSET in
       if \<not> i_supported i_param then Inl NoCommonSecurityLevel
       else
         let mode = from_i i_param;
             field = field_len mode;
             pseudo = (i_param AND I_PSEUDO_RANDOM \<noteq> 0);
             expected = IU_PREFIX_LEN + 2 * field + (if pseudo then SEQ_COUNTER_LEN else 0) in
         if length bs \<noteq> expected then Inl ScpProtocolUnsupported
         else
           let chal_start = IU_PREFIX_LEN;
               crypto_start = chal_start + field;
               seq_start = crypto_start + field in
           rbind (ok_or ScpProtocolUnsupported
               (vec_extend SCP03_S16_MAX [] (subslice bs chal_start crypto_start))) (\<lambda>card_challenge.
           rbind (ok_or ScpProtocolUnsupported
               (vec_extend SCP03_S16_MAX [] (subslice bs crypto_start seq_start))) (\<lambda>card_cryptogram.
           let sequence_counter = (if pseudo
                 then Some (subslice bs seq_start (seq_start + SEQ_COUNTER_LEN)) else None) in
           Inr \<lparr>iu3_kvn = bs ! 10, iu3_i_param = i_param, iu3_mode = mode,
             iu3_card_challenge = card_challenge, iu3_card_cryptogram = card_cryptogram,
             iu3_sequence_counter = sequence_counter\<rparr>)))"

definition cap_security_level03 :: "u8 \<Rightarrow> u8 \<Rightarrow> scll_error + u8" where
  "cap_security_level03 i_param requested =
    (let allowed = 0x03;
         allowed = (if i_param AND I_RMAC \<noteq> 0 then allowed OR 0x10 else allowed);
         allowed = (if i_param AND I_RENC \<noteq> 0 then allowed OR 0x20 else allowed);
         effective = requested AND allowed in
     if effective = 0 then Inl NoCommonSecurityLevel else Inr effective)"

subsection \<open>SCP02\<close>

definition SCP_ID_SCP02 :: u8 where "SCP_ID_SCP02 = 0x02"
definition IU_RESPONSE_LEN :: usize where "IU_RESPONSE_LEN = 28"

record iu_response02 =
  iu2_kvn :: u8
  iu2_seq_counter :: bytes
  iu2_card_challenge :: bytes
  iu2_card_cryptogram :: bytes

definition iu_command02 :: "u8 \<Rightarrow> u8 \<Rightarrow> bytes \<Rightarrow> scll_error + capdu" where
  "iu_command02 kvn key_id host_challenge =
     apdu_of (thenP (extend_apdu [0x80, INS_INITIALIZE_UPDATE, kvn, key_id, 0x08]) (
       thenP (extend_apdu host_challenge) (extend_apdu [0x00])))"

definition ea_plaintext02 :: "u8 \<Rightarrow> bytes \<Rightarrow> scll_error + capdu" where
  "ea_plaintext02 security_level host_cryptogram =
     apdu_of (thenP (extend_apdu [0x84, INS_EXTERNAL_AUTHENTICATE, security_level, 0x00, 0x08])
       (extend_apdu host_cryptogram))"

definition parse_iu_response02 :: "bytes \<Rightarrow> scll_error + iu_response02" where
  "parse_iu_response02 bs =
    (if length bs \<noteq> IU_RESPONSE_LEN then Inl ScpProtocolUnsupported
     else if bs ! 11 \<noteq> SCP_ID_SCP02 then Inl ScpProtocolUnsupported
     else Inr \<lparr>iu2_kvn = bs ! 10, iu2_seq_counter = subslice bs 12 14,
       iu2_card_challenge = subslice bs 14 20, iu2_card_cryptogram = subslice bs 20 28\<rparr>)"

definition cap_security_level02 :: "u8 \<Rightarrow> u8 \<Rightarrow> scll_error + u8" where
  "cap_security_level02 i_param requested =
    (let allowed = 0x03;
         allowed = (if i_param = 0x15 \<or> i_param = 0x55 then allowed OR 0x10 else allowed);
         effective = requested AND allowed in
     if effective = 0 then Inl NoCommonSecurityLevel else Inr effective)"

subsection \<open>Selection\<close>

fun supported_scp03 :: "scp_variant \<Rightarrow> u8 option" where
  "supported_scp03 (Scp03 i) = (if i_supported i then Some i else None)"
| "supported_scp03 (Scp02 i) = None"

fun is_scp02 :: "scp_variant \<Rightarrow> bool" where
  "is_scp02 (Scp02 i) = True"
| "is_scp02 (Scp03 i) = False"

definition iter_max :: "'a::linorder list \<Rightarrow> 'a option" where
  "iter_max xs = (case xs of [] \<Rightarrow> None | x # xs \<Rightarrow> Some (fold max xs x))"

definition select :: "scp_variant list \<Rightarrow> scp_variant option \<Rightarrow> scp_variant option" where
  "select advertised force = (case force of
     Some forced \<Rightarrow> Some forced
   | None \<Rightarrow>
      (case iter_max (List.map_filter supported_scp03 advertised) of
         Some i_param \<Rightarrow> Some (Scp03 i_param)
       | None \<Rightarrow> List.find is_scp02 advertised))"

subsection \<open>Session handles\<close>

record scp03_state =
  st3_session :: u16
  st3_i_param :: u8
  st3_security_level :: u8
  st3_kvn :: u8

record scp02_state =
  st2_session :: u16
  st2_i_param :: u8
  st2_security_level :: u8
  st2_kvn :: u8

datatype scp_session = Scp03S scp03_state | Scp02S scp02_state

datatype scp_protocol = ProtoScp02 | ProtoScp03

primrec ses_security_level :: "scp_session \<Rightarrow> u8" where
  "ses_security_level (Scp03S s) = st3_security_level s"
| "ses_security_level (Scp02S s) = st2_security_level s"

primrec ses_i_param :: "scp_session \<Rightarrow> u8" where
  "ses_i_param (Scp03S s) = st3_i_param s"
| "ses_i_param (Scp02S s) = st2_i_param s"

primrec ses_kvn :: "scp_session \<Rightarrow> u8" where
  "ses_kvn (Scp03S s) = st3_kvn s"
| "ses_kvn (Scp02S s) = st2_kvn s"

primrec ses_protocol :: "scp_session \<Rightarrow> scp_protocol" where
  "ses_protocol (Scp03S s) = ProtoScp03"
| "ses_protocol (Scp02S s) = ProtoScp02"

primrec ses_id :: "scp_session \<Rightarrow> u64" where
  "ses_id (Scp03S s) = ucast (st3_session s)"
| "ses_id (Scp02S s) = ucast (st2_session s)"

section \<open>The INITIALIZE UPDATE response\<close>

lemma subslice_length [simp]: "b \<le> length bs \<Longrightarrow> length (subslice bs a b) = b - a"
  by (simp add: subslice_def)

text \<open>The layout of Amendment D 7.1.1.6: key diversification data, key version, protocol, \<open>i\<close>, card
  challenge, card cryptogram, sequence counter.\<close>

definition iu_layout03 :: "bytes \<Rightarrow> iu_response03 \<Rightarrow> bytes" where
  "iu_layout03 kdd iu = kdd @ [iu3_kvn iu, 0x03, iu3_i_param iu] @ iu3_card_challenge iu
     @ iu3_card_cryptogram iu @ (case iu3_sequence_counter iu of None \<Rightarrow> [] | Some sc \<Rightarrow> sc)"

definition iu_ok03 :: "iu_response03 \<Rightarrow> bool" where
  "iu_ok03 iu = (i_supported (iu3_i_param iu) \<and> iu3_mode iu = from_i (iu3_i_param iu)
     \<and> length (iu3_card_challenge iu) = field_len (iu3_mode iu)
     \<and> length (iu3_card_cryptogram iu) = field_len (iu3_mode iu)
     \<and> (case iu3_sequence_counter iu of
          None \<Rightarrow> iu3_i_param iu AND I_PSEUDO_RANDOM = 0
        | Some sc \<Rightarrow> iu3_i_param iu AND I_PSEUDO_RANDOM \<noteq> 0 \<and> length sc = SEQ_COUNTER_LEN))"

lemma field_len_le: "field_len m \<le> 16"
  by (cases m) auto

lemma subslice_mid:
  "length pre = a \<Longrightarrow> b = a + length mid \<Longrightarrow> subslice (pre @ mid @ post) a b = mid"
  by (simp add: subslice_def)

lemma parse_iu_response03_layout:
  assumes "length kdd = 10" "iu_ok03 iu"
  shows "parse_iu_response03 (iu_layout03 kdd iu) = Inr iu"
proof -
  let ?bs = "iu_layout03 kdd iu" let ?f = "field_len (iu3_mode iu)"
  have sc: "(iu3_sequence_counter iu = None \<and> iu3_i_param iu AND I_PSEUDO_RANDOM = 0)
    \<or> (\<exists>sc. iu3_sequence_counter iu = Some sc \<and> iu3_i_param iu AND I_PSEUDO_RANDOM \<noteq> 0 \<and> length sc = 3)"
    using assms(2) by (auto simp: iu_ok03_def iu_consts split: option.splits)
  have "?bs ! 10 = iu3_kvn iu" "?bs ! 11 = 0x03" "?bs ! 12 = iu3_i_param iu"
    using assms(1) by (simp_all add: iu_layout03_def nth_append)
  moreover have "length ?bs = 13 + 2 * ?f + (if iu3_i_param iu AND I_PSEUDO_RANDOM \<noteq> 0 then 3 else 0)"
    using assms sc by (auto simp: iu_layout03_def iu_ok03_def)
  moreover have "subslice ?bs 13 (13 + ?f) = iu3_card_challenge iu"
    using assms subslice_mid [of "kdd @ [iu3_kvn iu, 0x03, iu3_i_param iu]" 13 "13 + ?f" "iu3_card_challenge iu"]
    by (simp add: iu_layout03_def iu_ok03_def)
  moreover have "subslice ?bs (13 + ?f) (13 + ?f + ?f) = iu3_card_cryptogram iu"
    using assms subslice_mid [of "kdd @ [iu3_kvn iu, 0x03, iu3_i_param iu] @ iu3_card_challenge iu"
        "13 + ?f" "13 + ?f + ?f" "iu3_card_cryptogram iu"]
    by (simp add: iu_layout03_def iu_ok03_def)
  moreover have "subslice ?bs (13 + ?f + ?f) (13 + ?f + ?f + 3) = sc" if "iu3_sequence_counter iu = Some sc" for sc
    using assms that subslice_mid [of "kdd @ [iu3_kvn iu, 0x03, iu3_i_param iu] @ iu3_card_challenge iu
        @ iu3_card_cryptogram iu" "13 + ?f + ?f" "13 + ?f + ?f + 3" sc "[]"]
    by (simp add: iu_layout03_def iu_ok03_def iu_consts)
  ultimately show ?thesis
    using assms(2) sc field_len_le [of "iu3_mode iu"]
    by (auto simp: parse_iu_response03_def iu_consts iu_ok03_def Let_def vec_extend_def limit_simps)
qed

lemma parse_iu_response03_sound:
  assumes "parse_iu_response03 bs = Inr iu"
  shows "\<exists>kdd. length kdd = 10 \<and> bs = iu_layout03 kdd iu \<and> iu_ok03 iu"
proof -
  let ?i = "bs ! 12" let ?f = "field_len (from_i ?i)" let ?p = "?i AND I_PSEUDO_RANDOM \<noteq> 0"
  from assms have len: "length bs = 13 + 2 * ?f + (if ?p then 3 else 0)" and id: "bs ! 11 = 0x03"
    and sup: "i_supported ?i"
    and iu: "iu = \<lparr>iu3_kvn = bs ! 10, iu3_i_param = ?i, iu3_mode = from_i ?i,
      iu3_card_challenge = subslice bs 13 (13 + ?f), iu3_card_cryptogram = subslice bs (13 + ?f) (13 + ?f + ?f),
      iu3_sequence_counter = (if ?p then Some (subslice bs (13 + ?f + ?f) (13 + ?f + ?f + 3)) else None)\<rparr>"
    by (auto simp: parse_iu_response03_def iu_consts Let_def vec_extend_def split: if_splits)
  have split: "drop a bs = subslice bs a b @ drop b bs" if "a \<le> b" for a b
    using that unfolding subslice_def by (metis append_take_drop_id drop_drop le_add_diff_inverse2)
  have one: "drop a bs = bs ! a # drop (Suc a) bs" if "a < 13" for a
    using that len by (simp add: Cons_nth_drop_Suc)
  have "bs = take 10 bs @ drop 10 bs" by simp
  also have "drop 10 bs = [bs ! 10, bs ! 11, ?i] @ drop 13 bs"
    using one [of 10] one [of 11] one [of 12] by simp
  also have "drop 13 bs = subslice bs 13 (13 + ?f) @ subslice bs (13 + ?f) (13 + ?f + ?f) @ drop (13 + ?f + ?f) bs"
    using split [of 13 "13 + ?f"] split [of "13 + ?f" "13 + ?f + ?f"] by simp
  finally have "bs = iu_layout03 (take 10 bs) iu"
    using len id split [of "13 + ?f + ?f" "13 + ?f + ?f + 3"] by (auto simp: iu_layout03_def iu)
  moreover have "iu_ok03 iu" using len sup by (auto simp: iu_ok03_def iu iu_consts)
  moreover have "length (take 10 bs) = 10" using len by simp
  ultimately show ?thesis by blast
qed

text \<open>The INITIALIZE UPDATE response of SCP03 is parsed exactly: the accepted byte strings are those
  of the four layouts (8 or 16 octet fields, with or without the sequence counter, as the \<open>i\<close>
  octet says), and the fields returned are the ones that rebuild the response.\<close>

lemma parse_iu_response03_iff:
  "parse_iu_response03 bs = Inr iu \<longleftrightarrow>
     (\<exists>kdd. length kdd = 10 \<and> bs = iu_layout03 kdd iu \<and> iu_ok03 iu)"
  using parse_iu_response03_sound parse_iu_response03_layout by blast

lemma parse_iu_response02_iff:
  "parse_iu_response02 bs = Inr iu \<longleftrightarrow> length bs = 28 \<and> bs ! 11 = 0x02 \<and>
     iu = \<lparr>iu2_kvn = bs ! 10, iu2_seq_counter = subslice bs 12 14,
       iu2_card_challenge = subslice bs 14 20, iu2_card_cryptogram = subslice bs 20 28\<rparr>"
  by (auto simp: parse_iu_response02_def IU_RESPONSE_LEN_def SCP_ID_SCP02_def)

section \<open>Capping the security level\<close>

lemma word_and_not_self: "(r AND a) AND NOT r = (0 :: 'a::len word)"
  by (rule bit_word_eqI) (auto simp: bit_simps)

lemma cap_security_level_eq:
  "cap_security_level03 i r = Inr e \<longleftrightarrow>
      e = r AND (0x03 OR (if i AND I_RMAC \<noteq> 0 then 0x10 else 0) OR (if i AND I_RENC \<noteq> 0 then 0x20 else 0)) \<and> e \<noteq> 0"
  "cap_security_level02 i r = Inr e \<longleftrightarrow> e = r AND (0x03 OR (if i = 0x15 \<or> i = 0x55 then 0x10 else 0)) \<and> e \<noteq> 0"
  by (auto simp: cap_security_level03_def cap_security_level02_def Let_def or.assoc)

text \<open>The effective level is a part of the requested one that the card's \<open>i\<close> parameter allows:
  C-MAC and C-DECRYPTION always, R-MAC and R-ENCRYPTION only when advertised; it is never empty,
  and the failure is exactly that nothing is left. For SCP02 R-ENCRYPTION is never effective.\<close>

lemma cap_security_level_within:
  "(cap_security_level03 i r = Inr e \<longleftrightarrow>
      e = r AND (0x03 OR (if i AND I_RMAC \<noteq> 0 then 0x10 else 0) OR (if i AND I_RENC \<noteq> 0 then 0x20 else 0))
      \<and> e \<noteq> 0 \<and> e AND NOT r = 0)
   \<and> (cap_security_level02 i r = Inr e \<longleftrightarrow>
      e = r AND (0x03 OR (if i = 0x15 \<or> i = 0x55 then 0x10 else 0)) \<and> e \<noteq> 0
      \<and> e AND NOT r = 0)"
proof -
  have "e AND NOT r = 0" if "e = r AND a" for a using that word_and_not_self [of r a] by simp
  then show ?thesis unfolding cap_security_level_eq by blast
qed

text \<open>The cap does not force C-MAC: a caller that asks for response protection only gets a level
  without it, and R-ENCRYPTION without R-MAC passes as well.\<close>

lemma cap_level_without_cmac:
  "i_supported 0x70 \<and> cap_security_level03 0x70 0x30 = Inr 0x30 \<and> cap_security_level03 0x70 0x23 = Inr 0x23"
  by code_simp

section \<open>Selection of the protocol version\<close>

lemma iter_max_None: "iter_max xs = None \<longleftrightarrow> xs = []"
  by (cases xs) (auto simp: iter_max_def)

lemma fold_max: "(x :: 'a::linorder) \<le> fold max xs x \<and> (\<forall>y \<in> set xs. y \<le> fold max xs x) \<and> fold max xs x \<in> insert x (set xs)"
proof (induction xs arbitrary: x)
  case (Cons a xs)
  let ?m = "fold max xs (max a x)"
  have ih: "max a x \<le> ?m" "\<forall>y \<in> set xs. y \<le> ?m" "?m = max a x \<or> ?m \<in> set xs"
    using Cons.IH [of "max a x"] by auto
  have "a \<le> ?m" "x \<le> ?m"
    using order_trans [OF max.cobounded1 ih(1)] order_trans [OF max.cobounded2 ih(1)] by blast+
  moreover have "max a x = a \<or> max a x = x" by (auto simp: max_def)
  ultimately show ?case using ih by auto
qed simp

lemma iter_max_Some: "iter_max xs = Some m \<Longrightarrow> m \<in> set xs \<and> (\<forall>y \<in> set xs. y \<le> m)"
  using fold_max by (auto simp: iter_max_def split: list.splits)

lemma supported_scp03_Some: "supported_scp03 v = Some i \<longleftrightarrow> v = Scp03 i \<and> i_supported i"
  by (cases v) auto

lemma set_supported: "set (List.map_filter supported_scp03 vs) = {i. Scp03 i \<in> set vs \<and> i_supported i}"
  by (force simp: map_filter_def supported_scp03_Some)

text \<open>The selection rule. A forced version wins. Otherwise the result is the advertised SCP03 with
  the highest supported \<open>i\<close>; when there is none, the first advertised SCP02; when there is none
  of those either, nothing.\<close>

lemma select_rule:
  "select vs (Some v) = Some v
   \<and> (select vs None = Some (Scp03 i) \<longleftrightarrow>
        Scp03 i \<in> set vs \<and> i_supported i \<and> {j. Scp03 j \<in> set vs \<and> i_supported j} \<subseteq> {..i})
   \<and> (select vs None = Some (Scp02 i) \<longleftrightarrow>
        (\<nexists>j. Scp03 j \<in> set vs \<and> i_supported j) \<and> List.find is_scp02 vs = Some (Scp02 i))
   \<and> (select vs None = None \<longleftrightarrow>
        (\<nexists>j. Scp03 j \<in> set vs \<and> i_supported j) \<and> (\<forall>j. Scp02 j \<notin> set vs))"
proof -
  let ?m = "iter_max (List.map_filter supported_scp03 vs)"
  have none: "?m = None \<longleftrightarrow> (\<nexists>j. Scp03 j \<in> set vs \<and> i_supported j)"
    unfolding iter_max_None set_empty [symmetric] set_supported by auto
  have f2: "List.find is_scp02 vs = Some v \<Longrightarrow> is_scp02 v" for v by (auto simp: find_Some_iff)
  have fn: "List.find is_scp02 vs = None \<longleftrightarrow> (\<forall>j. Scp02 j \<notin> set vs)"
    by (auto simp: find_None_iff elim!: is_scp02.elims)
  show ?thesis
  proof (cases ?m)
    case None
    then show ?thesis using none f2 fn by (auto simp: select_def)
  next
    case (Some m)
    then have "Scp03 m \<in> set vs" "i_supported m" "\<And>j. Scp03 j \<in> set vs \<Longrightarrow> i_supported j \<Longrightarrow> j \<le> m"
      using iter_max_Some [OF Some] unfolding set_supported by auto
    then show ?thesis using Some none by (auto simp: select_def intro: order.antisym)
  qed
qed

end
