(* ===== verification/Scll_Crypto.thy ===== *)
theory Scll_Crypto
  imports Scll_Model
begin

text \<open>
  \<open>scll-backend-rustcrypto/src/crypto.rs\<close>: the cryptographic helpers of the software backend.

  The block ciphers and the CMAC come from third-party crates (\<open>aes\<close>, \<open>des\<close>, \<open>cbc\<close>, \<open>cmac\<close>), so
  they are the parameter \<open>prims\<close> of every definition that uses them. What the code relies on is
  \<open>prims_ok\<close>: a CMAC tag has 16 octets, CBC without padding keeps the length, and decryption
  inverts encryption. The crates refuse a key of the wrong length and a message that is not a
  whole number of blocks; the model has these errors where the source maps them.

  A buffer that the source transforms in place is an argument and a component of the result.
\<close>

section \<open>The program\<close>

record prims =
  p_cmac :: "bytes \<Rightarrow> bytes \<Rightarrow> bytes"
  p_aes_cbc_enc :: "bytes \<Rightarrow> bytes \<Rightarrow> bytes \<Rightarrow> bytes"
  p_aes_cbc_dec :: "bytes \<Rightarrow> bytes \<Rightarrow> bytes \<Rightarrow> bytes"
  p_des_cbc_enc :: "bytes \<Rightarrow> bytes \<Rightarrow> bytes \<Rightarrow> bytes"
  p_tdes_cbc_enc :: "bytes \<Rightarrow> bytes \<Rightarrow> bytes \<Rightarrow> bytes"

definition BLOCK :: usize where "BLOCK = 16"
definition DES_BLOCK :: usize where "DES_BLOCK = 8"

lemmas block_consts = BLOCK_def DES_BLOCK_def

text \<open>\<open>push_str\<close> of a bounded string leaves it unchanged when the text does not fit.\<close>

definition short_str :: "string \<Rightarrow> string" where
  "short_str msg = (if length msg \<le> OTHER_DETAIL_MAX then msg else [])"

definition crypto_err :: "string \<Rightarrow> backend_error" where
  "crypto_err msg = Crypto (short_str msg)"

definition aes_key_len :: "bytes \<Rightarrow> bool" where
  "aes_key_len key = (length key = 16 \<or> length key = 24 \<or> length key = 32)"

text \<open>\<open>per_aes!\<close>: dispatch over the three key lengths.\<close>

definition per_aes :: "bytes \<Rightarrow> (backend_error + 'a) \<Rightarrow> backend_error + 'a" where
  "per_aes key body = (if aes_key_len key then body else Inl (crypto_err ''unsupported AES key length''))"

definition aes_cmac :: "prims \<Rightarrow> bytes \<Rightarrow> bytes \<Rightarrow> backend_error + bytes" where
  "aes_cmac P key data = per_aes key (Inr (p_cmac P key data))"

definition aes_cbc_encrypt ::
    "prims \<Rightarrow> bytes \<Rightarrow> bytes \<Rightarrow> bytes \<Rightarrow> usize \<Rightarrow> backend_error + (usize \<times> bytes)" where
  "aes_cbc_encrypt P key iv buf msg_len = per_aes key (
     if msg_len > length buf \<or> msg_len mod BLOCK \<noteq> 0 then Inl (crypto_err ''cbc encrypt'')
     else Inr (msg_len, p_aes_cbc_enc P key iv (take msg_len buf) @ drop msg_len buf))"

definition aes_cbc_decrypt :: "prims \<Rightarrow> bytes \<Rightarrow> bytes \<Rightarrow> bytes \<Rightarrow> backend_error + (usize \<times> bytes)" where
  "aes_cbc_decrypt P key iv buf = per_aes key (
     if length buf mod BLOCK \<noteq> 0 then Inl (crypto_err ''cbc decrypt'')
     else Inr (length buf, p_aes_cbc_dec P key iv buf))"

definition aes_ecb_block :: "prims \<Rightarrow> bytes \<Rightarrow> bytes \<Rightarrow> backend_error + bytes" where
  "aes_ecb_block P key block_in =
     rbind (aes_cbc_encrypt P key (replicate BLOCK 0) block_in BLOCK) (\<lambda>(n, buf). Inr buf)"

definition kdf_block :: "u8 \<Rightarrow> u16 \<Rightarrow> u8 \<Rightarrow> bytes \<Rightarrow> backend_error + bytes" where
  "kdf_block const l counter context =
     rbind (ok_or (crypto_err ''kdf overflow'') (vec_extend 64 [] (replicate 11 0))) (\<lambda>block.
     rbind (ok_or (crypto_err ''kdf overflow'')
        (vec_extend 64 block ([const, 0x00] @ to_be_bytes 2 l @ [counter]))) (\<lambda>block.
     ok_or (crypto_err ''kdf overflow'') (vec_extend 64 block context)))"

function kdf_loop ::
    "prims \<Rightarrow> bytes \<Rightarrow> u8 \<Rightarrow> u16 \<Rightarrow> bytes \<Rightarrow> usize \<Rightarrow> u8 \<Rightarrow> usize \<Rightarrow> bytes \<Rightarrow> backend_error + bytes" where
  "kdf_loop P key const l context n counter written out =
    (if written < n then
       rbind (kdf_block const l counter context) (\<lambda>block.
       rbind (aes_cmac P key block) (\<lambda>tag.
       let tk = min BLOCK (n - written) in
       kdf_loop P key const l context n (counter + 1) (written + tk) (out @ take tk tag)))
     else Inr out)"
  by pat_completeness auto
termination
  by (relation "measure (\<lambda>(_, _, _, _, _, n, _, written, _). n - written)") (auto simp: BLOCK_def)

declare kdf_loop.simps [simp del]

text \<open>\<open>kdf\<close> fills a buffer of \<open>n\<close> octets.\<close>

definition kdf :: "prims \<Rightarrow> bytes \<Rightarrow> u8 \<Rightarrow> u16 \<Rightarrow> bytes \<Rightarrow> usize \<Rightarrow> backend_error + bytes" where
  "kdf P key const l context n = kdf_loop P key const l context n 1 0 []"

definition pad_to :: "usize \<Rightarrow> string \<Rightarrow> bytes \<Rightarrow> usize \<Rightarrow> backend_error + (usize \<times> bytes)" where
  "pad_to blk msg buf len =
    (let padded = len + (blk - len mod blk) in
     if padded > length buf then Inl (crypto_err msg)
     else Inr (padded, take len buf @ [0x80] @ replicate (padded - (len + 1)) 0 @ drop padded buf))"

definition pad80 :: "bytes \<Rightarrow> usize \<Rightarrow> backend_error + (usize \<times> bytes)" where
  "pad80 buf len = pad_to BLOCK ''pad overflow'' buf len"

primrec unpad80_loop :: "bytes \<Rightarrow> nat \<Rightarrow> backend_error + usize" where
  "unpad80_loop buf 0 = Inl (crypto_err ''bad pad'')"
| "unpad80_loop buf (Suc i) =
    (if buf ! i = 0x00 then unpad80_loop buf i
     else if buf ! i = 0x80 then Inr i
     else Inl (crypto_err ''bad pad''))"

definition unpad80 :: "bytes \<Rightarrow> backend_error + usize" where
  "unpad80 buf = unpad80_loop buf (length buf)"

definition tdes_cbc_encrypt ::
    "prims \<Rightarrow> bytes \<Rightarrow> bytes \<Rightarrow> bytes \<Rightarrow> usize \<Rightarrow> backend_error + (usize \<times> bytes)" where
  "tdes_cbc_encrypt P key iv buf msg_len =
    (if length key \<noteq> 16 then Inl (crypto_err ''3des cbc key/iv'')
     else if msg_len > length buf \<or> msg_len mod DES_BLOCK \<noteq> 0 then Inl (crypto_err ''3des cbc encrypt'')
     else Inr (msg_len, p_tdes_cbc_enc P key iv (take msg_len buf) @ drop msg_len buf))"

definition des_cbc_encrypt ::
    "prims \<Rightarrow> bytes \<Rightarrow> bytes \<Rightarrow> bytes \<Rightarrow> usize \<Rightarrow> backend_error + (usize \<times> bytes)" where
  "des_cbc_encrypt P k1 iv buf msg_len =
    (if length k1 \<noteq> 8 then Inl (crypto_err ''des cbc key/iv'')
     else if msg_len > length buf \<or> msg_len mod DES_BLOCK \<noteq> 0 then Inl (crypto_err ''des cbc encrypt'')
     else Inr (msg_len, p_des_cbc_enc P k1 iv (take msg_len buf) @ drop msg_len buf))"

definition tdes_ecb_block :: "prims \<Rightarrow> bytes \<Rightarrow> bytes \<Rightarrow> backend_error + bytes" where
  "tdes_ecb_block P key block_in =
     rbind (tdes_cbc_encrypt P key (replicate DES_BLOCK 0) block_in DES_BLOCK) (\<lambda>(n, buf). Inr buf)"

definition des_ecb_block :: "prims \<Rightarrow> bytes \<Rightarrow> bytes \<Rightarrow> backend_error + bytes" where
  "des_ecb_block P k1 block_in =
     rbind (des_cbc_encrypt P k1 (replicate DES_BLOCK 0) block_in DES_BLOCK) (\<lambda>(n, buf). Inr buf)"

definition pad80_8 :: "bytes \<Rightarrow> usize \<Rightarrow> backend_error + (usize \<times> bytes)" where
  "pad80_8 buf len = pad_to DES_BLOCK ''3des pad overflow'' buf len"

text \<open>\<open>scratch.get_mut(..data.len()).ok_or(..)?.copy_from_slice(data)\<close>\<close>

definition load_scratch :: "string \<Rightarrow> bytes \<Rightarrow> bytes \<Rightarrow> backend_error + bytes" where
  "load_scratch msg scratch data =
    (if length data \<le> length scratch then Inr (data @ drop (length data) scratch)
     else Inl (crypto_err msg))"

definition tdes_mac :: "prims \<Rightarrow> bytes \<Rightarrow> bytes \<Rightarrow> bytes \<Rightarrow> bytes \<Rightarrow> backend_error + bytes" where
  "tdes_mac P key iv data scratch =
     rbind (load_scratch ''mac input too large'' scratch data) (\<lambda>scratch.
     rbind (pad80_8 scratch (length data)) (\<lambda>(padded, scratch).
     rbind (tdes_cbc_encrypt P key iv scratch padded) (\<lambda>(n, scratch).
     Inr (take DES_BLOCK (drop (n - DES_BLOCK) scratch)))))"

definition retail_mac :: "prims \<Rightarrow> bytes \<Rightarrow> bytes \<Rightarrow> bytes \<Rightarrow> bytes \<Rightarrow> backend_error + bytes" where
  "retail_mac P key16 iv data scratch =
     rbind (load_scratch ''retail-mac input too large'' scratch data) (\<lambda>scratch.
     rbind (pad80_8 scratch (length data)) (\<lambda>(padded, scratch).
     rbind (if padded > DES_BLOCK then
         let head = padded - DES_BLOCK in
         rbind (des_cbc_encrypt P (take DES_BLOCK key16) iv (take head scratch) head) (\<lambda>(n, front).
         Inr (take DES_BLOCK (drop (n - DES_BLOCK) front)))
       else Inr iv) (\<lambda>chain.
     let lastb = take DES_BLOCK (drop (padded - DES_BLOCK) scratch) in
     rbind (tdes_cbc_encrypt P key16 chain lastb DES_BLOCK) (\<lambda>(n, lastb).
     Inr lastb))))"

section \<open>What the code relies on\<close>

definition prims_ok :: "prims \<Rightarrow> bool" where
  "prims_ok P \<longleftrightarrow>
     (\<forall>k m. aes_key_len k \<longrightarrow> length (p_cmac P k m) = 16) \<and>
     (\<forall>k iv m. aes_key_len k \<and> length iv = 16 \<and> length m mod 16 = 0 \<longrightarrow>
        length (p_aes_cbc_enc P k iv m) = length m \<and> length (p_aes_cbc_dec P k iv m) = length m \<and>
        p_aes_cbc_dec P k iv (p_aes_cbc_enc P k iv m) = m) \<and>
     (\<forall>k iv m. length k = 8 \<and> length iv = 8 \<and> length m mod 8 = 0 \<longrightarrow> length (p_des_cbc_enc P k iv m) = length m) \<and>
     (\<forall>k iv m. length k = 16 \<and> length iv = 8 \<and> length m mod 8 = 0 \<longrightarrow> length (p_tdes_cbc_enc P k iv m) = length m)"

lemma prims_okD:
  assumes "prims_ok P"
  shows "aes_key_len k \<Longrightarrow> length (p_cmac P k m) = 16"
    and "aes_key_len k \<Longrightarrow> length iv = 16 \<Longrightarrow> length m mod 16 = 0 \<Longrightarrow> length (p_aes_cbc_enc P k iv m) = length m"
    and "aes_key_len k \<Longrightarrow> length iv = 16 \<Longrightarrow> length m mod 16 = 0 \<Longrightarrow> length (p_aes_cbc_dec P k iv m) = length m"
    and "aes_key_len k \<Longrightarrow> length iv = 16 \<Longrightarrow> length m mod 16 = 0 \<Longrightarrow>
      p_aes_cbc_dec P k iv (p_aes_cbc_enc P k iv m) = m"
    and "length k = 8 \<Longrightarrow> length iv = 8 \<Longrightarrow> length m mod 8 = 0 \<Longrightarrow> length (p_des_cbc_enc P k iv m) = length m"
    and "length k = 16 \<Longrightarrow> length iv = 8 \<Longrightarrow> length m mod 8 = 0 \<Longrightarrow> length (p_tdes_cbc_enc P k iv m) = length m"
  using assms by (auto simp: prims_ok_def)

text \<open>A toy instance: a keyed XOR stream and a tag built from key, length and first octets. It
  satisfies the hypotheses and can be evaluated.\<close>

definition toy_xor :: "bytes \<Rightarrow> bytes \<Rightarrow> bytes \<Rightarrow> bytes" where
  "toy_xor k iv m = map (\<lambda>b. b XOR hd k XOR hd iv) m"

definition toy_prims :: prims where
  "toy_prims = \<lparr>p_cmac = (\<lambda>k m. take 16 (map (\<lambda>b. b XOR hd k) m @ replicate 16 (of_nat (length m)))),
     p_aes_cbc_enc = toy_xor, p_aes_cbc_dec = toy_xor, p_des_cbc_enc = toy_xor, p_tdes_cbc_enc = toy_xor\<rparr>"

lemma toy_prims_ok: "prims_ok toy_prims"
proof -
  have "(b XOR c) XOR c = b" for b c :: u8 by (simp add: xor.assoc)
  then show ?thesis by (auto simp: prims_ok_def toy_prims_def toy_xor_def comp_def min_def)
qed

section \<open>Padding\<close>

definition padded :: "usize \<Rightarrow> bytes \<Rightarrow> bytes" where
  "padded blk m = m @ [0x80] @ replicate (blk - length m mod blk - 1) 0"

lemma pad_arith:
  assumes "0 < (blk::nat)"
  shows "n mod blk < blk" "n + (blk - n mod blk) = blk * (n div blk + 1)"
    "n + 1 + (blk - n mod blk - 1) = n + (blk - n mod blk)"
proof -
  show lt: "n mod blk < blk" using assms by simp
  have "blk * (n div blk) + n mod blk = n" by simp
  moreover have "blk * (n div blk + 1) = blk * (n div blk) + blk" by simp
  ultimately show "n + (blk - n mod blk) = blk * (n div blk + 1)" using lt by linarith
  show "n + 1 + (blk - n mod blk - 1) = n + (blk - n mod blk)" using lt by arith
qed

lemma length_padded: "0 < blk \<Longrightarrow> length (padded blk m) = length m + (blk - length m mod blk)"
  by (drule pad_arith(3) [of blk "length m"]) (simp add: padded_def)

lemma length_padded_mod: "0 < blk \<Longrightarrow> length (padded blk m) mod blk = 0"
  by (simp only: length_padded pad_arith(2)) simp

lemma length_padded_bounds:
  "0 < blk \<Longrightarrow> length m < length (padded blk m) \<and> length (padded blk m) \<le> length m + blk"
  by (frule pad_arith(1) [of blk "length m"], simp only: length_padded) arith

lemma pad_to_eq:
  assumes "0 < blk"
  shows "pad_to blk msg (m @ rest) (length m) =
    (if length (padded blk m) \<le> length m + length rest
     then Inr (length (padded blk m), padded blk m @ drop (blk - length m mod blk) rest)
     else Inl (crypto_err msg))"
proof -
  have "length m + (blk - length m mod blk) - (length m + 1) = blk - length m mod blk - 1" by arith
  then show ?thesis
    unfolding pad_to_def Let_def length_padded [OF assms] by (auto simp: padded_def)
qed

lemma unpad80_loop_zeros:
  "unpad80_loop (m @ 0x80 # replicate k 0) (Suc (length m + j)) = Inr (length m)" if "j \<le> k"
  using that by (induction j) (simp_all add: nth_append nth_Cons')

lemma unpad80_padded_eq: "unpad80 (padded blk m) = Inr (length m)"
  using unpad80_loop_zeros [of "blk - length m mod blk - 1" "blk - length m mod blk - 1" m]
  by (simp add: unpad80_def padded_def)

lemma unpad80_loop_sound:
  "unpad80_loop buf i = Inr n \<Longrightarrow> i \<le> length buf \<Longrightarrow>
     n < i \<and> take i buf = take n buf @ 0x80 # replicate (i - Suc n) 0"
proof (induction i)
  case (Suc i)
  have t: "take (Suc i) buf = take i buf @ [buf ! i]" using Suc.prems(2) by (simp add: take_Suc_conv_app_nth)
  show ?case
  proof (cases "buf ! i = 0")
    case True
    then have ih: "n < i" "take i buf = take n buf @ 0x80 # replicate (i - Suc n) 0" using Suc by auto
    then have "replicate (i - n) (0 :: u8) = replicate (i - Suc n) 0 @ [0]"
      by (metis Suc_diff_Suc replicate_Suc replicate_append_same)
    then show ?thesis using ih t True by simp
  next
    case False
    then show ?thesis using Suc.prems t by (auto split: if_splits)
  qed
qed simp

lemma unpad80_sound: "unpad80 buf = Inr n \<Longrightarrow> n < length buf \<and> buf = take n buf @ 0x80 # replicate (length buf - Suc n) 0"
  using unpad80_loop_sound [of buf "length buf" n] by (simp add: unpad80_def)

text \<open>ISO/IEC 7816-4 padding is undone exactly. The pad routine appends the mark and zeros up to the
  next whole block, and fails only when the buffer is too small for it; stripping accepts a
  buffer exactly when it is a message followed by the mark and zeros, and finds that message,
  so a padded message is read back as it was.\<close>

lemma pad_unpad_exact:
  "pad80 (m @ rest) (length m) =
     (if length (padded 16 m) \<le> length m + length rest
      then Inr (length (padded 16 m), padded 16 m @ drop (16 - length m mod 16) rest)
      else Inl (crypto_err ''pad overflow''))
   \<and> (unpad80 buf = Inr n \<longleftrightarrow> (\<exists>data k. buf = data @ 0x80 # replicate k 0 \<and> n = length data))
   \<and> unpad80 (padded blk m) = Inr (length m)"
proof -
  have "unpad80 (data @ 0x80 # replicate k 0) = Inr (length data)" for data k
    using unpad80_loop_zeros [of k k data] by (simp add: unpad80_def)
  moreover have "unpad80 buf = Inr n \<Longrightarrow> \<exists>data k. buf = data @ 0x80 # replicate k 0 \<and> n = length data"
    using unpad80_sound [of buf n] by (metis length_take less_imp_le min_absorb2)
  ultimately show ?thesis
    using unpad80_padded_eq pad_to_eq [of 16 "''pad overflow''" m rest] by (auto simp: pad80_def BLOCK_def)
qed

section \<open>Key derivation\<close>

text \<open>NIST SP 800-108 in counter mode: the tags of the blocks numbered from one, cut to length.\<close>

definition kdf_input :: "u8 \<Rightarrow> u16 \<Rightarrow> bytes \<Rightarrow> nat \<Rightarrow> bytes" where
  "kdf_input const l context i = replicate 11 0 @ [const, 0] @ to_be_bytes 2 l @ [of_nat i] @ context"

definition kdf_ref :: "prims \<Rightarrow> bytes \<Rightarrow> u8 \<Rightarrow> u16 \<Rightarrow> bytes \<Rightarrow> usize \<Rightarrow> bytes" where
  "kdf_ref P key const l context n =
     take n (concat (map (\<lambda>i. p_cmac P key (kdf_input const l context i)) [1..<n div 16 + 2]))"

lemma kdf_block_eq: "length context \<le> 48 \<Longrightarrow>
    kdf_block const l (of_nat i) context = Inr (kdf_input const l context i)"
  by (simp add: kdf_block_def vec_extend_def kdf_input_def to_be_bytes_def)

lemma kdf_loop_eq:
  fixes const l
  assumes "prims_ok P" "aes_key_len key" "length context \<le> 48"
  defines "f \<equiv> \<lambda>i. p_cmac P key (kdf_input const l context i)"
  shows "kdf_loop P key const l context n (of_nat (Suc k)) (16 * k) out =
    Inr (out @ take (n - 16 * k) (concat (map f [Suc k..<n div 16 + 2])))"
proof (induction "n - 16 * k" arbitrary: k out rule: less_induct)
  case less
  have len: "length (f i) = 16" for i using prims_okD(1) [OF assms(1,2)] by (simp add: f_def)
  show ?case
  proof (cases "16 * k < n")
    case False
    then show ?thesis by (subst kdf_loop.simps) simp
  next
    case True
    then have split: "[Suc k..<n div 16 + 2] = Suc k # [Suc (Suc k)..<n div 16 + 2]"
      by (intro upt_conv_Cons) linarith
    have step: "kdf_loop P key const l context n (of_nat (Suc k)) (16 * k) out =
      kdf_loop P key const l context n (of_nat (Suc k) + 1) (16 * k + min 16 (n - 16 * k))
        (out @ take (min 16 (n - 16 * k)) (f (Suc k)))"
      using True assms(2,3)
      by (subst kdf_loop.simps) (simp add: kdf_block_eq aes_cmac_def per_aes_def f_def BLOCK_def Let_def
          del: of_nat_Suc)
    show ?thesis
    proof (cases "n - 16 * k \<le> 16")
      case True
      with \<open>16 * k < n\<close> show ?thesis unfolding step split
        by (subst kdf_loop.simps) (simp add: len min_def del: upt_Suc of_nat_Suc)
    next
      case False
      have c: "of_nat (Suc k) + 1 = (of_nat (Suc (Suc k)) :: u8)" by simp
      have w: "16 * k + min 16 (n - 16 * k) = 16 * Suc k" using False by simp
      have r: "n - 16 * k = 16 + (n - 16 * Suc k)" using False by simp
      have "n - 16 * Suc k < n - 16 * k" using False by simp
      from less [OF this, of "out @ take (min 16 (n - 16 * k)) (f (Suc k))"] show ?thesis
        unfolding step c w split r using False by (simp add: len min_def add.commute del: upt_Suc of_nat_Suc)
    qed
  qed
qed

lemma kdf_eq:
  assumes "prims_ok P" "aes_key_len key" "length context \<le> 48"
  shows "kdf P key const l context n = Inr (kdf_ref P key const l context n)"
  using kdf_loop_eq [OF assms, of const l n 0 "[]"] by (simp add: kdf_def kdf_ref_def)

lemma length_kdf_ref:
  assumes "prims_ok P" "aes_key_len key"
  shows "length (kdf_ref P key const l context n) = n"
proof -
  have "length (concat (map (\<lambda>i. p_cmac P key (kdf_input const l context i)) xs)) = 16 * length xs" for xs
    using prims_okD(1) [OF assms] by (induction xs) auto
  moreover have "n \<le> 16 * (n div 16 + 1)" by arith
  ultimately show ?thesis by (simp add: kdf_ref_def del: upt_Suc)
qed

text \<open>C37: the key derivation function is the counter-mode construction of SP 800-108 over AES-CMAC: for
  a context of at most 48 octets (SCP03 uses 19 to 32) it returns exactly the first \<open>n\<close> octets of
  the concatenated tags, the counter octet running from one.\<close>

theorem kdf_is_counter_mode:
  assumes "prims_ok P" "aes_key_len key" "length context \<le> 48"
  shows "kdf P key const l context n = Inr (kdf_ref P key const l context n)
    \<and> length (kdf_ref P key const l context n) = n"
  using kdf_eq [OF assms] length_kdf_ref [OF assms(1,2)] by blast

lemma kdf_is_counter_mode_witness:
  "kdf toy_prims (replicate 24 7) 4 0xC0 (replicate 16 1) 24 =
     Inr (kdf_ref toy_prims (replicate 24 7) 4 0xC0 (replicate 16 1) 24)"
  using kdf_is_counter_mode [OF toy_prims_ok, of "replicate 24 7" "replicate 16 1" 4 "0xC0" 24]
  by (simp add: aes_key_len_def)

section \<open>Triple-DES MACs\<close>

definition tdes_mac_ref :: "prims \<Rightarrow> bytes \<Rightarrow> bytes \<Rightarrow> bytes \<Rightarrow> bytes" where
  "tdes_mac_ref P key iv data =
    (let ct = p_tdes_cbc_enc P key iv (padded 8 data) in drop (length ct - 8) ct)"

text \<open>MAC algorithm 3 of ISO/IEC 9797-1: single DES over all but the last block, triple DES on the
  last one.\<close>

definition retail_mac_ref :: "prims \<Rightarrow> bytes \<Rightarrow> bytes \<Rightarrow> bytes \<Rightarrow> bytes" where
  "retail_mac_ref P key iv data =
    (let m = padded 8 data; h = length m - 8;
         chain = (if h = 0 then iv
           else let ct = p_des_cbc_enc P (take 8 key) iv (take h m) in drop (length ct - 8) ct)
     in p_tdes_cbc_enc P key chain (drop h m))"

lemma pad80_8_scratch:
  assumes "length data + 8 \<le> length scratch"
  shows "load_scratch msg scratch data = Inr (data @ drop (length data) scratch)"
    and "\<exists>rest. pad80_8 (data @ drop (length data) scratch) (length data) =
      Inr (length (padded 8 data), padded 8 data @ rest)"
proof -
  show "load_scratch msg scratch data = Inr (data @ drop (length data) scratch)"
    using assms by (simp add: load_scratch_def)
  have "length (padded 8 data) \<le> length data + length (drop (length data) scratch)"
    using length_padded_bounds [of 8 data] assms by simp
  then show "\<exists>rest. pad80_8 (data @ drop (length data) scratch) (length data) =
      Inr (length (padded 8 data), padded 8 data @ rest)"
    by (simp add: pad80_8_def pad_to_eq DES_BLOCK_def)
qed

lemma tdes_mac_eq:
  assumes "prims_ok P" "length key = 16" "length iv = 8" "length data + 8 \<le> length scratch"
  shows "tdes_mac P key iv data scratch = Inr (tdes_mac_ref P key iv data)"
    and "length (tdes_mac_ref P key iv data) = 8"
proof -
  let ?m = "padded 8 data"
  obtain rest where p: "pad80_8 (data @ drop (length data) scratch) (length data) = Inr (length ?m, ?m @ rest)"
    using pad80_8_scratch(2) [OF assms(4)] by blast
  have l: "length ?m mod 8 = 0" "8 \<le> length ?m"
    using length_padded_mod [of 8 data] length_padded [of 8 data] length_padded_bounds [of 8 data]
    by (auto simp: length_padded mod_eq_0_iff_dvd dest: dvd_imp_le)
  have ct: "length (p_tdes_cbc_enc P key iv ?m) = length ?m"
    using prims_okD(6) [OF assms(1-3) l(1)] .
  show "tdes_mac P key iv data scratch = Inr (tdes_mac_ref P key iv data)"
    using l ct assms(2) by (simp add: tdes_mac_def pad80_8_scratch(1) [OF assms(4)] p tdes_cbc_encrypt_def
        DES_BLOCK_def tdes_mac_ref_def Let_def)
  show "length (tdes_mac_ref P key iv data) = 8" using l ct by (simp add: tdes_mac_ref_def Let_def)
qed

lemma retail_mac_eq:
  assumes "prims_ok P" "length key = 16" "length iv = 8" "length data + 8 \<le> length scratch"
  shows "retail_mac P key iv data scratch = Inr (retail_mac_ref P key iv data)"
    and "length (retail_mac_ref P key iv data) = 8"
proof -
  let ?m = "padded 8 data" let ?h = "length ?m - 8"
  obtain rest where p: "pad80_8 (data @ drop (length data) scratch) (length data) = Inr (length ?m, ?m @ rest)"
    using pad80_8_scratch(2) [OF assms(4)] by blast
  have l: "length ?m mod 8 = 0" "8 \<le> length ?m"
    using length_padded_mod [of 8 data] length_padded_bounds [of 8 data]
    by (auto simp: mod_eq_0_iff_dvd dest: dvd_imp_le)
  then have h: "?h mod 8 = 0" by (metis le_mod_geq)
  let ?chain = "if ?h = 0 then iv else let ct = p_des_cbc_enc P (take 8 key) iv (take ?h ?m) in drop (length ct - 8) ct"
  have ct: "length (p_des_cbc_enc P (take 8 key) iv (take ?h ?m)) = ?h"
    using prims_okD(5) [OF assms(1), of "take 8 key" iv "take ?h ?m"] assms(2,3) h by simp
  have h8: "?h \<noteq> 0 \<Longrightarrow> 8 \<le> ?h" using h by (auto simp: mod_eq_0_iff_dvd dest: dvd_imp_le)
  have chain: "length ?chain = 8" using ct assms(3) h8 by (auto simp: Let_def)
  have last: "length (p_tdes_cbc_enc P key ?chain (drop ?h ?m)) = 8"
    using prims_okD(6) [OF assms(1,2) chain, of "drop ?h ?m"] l by simp
  then show "length (retail_mac_ref P key iv data) = 8" by (simp add: retail_mac_ref_def Let_def)
  show "retail_mac P key iv data scratch = Inr (retail_mac_ref P key iv data)"
    using l h h8 ct assms(2,3)
    by (simp add: retail_mac_def pad80_8_scratch(1) [OF assms(4)] p tdes_cbc_encrypt_def des_cbc_encrypt_def
        DES_BLOCK_def retail_mac_ref_def Let_def)
qed

end
