(* ===== verification/Scll_Slots.thy ===== *)
theory Scll_Slots
  imports Scll_Prelude
begin

text \<open>
  The fixed-size slot tables of the software backend (\<open>[Option<T>; N]\<close> in
  \<open>scll-backend-rustcrypto/src/lib.rs\<close>): keys, SCP03 sessions, SCP02 sessions. A handle is an
  index into a table.

  \<open>first_free\<close>, \<open>alloc_slot\<close>, \<open>get_slot\<close>, \<open>set_slot\<close> and \<open>free_slot\<close> are the idioms of the source
  (\<open>iter().position(Option::is_none)\<close>, indexed assignment, \<open>get(i).and_then(Option::as_ref)\<close>,
  \<open>get_mut(i).and_then(Option::as_mut)\<close>, \<open>= None\<close>). The locale \<open>slot_table\<close> states what the users of
  a table rely on; it is interpreted on these functions, for every capacity.
\<close>

section \<open>The interface\<close>

locale slot_table =
  fixes wf :: "'t \<Rightarrow> bool"
    and capacity :: nat
    and alloc :: "'v \<Rightarrow> 't \<Rightarrow> (nat \<times> 't) option"
    and lookup :: "'t \<Rightarrow> nat \<Rightarrow> 'v option"
    and update :: "nat \<Rightarrow> 'v \<Rightarrow> 't \<Rightarrow> 't"
    and release :: "nat \<Rightarrow> 't \<Rightarrow> 't"
  assumes lookup_bound: "wf t \<Longrightarrow> lookup t i \<noteq> None \<Longrightarrow> i < capacity"
    and alloc_wf: "wf t \<Longrightarrow> alloc v t = Some (i, t') \<Longrightarrow> wf t'"
    and alloc_fresh: "wf t \<Longrightarrow> alloc v t = Some (i, t') \<Longrightarrow> lookup t i = None"
    and alloc_lookup: "wf t \<Longrightarrow> alloc v t = Some (i, t') \<Longrightarrow> lookup t' j = (if j = i then Some v else lookup t j)"
    and alloc_None: "wf t \<Longrightarrow> alloc v t = None \<longleftrightarrow> (\<forall>i < capacity. lookup t i \<noteq> None)"
    and update_wf: "wf t \<Longrightarrow> wf (update i v t)"
    and update_lookup: "wf t \<Longrightarrow> lookup (update i v t) j = (if j = i \<and> lookup t i \<noteq> None then Some v else lookup t j)"
    and release_wf: "wf t \<Longrightarrow> wf (release i t)"
    and release_lookup: "wf t \<Longrightarrow> lookup (release i t) j = (if j = i then None else lookup t j)"
begin

definition live :: "'t \<Rightarrow> nat set" where
  "live t = {i. lookup t i \<noteq> None}"

lemma live_sub: "wf t \<Longrightarrow> live t \<subseteq> {..<capacity}"
  using lookup_bound by (auto simp: live_def)

lemma live_finite: "wf t \<Longrightarrow> finite (live t)"
  using live_sub finite_subset by blast

lemma live_card_le: "wf t \<Longrightarrow> card (live t) \<le> capacity"
  using card_mono [OF _ live_sub] by simp

lemma live_alloc: "wf t \<Longrightarrow> alloc v t = Some (i, t') \<Longrightarrow> live t' = insert i (live t) \<and> i \<notin> live t"
  using alloc_fresh alloc_lookup by (auto simp: live_def split: if_splits)

lemma live_update: "wf t \<Longrightarrow> live (update i v t) = live t"
  by (auto simp: live_def update_lookup split: if_splits)

lemma live_release: "wf t \<Longrightarrow> live (release i t) = live t - {i}"
  by (auto simp: live_def release_lookup split: if_splits)

text \<open>Allocation fails exactly when the table is full; a live handle is never handed out twice.\<close>

lemma alloc_iff: "wf t \<Longrightarrow> alloc v t \<noteq> None \<longleftrightarrow> card (live t) < capacity"
proof -
  assume w: "wf t"
  have "(\<forall>i < capacity. lookup t i \<noteq> None) \<longleftrightarrow> {..<capacity} \<subseteq> live t"
    by (auto simp: live_def)
  also have "\<dots> \<longleftrightarrow> live t = {..<capacity}" using live_sub [OF w] by blast
  also have "\<dots> \<longleftrightarrow> card (live t) = capacity"
  proof
    assume "card (live t) = capacity"
    then have "card (live t) = card {..<capacity}" by simp
    then show "live t = {..<capacity}" by (rule card_subset_eq [OF finite_lessThan live_sub [OF w]])
  qed simp
  finally show ?thesis using alloc_None [OF w] live_card_le [OF w] by auto
qed

lemma card_alloc: "wf t \<Longrightarrow> alloc v t = Some (i, t') \<Longrightarrow> card (live t') = Suc (card (live t))"
  using live_alloc live_finite by auto

lemma release_alloc: "wf t \<Longrightarrow> alloc v t = Some (i, t') \<Longrightarrow> lookup (release i t') j = lookup t j"
  using alloc_lookup alloc_fresh alloc_wf release_lookup by auto

text \<open>\<open>n\<close> allocations in a row, keeping every slot.\<close>

primrec alloc_n :: "nat \<Rightarrow> 'v \<Rightarrow> 't \<Rightarrow> 't option" where
  "alloc_n 0 v t = Some t"
| "alloc_n (Suc n) v t = (case alloc v t of None \<Rightarrow> None | Some (i, t) \<Rightarrow> alloc_n n v t)"

lemma alloc_n_iff: "wf t \<Longrightarrow> alloc_n n v t \<noteq> None \<longleftrightarrow> card (live t) + n \<le> capacity"
proof (induction n arbitrary: t)
  case 0
  then show ?case using live_card_le by simp
next
  case (Suc n)
  show ?case
  proof (cases "alloc v t")
    case None
    then show ?thesis using alloc_iff [OF Suc.prems, of v] by simp
  next
    case (Some p)
    obtain i t' where p: "p = (i, t')" by (cases p)
    then have a: "alloc v t = Some (i, t')" using Some by simp
    show ?thesis using Suc.IH [OF alloc_wf [OF Suc.prems a]] card_alloc [OF Suc.prems a] a by simp
  qed
qed

end

section \<open>The tables of the program\<close>

primrec first_free :: "'a option list \<Rightarrow> nat option" where
  "first_free [] = None"
| "first_free (x # xs) = (if x = None then Some 0 else map_option Suc (first_free xs))"

definition alloc_slot :: "'a \<Rightarrow> 'a option list \<Rightarrow> (nat \<times> 'a option list) option" where
  "alloc_slot v ts = (case first_free ts of None \<Rightarrow> None | Some i \<Rightarrow> Some (i, ts[i := Some v]))"

definition get_slot :: "'a option list \<Rightarrow> nat \<Rightarrow> 'a option" where
  "get_slot ts i = (case get_at ts i of None \<Rightarrow> None | Some x \<Rightarrow> x)"

definition set_slot :: "nat \<Rightarrow> 'a \<Rightarrow> 'a option list \<Rightarrow> 'a option list" where
  "set_slot i v ts = (case get_slot ts i of None \<Rightarrow> ts | Some _ \<Rightarrow> ts[i := Some v])"

definition free_slot :: "nat \<Rightarrow> 'a option list \<Rightarrow> 'a option list" where
  "free_slot i ts = (if i < length ts then ts[i := None] else ts)"

lemma first_free_Some: "first_free ts = Some i \<Longrightarrow> i < length ts \<and> ts ! i = None"
  by (induction ts arbitrary: i) (auto split: if_splits)

lemma first_free_None: "first_free ts = None \<longleftrightarrow> (\<forall>i < length ts. ts ! i \<noteq> None)"
proof (induction ts)
  case (Cons x ts)
  then show ?case by (auto simp: nth_Cons split: nat.splits)
qed simp

lemma get_slot_eq: "get_slot ts i = (if i < length ts then ts ! i else None)"
  by (simp add: get_slot_def get_at_def)

interpretation slots: slot_table "\<lambda>ts. length ts = n" n alloc_slot get_slot set_slot free_slot
proof (unfold_locales, goal_cases)
  case (1 t i) then show ?case by (auto simp: get_slot_eq split: if_splits)
next
  case (2 t v i t') then show ?case by (auto simp: alloc_slot_def split: option.splits)
next
  case (3 t v i t')
  then show ?case by (auto simp: alloc_slot_def get_slot_eq dest: first_free_Some split: option.splits)
next
  case (4 t v i t' j)
  then show ?case by (auto simp: alloc_slot_def get_slot_eq nth_list_update dest!: first_free_Some split: option.splits)
next
  case (5 t v)
  then show ?case using first_free_None [of t] by (auto simp: alloc_slot_def get_slot_eq split: option.splits)
next
  case (6 t i v) then show ?case by (auto simp: set_slot_def split: option.splits)
next
  case (7 t i v j)
  then show ?case by (auto simp: set_slot_def get_slot_eq nth_list_update split: option.splits if_splits)
next
  case (8 t i) then show ?case by (auto simp: free_slot_def)
next
  case (9 t i j) then show ?case by (auto simp: free_slot_def get_slot_eq nth_list_update)
qed

end
