(* ===== verification/Scll_Backend.thy ===== *)
theory Scll_Backend
  imports Scll_Crypto Scll_Slots Scll_Scp
begin

text \<open>
  \<open>scll-backend-rustcrypto/src/lib.rs\<close> and \<open>key.rs\<close>, with the key types of
  \<open>scll-core/src/backend/key.rs\<close>: the state behind the backend's mutex, and the key operations.

  Every trait method is a program over \<open>backend_state\<close>: \<open>with_state\<close> runs its closure with
  exclusive access, so a method is one atomic step. A buffer \<open>[u8; KEY_BYTES_MAX]\<close> with its length
  is the list of its meaningful octets. The injected generator is the parameter \<open>fill\<close>:
  \<open>fill rng n\<close> is \<open>n\<close> octets and the new generator state.
\<close>

section \<open>The state\<close>

datatype key_kind = KindAes128 | KindAes192 | KindAes256 | TripleDesDouble

primrec clear_len :: "key_kind \<Rightarrow> usize" where
  "clear_len KindAes192 = 24"
| "clear_len KindAes256 = 32"
| "clear_len KindAes128 = 16"
| "clear_len TripleDesDouble = 16"

type_synonym key_handle = u16

definition MAX_KEY_SLOTS :: usize where [limit_simps]: "MAX_KEY_SLOTS = 16"
definition MAX_SESSION_SLOTS :: usize where [limit_simps]: "MAX_SESSION_SLOTS = 16"
definition SCP02_RMAC_BUF_MAX :: usize where [limit_simps]: "SCP02_RMAC_BUF_MAX = CAPDU_MAX + RAPDU_MAX"

record key_slot =
  ksl_kind :: key_kind
  ksl_key :: bytes

record scp03_session_slot =
  s3_enc :: bytes
  s3_mac :: bytes
  s3_rmac :: bytes
  s3_mode :: scp_mode
  s3_chain :: bytes
  s3_counter :: u32
  s3_level :: u8
  s3_authed :: bool

record scp02_session_slot =
  s2_enc :: bytes
  s2_mac :: bytes
  s2_rmac :: bytes
  s2_dek :: bytes
  s2_icv :: bytes
  s2_icv_valid :: bool
  s2_ricv :: bytes
  s2_rmac_buf :: bytes
  s2_level :: u8
  s2_authed :: bool

record 'r backend_state =
  bs_keys :: "key_slot option list"
  bs_sessions :: "scp03_session_slot option list"
  bs_scp02_sessions :: "scp02_session_slot option list"
  bs_rng :: 'r

type_synonym ('r, 'a) backend = "('r backend_state, backend_error, 'a) prog"

definition backend_new :: "'r \<Rightarrow> 'r backend_state" where
  "backend_new rng = \<lparr>bs_keys = replicate MAX_KEY_SLOTS None, bs_sessions = replicate MAX_SESSION_SLOTS None,
     bs_scp02_sessions = replicate MAX_SESSION_SLOTS None, bs_rng = rng\<rparr>"

section \<open>Key operations\<close>

definition key_len :: "key_kind \<Rightarrow> usize option" where
  "key_len kind = (case kind of
     KindAes128 \<Rightarrow> Some 16 | TripleDesDouble \<Rightarrow> Some 16 | KindAes192 \<Rightarrow> Some 24 | KindAes256 \<Rightarrow> Some 32)"

definition store_key :: "key_kind \<Rightarrow> bytes \<Rightarrow> ('r, key_handle) backend" where
  "store_key kind bs st = (case alloc_slot \<lparr>ksl_kind = kind, ksl_key = bs\<rparr> (bs_keys st) of
     None \<Rightarrow> (Inl (KeyGen (short_str ''key table full'')), st)
   | Some (idx, keys) \<Rightarrow> (Inr (of_nat idx), st\<lparr>bs_keys := keys\<rparr>))"

definition import_key :: "key_kind \<Rightarrow> bytes \<Rightarrow> ('r, key_handle) backend" where
  "import_key kind bs = (case key_len kind of
     None \<Rightarrow> throw (Unsupported (short_str ''unknown key kind''))
   | Some expected \<Rightarrow>
      if length bs \<noteq> expected then throw (KeyImport (short_str ''byte length != key kind''))
      else store_key kind bs)"

type_synonym 'r fill = "'r \<Rightarrow> nat \<Rightarrow> bytes \<times> 'r"

definition generate_key :: "'r fill \<Rightarrow> key_kind \<Rightarrow> ('r, key_handle) backend" where
  "generate_key fill kind = (case key_len kind of
     None \<Rightarrow> throw (Unsupported (short_str ''unknown key kind''))
   | Some len \<Rightarrow> (\<lambda>st. case fill (bs_rng st) len of (bs, rng) \<Rightarrow> store_key kind bs (st\<lparr>bs_rng := rng\<rparr>)))"

definition compute_kcv :: "prims \<Rightarrow> key_handle \<Rightarrow> ('r, bytes) backend" where
  "compute_kcv P h st = (case get_slot (bs_keys st) (unat h) of
     None \<Rightarrow> (Inl (crypto_err ''key handle invalid''), st)
   | Some slot \<Rightarrow>
      (if ksl_kind slot = TripleDesDouble
       then rbind (tdes_ecb_block P (ksl_key slot) (replicate DES_BLOCK 0)) (\<lambda>out. Inr (take 3 out))
       else rbind (aes_ecb_block P (ksl_key slot) (replicate BLOCK 1)) (\<lambda>out. Inr (take 3 out)), st))"

definition random_bytes :: "'r fill \<Rightarrow> nat \<Rightarrow> ('r, bytes) backend" where
  "random_bytes fill n st = (case fill (bs_rng st) n of (bs, rng) \<Rightarrow> (Inr bs, st\<lparr>bs_rng := rng\<rparr>))"

definition ct_eq :: "bytes \<Rightarrow> bytes \<Rightarrow> bool" where
  "ct_eq a b = (if length a \<noteq> length b then False
     else foldl (\<lambda>diff (x, y). diff OR (x XOR y)) 0 (zip a b) = 0)"

definition exported_from_slice :: "bytes \<Rightarrow> bytes option" where
  "exported_from_slice src = (if length src > KEY_BYTES_MAX then None else Some src)"

definition export_key_dangerous :: "key_handle \<Rightarrow> ('r, bytes) backend" where
  "export_key_dangerous h st = (case get_slot (bs_keys st) (unat h) of
     None \<Rightarrow> (Inl (crypto_err ''key handle invalid''), st)
   | Some slot \<Rightarrow> (ok_or (crypto_err ''key too large'') (exported_from_slice (ksl_key slot)), st))"

section \<open>The state invariant\<close>

definition key_ok :: "key_slot \<Rightarrow> bool" where
  "key_ok k = (length (ksl_key k) = clear_len (ksl_kind k))"

definition slot3_ok :: "scp03_session_slot \<Rightarrow> bool" where
  "slot3_ok s = (aes_key_len (s3_enc s) \<and> aes_key_len (s3_mac s) \<and> aes_key_len (s3_rmac s)
     \<and> length (s3_chain s) = 16)"

definition slot2_ok :: "scp02_session_slot \<Rightarrow> bool" where
  "slot2_ok s = (length (s2_enc s) = 16 \<and> length (s2_mac s) = 16 \<and> length (s2_rmac s) = 16
     \<and> length (s2_dek s) = 16 \<and> length (s2_icv s) = 8 \<and> length (s2_ricv s) = 8
     \<and> length (s2_rmac_buf s) \<le> 5 + 255)"

definition state_ok :: "'r backend_state \<Rightarrow> bool" where
  "state_ok st = (length (bs_keys st) = MAX_KEY_SLOTS \<and> length (bs_sessions st) = MAX_SESSION_SLOTS
     \<and> length (bs_scp02_sessions st) = MAX_SESSION_SLOTS
     \<and> (\<forall>i k. get_slot (bs_keys st) i = Some k \<longrightarrow> key_ok k)
     \<and> (\<forall>i s. get_slot (bs_sessions st) i = Some s \<longrightarrow> slot3_ok s)
     \<and> (\<forall>i s. get_slot (bs_scp02_sessions st) i = Some s \<longrightarrow> slot2_ok s))"

definition fill_ok :: "'r fill \<Rightarrow> bool" where
  "fill_ok fill = (\<forall>r n. length (fst (fill r n)) = n)"

lemma state_ok_new: "state_ok (backend_new rng)"
  by (simp add: state_ok_def backend_new_def get_slot_eq)

lemma key_ok_len: "key_ok k \<Longrightarrow> aes_key_len (ksl_key k) \<or> length (ksl_key k) = 16"
  by (cases "ksl_kind k") (auto simp: key_ok_def aes_key_len_def)

lemma alloc_get:
  "alloc_slot v t = Some (i, t') \<Longrightarrow>
     length t' = length t \<and> i < length t \<and> get_slot t i = None
     \<and> (\<forall>j. get_slot t' j = (if j = i then Some v else get_slot t j))"
  using slots.alloc_wf [OF refl, of v t i t'] slots.alloc_fresh [OF refl, of v t i t']
    slots.alloc_lookup [OF refl, of v t i t'] slots.lookup_bound [of t' "length t" i] by auto

lemma set_get:
  "length (set_slot i v t) = length t"
  "get_slot (set_slot i v t) j = (if j = i \<and> get_slot t i \<noteq> None then Some v else get_slot t j)"
  using slots.update_wf [OF refl, of i v t] slots.update_lookup [OF refl, of i v t j] by auto

lemma free_get:
  "length (free_slot i t) = length t"
  "get_slot (free_slot i t) j = (if j = i then None else get_slot t j)"
  using slots.release_wf [OF refl, of i t] slots.release_lookup [OF refl, of i t j] by auto

lemma foldl_or_zero:
  "foldl (\<lambda>diff (x, y). diff OR (x XOR y)) d ps = 0 \<longleftrightarrow> d = 0 \<and> (\<forall>(x, y) \<in> set ps. x = (y :: u8))"
proof (induction ps arbitrary: d)
  case (Cons p ps)
  have "x XOR y = 0 \<longleftrightarrow> x = y" for x y :: u8
    by (metis xor.assoc xor.right_neutral xor_self_eq)
  moreover have "d OR e = 0 \<longleftrightarrow> d = 0 \<and> e = 0" for d e :: u8
    by (auto simp: or_eq_0_iff)
  ultimately show ?case using Cons by (auto split: prod.splits)
qed simp

lemma ct_eq_correct_eq: "ct_eq a b \<longleftrightarrow> a = b"
proof -
  have "(\<forall>(x, y) \<in> set (zip a b). x = y) \<longleftrightarrow> a = b" if "length a = length b"
    using that by (auto simp: set_zip list_eq_iff_nth_eq)
  then show ?thesis by (auto simp: ct_eq_def foldl_or_zero)
qed

section \<open>Vocabulary shared by the two protocols\<close>

definition apdu_data :: "bytes \<Rightarrow> bytes" where
  "apdu_data c = take (unat (c ! 4)) (drop 5 c)"

text \<open>A command with a header and, when there is more, a length octet that its data field fills.\<close>

definition apdu_framed :: "bytes \<Rightarrow> bool" where
  "apdu_framed c = (4 \<le> length c \<and> (length c = 4 \<or> 5 + unat (c ! 4) \<le> length c))"

lemma apdu_data_le: "length (apdu_data c) \<le> 255"
  using unat_u8_lt [of "c ! 4"] by (simp add: apdu_data_def)

lemma unat_succ: "w \<noteq> - 1 \<Longrightarrow> unat (w + 1) = Suc (unat (w :: 'a::len word))"
  by (metis add.commute add.left_neutral add_eq_0_iff unatSuc add_diff_cancel_right' diff_0)

text \<open>What a command says to its receiver: header with the secure messaging bit, data field, trailing
  octets.\<close>

type_synonym command_view = "(u8 \<times> u8 \<times> u8 \<times> u8) \<times> bytes \<times> bytes"

definition sm_view :: "bytes \<Rightarrow> bytes \<Rightarrow> command_view" where
  "sm_view rest c = ((c ! 0 OR 4, c ! 1, c ! 2, c ! 3), apdu_data c, rest)"

text \<open>An answer of the card's application: data and status word, short enough for every protection.\<close>

definition answer_fits :: "bytes \<Rightarrow> bool" where
  "answer_fits d = (2 \<le> length d \<and> length d \<le> 241)"

end
