(* ===== verification/Scll_Channel.thy ===== *)
theory Scll_Channel
  imports Scll_Prelude
begin

text \<open>
  What a client relies on when it talks over an open secure channel, whatever the protocol.

  \<open>send\<close> and \<open>receive\<close> are the two ends of the command direction, \<open>respond\<close> and \<open>accept\<close> those of the
  response direction; \<open>synced h k\<close> relates the state of the host to the state of the card. The
  laws are interpreted for SCP03 and SCP02 in the theories of the backend.

  \<open>dialogue\<close> runs a list of commands against an application on the card; the consequence of the
  laws is that the channel is transparent: the host sees the answers of the application.
\<close>

text \<open>The application sees the view of a command and answers with data and a status word. A command
  that the host's side refuses is not sent.\<close>

primrec dialogue ::
    "('c \<Rightarrow> 'h \<Rightarrow> ('e + 'w) \<times> 'h) \<Rightarrow> ('k \<Rightarrow> 'w \<Rightarrow> ('v \<times> 'k) option) \<Rightarrow> ('k \<Rightarrow> 'd \<Rightarrow> 'r \<times> 'k) \<Rightarrow>
     ('r \<Rightarrow> 'h \<Rightarrow> ('e + 'd) \<times> 'h) \<Rightarrow> ('v \<Rightarrow> 'd) \<Rightarrow> 'c list \<Rightarrow> 'h \<Rightarrow> 'k \<Rightarrow> (('c \<times> 'd) list \<times> 'h \<times> 'k) option" where
  "dialogue send receive respond accept app [] h k = Some ([], h, k)"
| "dialogue send receive respond accept app (c # cs) h k =
    (case send c h of
       (Inl e, h) \<Rightarrow> dialogue send receive respond accept app cs h k
     | (Inr w, h) \<Rightarrow>
        (case receive k w of
           None \<Rightarrow> None
         | Some (v, k) \<Rightarrow>
            (case respond k (app v) of
               (r, k) \<Rightarrow>
                 (case accept r h of
                    (Inl e, h) \<Rightarrow> None
                  | (Inr d, h) \<Rightarrow>
                     map_option (\<lambda>(ds, h, k). ((c, d) # ds, h, k))
                       (dialogue send receive respond accept app cs h k)))))"

locale command_channel =
  fixes synced :: "'h \<Rightarrow> 'k \<Rightarrow> bool"
    and send :: "'c \<Rightarrow> 'h \<Rightarrow> ('e + 'w) \<times> 'h"
    and receive :: "'k \<Rightarrow> 'w \<Rightarrow> ('v \<times> 'k) option"
    and view :: "'c \<Rightarrow> 'v"
  assumes send_refused: "send c h = (Inl e, h') \<Longrightarrow> h' = h"
    and send_received: "synced h k \<Longrightarrow> send c h = (Inr w, h') \<Longrightarrow>
      \<exists>k'. receive k w = Some (view c, k') \<and> synced h' k'"
begin

primrec deliver :: "'c list \<Rightarrow> 'h \<Rightarrow> 'k \<Rightarrow> ('v list \<times> 'h \<times> 'k) option" where
  "deliver [] h k = Some ([], h, k)"
| "deliver (c # cs) h k =
    (case send c h of
       (Inl e, h) \<Rightarrow> deliver cs h k
     | (Inr w, h) \<Rightarrow>
        (case receive k w of
           None \<Rightarrow> None
         | Some (v, k) \<Rightarrow> map_option (\<lambda>(vs, h, k). (v # vs, h, k)) (deliver cs h k)))"

lemma deliver_ok:
  "synced h k \<Longrightarrow> \<exists>vs h' k'. deliver cs h k = Some (vs, h', k') \<and> synced h' k' \<and> set vs \<subseteq> view ` set cs"
proof (induction cs arbitrary: h k)
  case (Cons c cs)
  obtain r h1 where s: "send c h = (r, h1)" by (cases "send c h")
  show ?case
  proof (cases r)
    case (Inl e)
    then have "h1 = h" using send_refused s by simp
    then show ?thesis using Cons.IH [OF Cons.prems] s Inl by fastforce
  next
    case (Inr w)
    then obtain k1 where k1: "receive k w = Some (view c, k1)" "synced h1 k1"
      using send_received [OF Cons.prems] s by blast
    obtain vs h' k' where "deliver cs h1 k1 = Some (vs, h', k')" "synced h' k'" "set vs \<subseteq> view ` set cs"
      using Cons.IH [OF k1(2)] by blast
    then show ?thesis using s Inr k1 by auto
  qed
qed simp

end

text \<open>Both directions. \<open>ready\<close> is a synchronised channel on which the card may answer; \<open>fits\<close> bounds
  the answers.\<close>

locale duplex_channel = command_channel synced send receive view
  for synced :: "'h \<Rightarrow> 'k \<Rightarrow> bool" and send :: "'c \<Rightarrow> 'h \<Rightarrow> ('e + 'w) \<times> 'h"
    and receive :: "'k \<Rightarrow> 'w \<Rightarrow> ('v \<times> 'k) option" and view :: "'c \<Rightarrow> 'v" +
  fixes ready :: "'h \<Rightarrow> 'k \<Rightarrow> bool"
    and respond :: "'k \<Rightarrow> 'd \<Rightarrow> 'r \<times> 'k"
    and accept :: "'r \<Rightarrow> 'h \<Rightarrow> ('e + 'd) \<times> 'h"
    and fits :: "'d \<Rightarrow> bool"
  assumes ready_synced: "ready h k \<Longrightarrow> synced h k"
    and send_ready: "synced h k \<Longrightarrow> send c h = (Inr w, h') \<Longrightarrow> receive k w = Some (v, k') \<Longrightarrow> ready h' k'"
    and respond_accepted: "ready h k \<Longrightarrow> fits d \<Longrightarrow> respond k d = (r, k') \<Longrightarrow>
      \<exists>h'. accept r h = (Inr d, h') \<and> ready h' k'"
begin

lemma transparent:
  assumes "synced h k" "\<And>v. fits (app v)"
  shows "\<exists>ds h' k'. dialogue send receive respond accept app cs h k = Some (ds, h', k')
    \<and> synced h' k' \<and> (\<forall>(c, d) \<in> set ds. c \<in> set cs \<and> d = app (view c))"
  using assms(1)
proof (induction cs arbitrary: h k)
  case (Cons c cs)
  obtain r h1 where s: "send c h = (r, h1)" by (cases "send c h")
  show ?case
  proof (cases r)
    case (Inl e)
    then have h1: "h1 = h" using send_refused s by simp
    obtain ds h' k' where "dialogue send receive respond accept app cs h k = Some (ds, h', k')"
      "synced h' k'" "\<forall>(c, d) \<in> set ds. c \<in> set cs \<and> d = app (view c)"
      using Cons.IH [OF Cons.prems] by blast
    then show ?thesis using s Inl h1 by auto
  next
    case (Inr w)
    then obtain k1 where k1: "receive k w = Some (view c, k1)" "synced h1 k1"
      using send_received [OF Cons.prems] s by blast
    obtain p k2 where r: "respond k1 (app (view c)) = (p, k2)" by (cases "respond k1 (app (view c))")
    have "ready h1 k1" using send_ready [OF Cons.prems] s Inr k1(1) by simp
    then obtain h2 where h2: "accept p h1 = (Inr (app (view c)), h2)" "ready h2 k2"
      using respond_accepted [OF _ assms(2) r] by blast
    obtain ds h' k' where "dialogue send receive respond accept app cs h2 k2 = Some (ds, h', k')"
      "synced h' k'" "\<forall>(c, d) \<in> set ds. c \<in> set cs \<and> d = app (view c)"
      using Cons.IH [OF ready_synced [OF h2(2)]] by blast
    then show ?thesis using s Inr k1(1) r h2(1) by auto
  qed
qed simp

text \<open>When the host's side has room for every command of the list (\<open>can n h\<close>: for \<open>n\<close> more), every
  command gets the answer of the application, in order.\<close>

lemma all_answered:
  assumes "synced h k" "\<And>v. fits (app v)" "can (length cs) h"
    and send_can: "\<And>n c h k. c \<in> set cs \<Longrightarrow> synced h k \<Longrightarrow> can (Suc n) h \<Longrightarrow> \<exists>w h'. send c h = (Inr w, h') \<and> can n h'"
    and accept_can: "\<And>n r d h h'. accept r h = (Inr d, h') \<Longrightarrow> can n h \<Longrightarrow> can n h'"
  shows "\<exists>h' k'. dialogue send receive respond accept app cs h k =
    Some (map (\<lambda>c. (c, app (view c))) cs, h', k') \<and> synced h' k'"
  using assms(1,3) send_can
proof (induction cs arbitrary: h k)
  case (Cons c cs)
  obtain w h1 where s: "send c h = (Inr w, h1)" "can (length cs) h1"
    using Cons.prems(3) [of c h k "length cs"] Cons.prems(1,2) by auto
  obtain k1 where k1: "receive k w = Some (view c, k1)" "synced h1 k1"
    using send_received [OF Cons.prems(1) s(1)] by blast
  obtain p k2 where r: "respond k1 (app (view c)) = (p, k2)" by (cases "respond k1 (app (view c))")
  obtain h2 where h2: "accept p h1 = (Inr (app (view c)), h2)" "ready h2 k2"
    using respond_accepted [OF send_ready [OF Cons.prems(1) s(1) k1(1)] assms(2) r] by blast
  obtain h' k' where "dialogue send receive respond accept app cs h2 k2 =
      Some (map (\<lambda>c. (c, app (view c))) cs, h', k')" "synced h' k'"
    using Cons.IH [OF ready_synced [OF h2(2)] accept_can [OF h2(1) s(2)]] Cons.prems(3) by fastforce
  then show ?case using s k1(1) r h2(1) by simp
qed simp

end

end
