(* ===== verification/Scll_Backend02.thy ===== *)
theory Scll_Backend02
  imports Scll_Backend Scll_Channel
begin

text \<open>
  \<open>scll-backend-rustcrypto/src/scp02.rs\<close>: session derivation, cryptograms, secure messaging and key
  wrapping of SCP02 (i=0x55). The closed forms and the card's side follow; the section on the
  channel interprets \<open>duplex_channel\<close> on the two of them.

  Triple-DES decryption is not used by the source: it is an argument \<open>dec\<close> of the card's side.
\<close>

section \<open>The program\<close>

definition SL_CDEC :: u8 where "SL_CDEC = 0x02"
definition SL2_RMAC :: u8 where "SL2_RMAC = 0x10"
definition DC2_S_ENC :: bytes where "DC2_S_ENC = [0x01, 0x82]"
definition DC2_S_MAC :: bytes where "DC2_S_MAC = [0x01, 0x01]"
definition DC2_S_RMAC :: bytes where "DC2_S_RMAC = [0x01, 0x02]"
definition DC2_S_DEK :: bytes where "DC2_S_DEK = [0x01, 0x81]"
definition EXTERNAL_AUTHENTICATE2 :: u8 where "EXTERNAL_AUTHENTICATE2 = 0x82"
definition SCP02_KEY_LEN :: usize where "SCP02_KEY_LEN = 16"

definition push2 :: "nat \<Rightarrow> bytes \<Rightarrow> bytes \<Rightarrow> backend_error + bytes" where
  "push2 cap v src = ok_or (crypto_err ''buffer overflow'') (vec_extend cap v src)"

definition lc_plus_mac :: "usize \<Rightarrow> backend_error + u8" where
  "lc_plus_mac body_len =
    (if body_len + 8 \<le> 255 then Inr (of_nat (body_len + 8)) else Inl (crypto_err ''wrapped Lc exceeds short APDU''))"

definition scp02_snapshot :: "'r backend_state \<Rightarrow> u16 \<Rightarrow> backend_error + scp02_session_slot" where
  "scp02_snapshot st s = ok_or (crypto_err ''session handle invalid'') (get_slot (bs_scp02_sessions st) (unat s))"

definition scp02_cryptogram :: "prims \<Rightarrow> u16 \<Rightarrow> bytes \<Rightarrow> bytes \<Rightarrow> ('r, bytes) backend" where
  "scp02_cryptogram P s hd_part tl_part st =
    (rbind (scp02_snapshot st s) (\<lambda>snap.
     if length hd_part + length tl_part > 16 then Inl (crypto_err ''cryptogram input too large'')
     else tdes_mac P (s2_enc snap) (replicate DES_BLOCK 0) (hd_part @ tl_part) (replicate 24 0)), st)"

definition scp02_card_cryptogram :: "prims \<Rightarrow> u16 \<Rightarrow> bytes \<Rightarrow> bytes \<Rightarrow> ('r, bytes) backend" where
  "scp02_card_cryptogram P s host_ch card_ch = scp02_cryptogram P s host_ch card_ch"

definition scp02_host_cryptogram :: "prims \<Rightarrow> u16 \<Rightarrow> bytes \<Rightarrow> bytes \<Rightarrow> ('r, bytes) backend" where
  "scp02_host_cryptogram P s host_ch card_ch = scp02_cryptogram P s card_ch host_ch"

definition derive_one :: "prims \<Rightarrow> bytes \<Rightarrow> bytes \<Rightarrow> bytes \<Rightarrow> backend_error + bytes" where
  "derive_one P base16 constant seq =
    (let buf = [constant ! 0, constant ! 1, seq ! 0, seq ! 1] @ replicate 12 0 in
     rbind (tdes_cbc_encrypt P base16 (replicate DES_BLOCK 0) buf SCP02_KEY_LEN) (\<lambda>(n, buf). Inr buf))"

definition read_tdes_key :: "'r backend_state \<Rightarrow> key_handle \<Rightarrow> backend_error + bytes" where
  "read_tdes_key st h =
     rbind (ok_or (crypto_err ''key handle invalid'') (get_slot (bs_keys st) (unat h))) (\<lambda>slot.
     if ksl_kind slot \<noteq> TripleDesDouble then Inl (crypto_err ''SCP02 needs a 3DES double-length key'')
     else if length (ksl_key slot) \<noteq> SCP02_KEY_LEN then Inl (crypto_err ''3DES key not 16 bytes'')
     else Inr (ksl_key slot))"

definition derive_slot02 ::
    "prims \<Rightarrow> 'r backend_state \<Rightarrow> key_handle \<Rightarrow> key_handle \<Rightarrow> key_handle \<Rightarrow> bytes \<Rightarrow> backend_error + scp02_session_slot" where
  "derive_slot02 P st base_enc base_mac base_dek seq =
     rbind (read_tdes_key st base_enc) (\<lambda>enc.
     rbind (read_tdes_key st base_mac) (\<lambda>mac.
     rbind (read_tdes_key st base_dek) (\<lambda>dek.
     rbind (derive_one P enc DC2_S_ENC seq) (\<lambda>s_enc.
     rbind (derive_one P mac DC2_S_MAC seq) (\<lambda>s_mac.
     rbind (derive_one P mac DC2_S_RMAC seq) (\<lambda>s_rmac.
     rbind (derive_one P dek DC2_S_DEK seq) (\<lambda>s_dek.
     Inr \<lparr>s2_enc = s_enc, s2_mac = s_mac, s2_rmac = s_rmac, s2_dek = s_dek, s2_icv = replicate 8 0,
       s2_icv_valid = False, s2_ricv = replicate 8 0, s2_rmac_buf = [], s2_level = 0, s2_authed = False\<rparr>)))))))"

definition scp02_derive_session ::
    "prims \<Rightarrow> key_handle \<Rightarrow> key_handle \<Rightarrow> key_handle \<Rightarrow> bytes \<Rightarrow> ('r, u16) backend" where
  "scp02_derive_session P base_enc base_mac base_dek seq st =
    (case derive_slot02 P st base_enc base_mac base_dek seq of
       Inl e \<Rightarrow> (Inl e, st)
     | Inr slot \<Rightarrow>
        (case alloc_slot slot (bs_scp02_sessions st) of
           None \<Rightarrow> (Inl (KeyGen (short_str ''session table full'')), st)
         | Some (idx, ss) \<Rightarrow> (Inr (of_nat idx), st\<lparr>bs_scp02_sessions := ss\<rparr>)))"

definition data02 :: "bytes \<Rightarrow> backend_error + bytes" where
  "data02 capdu =
    (if length capdu > 4 then
       ok_or (crypto_err ''C-APDU Lc exceeds buffer'') (get_range capdu 5 (5 + unat (capdu ! 4)))
     else Inr [])"

definition icv02 :: "prims \<Rightarrow> scp02_session_slot \<Rightarrow> backend_error + bytes" where
  "icv02 P snap = (if s2_icv_valid snap then des_ecb_block P (take DES_BLOCK (s2_mac snap)) (s2_icv snap)
     else Inr (replicate DES_BLOCK 0))"

definition cmac02 :: "prims \<Rightarrow> scp02_session_slot \<Rightarrow> bytes \<Rightarrow> bytes \<Rightarrow> bytes \<Rightarrow> backend_error + bytes" where
  "cmac02 P snap icv hd5 data =
     rbind (load_scratch ''command data too large'' (replicate 255 0) data) (\<lambda>_.
     retail_mac P (s2_mac snap) icv (hd5 @ data) (replicate (5 + 255 + DES_BLOCK) 0))"

definition body02 :: "prims \<Rightarrow> scp02_session_slot \<Rightarrow> bytes \<Rightarrow> backend_error + bytes" where
  "body02 P snap data =
    (if s2_authed snap \<and> s2_level snap AND SL_CDEC \<noteq> 0 \<and> data \<noteq> [] then
       rbind (load_scratch ''command data too large'' (replicate CAPDU_MAX 0) data) (\<lambda>scratch.
       rbind (pad80_8 scratch (length data)) (\<lambda>(padded, scratch).
       rbind (tdes_cbc_encrypt P (s2_enc snap) (replicate DES_BLOCK 0) scratch padded) (\<lambda>(n, scratch).
       Inr (take n scratch))))
     else Inr data)"

text \<open>The R-MAC buffer: \<open>extend_from_slice\<close> and \<open>push\<close> whose result is ignored.\<close>

definition rmac_append :: "bytes \<Rightarrow> bytes \<Rightarrow> bytes" where
  "rmac_append buf src = (case vec_extend SCP02_RMAC_BUF_MAX buf src of None \<Rightarrow> buf | Some b \<Rightarrow> b)"

definition commit02 ::
    "scp02_session_slot \<Rightarrow> u8 \<Rightarrow> u8 \<Rightarrow> u8 \<Rightarrow> u8 \<Rightarrow> bytes \<Rightarrow> bytes \<Rightarrow> scp02_session_slot" where
  "commit02 snap cla ins p1 p2 data cmac =
    (let latched = (if s2_authed snap then s2_level snap else p1);
         slot = snap\<lparr>s2_icv := cmac, s2_icv_valid := True, s2_level := latched\<rparr>;
         slot = (if \<not> s2_authed snap then slot\<lparr>s2_ricv := cmac\<rparr> else slot);
         slot = (if s2_authed snap \<and> latched AND SL2_RMAC \<noteq> 0 then
           slot\<lparr>s2_rmac_buf := rmac_append (rmac_append (rmac_append [] [cla AND NOT 0x07, ins, p1, p2])
             [of_nat (length data)]) data\<rparr>
         else slot)
     in slot\<lparr>s2_authed := True\<rparr>)"

definition wrap02 ::
    "prims \<Rightarrow> scp02_session_slot \<Rightarrow> bytes \<Rightarrow> backend_error + (bytes \<times> scp02_session_slot)" where
  "wrap02 P snap capdu =
    (let cla = capdu ! 0; ins = capdu ! 1; p1 = capdu ! 2; p2 = capdu ! 3 in
     rbind (data02 capdu) (\<lambda>data.
     if \<not> s2_authed snap \<and> ins \<noteq> EXTERNAL_AUTHENTICATE2
     then Inl (crypto_err ''first wrap must be EXTERNAL AUTHENTICATE'')
     else
       rbind (icv02 P snap) (\<lambda>icv.
       let new_cla = cla OR 0x04 in
       rbind (lc_plus_mac (length data)) (\<lambda>mac_lc.
       rbind (cmac02 P snap icv [new_cla, ins, p1, p2, mac_lc] data) (\<lambda>cmac.
       rbind (body02 P snap data) (\<lambda>body.
       rbind (lc_plus_mac (length body)) (\<lambda>out_lc.
       rbind (push2 CAPDU_MAX [] [new_cla, ins, p1, p2, out_lc]) (\<lambda>out.
       rbind (push2 CAPDU_MAX out body) (\<lambda>out.
       rbind (push2 CAPDU_MAX out cmac) (\<lambda>out.
       Inr (out, commit02 snap cla ins p1 p2 data cmac)))))))))))"

definition scp02_wrap_command :: "prims \<Rightarrow> u16 \<Rightarrow> bytes \<Rightarrow> ('r, bytes) backend" where
  "scp02_wrap_command P s capdu st =
    (if length capdu < 4 then (Inl (crypto_err ''C-APDU shorter than header''), st)
     else (case rbind (scp02_snapshot st s) (\<lambda>snap. wrap02 P snap capdu) of
         Inl e \<Rightarrow> (Inl e, st)
       | Inr (out, slot) \<Rightarrow> (Inr out, st\<lparr>bs_scp02_sessions := set_slot (unat s) slot (bs_scp02_sessions st)\<rparr>)))"

definition unwrap_rmac :: "prims \<Rightarrow> scp02_session_slot \<Rightarrow> bytes \<Rightarrow> bytes \<Rightarrow> backend_error + (bytes \<times> bytes)" where
  "unwrap_rmac P snap rmac_cmd rapdu =
    (let split = length rapdu - 2; sw = drop split rapdu; body = take split rapdu in
     if length body < 8 then Inl (crypto_err ''R-APDU too short for R-MAC'')
     else
       let resp_len = length body - 8; app_data = take resp_len body; rmac_recv = drop resp_len body in
       rbind (push2 (SCP02_RMAC_BUF_MAX + 3) [] rmac_cmd) (\<lambda>input.
       rbind (push2 (SCP02_RMAC_BUF_MAX + 3) input [of_nat resp_len]) (\<lambda>input.
       rbind (push2 (SCP02_RMAC_BUF_MAX + 3) input app_data) (\<lambda>input.
       rbind (push2 (SCP02_RMAC_BUF_MAX + 3) input sw) (\<lambda>input.
       rbind (retail_mac P (s2_rmac snap) (s2_ricv snap) input (replicate (SCP02_RMAC_BUF_MAX + 3 + DES_BLOCK) 0)) (\<lambda>mac.
       if \<not> ct_eq mac rmac_recv then Inl (crypto_err ''R-MAC verification failed'')
       else
         rbind (push2 RAPDU_MAX [] app_data) (\<lambda>out.
         rbind (push2 RAPDU_MAX out sw) (\<lambda>out. Inr (out, mac)))))))))"

definition unwrap02 :: "prims \<Rightarrow> scp02_session_slot \<Rightarrow> bytes \<Rightarrow> backend_error + (bytes \<times> bytes)" where
  "unwrap02 P snap rapdu =
    (if \<not> s2_authed snap then Inl (crypto_err ''unwrap before authentication'')
     else if length rapdu < 2 then Inl (crypto_err ''R-APDU shorter than SW'')
     else if s2_level snap AND SL2_RMAC \<noteq> 0 then unwrap_rmac P snap (s2_rmac_buf snap) rapdu
     else rbind (push2 RAPDU_MAX [] rapdu) (\<lambda>out. Inr (out, s2_ricv snap)))"

definition scp02_unwrap_response :: "prims \<Rightarrow> u16 \<Rightarrow> bytes \<Rightarrow> ('r, bytes) backend" where
  "scp02_unwrap_response P s rapdu st = (case scp02_snapshot st s of
     Inl e \<Rightarrow> (Inl e, st)
   | Inr snap \<Rightarrow>
      (case unwrap02 P snap rapdu of
         Inr (out, new_ricv) \<Rightarrow> (Inr out, st\<lparr>bs_scp02_sessions :=
           set_slot (unat s) (snap\<lparr>s2_ricv := new_ricv, s2_rmac_buf := []\<rparr>) (bs_scp02_sessions st)\<rparr>)
       | Inl e \<Rightarrow> (Inl e, st\<lparr>bs_scp02_sessions := (bs_scp02_sessions st)[unat s := None]\<rparr>)))"

fun ecb_loop :: "prims \<Rightarrow> bytes \<Rightarrow> bytes list \<Rightarrow> bytes \<Rightarrow> backend_error + bytes" where
  "ecb_loop P dek [] out = Inr out"
| "ecb_loop P dek (chunk # chunks) out =
     rbind (tdes_ecb_block P dek chunk) (\<lambda>enc.
     rbind (push2 ENC_KEY_BLOCK_MAX out enc) (\<lambda>out. ecb_loop P dek chunks out))"

fun chunks8 :: "bytes \<Rightarrow> bytes list" where
  "chunks8 xs = (if xs = [] then [] else take DES_BLOCK xs # chunks8 (drop 8 xs))"

declare chunks8.simps [simp del]

definition ecb_encrypt_put_key :: "prims \<Rightarrow> bytes \<Rightarrow> bytes \<Rightarrow> backend_error + bytes" where
  "ecb_encrypt_put_key P dek_bytes new_key_bytes = ecb_loop P dek_bytes (chunks8 new_key_bytes) []"

definition scp02_encrypt_put_key_payload_for_session :: "prims \<Rightarrow> u16 \<Rightarrow> key_handle \<Rightarrow> ('r, bytes) backend" where
  "scp02_encrypt_put_key_payload_for_session P s new_key st =
    (rbind (ok_or (crypto_err ''session handle invalid'') (get_slot (bs_scp02_sessions st) (unat s))) (\<lambda>slot.
     rbind (read_tdes_key st new_key) (\<lambda>nk. ecb_encrypt_put_key P (s2_dek slot) nk)), st)"

definition scp02_close_session :: "u16 \<Rightarrow> 'r backend_state \<Rightarrow> 'r backend_state" where
  "scp02_close_session s st = st\<lparr>bs_scp02_sessions := free_slot (unat s) (bs_scp02_sessions st)\<rparr>"

section \<open>Wrapping in closed form\<close>

definition icv_ref02 :: "prims \<Rightarrow> scp02_session_slot \<Rightarrow> bytes" where
  "icv_ref02 P s = (if s2_icv_valid s then p_des_cbc_enc P (take 8 (s2_mac s)) (replicate 8 0) (s2_icv s) else replicate 8 0)"

definition tag02 :: "prims \<Rightarrow> scp02_session_slot \<Rightarrow> bytes \<Rightarrow> bytes \<Rightarrow> bytes" where
  "tag02 P s hd4 data = retail_mac_ref P (s2_mac s) (icv_ref02 P s) (hd4 @ [of_nat (length data + 8)] @ data)"

definition body_ref02 :: "prims \<Rightarrow> scp02_session_slot \<Rightarrow> bytes \<Rightarrow> bytes" where
  "body_ref02 P s data =
    (if s2_authed s \<and> s2_level s AND SL_CDEC \<noteq> 0 \<and> data \<noteq> []
     then p_tdes_cbc_enc P (s2_enc s) (replicate 8 0) (padded 8 data) else data)"

definition head02 :: "bytes \<Rightarrow> bytes" where
  "head02 c = [c ! 0 OR 4, c ! 1, c ! 2, c ! 3]"

lemma length_head02 [simp]: "length (head02 c) = 4"
  by (simp add: head02_def)

lemma slot2_okD:
  assumes "slot2_ok s"
  shows "length (s2_enc s) = 16" "length (s2_mac s) = 16" "length (s2_rmac s) = 16" "length (s2_dek s) = 16"
    "length (s2_icv s) = 8" "length (s2_ricv s) = 8" "length (s2_rmac_buf s) \<le> 260"
  using assms by (simp_all add: slot2_ok_def)

lemma icv02_eq:
  assumes "prims_ok P" "slot2_ok s"
  shows "icv02 P s = Inr (icv_ref02 P s)" "length (icv_ref02 P s) = 8"
  using prims_okD(5) [OF assms(1), of "take 8 (s2_mac s)" "replicate 8 0" "s2_icv s"] slot2_okD [OF assms(2)]
  by (auto simp: icv02_def icv_ref02_def des_ecb_block_def des_cbc_encrypt_def DES_BLOCK_def)

lemma cmac02_eq:
  assumes "prims_ok P" "slot2_ok s" "length data \<le> 255" "length h = 5"
  shows "cmac02 P s (icv_ref02 P s) h data = Inr (retail_mac_ref P (s2_mac s) (icv_ref02 P s) (h @ data))"
    and "length (retail_mac_ref P (s2_mac s) (icv_ref02 P s) (h @ data)) = 8"
  using retail_mac_eq [OF assms(1) slot2_okD(2) [OF assms(2)] icv02_eq(2) [OF assms(1,2)], of "h @ data"
      "replicate 268 0"] assms(3,4)
  by (simp_all add: cmac02_def load_scratch_def DES_BLOCK_def)

lemma body_ref02_length:
  assumes "prims_ok P" "slot2_ok s"
  shows "length (body_ref02 P s data) = (if s2_authed s \<and> s2_level s AND SL_CDEC \<noteq> 0 \<and> data \<noteq> []
    then length data + (8 - length data mod 8) else length data)"
  using prims_okD(6) [OF assms(1) slot2_okD(1) [OF assms(2)], of "replicate 8 0" "padded 8 data"]
    length_padded_mod [of 8 data] by (simp add: body_ref02_def length_padded)

lemma body02_eq:
  assumes "prims_ok P" "slot2_ok s" "length data \<le> 247"
  shows "body02 P s data = Inr (body_ref02 P s data)"
proof -
  let ?m = "padded 8 data"
  have m8: "length ?m mod 8 = 0" by (simp add: length_padded_mod)
  have enc: "length (p_tdes_cbc_enc P (s2_enc s) (replicate 8 0) ?m) = length ?m"
    by (rule prims_okD(6) [OF assms(1) slot2_okD(1) [OF assms(2)] _ m8]) simp
  have "length ?m \<le> length data + 8" using length_padded_bounds [of 8 data] by simp
  then have "pad80_8 (data @ replicate (261 - length data) 0) (length data) =
      Inr (length ?m, ?m @ drop (8 - length data mod 8) (replicate (261 - length data) 0))"
    using pad_to_eq [of 8 "''3des pad overflow''" data "replicate (261 - length data) 0"] assms(3)
    by (simp add: pad80_8_def DES_BLOCK_def)
  moreover have "load_scratch msg (replicate CAPDU_MAX 0) data = Inr (data @ replicate (261 - length data) 0)" for msg
    using assms(3) by (simp add: load_scratch_def limit_simps)
  ultimately show ?thesis
    using m8 enc slot2_okD(1) [OF assms(2)]
    by (simp add: body02_def body_ref02_def tdes_cbc_encrypt_def DES_BLOCK_def)
qed

lemma data02_eq:
  "4 \<le> length c \<Longrightarrow> data02 c =
    (if apdu_framed c then Inr (apdu_data c) else Inl (crypto_err ''C-APDU Lc exceeds buffer''))"
  by (auto simp: data02_def apdu_framed_def apdu_data_def get_range_def)

lemma wrap02_eq:
  assumes "prims_ok P" "slot2_ok s" "4 \<le> length c"
  defines "data \<equiv> apdu_data c" and "body \<equiv> body_ref02 P s (apdu_data c)" and "t \<equiv> tag02 P s (head02 c) (apdu_data c)"
  shows "wrap02 P s c =
    (if \<not> apdu_framed c then Inl (crypto_err ''C-APDU Lc exceeds buffer'')
     else if \<not> s2_authed s \<and> c ! 1 \<noteq> EXTERNAL_AUTHENTICATE2
       then Inl (crypto_err ''first wrap must be EXTERNAL AUTHENTICATE'')
     else if length data > 247 \<or> length body > 247 then Inl (crypto_err ''wrapped Lc exceeds short APDU'')
     else Inr (head02 c @ [of_nat (length body + 8)] @ body @ t, commit02 s (c ! 0) (c ! 1) (c ! 2) (c ! 3) data t))"
proof (cases "length data > 247")
  case True
  then show ?thesis
    unfolding wrap02_def Let_def data02_eq [OF assms(3)]
    by (simp add: icv02_eq [OF assms(1,2)] lc_plus_mac_def data_def)
next
  case False
  then have d: "length (apdu_data c) \<le> 255" "length (apdu_data c) \<le> 247" by (simp_all add: data_def)
  note tag = cmac02_eq [OF assms(1,2) d(1), of "[c ! 0 OR 4, c ! Suc 0, c ! 2, c ! 3, of_nat (length (apdu_data c) + 8)]"]
  show ?thesis
    unfolding wrap02_def Let_def data02_eq [OF assms(3)]
    using False tag d
    by (cases "apdu_framed c")
      (auto simp: icv02_eq [OF assms(1,2)] lc_plus_mac_def data_def body02_eq [OF assms(1,2) d(2)] push2_def vec_extend_def
        body_def t_def tag02_def head02_def limit_simps)
qed

section \<open>The card's side\<close>

text \<open>\<open>dec\<close> decrypts what the triple-DES of the backend encrypts.\<close>

definition tdes_inverse :: "prims \<Rightarrow> (bytes \<Rightarrow> bytes \<Rightarrow> bytes \<Rightarrow> bytes) \<Rightarrow> bool" where
  "tdes_inverse P dec = (\<forall>k iv m. length k = 16 \<and> length iv = 8 \<and> length m mod 8 = 0 \<longrightarrow>
     dec k iv (p_tdes_cbc_enc P k iv m) = m)"

definition decrypt02 ::
    "(bytes \<Rightarrow> bytes \<Rightarrow> bytes \<Rightarrow> bytes) \<Rightarrow> scp02_session_slot \<Rightarrow> bytes \<Rightarrow> bytes option" where
  "decrypt02 dec s body =
    (if s2_authed s \<and> s2_level s AND SL_CDEC \<noteq> 0 \<and> body \<noteq> [] then
       let plain = dec (s2_enc s) (replicate 8 0) body in map_option (\<lambda>n. take n plain) (ok (unpad80 plain))
     else Some body)"

text \<open>What a card keeps of an accepted command (GPCS E.4.4 and E.4.5): the C-MAC is the next ICV; the first
  command fixes the level by its P1 and gives the first R-MAC chaining value; afterwards, at a level with R-MAC,
  the header without its logical channel and security bits, Lc and the data wait for the answer.\<close>

definition card_accept02 ::
    "scp02_session_slot \<Rightarrow> u8 \<Rightarrow> u8 \<Rightarrow> u8 \<Rightarrow> u8 \<Rightarrow> bytes \<Rightarrow> bytes \<Rightarrow> scp02_session_slot" where
  "card_accept02 s cla ins p1 p2 data tag =
    (if s2_authed s
     then s\<lparr>s2_icv := tag, s2_icv_valid := True,
       s2_rmac_buf := (if s2_level s AND SL2_RMAC = 0 then s2_rmac_buf s
         else [cla AND NOT 7, ins, p1, p2, of_nat (length data)] @ data)\<rparr>
     else s\<lparr>s2_icv := tag, s2_icv_valid := True, s2_ricv := tag, s2_level := p1, s2_authed := True\<rparr>)"

definition card_receive02 :: "prims \<Rightarrow> (bytes \<Rightarrow> bytes \<Rightarrow> bytes \<Rightarrow> bytes) \<Rightarrow> scp02_session_slot \<Rightarrow> bytes \<Rightarrow>
    (command_view \<times> scp02_session_slot) option" where
  "card_receive02 P dec s w =
    (let lc = unat (w ! 4); rest = drop 5 w; body = take (lc - 8) rest; tag = drop (lc - 8) rest in
     if length w < 5 \<or> lc < 8 \<or> length rest \<noteq> lc \<or> (\<not> s2_authed s \<and> w ! 1 \<noteq> EXTERNAL_AUTHENTICATE2) then None
     else (case decrypt02 dec s body of
         None \<Rightarrow> None
       | Some data \<Rightarrow>
          if tag \<noteq> tag02 P s (take 4 w) data then None
          else Some (((w ! 0, w ! 1, w ! 2, w ! 3), data, []),
            card_accept02 s (w ! 0) (w ! 1) (w ! 2) (w ! 3) data tag)))"

text \<open>The card's answer (GPCS E.4.5): at a level with R-MAC every answer carries one.\<close>

definition rtag02 :: "prims \<Rightarrow> scp02_session_slot \<Rightarrow> bytes \<Rightarrow> bytes \<Rightarrow> bytes" where
  "rtag02 P s data sw = retail_mac_ref P (s2_rmac s) (s2_ricv s) (s2_rmac_buf s @ [of_nat (length data)] @ data @ sw)"

definition card_respond02 :: "prims \<Rightarrow> scp02_session_slot \<Rightarrow> bytes \<Rightarrow> bytes \<times> scp02_session_slot" where
  "card_respond02 P s d =
    (let n = length d - 2; data = take n d; sw = drop n d; t = rtag02 P s data sw in
     if s2_level s AND SL2_RMAC \<noteq> 0 then (data @ t @ sw, s\<lparr>s2_ricv := t, s2_rmac_buf := []\<rparr>)
     else (d, s\<lparr>s2_rmac_buf := []\<rparr>))"

lemma decrypt02_body:
  assumes "prims_ok P" "tdes_inverse P dec" "slot2_ok s"
  shows "decrypt02 dec s (body_ref02 P s data) = Some data"
proof -
  have m8: "length (padded 8 data) mod 8 = 0" by (simp add: length_padded_mod)
  have "length (p_tdes_cbc_enc P (s2_enc s) (replicate 8 0) (padded 8 data)) = length (padded 8 data)"
    by (rule prims_okD(6) [OF assms(1) slot2_okD(1) [OF assms(3)] _ m8]) simp
  then have ne: "p_tdes_cbc_enc P (s2_enc s) (replicate 8 0) (padded 8 data) \<noteq> []" by (auto simp: padded_def)
  have "dec (s2_enc s) (replicate 8 0) (p_tdes_cbc_enc P (s2_enc s) (replicate 8 0) (padded 8 data)) = padded 8 data"
    using assms(2) m8 slot2_okD(1) [OF assms(3)] by (simp add: tdes_inverse_def)
  moreover have "take (length data) (padded 8 data) = data" by (simp add: padded_def)
  ultimately show ?thesis using ne by (simp add: decrypt02_def body_ref02_def unpad80_padded_eq)
qed

lemma tag02_length: "prims_ok P \<Longrightarrow> slot2_ok s \<Longrightarrow> length data \<le> 255 \<Longrightarrow> length h = 4 \<Longrightarrow> length (tag02 P s h data) = 8"
  using cmac02_eq(2) [of P s data "h @ [of_nat (length data + 8)]"] by (simp add: tag02_def)

lemma wrap02_success:
  assumes "prims_ok P" "slot2_ok s" "4 \<le> length c" "wrap02 P s c = Inr (w, s')"
  defines "data \<equiv> apdu_data c" and "body \<equiv> body_ref02 P s (apdu_data c)" and "t \<equiv> tag02 P s (head02 c) (apdu_data c)"
  shows "apdu_framed c" "\<not> s2_authed s \<Longrightarrow> c ! 1 = EXTERNAL_AUTHENTICATE2" "length data \<le> 247" "length body \<le> 247"
    "w = head02 c @ [of_nat (length body + 8)] @ body @ t" "s' = commit02 s (c ! 0) (c ! 1) (c ! 2) (c ! 3) data t"
    "length t = 8"
proof -
  note eq = wrap02_eq [OF assms(1-3)]
  show "apdu_framed c" "\<not> s2_authed s \<Longrightarrow> c ! 1 = EXTERNAL_AUTHENTICATE2" "length body \<le> 247"
    "w = head02 c @ [of_nat (length body + 8)] @ body @ t" "s' = commit02 s (c ! 0) (c ! 1) (c ! 2) (c ! 3) data t"
    and d: "length data \<le> 247"
    using assms(4) unfolding eq data_def body_def t_def by (auto split: if_splits)
  show "length t = 8"
    using tag02_length [OF assms(1,2), of data "head02 c"] d by (simp add: t_def data_def head02_def)
qed

lemma rmac_append_eq: "length b + length src \<le> 519 \<Longrightarrow> rmac_append b src = b @ src"
  by (simp add: rmac_append_def vec_extend_def limit_simps)

lemma commit02_accept:
  assumes "length data \<le> 247"
  shows "commit02 s cla ins p1 p2 data t = card_accept02 s (cla OR 4) ins p1 p2 data t"
proof -
  have "list_all (\<lambda>cla :: u8. (cla OR 4) AND NOT 7 = cla AND NOT 7) (map of_nat [0..<256])" by code_simp
  then have "(cla OR 4) AND NOT 7 = cla AND NOT 7" unfolding u8_all [symmetric] by blast
  then show ?thesis using assms by (simp add: commit02_def card_accept02_def Let_def rmac_append_eq)
qed

lemma commit02_ok:
  "slot2_ok s \<Longrightarrow> length data \<le> 247 \<Longrightarrow> length t = 8 \<Longrightarrow> slot2_ok (commit02 s cla ins p1 p2 data t)"
  by (simp add: commit02_def Let_def slot2_ok_def rmac_append_eq)

lemma card_receive02_wrap:
  assumes "prims_ok P" "tdes_inverse P dec" "slot2_ok s" "4 \<le> length c" "wrap02 P s c = Inr (w, s')"
  shows "card_receive02 P dec s w = Some (sm_view [] c, s')"
proof -
  let ?body = "body_ref02 P s (apdu_data c)" let ?t = "tag02 P s (head02 c) (apdu_data c)"
  note ws = wrap02_success [OF assms(1,3,4,5)]
  have lc: "unat (of_nat (length ?body + 8) :: u8) = length ?body + 8"
    unfolding unat_u8_of_nat using ws(4) by simp
  have h: "w ! 0 = c ! 0 OR 4" "w ! Suc 0 = c ! 1" "w ! 2 = c ! 2" "w ! 3 = c ! 3"
      "w ! 4 = of_nat (length ?body + 8)" "take 4 w = head02 c" "drop 5 w = ?body @ ?t"
    unfolding ws(5) by (simp_all add: head02_def del: of_nat_add)
  have l: "length w = 5 + length ?body + 8" unfolding ws(5) by (simp add: ws(7))
  have "\<not> (\<not> s2_authed s \<and> c ! 1 \<noteq> EXTERNAL_AUTHENTICATE2)" using ws(2) by blast
  then show ?thesis
    using ws(7) lc l decrypt02_body [OF assms(1,2,3), of "apdu_data c"]
    by (simp add: card_receive02_def h Let_def sm_view_def ws(6) commit02_accept [OF ws(3)] del: of_nat_add)
qed

lemma unwrap_rmac_eq:
  assumes "prims_ok P" "slot2_ok s" "2 \<le> length r" "length r \<le> 258" "length buf \<le> 260"
  defines "n \<equiv> length r - 10" and "sw \<equiv> drop (length r - 2) r"
  defines "t \<equiv> retail_mac_ref P (s2_rmac s) (s2_ricv s) (buf @ [of_nat (length (take n r))] @ take n r @ sw)"
  shows "unwrap_rmac P s buf r =
    (if length r < 10 then Inl (crypto_err ''R-APDU too short for R-MAC'')
     else if r \<noteq> take n r @ t @ sw then Inl (crypto_err ''R-MAC verification failed'')
     else Inr (take n r @ sw, t))"
proof (cases "length r < 10")
  case True
  then show ?thesis using assms(3) by (auto simp: unwrap_rmac_def Let_def)
next
  case False
  let ?in = "buf @ [of_nat (length (take n r))] @ take n r @ sw" let ?b = "take (length r - 2) r"
  have n: "length ?b - 8 = n" "length (take n r) = n" "take n ?b = take n r" "length sw = 2" "n \<le> 248"
    using False assms(4) by (simp_all add: n_def sw_def min_absorb2)
  have l: "length ?in \<le> 511" using n assms(5) by simp
  have mac: "retail_mac P (s2_rmac s) (s2_ricv s) ?in (replicate (SCP02_RMAC_BUF_MAX + 3 + DES_BLOCK) 0) = Inr t"
    using retail_mac_eq(1) [OF assms(1) slot2_okD(3,6) [OF assms(2)], of ?in "replicate (SCP02_RMAC_BUF_MAX + 3 + DES_BLOCK) 0"] l
    by (simp add: t_def limit_simps DES_BLOCK_def)
  have push: "push2 (SCP02_RMAC_BUF_MAX + 3) [] buf = Inr buf"
    "push2 (SCP02_RMAC_BUF_MAX + 3) buf [of_nat n] = Inr (buf @ [of_nat n])"
    "push2 (SCP02_RMAC_BUF_MAX + 3) (buf @ [of_nat n]) (take n r) = Inr (buf @ [of_nat n] @ take n r)"
    "push2 (SCP02_RMAC_BUF_MAX + 3) (buf @ [of_nat n] @ take n r) sw = Inr ?in"
    "push2 RAPDU_MAX [] (take n r) = Inr (take n r)" "push2 RAPDU_MAX (take n r) sw = Inr (take n r @ sw)"
    using n assms(5) by (simp_all add: push2_def vec_extend_def limit_simps)
  have "?b = take n r @ drop n ?b" by (metis n(3) append_take_drop_id)
  then have r: "r = take n r @ drop n ?b @ sw" unfolding sw_def by (metis append_assoc append_take_drop_id)
  then have "t = drop n ?b \<longleftrightarrow> r = take n r @ t @ sw" by (metis append_same_eq same_append_eq)
  then show ?thesis
    using False unfolding unwrap_rmac_def Let_def sw_def [symmetric] n(1) n(3) push rbind_simps
    by (simp only: mac [unfolded n(2)] n(2) push rbind_simps ct_eq_correct_eq) (auto simp: n)
qed

section \<open>The methods\<close>

lemma get_session02_ok: "state_ok st \<Longrightarrow> get_slot (bs_scp02_sessions st) i = Some s \<Longrightarrow> slot2_ok s"
  by (auto simp: state_ok_def)

lemma scp02_wrap_Inl: "scp02_wrap_command P h c st = (Inl e, st') \<Longrightarrow> st' = st"
  by (auto simp: scp02_wrap_command_def split: if_splits sum.splits)

lemma scp02_wrap_Inr:
  "scp02_wrap_command P h c st = (Inr w, st') \<longleftrightarrow>
     4 \<le> length c \<and> (\<exists>s s'. get_slot (bs_scp02_sessions st) (unat h) = Some s \<and> wrap02 P s c = Inr (w, s')
       \<and> st' = st\<lparr>bs_scp02_sessions := set_slot (unat h) s' (bs_scp02_sessions st)\<rparr>)"
  by (auto simp: scp02_wrap_command_def scp02_snapshot_def rbind_eq_Inl split: sum.splits)

lemma state_ok_set_session02:
  "state_ok st \<Longrightarrow> slot2_ok s \<Longrightarrow> state_ok (st\<lparr>bs_scp02_sessions := set_slot i s (bs_scp02_sessions st)\<rparr>)"
  by (auto simp: state_ok_def set_get)

lemma state_ok_free_session02: "state_ok st \<Longrightarrow> state_ok (st\<lparr>bs_scp02_sessions := free_slot i (bs_scp02_sessions st)\<rparr>)"
  by (auto simp: state_ok_def free_get)

lemma scp02_unwrap_eq:
  "scp02_unwrap_response P h r st = (case get_slot (bs_scp02_sessions st) (unat h) of
     None \<Rightarrow> (Inl (crypto_err ''session handle invalid''), st)
   | Some s \<Rightarrow>
      (case unwrap02 P s r of
         Inl e \<Rightarrow> (Inl e, scp02_close_session h st)
       | Inr (d, ricv) \<Rightarrow> (Inr d, st\<lparr>bs_scp02_sessions :=
           set_slot (unat h) (s\<lparr>s2_ricv := ricv, s2_rmac_buf := []\<rparr>) (bs_scp02_sessions st)\<rparr>)))"
  by (auto simp: scp02_unwrap_response_def scp02_snapshot_def scp02_close_session_def free_slot_def get_slot_eq
      split: option.splits sum.splits)

definition synced02 :: "prims \<Rightarrow> (bytes \<Rightarrow> bytes \<Rightarrow> bytes \<Rightarrow> bytes) \<Rightarrow> u16 \<Rightarrow> 'r backend_state \<Rightarrow> scp02_session_slot \<Rightarrow> bool" where
  "synced02 P dec h st k = (prims_ok P \<and> tdes_inverse P dec \<and> state_ok st
     \<and> get_slot (bs_scp02_sessions st) (unat h) = Some k)"

definition ready02 :: "prims \<Rightarrow> (bytes \<Rightarrow> bytes \<Rightarrow> bytes \<Rightarrow> bytes) \<Rightarrow> u16 \<Rightarrow> 'r backend_state \<Rightarrow> scp02_session_slot \<Rightarrow> bool" where
  "ready02 P dec h st k = (synced02 P dec h st k \<and> s2_authed k)"

lemma commit02_authed [simp]: "s2_authed (commit02 s cla ins p1 p2 data t)"
  by (simp add: commit02_def Let_def)

lemma card_respond02_accepted:
  assumes "prims_ok P" "slot2_ok s" "s2_authed s" "answer_fits d" "card_respond02 P s d = (r, s')"
  shows "unwrap02 P s r = Inr (d, s2_ricv s') \<and> s' = s\<lparr>s2_ricv := s2_ricv s', s2_rmac_buf := []\<rparr> \<and> slot2_ok s'"
proof -
  let ?n = "length d - 2" let ?data = "take ?n d" let ?sw = "drop ?n d" let ?t = "rtag02 P s ?data ?sw"
  have d: "2 \<le> length d" "length d \<le> 241" using assms(4) by (simp_all add: answer_fits_def)
  show ?thesis
  proof (cases "s2_level s AND SL2_RMAC = 0")
    case True
    then show ?thesis using assms(2,3,5) d
      by (auto simp: card_respond02_def Let_def unwrap02_def push2_def vec_extend_def limit_simps slot2_ok_def)
  next
    case False
    then have r: "r = ?data @ ?t @ ?sw" and s': "s' = s\<lparr>s2_ricv := ?t, s2_rmac_buf := []\<rparr>"
      using assms(5) by (auto simp: card_respond02_def Let_def)
    have l: "length ?data = ?n" "length ?sw = 2" using d by auto
    have "length (s2_rmac_buf s @ [of_nat (length ?data)] @ ?data @ ?sw) \<le> 502"
      using slot2_okD(7) [OF assms(2)] d l by simp
    then have t: "length ?t = 8"
      using retail_mac_eq(2) [OF assms(1) slot2_okD(3,6) [OF assms(2)], of "s2_rmac_buf s @ [of_nat (length ?data)] @ ?data @ ?sw"
          "replicate 600 0"] by (simp add: rtag02_def)
    have lr: "length r = ?n + 10" unfolding r using t l by simp
    then have parts: "take (length r - 10) r = ?data" "drop (length r - 2) r = ?sw"
      unfolding r using t l by simp_all
    have "unwrap_rmac P s (s2_rmac_buf s) r = Inr (?data @ ?sw, ?t)"
      using unwrap_rmac_eq [OF assms(1,2) _ _ slot2_okD(7) [OF assms(2)], of r] lr d r
      unfolding parts rtag02_def [symmetric] by simp
    then show ?thesis using False assms(2,3) lr t s' by (simp add: unwrap02_def slot2_ok_def)
  qed
qed

interpretation ch02: duplex_channel "synced02 P dec h" "scp02_wrap_command P h" "card_receive02 P dec" "sm_view []"
  "ready02 P dec h" "card_respond02 P" "scp02_unwrap_response P h" answer_fits
proof (unfold_locales, goal_cases)
  case (1 c st e st')
  then show ?case by (rule scp02_wrap_Inl)
next
  case (2 st k c w st')
  then obtain s' where s': "4 \<le> length c" "wrap02 P k c = Inr (w, s')"
      "st' = st\<lparr>bs_scp02_sessions := set_slot (unat h) s' (bs_scp02_sessions st)\<rparr>"
    by (auto simp: scp02_wrap_Inr synced02_def)
  have k: "prims_ok P" "tdes_inverse P dec" "slot2_ok k" "state_ok st"
    using 2(1) get_session02_ok by (auto simp: synced02_def)
  note ws = wrap02_success [OF k(1,3) s'(1,2)]
  have "slot2_ok s'" unfolding ws(6) by (rule commit02_ok [OF k(3) ws(3,7)])
  then have "synced02 P dec h st' s'"
    using k 2(1) by (simp add: synced02_def s'(3) state_ok_set_session02 set_get)
  then show ?case using card_receive02_wrap [OF k(1-3) s'(1,2)] by blast
next
  case (3 st k) then show ?case by (simp add: ready02_def)
next
  case (4 st k c w st' v k')
  then obtain s' where s': "4 \<le> length c" "wrap02 P k c = Inr (w, s')"
      "st' = st\<lparr>bs_scp02_sessions := set_slot (unat h) s' (bs_scp02_sessions st)\<rparr>"
    by (auto simp: scp02_wrap_Inr synced02_def)
  have k: "prims_ok P" "tdes_inverse P dec" "slot2_ok k" "state_ok st"
    using 4(1) get_session02_ok by (auto simp: synced02_def)
  note ws = wrap02_success [OF k(1,3) s'(1,2)]
  have "k' = s'" using card_receive02_wrap [OF k(1-3) s'(1,2)] 4(3) by simp
  moreover have "slot2_ok s'" unfolding ws(6) by (rule commit02_ok [OF k(3) ws(3,7)])
  moreover have "s2_authed s'" by (simp add: ws(6))
  ultimately show ?case using k 4(1) by (simp add: ready02_def synced02_def s'(3) state_ok_set_session02 set_get)
next
  case (5 st k d r k')
  then have k: "prims_ok P" "slot2_ok k" "get_slot (bs_scp02_sessions st) (unat h) = Some k" "s2_authed k" "state_ok st"
    using get_session02_ok by (auto simp: ready02_def synced02_def)
  from card_respond02_accepted [OF k(1,2,4) 5(2,3)]
  have u: "unwrap02 P k r = Inr (d, s2_ricv k')" "k' = k\<lparr>s2_ricv := s2_ricv k', s2_rmac_buf := []\<rparr>" "slot2_ok k'" by auto
  let ?st = "st\<lparr>bs_scp02_sessions := set_slot (unat h) k' (bs_scp02_sessions st)\<rparr>"
  have "scp02_unwrap_response P h r st = (Inr d, ?st)"
    using k(3) u(1) u(2) [symmetric] by (simp add: scp02_unwrap_eq)
  moreover have "s2_authed k'" by (subst u(2)) (simp add: k(4))
  then have "ready02 P dec h ?st k'"
    using 5(1) u(3) k by (simp add: ready02_def synced02_def state_ok_set_session02 set_get)
  ultimately show ?case by blast
qed

section \<open>Properties\<close>

definition sendable02 :: "bytes \<Rightarrow> bool" where
  "sendable02 c = (apdu_framed c \<and> length (apdu_data c) \<le> 239)"

definition open02 :: "u16 \<Rightarrow> nat \<Rightarrow> 'r backend_state \<Rightarrow> bool" where
  "open02 h n st = (case get_slot (bs_scp02_sessions st) (unat h) of None \<Rightarrow> False | Some s \<Rightarrow> s2_authed s)"

lemma send02_open:
  assumes "synced02 P dec h st k" "sendable02 c" "open02 h (Suc n) st"
  shows "\<exists>w st'. scp02_wrap_command P h c st = (Inr w, st') \<and> open02 h n st'"
proof -
  have k: "prims_ok P" "slot2_ok k" "get_slot (bs_scp02_sessions st) (unat h) = Some k" "s2_authed k"
    using assms(1,3) get_session02_ok by (auto simp: synced02_def open02_def)
  have c: "apdu_framed c" "length (apdu_data c) \<le> 239" "4 \<le> length c"
    using assms(2) by (simp_all add: sendable02_def apdu_framed_def)
  obtain q where q: "length (apdu_data c) div 8 = q" "q \<le> 29" using div_le_mono [OF c(2), of 8] by simp
  then have "length (body_ref02 P k (apdu_data c)) \<le> 247"
    using body_ref02_length [OF k(1,2), of "apdu_data c"] pad_arith(2) [of 8 "length (apdu_data c)"] c(2) by simp
  then show ?thesis
    using wrap02_eq [OF k(1,2) c(3)] c k(3,4) by (simp add: scp02_wrap_Inr open02_def set_get)
qed

text \<open>C17: an authenticated SCP02 channel is transparent, with one exception: the trailing Le octet is not
  sent. For every list of short commands with up to 239 octets of data, every application on the
  card and every level: the card's end accepts each wrapped command and recovers its header and
  data, and the backend unwraps each answer to the application's data and status word; both ends
  keep the same C-MAC ICV, R-MAC chaining value and R-MAC command buffer.\<close>

theorem scp02_transparent:
  assumes "prims_ok P" "tdes_inverse P dec" "state_ok st" "get_slot (bs_scp02_sessions st) (unat h) = Some k"
    and "s2_authed k" "\<And>v. answer_fits (app v)" "list_all sendable02 cs"
  shows "\<exists>st' k'. dialogue (scp02_wrap_command P h) (card_receive02 P dec) (card_respond02 P)
      (scp02_unwrap_response P h) app cs st k = Some (map (\<lambda>c. (c, app (sm_view [] c))) cs, st', k')
    \<and> synced02 P dec h st' k'"
proof (rule ch02.all_answered [where can = "open02 h"])
  show "synced02 P dec h st k" using assms(1-4) by (simp add: synced02_def)
  show "open02 h (length cs) st" using assms(4,5) by (simp add: open02_def)
  show "\<exists>w st'. scp02_wrap_command P h c st = (Inr w, st') \<and> open02 h n st'"
    if "c \<in> set cs" "synced02 P dec h st k" "open02 h (Suc n) st" for n c st k
    using send02_open [OF that(2) _ that(3)] that(1) assms(7) by (simp add: list_all_iff)
  show "open02 h n st'" if "scp02_unwrap_response P h r st = (Inr d, st')" "open02 h n st" for n r d st st'
    using that by (auto simp: scp02_unwrap_eq open02_def set_get split: option.splits sum.splits)
qed (rule assms(6))

definition demo_slot02 :: scp02_session_slot where
  "demo_slot02 = \<lparr>s2_enc = replicate 16 1, s2_mac = replicate 16 2, s2_rmac = replicate 16 3, s2_dek = replicate 16 4,
     s2_icv = replicate 8 5, s2_icv_valid = True, s2_ricv = replicate 8 6, s2_rmac_buf = [], s2_level = 0x13, s2_authed = True\<rparr>"

definition demo_state02 :: "unit backend_state" where
  "demo_state02 = (backend_new ())\<lparr>bs_scp02_sessions := Some demo_slot02 # replicate 15 None\<rparr>"

lemma demo_state02_ok:
  "state_ok demo_state02" "get_slot (bs_scp02_sessions demo_state02) (unat (0 :: u16)) = Some demo_slot02"
  "tdes_inverse toy_prims toy_xor"
proof -
  have "(b XOR c) XOR c = b" for b c :: u8 by (simp add: xor.assoc)
  then show "tdes_inverse toy_prims toy_xor" by (simp add: tdes_inverse_def toy_prims_def toy_xor_def comp_def xor.assoc)
qed (auto simp: demo_state02_def state_ok_def backend_new_def get_slot_eq limit_simps slot2_ok_def demo_slot02_def
      nth_Cons' split: if_splits)

lemma scp02_transparent_witness:
  "\<exists>st' k'. dialogue (scp02_wrap_command toy_prims 0) (card_receive02 toy_prims toy_xor) (card_respond02 toy_prims)
      (scp02_unwrap_response toy_prims 0) (\<lambda>(_, data, _). take 100 data @ [0x90, 0x00])
      [[0x80, 0xE6, 0x0C, 0, 2, 7, 8, 0], [0x80, 0xF2, 0, 0]] demo_state02 demo_slot02 =
    Some ([([0x80, 0xE6, 0x0C, 0, 2, 7, 8, 0], [7, 8, 0x90, 0x00]), ([0x80, 0xF2, 0, 0], [0x90, 0x00])], st', k')
    \<and> synced02 toy_prims toy_xor 0 st' k'"
proof -
  have "list_all sendable02 [[0x80, 0xE6, 0x0C, 0, 2, 7, 8, 0], [0x80, 0xF2, 0, 0]]" by code_simp
  moreover have "answer_fits ((\<lambda>(_, data, _). take 100 data @ [0x90, 0x00]) v)" for v :: command_view
    by (cases v) (simp add: answer_fits_def)
  moreover have "s2_authed demo_slot02" by (simp add: demo_slot02_def)
  ultimately show ?thesis
    using scp02_transparent [OF toy_prims_ok demo_state02_ok(3,1,2), of "\<lambda>(_, data, _). take 100 data @ [0x90, 0x00]"
        "[[0x80, 0xE6, 0x0C, 0, 2, 7, 8, 0], [0x80, 0xF2, 0, 0]]"]
    by (simp add: sm_view_def apdu_data_def)
qed

end
