(* ===== verification/Scll_Backend03.thy ===== *)
theory Scll_Backend03
  imports Scll_Backend Scll_Channel
begin

text \<open>
  \<open>scll-backend-rustcrypto/src/scp03.rs\<close>: session derivation, cryptograms, secure messaging and key
  wrapping of SCP03.

  \<open>wrap03\<close> and \<open>unwrap_inner\<close> are the parts of the trait methods that work on a snapshot of the
  session slot; the methods themselves look the slot up and commit or free it.
\<close>

section \<open>The program\<close>

definition SL_CENC :: u8 where "SL_CENC = 0x02"
definition SL_RMAC :: u8 where "SL_RMAC = 0x10"
definition SL_RENC :: u8 where "SL_RENC = 0x20"
definition DC_S_ENC :: u8 where "DC_S_ENC = 0x04"
definition DC_S_MAC :: u8 where "DC_S_MAC = 0x06"
definition DC_S_RMAC :: u8 where "DC_S_RMAC = 0x07"
definition DC_CARD_CRYPTO :: u8 where "DC_CARD_CRYPTO = 0x00"
definition DC_HOST_CRYPTO :: u8 where "DC_HOST_CRYPTO = 0x01"
definition DC_CARD_CHALLENGE :: u8 where "DC_CARD_CHALLENGE = 0x02"
definition EXTERNAL_AUTHENTICATE :: u8 where "EXTERNAL_AUTHENTICATE = 0x82"

text \<open>\<open>push\<close> into a bounded buffer.\<close>

definition pushb :: "nat \<Rightarrow> bytes \<Rightarrow> bytes \<Rightarrow> backend_error + bytes" where
  "pushb cap v src = ok_or (crypto_err ''buffer overflow'') (vec_extend cap v src)"

definition context03 :: "bytes \<Rightarrow> bytes \<Rightarrow> backend_error + bytes" where
  "context03 host_ch card_ch =
     rbind (ok_or (crypto_err ''context overflow'') (vec_extend 32 [] host_ch)) (\<lambda>ctx.
     ok_or (crypto_err ''context overflow'') (vec_extend 32 ctx card_ch))"

definition counter_block :: "u32 \<Rightarrow> bool \<Rightarrow> bytes" where
  "counter_block counter response =
    (let blk = replicate (BLOCK - 4) 0 @ to_be_bytes 4 counter in
     if response then blk[0 := 0x80] else blk)"

definition session_snapshot :: "'r backend_state \<Rightarrow> u16 \<Rightarrow> backend_error + scp03_session_slot" where
  "session_snapshot st s = ok_or (crypto_err ''session handle invalid'') (get_slot (bs_sessions st) (unat s))"

definition read_aes_key :: "'r backend_state \<Rightarrow> key_handle \<Rightarrow> backend_error + bytes" where
  "read_aes_key st h =
     rbind (ok_or (crypto_err ''key handle invalid'') (get_slot (bs_keys st) (unat h))) (\<lambda>slot.
     if ksl_kind slot = TripleDesDouble then Inl (crypto_err ''SCP03 needs an AES key'')
     else Inr (ksl_key slot))"

definition derive_slot03 ::
    "prims \<Rightarrow> 'r backend_state \<Rightarrow> key_handle \<Rightarrow> key_handle \<Rightarrow> scp_mode \<Rightarrow> bytes \<Rightarrow> backend_error + scp03_session_slot" where
  "derive_slot03 P st static_enc static_mac mode ctx =
     rbind (read_aes_key st static_enc) (\<lambda>enc.
     rbind (read_aes_key st static_mac) (\<lambda>mac.
     if length enc \<noteq> length mac then Inl (crypto_err ''ENC/MAC key lengths differ'')
     else
       let key_len = length enc; l_bits = of_nat key_len * 8 in
       rbind (kdf P enc DC_S_ENC l_bits ctx key_len) (\<lambda>s_enc.
       rbind (kdf P mac DC_S_MAC l_bits ctx key_len) (\<lambda>s_mac.
       rbind (kdf P mac DC_S_RMAC l_bits ctx key_len) (\<lambda>s_rmac.
       Inr \<lparr>s3_enc = s_enc, s3_mac = s_mac, s3_rmac = s_rmac, s3_mode = mode,
         s3_chain = replicate MAC_CHAIN_LEN 0, s3_counter = 0, s3_level = 0, s3_authed = False\<rparr>)))))"

definition scp03_derive_session ::
    "prims \<Rightarrow> key_handle \<Rightarrow> key_handle \<Rightarrow> scp_mode \<Rightarrow> bytes \<Rightarrow> bytes \<Rightarrow> ('r, u16) backend" where
  "scp03_derive_session P static_enc static_mac mode host_challenge card_challenge st =
    (if length host_challenge \<noteq> field_len mode \<or> length card_challenge \<noteq> field_len mode
     then (Inl (crypto_err ''challenge length does not match mode''), st)
     else (case rbind (context03 host_challenge card_challenge)
                (derive_slot03 P st static_enc static_mac mode) of
         Inl e \<Rightarrow> (Inl e, st)
       | Inr slot \<Rightarrow>
          (case alloc_slot slot (bs_sessions st) of
             None \<Rightarrow> (Inl (KeyGen (short_str ''session table full'')), st)
           | Some (idx, ss) \<Rightarrow> (Inr (of_nat idx), st\<lparr>bs_sessions := ss\<rparr>))))"

definition cryptogram03 :: "prims \<Rightarrow> u16 \<Rightarrow> bytes \<Rightarrow> bytes \<Rightarrow> u8 \<Rightarrow> ('r, bytes) backend" where
  "cryptogram03 P s host_ch card_ch const st =
    (rbind (context03 host_ch card_ch) (\<lambda>ctx.
     rbind (session_snapshot st s) (\<lambda>slot.
     let len = field_len (s3_mode slot) in
     rbind (kdf P (s3_mac slot) const (l_bits (s3_mode slot)) ctx len) (\<lambda>buf.
     ok_or (crypto_err ''cryptogram overflow'') (vec_extend SCP03_S16_MAX [] buf)))), st)"

definition scp03_card_cryptogram :: "prims \<Rightarrow> u16 \<Rightarrow> bytes \<Rightarrow> bytes \<Rightarrow> ('r, bytes) backend" where
  "scp03_card_cryptogram P s host_ch card_ch = cryptogram03 P s host_ch card_ch DC_CARD_CRYPTO"

definition scp03_host_cryptogram :: "prims \<Rightarrow> u16 \<Rightarrow> bytes \<Rightarrow> bytes \<Rightarrow> ('r, bytes) backend" where
  "scp03_host_cryptogram P s host_ch card_ch = cryptogram03 P s host_ch card_ch DC_HOST_CRYPTO"

definition scp03_pseudo_card_challenge ::
    "prims \<Rightarrow> key_handle \<Rightarrow> scp_mode \<Rightarrow> bytes \<Rightarrow> bytes \<Rightarrow> ('r, bytes) backend" where
  "scp03_pseudo_card_challenge P static_enc mode seq_counter invoker_aid st =
    (rbind (ok_or (crypto_err ''challenge context overflow'') (vec_extend 19 [] seq_counter)) (\<lambda>ctx.
     rbind (ok_or (crypto_err ''challenge context overflow'') (vec_extend 19 ctx invoker_aid)) (\<lambda>ctx.
     let len = field_len mode in
     rbind (read_aes_key st static_enc) (\<lambda>enc.
     rbind (kdf P enc DC_CARD_CHALLENGE (l_bits mode) ctx len) (\<lambda>buf.
     ok_or (crypto_err ''challenge overflow'') (vec_extend SCP03_S16_MAX [] buf))))), st)"

definition ecb_icv :: "prims \<Rightarrow> bytes \<Rightarrow> u32 \<Rightarrow> bool \<Rightarrow> backend_error + bytes" where
  "ecb_icv P key counter response = aes_ecb_block P key (counter_block counter response)"

text \<open>The three parts of a command behind its header: data field, remaining octets (Le).\<close>

definition capdu_data :: "string \<Rightarrow> bytes \<Rightarrow> backend_error + bytes" where
  "capdu_data msg capdu =
    (if length capdu > 4 then
       ok_or (crypto_err msg) (get_range capdu 5 (5 + unat (capdu ! 4)))
     else Inr [])"

definition capdu_le :: "bytes \<Rightarrow> bytes" where
  "capdu_le capdu = (let lc = (if length capdu > 4 then unat (capdu ! 4) else 0) in
     if 5 + lc \<le> length capdu then drop (5 + lc) capdu else [])"

text \<open>New counter, level and body of a command: encrypted data for an authenticated session whose level
  has C-DECRYPTION, the data itself otherwise; the first command must be EXTERNAL AUTHENTICATE.\<close>

definition wrap03_body ::
    "prims \<Rightarrow> scp03_session_slot \<Rightarrow> u8 \<Rightarrow> u8 \<Rightarrow> bytes \<Rightarrow> backend_error + (u32 \<times> u8 \<times> bytes)" where
  "wrap03_body P slot ins p1 data =
    (if s3_authed slot then
       (if s3_counter slot = - 1 then Inl (crypto_err ''command counter overflow'')
        else
          let counter = s3_counter slot + 1 in
          if s3_level slot AND SL_CENC \<noteq> 0 \<and> data \<noteq> [] then
            rbind (load_scratch ''command data too large'' (replicate CAPDU_MAX 0) data) (\<lambda>scratch.
            rbind (pad80 scratch (length data)) (\<lambda>(padded, scratch).
            rbind (ecb_icv P (s3_enc slot) counter False) (\<lambda>icv.
            rbind (aes_cbc_encrypt P (s3_enc slot) icv scratch padded) (\<lambda>(n, scratch).
            Inr (counter, s3_level slot, take n scratch)))))
          else Inr (counter, s3_level slot, data))
     else if ins \<noteq> EXTERNAL_AUTHENTICATE then
       Inl (crypto_err ''first wrap must be EXTERNAL AUTHENTICATE'')
     else Inr (s3_counter slot, p1, data))"

definition wrap03 ::
    "prims \<Rightarrow> scp03_session_slot \<Rightarrow> bytes \<Rightarrow> backend_error + (bytes \<times> scp03_session_slot)" where
  "wrap03 P slot capdu =
    (let mac_len = mac_len (s3_mode slot);
         cla = capdu ! 0; ins = capdu ! 1; p1 = capdu ! 2; p2 = capdu ! 3;
         new_cla = cla OR 0x04 in
     rbind (capdu_data ''C-APDU Lc exceeds buffer'' capdu) (\<lambda>data.
     let le = capdu_le capdu in
     rbind (wrap03_body P slot ins p1 data) (\<lambda>(counter, level, body).
     let lc_prime = length body + mac_len in
     if lc_prime > 255 then Inl (crypto_err ''wrapped Lc exceeds short APDU'')
     else
       let lc_byte = of_nat lc_prime in
       rbind (pushb 320 [] (s3_chain slot)) (\<lambda>mac_in.
       rbind (pushb 320 mac_in [new_cla, ins, p1, p2, lc_byte]) (\<lambda>mac_in.
       rbind (pushb 320 mac_in body) (\<lambda>mac_in.
       rbind (aes_cmac P (s3_mac slot) mac_in) (\<lambda>full.
       rbind (pushb CAPDU_MAX [] [new_cla, ins, p1, p2, lc_byte]) (\<lambda>out.
       rbind (pushb CAPDU_MAX out body) (\<lambda>out.
       rbind (pushb CAPDU_MAX out (take mac_len full)) (\<lambda>out.
       rbind (pushb CAPDU_MAX out le) (\<lambda>out.
       Inr (out, slot\<lparr>s3_chain := full, s3_counter := counter, s3_level := level, s3_authed := True\<rparr>))))))))))))"

definition scp03_wrap_command :: "prims \<Rightarrow> u16 \<Rightarrow> bytes \<Rightarrow> ('r, bytes) backend" where
  "scp03_wrap_command P s capdu st =
    (if length capdu < 4 then (Inl (crypto_err ''C-APDU shorter than header''), st)
     else (case rbind (session_snapshot st s) (\<lambda>slot. wrap03 P slot capdu) of
         Inl e \<Rightarrow> (Inl e, st)
       | Inr (out, slot) \<Rightarrow> (Inr out, st\<lparr>bs_sessions := set_slot (unat s) slot (bs_sessions st)\<rparr>)))"

definition sw_is_protected :: "bytes \<Rightarrow> bool" where
  "sw_is_protected sw = (case sw of
     [a, b] \<Rightarrow> (a = 0x90 \<and> b = 0x00) \<or> a = 0x62 \<or> a = 0x63
   | _ \<Rightarrow> False)"

text \<open>The slices \<open>rapdu[..split]\<close>, \<open>rapdu[split..]\<close>; the caller has checked the length.\<close>

definition unwrap_rmac03 ::
    "prims \<Rightarrow> scp03_session_slot \<Rightarrow> bytes \<Rightarrow> bytes \<Rightarrow> backend_error + bytes" where
  "unwrap_rmac03 P slot body sw =
    (let mac_len = mac_len (s3_mode slot) in
     if s3_level slot AND SL_RMAC \<noteq> 0 \<and> sw_is_protected sw then
       (if length body < mac_len then Inl (crypto_err ''R-APDU too short for R-MAC'')
        else
          let data = take (length body - mac_len) body; rmac = drop (length body - mac_len) body in
          rbind (pushb (RAPDU_MAX + MAC_CHAIN_LEN) [] (s3_chain slot)) (\<lambda>mac_in.
          rbind (pushb (RAPDU_MAX + MAC_CHAIN_LEN) mac_in data) (\<lambda>mac_in.
          rbind (pushb (RAPDU_MAX + MAC_CHAIN_LEN) mac_in sw) (\<lambda>mac_in.
          rbind (aes_cmac P (s3_rmac slot) mac_in) (\<lambda>full.
          if \<not> ct_eq (take mac_len full) rmac then Inl (crypto_err ''R-MAC verification failed'')
          else Inr data)))))
     else Inr body)"

definition unwrap_inner :: "prims \<Rightarrow> scp03_session_slot \<Rightarrow> bytes \<Rightarrow> backend_error + bytes" where
  "unwrap_inner P slot rapdu =
    (let split = length rapdu - 2; sw = drop split rapdu; body = take split rapdu in
     rbind (unwrap_rmac03 P slot body sw) (\<lambda>data.
     rbind (if s3_level slot AND SL_RENC \<noteq> 0 \<and> sw_is_protected sw \<and> data \<noteq> [] then
         (if length data mod BLOCK \<noteq> 0 then Inl (crypto_err ''R-ENC data not block-aligned'')
          else
            rbind (ecb_icv P (s3_enc slot) (s3_counter slot) True) (\<lambda>icv.
            rbind (load_scratch ''response data too large'' (replicate RAPDU_MAX 0) data) (\<lambda>scratch.
            rbind (aes_cbc_decrypt P (s3_enc slot) icv (take (length data) scratch)) (\<lambda>(n, plain).
            rbind (unpad80 plain) (\<lambda>plain_len.
            pushb RAPDU_MAX [] (take plain_len plain))))))
       else pushb RAPDU_MAX [] data) (\<lambda>out.
     pushb RAPDU_MAX out sw)))"

definition scp03_unwrap_response :: "prims \<Rightarrow> u16 \<Rightarrow> bytes \<Rightarrow> ('r, bytes) backend" where
  "scp03_unwrap_response P s rapdu st = (case session_snapshot st s of
     Inl e \<Rightarrow> (Inl e, st)
   | Inr slot \<Rightarrow>
      let result =
        (if \<not> s3_authed slot then Inl (crypto_err ''unwrap before authentication'')
         else if length rapdu < 2 then Inl (crypto_err ''R-APDU shorter than SW'')
         else unwrap_inner P slot rapdu) in
      (result, if is_ok result then st
               else st\<lparr>bs_sessions := (bs_sessions st)[unat s := None]\<rparr>))"

definition scp03_encrypt_put_key_payload :: "prims \<Rightarrow> key_handle \<Rightarrow> key_handle \<Rightarrow> ('r, bytes) backend" where
  "scp03_encrypt_put_key_payload P dek new_key st =
    (rbind (read_aes_key st dek) (\<lambda>dek_bytes.
     rbind (read_aes_key st new_key) (\<lambda>nk.
     rbind (load_scratch ''new key too large'' (replicate ENC_KEY_BLOCK_MAX 0) nk) (\<lambda>scratch.
     rbind (if length nk mod BLOCK = 0 then Inr (length nk, scratch) else pad80 scratch (length nk))
       (\<lambda>(msg_len, scratch).
     rbind (aes_cbc_encrypt P dek_bytes (replicate BLOCK 0) scratch msg_len) (\<lambda>(n, scratch).
     ok_or (crypto_err ''enc key block overflow'') (vec_extend ENC_KEY_BLOCK_MAX [] (take n scratch))))))), st)"

definition scp03_close_session :: "u16 \<Rightarrow> 'r backend_state \<Rightarrow> 'r backend_state" where
  "scp03_close_session s st = st\<lparr>bs_sessions := free_slot (unat s) (bs_sessions st)\<rparr>"

section \<open>Wrapping in closed form\<close>

definition icv03 :: "prims \<Rightarrow> bytes \<Rightarrow> u32 \<Rightarrow> bool \<Rightarrow> bytes" where
  "icv03 P key counter response = p_aes_cbc_enc P key (replicate 16 0) (counter_block counter response)"

definition body03 :: "prims \<Rightarrow> scp03_session_slot \<Rightarrow> bytes \<Rightarrow> bytes" where
  "body03 P s data =
    (if s3_authed s \<and> s3_level s AND SL_CENC \<noteq> 0 \<and> data \<noteq> []
     then p_aes_cbc_enc P (s3_enc s) (icv03 P (s3_enc s) (s3_counter s + 1) False) (padded 16 data)
     else data)"

definition head03 :: "bytes \<Rightarrow> nat \<Rightarrow> bytes" where
  "head03 c n = [c ! 0 OR 4, c ! 1, c ! 2, c ! 3, of_nat n]"

definition tag03 :: "prims \<Rightarrow> scp03_session_slot \<Rightarrow> bytes \<Rightarrow> bytes \<Rightarrow> bytes" where
  "tag03 P s hd5 body = p_cmac P (s3_mac s) (s3_chain s @ hd5 @ body)"

definition sent03 :: "scp03_session_slot \<Rightarrow> bytes \<Rightarrow> u8 \<Rightarrow> scp03_session_slot" where
  "sent03 s full p1 = s\<lparr>s3_chain := full, s3_counter := (if s3_authed s then s3_counter s + 1 else s3_counter s),
     s3_level := (if s3_authed s then s3_level s else p1), s3_authed := True\<rparr>"

lemma counter_block_length [simp]: "length (counter_block c r) = 16"
  by (simp add: counter_block_def BLOCK_def Let_def to_be_bytes_def)

lemma ecb_icv_eq:
  assumes "prims_ok P" "aes_key_len key"
  shows "ecb_icv P key c r = Inr (icv03 P key c r)" and "length (icv03 P key c r) = 16"
  using assms prims_okD(2) [OF assms, of "replicate 16 0" "counter_block c r"]
  by (simp_all add: ecb_icv_def aes_ecb_block_def aes_cbc_encrypt_def per_aes_def BLOCK_def icv03_def)

lemma body03_length:
  assumes "prims_ok P" "slot3_ok s"
  shows "length (body03 P s data) =
    (if s3_authed s \<and> s3_level s AND SL_CENC \<noteq> 0 \<and> data \<noteq> []
     then length data + (16 - length data mod 16) else length data)"
proof -
  have k: "aes_key_len (s3_enc s)" using assms(2) by (simp add: slot3_ok_def)
  show ?thesis
    using prims_okD(2) [OF assms(1) k ecb_icv_eq(2) [OF assms(1) k] length_padded_mod [of 16 data]]
    by (simp add: body03_def length_padded)
qed

lemma wrap03_body_eq:
  assumes "prims_ok P" "slot3_ok s" "length data \<le> 255"
  shows "wrap03_body P s ins p1 data =
    (if s3_authed s then
       if s3_counter s = - 1 then Inl (crypto_err ''command counter overflow'')
       else Inr (s3_counter s + 1, s3_level s, body03 P s data)
     else if ins \<noteq> EXTERNAL_AUTHENTICATE then Inl (crypto_err ''first wrap must be EXTERNAL AUTHENTICATE'')
     else Inr (s3_counter s, p1, data))"
proof -
  let ?c = "s3_counter s + 1" let ?m = "padded 16 data" let ?iv = "icv03 P (s3_enc s) ?c False"
  have k: "aes_key_len (s3_enc s)" using assms(2) by (simp add: slot3_ok_def)
  have m16: "length ?m mod 16 = 0" by (simp add: length_padded_mod)
  have enc: "length (p_aes_cbc_enc P (s3_enc s) ?iv ?m) = length ?m"
    by (rule prims_okD(2) [OF assms(1) k ecb_icv_eq(2) [OF assms(1) k] m16])
  obtain q where q: "q = length data div 16" by simp
  then have "q \<le> 15" using assms(3) div_le_mono [of "length data" 255 16] by simp
  moreover have "length ?m = 16 * (q + 1)" unfolding q by (simp only: length_padded pad_arith(2))
  ultimately have fits: "length ?m \<le> 261" by simp
  have "load_scratch msg (replicate CAPDU_MAX 0) data = Inr (data @ replicate (261 - length data) 0)" for msg
    using assms(3) by (simp add: load_scratch_def limit_simps)
  moreover have "pad80 (data @ replicate (261 - length data) 0) (length data) =
      Inr (length ?m, ?m @ drop (16 - length data mod 16) (replicate (261 - length data) 0))"
    using pad_to_eq [of 16 "''pad overflow''" data "replicate (261 - length data) 0"] fits assms(3)
    by (simp add: pad80_def BLOCK_def)
  ultimately show ?thesis
    using k m16 enc by (simp add: wrap03_body_def body03_def Let_def ecb_icv_eq [OF assms(1) k]
        aes_cbc_encrypt_def per_aes_def BLOCK_def)
qed

lemma capdu_data_eq:
  "4 \<le> length c \<Longrightarrow> capdu_data msg c =
    (if apdu_framed c then Inr (apdu_data c) else Inl (crypto_err msg))"
  by (auto simp: capdu_data_def apdu_framed_def apdu_data_def get_range_def)

lemma wrap03_eq:
  assumes "prims_ok P" "slot3_ok s" "4 \<le> length c"
  defines "body \<equiv> body03 P s (apdu_data c)" and "ml \<equiv> mac_len (s3_mode s)"
  defines "h \<equiv> head03 c (length body + ml)"
  shows "wrap03 P s c =
    (if \<not> apdu_framed c then Inl (crypto_err ''C-APDU Lc exceeds buffer'')
     else if s3_authed s \<and> s3_counter s = - 1 then Inl (crypto_err ''command counter overflow'')
     else if \<not> s3_authed s \<and> c ! 1 \<noteq> EXTERNAL_AUTHENTICATE
       then Inl (crypto_err ''first wrap must be EXTERNAL AUTHENTICATE'')
     else if length body + ml > 255 then Inl (crypto_err ''wrapped Lc exceeds short APDU'')
     else if 5 + length body + ml + length (capdu_le c) > 261 then Inl (crypto_err ''buffer overflow'')
     else Inr (h @ body @ take ml (tag03 P s h body) @ capdu_le c, sent03 s (tag03 P s h body) (c ! 2)))"
proof -
  have k: "aes_key_len (s3_mac s)" and ch: "length (s3_chain s) = 16" using assms(2) by (auto simp: slot3_ok_def)
  have ml: "ml \<le> 16" by (simp add: ml_def mac_len_def field_len_le)
  have tag: "length (p_cmac P (s3_mac s) x) = 16" for x using prims_okD(1) [OF assms(1) k] .
  have b: "\<not> s3_authed s \<Longrightarrow> body = apdu_data c" by (simp add: body_def body03_def)
  have h5: "length h = 5" by (simp add: h_def head03_def)
  show ?thesis
    unfolding wrap03_def Let_def capdu_data_eq [OF assms(3)] ml_def [symmetric]
    using k ch ml b
    by (cases "apdu_framed c"; cases "s3_authed s")
      (simp_all add: wrap03_body_eq [OF assms(1,2) apdu_data_le] body_def [symmetric] pushb_def vec_extend_def
        aes_cmac_def per_aes_def h_def head03_def tag03_def sent03_def limit_simps tag min_absorb2)
qed

section \<open>The card's side\<close>

text \<open>The card of Amendment D 6.2: it checks the C-MAC chained over the commands received, latches the
  level of EXTERNAL AUTHENTICATE, counts the commands after it, and decrypts.\<close>

definition decrypt03 :: "prims \<Rightarrow> scp03_session_slot \<Rightarrow> bytes \<Rightarrow> bytes option" where
  "decrypt03 P s body =
    (if s3_authed s \<and> s3_level s AND SL_CENC \<noteq> 0 \<and> body \<noteq> [] then
       let plain = p_aes_cbc_dec P (s3_enc s) (icv03 P (s3_enc s) (s3_counter s + 1) False) body in
       map_option (\<lambda>n. take n plain) (ok (unpad80 plain))
     else Some body)"

definition card_receive03 ::
    "prims \<Rightarrow> scp03_session_slot \<Rightarrow> bytes \<Rightarrow> (command_view \<times> scp03_session_slot) option" where
  "card_receive03 P s w =
    (let ml = mac_len (s3_mode s); lc = unat (w ! 4); rest = drop 5 w;
         body = take (lc - ml) rest; tag = take ml (drop (lc - ml) rest);
         full = tag03 P s (take 5 w) body in
     if length w < 5 \<or> lc < ml \<or> length rest < lc \<or> tag \<noteq> take ml full
        \<or> (\<not> s3_authed s \<and> w ! 1 \<noteq> EXTERNAL_AUTHENTICATE) then None
     else map_option (\<lambda>data. (((w ! 0, w ! 1, w ! 2, w ! 3), data, drop lc rest), sent03 s full (w ! 2)))
       (decrypt03 P s body))"

lemma decrypt03_body:
  assumes "prims_ok P" "slot3_ok s"
  shows "decrypt03 P s (body03 P s data) = Some data"
proof -
  have k: "aes_key_len (s3_enc s)" using assms(2) by (simp add: slot3_ok_def)
  let ?iv = "icv03 P (s3_enc s) (s3_counter s + 1) False"
  have m16: "length (padded 16 data) mod 16 = 0" by (simp add: length_padded_mod)
  have dec: "p_aes_cbc_dec P (s3_enc s) ?iv (p_aes_cbc_enc P (s3_enc s) ?iv (padded 16 data)) = padded 16 data"
    by (rule prims_okD(4) [OF assms(1) k ecb_icv_eq(2) [OF assms(1) k] m16])
  have "length (p_aes_cbc_enc P (s3_enc s) ?iv (padded 16 data)) = length (padded 16 data)"
    by (rule prims_okD(2) [OF assms(1) k ecb_icv_eq(2) [OF assms(1) k] m16])
  then have ne: "p_aes_cbc_enc P (s3_enc s) ?iv (padded 16 data) \<noteq> []" by (auto simp: padded_def)
  have "unpad80 (padded 16 data) = Inr (length data)" by (rule unpad80_padded_eq)
  moreover have "take (length data) (padded 16 data) = data" by (simp add: padded_def)
  ultimately show ?thesis using dec ne by (simp add: decrypt03_def body03_def)
qed

lemma wrap03_success:
  assumes "prims_ok P" "slot3_ok s" "wrap03 P s c = Inr (w, s')" "4 \<le> length c"
  defines "body \<equiv> body03 P s (apdu_data c)" and "ml \<equiv> mac_len (s3_mode s)"
  defines "h \<equiv> head03 c (length body + ml)"
  shows "apdu_framed c" "s3_authed s \<or> c ! 1 = EXTERNAL_AUTHENTICATE"
    "s3_authed s \<Longrightarrow> s3_counter s \<noteq> - 1" "length body + ml \<le> 255"
    "w = h @ body @ take ml (tag03 P s h body) @ capdu_le c" "length w \<le> 261"
    "s' = sent03 s (tag03 P s h body) (c ! 2)" "slot3_ok s'" "length (tag03 P s h body) = 16"
proof -
  note eq = wrap03_eq [OF assms(1,2,4)]
  show 1: "apdu_framed c" "s3_authed s \<or> c ! 1 = EXTERNAL_AUTHENTICATE"
    "s3_authed s \<Longrightarrow> s3_counter s \<noteq> - 1" "length body + ml \<le> 255"
    and w: "w = h @ body @ take ml (tag03 P s h body) @ capdu_le c"
    and s': "s' = sent03 s (tag03 P s h body) (c ! 2)"
    using assms(3) unfolding eq body_def ml_def h_def by (auto split: if_splits)
  have k: "aes_key_len (s3_mac s)" using assms(2) by (simp add: slot3_ok_def)
  show t: "length (tag03 P s h body) = 16" using prims_okD(1) [OF assms(1) k] by (simp add: tag03_def)
  have "ml \<le> 16" by (simp add: ml_def mac_len_def field_len_le)
  then show "length w \<le> 261"
    using assms(3) unfolding eq w using t by (auto simp: head03_def h_def body_def ml_def split: if_splits)
  show "slot3_ok s'" using assms(2) t by (simp add: s' sent03_def slot3_ok_def)
qed

lemma card_receive03_wrap:
  assumes "prims_ok P" "slot3_ok s" "4 \<le> length c" "wrap03 P s c = Inr (w, s')"
  shows "card_receive03 P s w = Some (sm_view (capdu_le c) c, s')"
proof -
  let ?body = "body03 P s (apdu_data c)" let ?ml = "mac_len (s3_mode s)"
  let ?h = "head03 c (length ?body + ?ml)" let ?t = "tag03 P s ?h ?body"
  note ws = wrap03_success [OF assms(1,2,4,3)]
  have ml: "?ml \<le> 16" by (simp add: mac_len_def field_len_le)
  have lc: "unat (of_nat (length ?body + ?ml) :: u8) = length ?body + ?ml"
    unfolding unat_u8_of_nat using ws(4) by simp
  have h: "w ! 0 = c ! 0 OR 4" "w ! Suc 0 = c ! 1" "w ! 2 = c ! 2" "w ! 3 = c ! 3"
      "w ! 4 = of_nat (length ?body + ?ml)" "take 5 w = ?h" "drop 5 w = ?body @ take ?ml ?t @ capdu_le c"
    unfolding ws(5) by (simp_all add: head03_def del: of_nat_add)
  have "5 \<le> length w" unfolding ws(5) by (simp add: head03_def)
  then show ?thesis
    using ws(2,9) ml lc decrypt03_body [OF assms(1,2), of "apdu_data c"]
    by (auto simp: card_receive03_def h Let_def sm_view_def ws(7) min_absorb2 not_less)
qed

section \<open>Responses\<close>

definition has_rmac03 :: "scp03_session_slot \<Rightarrow> bytes \<Rightarrow> bool" where
  "has_rmac03 s sw = (s3_level s AND SL_RMAC \<noteq> 0 \<and> sw_is_protected sw)"

definition has_renc03 :: "scp03_session_slot \<Rightarrow> bytes \<Rightarrow> bytes \<Rightarrow> bool" where
  "has_renc03 s sw data = (s3_level s AND SL_RENC \<noteq> 0 \<and> sw_is_protected sw \<and> data \<noteq> [])"

definition rtag03 :: "prims \<Rightarrow> scp03_session_slot \<Rightarrow> bytes \<Rightarrow> bytes \<Rightarrow> bytes" where
  "rtag03 P s data sw = take (mac_len (s3_mode s)) (p_cmac P (s3_rmac s) (s3_chain s @ data @ sw))"

text \<open>The card's answer (Amendment D 6.2.5 and 6.2.7): \<open>d\<close> is the application's data and status word.\<close>

definition card_respond03 :: "prims \<Rightarrow> scp03_session_slot \<Rightarrow> bytes \<Rightarrow> bytes" where
  "card_respond03 P s d =
    (let n = length d - 2; data = take n d; sw = drop n d;
         body = (if has_renc03 s sw data
           then p_aes_cbc_enc P (s3_enc s) (icv03 P (s3_enc s) (s3_counter s) True) (padded 16 data) else data)
     in body @ (if has_rmac03 s sw then rtag03 P s body sw else []) @ sw)"

lemma slot3_okD:
  "slot3_ok s \<Longrightarrow> aes_key_len (s3_enc s)" "slot3_ok s \<Longrightarrow> aes_key_len (s3_mac s)"
  "slot3_ok s \<Longrightarrow> aes_key_len (s3_rmac s)" "slot3_ok s \<Longrightarrow> length (s3_chain s) = 16"
  by (simp_all add: slot3_ok_def)

lemma unwrap_rmac03_eq:
  assumes "slot3_ok s" "length body + length sw \<le> 258"
  shows "unwrap_rmac03 P s body sw =
    (let ml = mac_len (s3_mode s); data = take (length body - ml) body in
     if \<not> has_rmac03 s sw then Inr body
     else if length body < ml then Inl (crypto_err ''R-APDU too short for R-MAC'')
     else if body \<noteq> data @ rtag03 P s data sw then Inl (crypto_err ''R-MAC verification failed'')
     else Inr data)"
proof -
  let ?ml = "mac_len (s3_mode s)" let ?d = "take (length body - ?ml) body"
  let ?x = "s3_chain s @ ?d" and ?cap = "RAPDU_MAX + MAC_CHAIN_LEN"
  have cond: "take ?ml (p_cmac P (s3_rmac s) (s3_chain s @ ?d @ sw)) = drop (length body - ?ml) body \<longleftrightarrow>
      body = ?d @ rtag03 P s ?d sw"
    unfolding rtag03_def by (metis append_take_drop_id same_append_eq)
  have d: "length ?d \<le> length body" by simp
  have p: "pushb ?cap [] (s3_chain s) = Inr (s3_chain s)" "pushb ?cap (s3_chain s) ?d = Inr ?x"
      "pushb ?cap ?x sw = Inr (s3_chain s @ ?d @ sw)"
    using slot3_okD(4) [OF assms(1)] assms(2) d
    by (simp_all add: pushb_def vec_extend_def limit_simps del: length_take)
  show ?thesis
    unfolding unwrap_rmac03_def Let_def has_rmac03_def p rbind_simps aes_cmac_def per_aes_def ct_eq_correct_eq
    using slot3_okD(3) [OF assms(1)] by (simp add: cond)
qed

lemma unwrap_rmac03_length:
  assumes "slot3_ok s" "length body + length sw \<le> 258" "unwrap_rmac03 P s body sw = Inr data"
  shows "length data \<le> length body"
  using assms(3) unfolding unwrap_rmac03_eq [OF assms(1,2)] by (auto simp: Let_def split: if_splits)

definition open03 :: "prims \<Rightarrow> scp03_session_slot \<Rightarrow> bytes \<Rightarrow> bytes \<Rightarrow> backend_error + bytes" where
  "open03 P s data sw =
    (if has_renc03 s sw data then
       if length data mod 16 \<noteq> 0 then Inl (crypto_err ''R-ENC data not block-aligned'')
       else
         let plain = p_aes_cbc_dec P (s3_enc s) (icv03 P (s3_enc s) (s3_counter s) True) data in
         rbind (unpad80 plain) (\<lambda>n. Inr (take n plain))
     else Inr data)"

lemma open03_length:
  assumes "prims_ok P" "slot3_ok s" "open03 P s data sw = Inr d"
  shows "length d \<le> length data"
proof (cases "has_renc03 s sw data")
  case True
  let ?p = "p_aes_cbc_dec P (s3_enc s) (icv03 P (s3_enc s) (s3_counter s) True) data"
  have "length ?p = length data"
    using prims_okD(3) [OF assms(1) slot3_okD(1) [OF assms(2)] ecb_icv_eq(2) [OF assms(1) slot3_okD(1) [OF assms(2)]]]
      True assms(3) by (simp add: open03_def split: if_splits)
  then show ?thesis using True assms(3) by (auto simp: open03_def Let_def split: if_splits)
qed (use assms(3) in \<open>simp add: open03_def\<close>)

lemma unwrap_inner_eq:
  assumes "prims_ok P" "slot3_ok s" "2 \<le> length r" "length r \<le> 258"
  defines "n \<equiv> length r - 2"
  shows "unwrap_inner P s r =
    rbind (unwrap_rmac03 P s (take n r) (drop n r)) (\<lambda>data.
    rbind (open03 P s data (drop n r)) (\<lambda>d. Inr (d @ drop n r)))"
proof -
  have sw: "length (drop n r) = 2" using assms(3) by (simp add: n_def)
  show ?thesis
  proof (cases "unwrap_rmac03 P s (take n r) (drop n r)")
    case (Inl e)
    then show ?thesis by (simp add: unwrap_inner_def n_def Let_def)
  next
    case (Inr data)
    have "length data \<le> n"
      using unwrap_rmac03_length [OF assms(2) _ Inr] assms(3,4) by (simp add: n_def)
    then have d: "length data \<le> 256" using assms(4) by (simp add: n_def)
    have load: "load_scratch msg (replicate RAPDU_MAX 0) data = Inr (data @ replicate (258 - length data) 0)" for msg
      using d by (simp add: load_scratch_def limit_simps)
    have push: "pushb RAPDU_MAX [] x = Inr x \<and> pushb RAPDU_MAX x (drop n r) = Inr (x @ drop n r)"
      if "length x \<le> length data" for x using that d sw by (simp add: pushb_def vec_extend_def limit_simps)
    have plain: "length (p_aes_cbc_dec P (s3_enc s) (icv03 P (s3_enc s) (s3_counter s) True) data) = length data"
      if "length data mod 16 = 0"
      by (rule prims_okD(3) [OF assms(1) slot3_okD(1) [OF assms(2)]
          ecb_icv_eq(2) [OF assms(1) slot3_okD(1) [OF assms(2)]] that])
    show ?thesis
      unfolding unwrap_inner_def Let_def n_def [symmetric] Inr rbind_simps open03_def has_renc03_def
      using push [OF order_refl] push plain
      by (auto simp: ecb_icv_eq [OF assms(1) slot3_okD(1) [OF assms(2)]] load aes_cbc_decrypt_def per_aes_def
          slot3_okD(1) [OF assms(2)] BLOCK_def Let_def rbind_def split: sum.splits)
  qed
qed

lemma open03_padded:
  assumes "prims_ok P" "slot3_ok s" "has_renc03 s sw data"
  defines "iv \<equiv> icv03 P (s3_enc s) (s3_counter s) True"
  shows "open03 P s (p_aes_cbc_enc P (s3_enc s) iv (padded 16 data)) sw = Inr data"
    and "length (p_aes_cbc_enc P (s3_enc s) iv (padded 16 data)) = length (padded 16 data)"
proof -
  note k = slot3_okD(1) [OF assms(2)]
  have m16: "length (padded 16 data) mod 16 = 0" by (simp add: length_padded_mod)
  have l: "length iv = 16" unfolding iv_def by (rule ecb_icv_eq(2) [OF assms(1) k])
  show len: "length (p_aes_cbc_enc P (s3_enc s) iv (padded 16 data)) = length (padded 16 data)"
    by (rule prims_okD(2) [OF assms(1) k l m16])
  then have "p_aes_cbc_enc P (s3_enc s) iv (padded 16 data) \<noteq> []" by (auto simp: padded_def)
  then have "has_renc03 s sw (p_aes_cbc_enc P (s3_enc s) iv (padded 16 data))"
    using assms(3) by (simp add: has_renc03_def)
  moreover have "take (length data) (padded 16 data) = data" by (simp add: padded_def)
  ultimately show "open03 P s (p_aes_cbc_enc P (s3_enc s) iv (padded 16 data)) sw = Inr data"
    using len m16 prims_okD(4) [OF assms(1) k l m16] by (simp add: open03_def iv_def [symmetric] unpad80_padded_eq)
qed

lemma length_rtag03: "prims_ok P \<Longrightarrow> slot3_ok s \<Longrightarrow> length (rtag03 P s x y) = mac_len (s3_mode s)"
  using prims_okD(1) [OF _ slot3_okD(3)] by (simp add: rtag03_def mac_len_def field_len_le)

lemma unwrap_rmac03_tagged:
  assumes "prims_ok P" "slot3_ok s" "length body + length sw \<le> 242"
  shows "unwrap_rmac03 P s (body @ (if has_rmac03 s sw then rtag03 P s body sw else [])) sw = Inr body"
proof -
  let ?m = "if has_rmac03 s sw then rtag03 P s body sw else []"
  have "length ?m \<le> 16" using length_rtag03 [OF assms(1,2), of body sw] by (simp add: mac_len_def field_len_le)
  then have "length (body @ ?m) + length sw \<le> 258" using assms(3) by simp
  from unwrap_rmac03_eq [OF assms(2) this, of P] show ?thesis
    using length_rtag03 [OF assms(1,2), of body sw] by (simp add: Let_def)
qed

lemma card_respond03_accepted:
  assumes "prims_ok P" "slot3_ok s" "2 \<le> length d" "length d \<le> 241"
  shows "unwrap_inner P s (card_respond03 P s d) = Inr d"
    and "length (card_respond03 P s d) \<le> 258" and "2 \<le> length (card_respond03 P s d)"
proof -
  let ?n = "length d - 2" let ?data = "take ?n d" let ?sw = "drop ?n d"
  let ?body = "if has_renc03 s ?sw ?data
    then p_aes_cbc_enc P (s3_enc s) (icv03 P (s3_enc s) (s3_counter s) True) (padded 16 ?data) else ?data"
  let ?mac = "if has_rmac03 s ?sw then rtag03 P s ?body ?sw else []"
  have r: "card_respond03 P s d = (?body @ ?mac) @ ?sw" by (simp add: card_respond03_def Let_def)
  have sw: "length ?sw = 2" using assms(3) by simp
  have ml: "mac_len (s3_mode s) \<le> 16" by (simp add: mac_len_def field_len_le)
  have mac: "length (rtag03 P s x y) = mac_len (s3_mode s)" for x y
    by (rule length_rtag03 [OF assms(1,2)])
  have "length ?data \<le> 239" using assms(4) by simp
  then obtain q where q: "length ?data div 16 = q" "q \<le> 14" using div_le_mono [of "length ?data" 239 16] by simp
  then have "length (padded 16 ?data) \<le> 240"
    using pad_arith(2) [of 16 "length ?data"] by (simp add: length_padded del: length_take)
  then have body: "length ?body \<le> 240"
    using open03_padded(2) [OF assms(1,2), of ?sw ?data] \<open>length ?data \<le> 239\<close> by simp
  have l: "length (card_respond03 P s d) = length ?body + length ?mac + 2"
    unfolding r using sw by simp
  moreover have "length ?mac \<le> 16" using mac ml by simp
  ultimately show len: "length (card_respond03 P s d) \<le> 258" "2 \<le> length (card_respond03 P s d)"
    using body by linarith+
  have n: "length (card_respond03 P s d) - 2 = length (?body @ ?mac)" using l by simp
  have t: "take (length (card_respond03 P s d) - 2) (card_respond03 P s d) = ?body @ ?mac"
    "drop (length (card_respond03 P s d) - 2) (card_respond03 P s d) = ?sw"
    unfolding n unfolding r by simp_all
  have "unwrap_rmac03 P s (?body @ ?mac) ?sw = Inr ?body"
    by (rule unwrap_rmac03_tagged [OF assms(1,2)]) (use body sw in linarith)
  moreover have "open03 P s ?body ?sw = Inr ?data"
    using open03_padded(1) [OF assms(1,2), of ?sw ?data]
    by (cases "has_renc03 s ?sw ?data") (simp, simp add: open03_def)
  ultimately show "unwrap_inner P s (card_respond03 P s d) = Inr d"
    unfolding unwrap_inner_eq [OF assms(1,2) len(2,1)] t by simp
qed

section \<open>The methods\<close>

lemma get_session_ok: "state_ok st \<Longrightarrow> get_slot (bs_sessions st) i = Some s \<Longrightarrow> slot3_ok s"
  by (auto simp: state_ok_def)

lemma scp03_wrap_Inl: "scp03_wrap_command P h c st = (Inl e, st') \<Longrightarrow> st' = st"
  by (auto simp: scp03_wrap_command_def split: if_splits sum.splits)

lemma scp03_wrap_Inr:
  "scp03_wrap_command P h c st = (Inr w, st') \<longleftrightarrow>
     4 \<le> length c \<and> (\<exists>s s'. get_slot (bs_sessions st) (unat h) = Some s \<and> wrap03 P s c = Inr (w, s')
       \<and> st' = st\<lparr>bs_sessions := set_slot (unat h) s' (bs_sessions st)\<rparr>)"
  by (auto simp: scp03_wrap_command_def session_snapshot_def rbind_eq_Inl split: sum.splits)

lemma state_ok_set_session:
  "state_ok st \<Longrightarrow> slot3_ok s \<Longrightarrow> state_ok (st\<lparr>bs_sessions := set_slot i s (bs_sessions st)\<rparr>)"
  by (auto simp: state_ok_def set_get)

lemma state_ok_free_session: "state_ok st \<Longrightarrow> state_ok (st\<lparr>bs_sessions := free_slot i (bs_sessions st)\<rparr>)"
  by (auto simp: state_ok_def free_get)

lemma scp03_unwrap_eq:
  "scp03_unwrap_response P h r st = (case get_slot (bs_sessions st) (unat h) of
     None \<Rightarrow> (Inl (crypto_err ''session handle invalid''), st)
   | Some s \<Rightarrow>
      (case if \<not> s3_authed s then Inl (crypto_err ''unwrap before authentication'')
            else if length r < 2 then Inl (crypto_err ''R-APDU shorter than SW'') else unwrap_inner P s r of
         Inl e \<Rightarrow> (Inl e, scp03_close_session h st)
       | Inr d \<Rightarrow> (Inr d, st)))"
  by (auto simp: scp03_unwrap_response_def session_snapshot_def scp03_close_session_def free_slot_def get_slot_eq
      Let_def is_ok_def split: option.splits sum.splits)

text \<open>The two ends of an SCP03 channel: the host's slot and the card's copy of it agree.\<close>

definition synced03 :: "prims \<Rightarrow> u16 \<Rightarrow> 'r backend_state \<Rightarrow> scp03_session_slot \<Rightarrow> bool" where
  "synced03 P h st k = (prims_ok P \<and> state_ok st \<and> get_slot (bs_sessions st) (unat h) = Some k)"

definition ready03 :: "prims \<Rightarrow> u16 \<Rightarrow> 'r backend_state \<Rightarrow> scp03_session_slot \<Rightarrow> bool" where
  "ready03 P h st k = (synced03 P h st k \<and> s3_authed k)"

interpretation ch03: duplex_channel "synced03 P h" "scp03_wrap_command P h" "card_receive03 P" "\<lambda>c. sm_view (capdu_le c) c"
  "ready03 P h" "\<lambda>k d. (card_respond03 P k d, k)" "scp03_unwrap_response P h" answer_fits
proof (unfold_locales, goal_cases)
  case (1 c st e st')
  then show ?case by (rule scp03_wrap_Inl)
next
  case (2 st k c w st')
  then obtain s' where s': "4 \<le> length c" "wrap03 P k c = Inr (w, s')"
      "st' = st\<lparr>bs_sessions := set_slot (unat h) s' (bs_sessions st)\<rparr>"
    by (auto simp: scp03_wrap_Inr synced03_def)
  have k: "prims_ok P" "slot3_ok k" "state_ok st" using 2(1) get_session_ok by (auto simp: synced03_def)
  have "slot3_ok s'" using wrap03_success(8) [OF k(1,2) s'(2,1)] .
  then have "synced03 P h st' s'"
    using k 2(1) by (simp add: synced03_def s'(3) state_ok_set_session set_get)
  then show ?case using card_receive03_wrap [OF k(1,2) s'(1,2)] by blast
next
  case (3 st k) then show ?case by (simp add: ready03_def)
next
  case (4 st k c w st' v k')
  then obtain s' where s': "4 \<le> length c" "wrap03 P k c = Inr (w, s')"
      "st' = st\<lparr>bs_sessions := set_slot (unat h) s' (bs_sessions st)\<rparr>"
    by (auto simp: scp03_wrap_Inr synced03_def)
  have k: "prims_ok P" "slot3_ok k" "state_ok st" using 4(1) get_session_ok by (auto simp: synced03_def)
  have "k' = s'" using card_receive03_wrap [OF k(1,2) s'(1,2)] 4(3) by simp
  moreover have "slot3_ok s'" "s3_authed s'"
    using wrap03_success(7,8) [OF k(1,2) s'(2,1)] by (simp_all add: sent03_def)
  ultimately show ?case using k 4(1) by (simp add: ready03_def synced03_def s'(3) state_ok_set_session set_get)
next
  case (5 st k d r k')
  then have k: "prims_ok P" "slot3_ok k" "get_slot (bs_sessions st) (unat h) = Some k" "s3_authed k"
    using get_session_ok by (auto simp: ready03_def synced03_def)
  have "unwrap_inner P k r = Inr d" "2 \<le> length r"
    using card_respond03_accepted [OF k(1,2), of d] 5(2,3) by (auto simp: answer_fits_def)
  then show ?case using 5 k by (simp add: scp03_unwrap_eq)
qed

section \<open>Properties\<close>

definition sendable03 :: "bytes \<Rightarrow> bool" where
  "sendable03 c = (apdu_framed c \<and> length (apdu_data c) \<le> 223 \<and> length (capdu_le c) \<le> 1)"

lemma body03_bounds:
  assumes "prims_ok P" "slot3_ok s" "length data \<le> 223"
  shows "length (body03 P s data) \<le> 224"
proof -
  obtain q where q: "length data div 16 = q" "q \<le> 13" using div_le_mono [OF assms(3), of 16] by simp
  then show ?thesis using pad_arith(2) [of 16 "length data"] body03_length [OF assms(1,2), of data] assms(3) by simp
qed

lemma wrap03_sendable:
  assumes "prims_ok P" "slot3_ok s" "sendable03 c" "s3_authed s" "s3_counter s \<noteq> - 1"
  shows "\<exists>w. wrap03 P s c = Inr (w, sent03 s (tag03 P s (head03 c (length (body03 P s (apdu_data c)) + mac_len (s3_mode s)))
    (body03 P s (apdu_data c))) (c ! 2))"
proof -
  have "length (body03 P s (apdu_data c)) \<le> 224"
    using body03_bounds [OF assms(1,2)] assms(3) by (simp add: sendable03_def)
  moreover have "mac_len (s3_mode s) \<le> 16" by (simp add: mac_len_def field_len_le)
  moreover have "4 \<le> length c" using assms(3) by (simp add: sendable03_def apdu_framed_def)
  ultimately show ?thesis
    using wrap03_eq [OF assms(1,2), of c] assms(3-5) by (simp add: sendable03_def)
qed

definition room03 :: "u16 \<Rightarrow> nat \<Rightarrow> 'r backend_state \<Rightarrow> bool" where
  "room03 h n st = (case get_slot (bs_sessions st) (unat h) of None \<Rightarrow> False
     | Some s \<Rightarrow> s3_authed s \<and> unat (s3_counter s) + n < 2 ^ 32)"

lemma send03_room:
  assumes "synced03 P h st k" "sendable03 c" "room03 h (Suc n) st"
  shows "\<exists>w st'. scp03_wrap_command P h c st = (Inr w, st') \<and> room03 h n st'"
proof -
  have k: "prims_ok P" "slot3_ok k" "get_slot (bs_sessions st) (unat h) = Some k" "s3_authed k"
    and c: "unat (s3_counter k) + Suc n < 2 ^ 32"
    using assms(1,3) get_session_ok by (auto simp: synced03_def room03_def)
  have "s3_counter k \<noteq> - 1"
  proof
    assume "s3_counter k = - 1"
    then have "unat (s3_counter k) = 2 ^ 32 - 1" by (simp add: unsigned_minus_1_eq_mask mask_eq_exp_minus_1)
    then show False using c by linarith
  qed
  note w = wrap03_sendable [OF k(1,2) assms(2) k(4) this] unat_succ [OF this]
  have "4 \<le> length c" using assms(2) by (simp add: sendable03_def apdu_framed_def)
  then show ?thesis
    using w k(3,4) c by (auto simp: scp03_wrap_Inr room03_def set_get sent03_def)
qed

text \<open>C1: an authenticated SCP03 channel is transparent. For every list of short commands with up to 223
  octets of data, every application on the card and every security level and mode: the backend
  wraps each command, the card's end accepts it and recovers its header (with the secure
  messaging bit), data and trailing octets, and the backend unwraps each answer to the
  application's data and status word; both ends keep the same chaining value and counter. The
  only limit is the 32-bit command counter.\<close>

theorem scp03_transparent:
  assumes "prims_ok P" "state_ok st" "get_slot (bs_sessions st) (unat h) = Some k" "s3_authed k"
    and "\<And>v. answer_fits (app v)" "list_all sendable03 cs" "unat (s3_counter k) + length cs < 2 ^ 32"
  shows "\<exists>st' k'. dialogue (scp03_wrap_command P h) (card_receive03 P) (\<lambda>k d. (card_respond03 P k d, k))
      (scp03_unwrap_response P h) app cs st k = Some (map (\<lambda>c. (c, app (sm_view (capdu_le c) c))) cs, st', k')
    \<and> synced03 P h st' k'"
proof (rule ch03.all_answered [where can = "room03 h"])
  show "synced03 P h st k" using assms(1-3) by (simp add: synced03_def)
  show "room03 h (length cs) st" using assms(3,4,7) by (simp add: room03_def)
  show "\<exists>w st'. scp03_wrap_command P h c st = (Inr w, st') \<and> room03 h n st'"
    if "c \<in> set cs" "synced03 P h st k" "room03 h (Suc n) st" for n c st k
    using send03_room [OF that(2) _ that(3)] that(1) assms(6) by (simp add: list_all_iff)
  show "room03 h n st'" if "scp03_unwrap_response P h r st = (Inr d, st')" "room03 h n st" for n r d st st'
    using that by (auto simp: scp03_unwrap_eq split: option.splits sum.splits if_splits)
qed (rule assms(5))

text \<open>A concrete session: 16-octet keys, mode S16, level 0x33, no command sent yet.\<close>

definition demo_slot03 :: scp03_session_slot where
  "demo_slot03 = \<lparr>s3_enc = replicate 16 1, s3_mac = replicate 16 2, s3_rmac = replicate 16 3, s3_mode = S16,
     s3_chain = replicate 16 0, s3_counter = 0, s3_level = 0x33, s3_authed = True\<rparr>"

definition demo_state03 :: "unit backend_state" where
  "demo_state03 = (backend_new ())\<lparr>bs_sessions := Some demo_slot03 # replicate 15 None\<rparr>"

lemma demo_state03_ok:
  "state_ok demo_state03" "get_slot (bs_sessions demo_state03) (unat (0 :: u16)) = Some demo_slot03"
  by (auto simp: demo_state03_def state_ok_def backend_new_def get_slot_eq limit_simps slot3_ok_def demo_slot03_def
      aes_key_len_def nth_Cons' split: if_splits)

lemma scp03_transparent_witness:
  "\<exists>st' k'. dialogue (scp03_wrap_command toy_prims 0) (card_receive03 toy_prims)
      (\<lambda>k d. (card_respond03 toy_prims k d, k)) (scp03_unwrap_response toy_prims 0)
      (\<lambda>(_, data, _). take 100 data @ [0x90, 0x00]) [[0x80, 0xCA, 0, 0, 2, 7, 8, 0], [0x80, 0xF2, 0, 0]]
      demo_state03 demo_slot03 =
    Some ([([0x80, 0xCA, 0, 0, 2, 7, 8, 0], [7, 8, 0x90, 0x00]), ([0x80, 0xF2, 0, 0], [0x90, 0x00])], st', k')
    \<and> synced03 toy_prims 0 st' k'"
proof -
  have "list_all sendable03 [[0x80, 0xCA, 0, 0, 2, 7, 8, 0], [0x80, 0xF2, 0, 0]]" by code_simp
  moreover have "answer_fits ((\<lambda>(_, data, _). take 100 data @ [0x90, 0x00]) v)" for v :: command_view
    by (cases v) (simp add: answer_fits_def)
  moreover have "s3_authed demo_slot03" "unat (s3_counter demo_slot03) = 0" by (simp_all add: demo_slot03_def)
  ultimately show ?thesis
    using scp03_transparent [OF toy_prims_ok demo_state03_ok, of "\<lambda>(_, data, _). take 100 data @ [0x90, 0x00]"
        "[[0x80, 0xCA, 0, 0, 2, 7, 8, 0], [0x80, 0xF2, 0, 0]]"]
    by (simp add: sm_view_def apdu_data_def capdu_le_def)
qed

text \<open>C31: the block size of LOAD is the largest one that always passes: a framed command with at most
  one trailing octet is wrapped by every live authenticated session, whatever its mode and
  level, exactly when its data field has at most \<open>LOAD_BLOCK_DATA\<close> octets, and the wrapped
  command then fits \<open>CAPDU_MAX\<close>.\<close>

theorem load_block_bound:
  assumes "prims_ok P" "apdu_framed c" "length (capdu_le c) \<le> 1"
  shows "(\<forall>s. slot3_ok s \<and> s3_authed s \<and> s3_counter s \<noteq> - 1 \<longrightarrow>
       (\<exists>w s'. wrap03 P s c = Inr (w, s') \<and> length w \<le> CAPDU_MAX))
     \<longleftrightarrow> length (apdu_data c) \<le> LOAD_BLOCK_DATA"
proof
  assume a: "\<forall>s. slot3_ok s \<and> s3_authed s \<and> s3_counter s \<noteq> - 1 \<longrightarrow>
       (\<exists>w s'. wrap03 P s c = Inr (w, s') \<and> length w \<le> CAPDU_MAX)"
  have s: "slot3_ok demo_slot03" "s3_authed demo_slot03" "s3_counter demo_slot03 \<noteq> - 1"
    "s3_mode demo_slot03 = S16" "s3_level demo_slot03 AND SL_CENC \<noteq> 0"
    by (simp_all add: demo_slot03_def slot3_ok_def aes_key_len_def SL_CENC_def)
  obtain w s' where "wrap03 P demo_slot03 c = Inr (w, s')" using a s by blast
  from wrap03_success(4) [OF assms(1) s(1) this] assms(2)
  have "length (body03 P demo_slot03 (apdu_data c)) \<le> 239"
    by (simp add: apdu_framed_def s(4) mac_len_def)
  moreover have "16 * (length (apdu_data c) div 16 + 1) = length (body03 P demo_slot03 (apdu_data c))"
    if "apdu_data c \<noteq> []"
    using that body03_length [OF assms(1) s(1), of "apdu_data c"] s(2,5) pad_arith(2) [of 16 "length (apdu_data c)"]
    by simp
  ultimately have "length (apdu_data c) div 16 < 14 \<or> apdu_data c = []" by (cases "apdu_data c = []") simp_all
  then show "length (apdu_data c) \<le> LOAD_BLOCK_DATA"
    using div_less_iff_less_mult [of 16 "length (apdu_data c)" 14] by (auto simp: limit_simps)
next
  assume "length (apdu_data c) \<le> LOAD_BLOCK_DATA"
  then have c: "sendable03 c" "4 \<le> length c"
    using assms(2,3) by (auto simp: sendable03_def limit_simps apdu_framed_def)
  show "\<forall>s. slot3_ok s \<and> s3_authed s \<and> s3_counter s \<noteq> - 1 \<longrightarrow>
       (\<exists>w s'. wrap03 P s c = Inr (w, s') \<and> length w \<le> CAPDU_MAX)"
    using wrap03_sendable [OF assms(1) _ c(1)] wrap03_success(6) [OF assms(1) _ _ c(2)]
    by (fastforce simp: limit_simps)
qed

lemma load_block_bound_witness:
  "\<exists>w s'. wrap03 toy_prims demo_slot03 [0x80, 0xE8, 0, 0, 2, 7, 8] = Inr (w, s') \<and> length w \<le> CAPDU_MAX"
proof -
  have c: "apdu_framed [0x80, 0xE8, 0, 0, 2, 7, 8]" "length (capdu_le [0x80, 0xE8, 0, 0, 2, 7, 8]) \<le> 1"
    "length (apdu_data [0x80, 0xE8, 0, 0, 2, 7, 8]) \<le> LOAD_BLOCK_DATA" by code_simp+
  have "slot3_ok demo_slot03 \<and> s3_authed demo_slot03 \<and> s3_counter demo_slot03 \<noteq> - 1"
    by (simp add: demo_slot03_def slot3_ok_def aes_key_len_def)
  then show ?thesis using load_block_bound [OF toy_prims_ok c(1,2)] c(3) by blast
qed

text \<open>C15: a command of a live session commits or leaves no trace. When \<open>scp03_wrap_command\<close> fails, the
  whole state is as before. When it succeeds, only the slot of the handle changes; a session
  that is not authenticated yet only accepts EXTERNAL AUTHENTICATE, which latches its P1 as the
  level without counting; a later command keeps the level and counts by one, without
  wrap-around; the chaining value becomes the full C-MAC over the previous one, the header and
  the body, and the command carries that MAC's prefix.\<close>

theorem scp03_wrap_commits:
  assumes "prims_ok P" "state_ok st" "scp03_wrap_command P h c st = (r, st')"
  shows "case r of
      Inl e \<Rightarrow> st' = st
    | Inr w \<Rightarrow> (\<exists>s s' body. get_slot (bs_sessions st) (unat h) = Some s \<and> s3_authed s'
        \<and> st' = st\<lparr>bs_sessions := (bs_sessions st)[unat h := Some s']\<rparr> \<and> state_ok st'
        \<and> (if s3_authed s then s3_level s' = s3_level s \<and> unat (s3_counter s') = unat (s3_counter s) + 1
           else c ! 1 = EXTERNAL_AUTHENTICATE \<and> s3_level s' = c ! 2 \<and> s3_counter s' = s3_counter s \<and> body = apdu_data c)
        \<and> s3_chain s' = p_cmac P (s3_mac s) (s3_chain s @ take 5 w @ body)
        \<and> w = take 5 w @ body @ take (mac_len (s3_mode s)) (s3_chain s') @ capdu_le c
        \<and> (s3_enc s', s3_mac s', s3_rmac s', s3_mode s') = (s3_enc s, s3_mac s, s3_rmac s, s3_mode s)
        \<and> length w \<le> CAPDU_MAX)"
proof (cases r)
  case (Inl e)
  then show ?thesis using scp03_wrap_Inl assms(3) by auto
next
  case (Inr w)
  then obtain s s' where s: "4 \<le> length c" "get_slot (bs_sessions st) (unat h) = Some s" "wrap03 P s c = Inr (w, s')"
      "st' = st\<lparr>bs_sessions := set_slot (unat h) s' (bs_sessions st)\<rparr>"
    using assms(3) unfolding Inr scp03_wrap_Inr by auto
  note ok = get_session_ok [OF assms(2) s(2)]
  let ?body = "body03 P s (apdu_data c)" let ?h = "head03 c (length ?body + mac_len (s3_mode s))"
  note ws = wrap03_success [OF assms(1) ok s(3,1)]
  have ea: "\<not> s3_authed s \<Longrightarrow> c ! 1 = EXTERNAL_AUTHENTICATE" using ws(2) by blast
  have t5: "take 5 w = ?h" unfolding ws(5) by (simp add: head03_def)
  have set: "st' = st\<lparr>bs_sessions := (bs_sessions st)[unat h := Some s']\<rparr>"
    unfolding s(4) using s(2) by (simp add: set_slot_def)
  have "state_ok st'" unfolding s(4) by (rule state_ok_set_session [OF assms(2) ws(8)])
  moreover have "\<not> s3_authed s \<Longrightarrow> ?body = apdu_data c" by (simp add: body03_def)
  moreover have "s3_authed s \<Longrightarrow> unat (s3_counter s + 1) = unat (s3_counter s) + 1"
    using unat_succ [OF ws(3)] by simp
  ultimately have "get_slot (bs_sessions st) (unat h) = Some s \<and> s3_authed s'
      \<and> st' = st\<lparr>bs_sessions := (bs_sessions st)[unat h := Some s']\<rparr> \<and> state_ok st'
      \<and> (if s3_authed s then s3_level s' = s3_level s \<and> unat (s3_counter s') = unat (s3_counter s) + 1
         else c ! 1 = EXTERNAL_AUTHENTICATE \<and> s3_level s' = c ! 2 \<and> s3_counter s' = s3_counter s \<and> ?body = apdu_data c)
      \<and> s3_chain s' = p_cmac P (s3_mac s) (s3_chain s @ take 5 w @ ?body)
      \<and> w = take 5 w @ ?body @ take (mac_len (s3_mode s)) (s3_chain s') @ capdu_le c
      \<and> (s3_enc s', s3_mac s', s3_rmac s', s3_mode s') = (s3_enc s, s3_mac s, s3_rmac s, s3_mode s)
      \<and> length w \<le> CAPDU_MAX"
    unfolding t5 using ws(5,6,7) ea s(2) set by (simp add: sent03_def tag03_def limit_simps)
  then show ?thesis unfolding Inr sum.case by blast
qed

lemma scp03_wrap_commits_witness:
  "case scp03_wrap_command toy_prims 0 [0x80, 0xF2, 0, 0] demo_state03 of (r, st') \<Rightarrow> is_ok r \<and> state_ok st'"
proof -
  let ?r = "fst (scp03_wrap_command toy_prims 0 [0x80, 0xF2, 0, 0] demo_state03)"
  let ?st = "snd (scp03_wrap_command toy_prims 0 [0x80, 0xF2, 0, 0] demo_state03)"
  have "is_ok ?r" by code_simp
  then obtain w where w: "?r = Inr w" by (auto simp: is_ok_iff)
  have "scp03_wrap_command toy_prims 0 [0x80, 0xF2, 0, 0] demo_state03 = (?r, ?st)" by simp
  from scp03_wrap_commits [OF toy_prims_ok demo_state03_ok(1) this] have "state_ok ?st" unfolding w sum.case by blast
  then show ?thesis using w by (simp add: case_prod_beta)
qed

text \<open>C8: unwrapping fails closed and accepts nothing unprotected. After any failure the session slot of
  the handle is free, nothing else has changed, and the handle cannot be used again. After a
  success the state is unchanged, the session was authenticated, and when the level has R-MAC
  and the status word is 9000, 62xx or 63xx, the response is data, the MAC prefix over chaining
  value, data and status word, and the status word; what is returned is the (decrypted) data
  with that status word.\<close>

theorem scp03_unwrap_fail_closed:
  assumes "prims_ok P" "state_ok st" "length r \<le> RAPDU_MAX" "scp03_unwrap_response P h r st = (res, st')"
  defines "sw \<equiv> drop (length r - 2) r"
  shows "case res of
      Inl e \<Rightarrow> get_slot (bs_sessions st') (unat h) = None \<and> st' = st\<lparr>bs_sessions := free_slot (unat h) (bs_sessions st)\<rparr>
        \<and> fst (scp03_unwrap_response P h r' st') = Inl (crypto_err ''session handle invalid'')
        \<and> \<not> is_ok (fst (scp03_wrap_command P h c st'))
    | Inr d \<Rightarrow> st' = st \<and> (\<exists>s data plain. get_slot (bs_sessions st) (unat h) = Some s \<and> s3_authed s
        \<and> r = data @ (if has_rmac03 s sw then rtag03 P s data sw else []) @ sw
        \<and> open03 P s data sw = Inr plain \<and> d = plain @ sw \<and> length sw = 2)"
proof (cases "get_slot (bs_sessions st) (unat h)")
  case None
  then have "res = Inl (crypto_err ''session handle invalid'')" "st' = st"
    using assms(4) by (simp_all add: scp03_unwrap_eq)
  moreover have "free_slot (unat h) (bs_sessions st) = bs_sessions st"
    using None by (auto simp: free_slot_def get_slot_eq list_update_same_conv)
  ultimately show ?thesis using None by (simp add: scp03_unwrap_eq scp03_wrap_command_def session_snapshot_def)
next
  case (Some s)
  note ok = get_session_ok [OF assms(2) Some]
  show ?thesis
  proof (cases res)
    case (Inl e)
    then have st': "st' = scp03_close_session h st"
      using assms(4) Some by (auto simp: scp03_unwrap_eq split: sum.splits if_splits)
    then have "get_slot (bs_sessions st') (unat h) = None" by (simp add: scp03_close_session_def free_get)
    then show ?thesis using Inl st'
      by (simp add: scp03_close_session_def scp03_unwrap_eq scp03_wrap_command_def session_snapshot_def)
  next
    case (Inr d)
    then have st': "st' = st" "s3_authed s" "2 \<le> length r" and u: "unwrap_inner P s r = Inr d"
      using assms(4) Some by (auto simp: scp03_unwrap_eq split: sum.splits if_splits)
    let ?b = "take (length r - 2) r"
    have len: "length r \<le> 258" using assms(3) by (simp add: limit_simps)
    obtain data plain where data: "unwrap_rmac03 P s ?b sw = Inr data" "open03 P s data sw = Inr plain" "d = plain @ sw"
      using u unfolding unwrap_inner_eq [OF assms(1) ok st'(3) len] sw_def by auto
    have l: "length ?b + length sw \<le> 258" using len st'(3) by (simp add: sw_def)
    have "?b = data @ (if has_rmac03 s sw then rtag03 P s data sw else [])"
      using data(1) unfolding unwrap_rmac03_eq [OF ok l] by (auto simp: Let_def split: if_splits)
    then have "r = data @ (if has_rmac03 s sw then rtag03 P s data sw else []) @ sw"
      unfolding sw_def by (metis append_assoc append_take_drop_id)
    moreover have "length sw = 2" using st'(3) by (simp add: sw_def)
    ultimately show ?thesis using Inr st' Some data(2,3) by auto
  qed
qed

lemma scp03_unwrap_fail_closed_witness:
  "get_slot (bs_sessions (snd (scp03_unwrap_response toy_prims 0 [7, 0x90, 0x00] demo_state03))) (unat (0 :: u16)) = None"
proof -
  let ?r = "scp03_unwrap_response toy_prims 0 [7, 0x90, 0x00] demo_state03"
  have "\<not> is_ok (fst ?r)" by code_simp
  then obtain e where e: "fst ?r = Inl e" by (cases "fst ?r") auto
  have "length [7 :: u8, 0x90, 0x00] \<le> RAPDU_MAX" by (simp add: limit_simps)
  from scp03_unwrap_fail_closed [OF toy_prims_ok demo_state03_ok(1) this prod.collapse [symmetric], of 0] show ?thesis
    unfolding e sum.case by blast
qed

section \<open>Derivation and key wrapping\<close>

lemma read_aes_key_ok:
  "state_ok st \<Longrightarrow> read_aes_key st h = Inr k \<Longrightarrow> aes_key_len k"
  by (auto simp: read_aes_key_def state_ok_def key_ok_def aes_key_len_def split: if_splits)
    (metis clear_len.simps(1-3) key_kind.exhaust)+

lemma field_len_context:
  "length a = field_len m \<Longrightarrow> length b = field_len m \<Longrightarrow> context03 a b = Inr (a @ b)"
  using field_len_le [of m] by (simp add: context03_def vec_extend_def)

definition derived03 :: "prims \<Rightarrow> bytes \<Rightarrow> bytes \<Rightarrow> scp_mode \<Rightarrow> bytes \<Rightarrow> scp03_session_slot" where
  "derived03 P enc mac mode ctx =
    (let n = length enc; l = of_nat n * 8 in
     \<lparr>s3_enc = kdf_ref P enc DC_S_ENC l ctx n, s3_mac = kdf_ref P mac DC_S_MAC l ctx n,
      s3_rmac = kdf_ref P mac DC_S_RMAC l ctx n, s3_mode = mode, s3_chain = replicate 16 0,
      s3_counter = 0, s3_level = 0, s3_authed = False\<rparr>)"

lemma derived03_ok:
  "prims_ok P \<Longrightarrow> aes_key_len enc \<Longrightarrow> aes_key_len mac \<Longrightarrow> length enc = length mac \<Longrightarrow> slot3_ok (derived03 P enc mac mode ctx)"
  by (simp add: slot3_ok_def derived03_def Let_def aes_key_len_def length_kdf_ref)

lemma scp03_derive_Inr:
  assumes "prims_ok P" "state_ok st"
  shows "scp03_derive_session P he hm mode hc cc st = (Inr h, st') \<longleftrightarrow>
    length hc = field_len mode \<and> length cc = field_len mode \<and>
    (\<exists>enc mac i ss. read_aes_key st he = Inr enc \<and> read_aes_key st hm = Inr mac \<and> length enc = length mac
       \<and> alloc_slot (derived03 P enc mac mode (hc @ cc)) (bs_sessions st) = Some (i, ss)
       \<and> h = of_nat i \<and> st' = st\<lparr>bs_sessions := ss\<rparr>)"
proof (cases "length hc = field_len mode \<and> length cc = field_len mode")
  case True
  then have "length (hc @ cc) \<le> 48" using field_len_le [of mode] by simp
  then have k: "aes_key_len k \<Longrightarrow> kdf P k const l (hc @ cc) n = Inr (kdf_ref P k const l (hc @ cc) n)" for k const l n
    using kdf_eq [OF assms(1)] by blast
  have "derive_slot03 P st he hm mode (hc @ cc) = Inr slot \<longleftrightarrow>
    (\<exists>enc mac. read_aes_key st he = Inr enc \<and> read_aes_key st hm = Inr mac \<and> length enc = length mac
      \<and> slot = derived03 P enc mac mode (hc @ cc))" for slot
    using read_aes_key_ok [OF assms(2), of he] read_aes_key_ok [OF assms(2), of hm]
    by (cases "read_aes_key st he"; cases "read_aes_key st hm")
      (auto simp: derive_slot03_def derived03_def Let_def limit_simps k)
  note d = this
  show ?thesis
  proof (cases "derive_slot03 P st he hm mode (hc @ cc)")
    case (Inl e)
    then show ?thesis using True d [of "derived03 P _ _ mode (hc @ cc)"]
      by (fastforce simp: scp03_derive_session_def field_len_context)
  next
    case (Inr slot)
    then show ?thesis using True d [of slot]
      by (auto simp: scp03_derive_session_def field_len_context split: option.splits)
  qed
qed (auto simp: scp03_derive_session_def)

end
