(* ===== verification/Scll_Session.thy ===== *)
theory Scll_Session
  imports Scll_Response Scll_Scp Scll_Backend02 Scll_Backend03
begin

text \<open>
  \<open>scll-core/src/workflow/session.rs\<close> and \<open>transmit.rs\<close>, over the traits of \<open>transport.rs\<close> and
  \<open>backend/\<close>.

  A workflow is a program over a pair of states: the transport's (with the card behind it) and the
  backend's. The two traits are records of operations: \<open>transport\<close> for \<open>dyn Transport\<close>, which is
  implemented outside the library, and \<open>backend_ops\<close> for the type parameter \<open>B\<close>. \<open>rustcrypto\<close> is
  the repository's backend, made of the methods of the backend theories. A session handle is
  passed by reference in the trait; the backend never changes it, and it is an argument here.
\<close>

section \<open>The traits\<close>

record transport_caps =
  handles_t0_get_response :: bool
  caps_protocol :: transport_protocol
  contactless :: bool

record atr_ats =
  atr_bytes :: bytes
  atr_protocol :: transport_protocol

record 't transport =
  t_transmit :: "bytes \<Rightarrow> ('t, transport_error, bytes) prog"
  t_capabilities :: "'t \<Rightarrow> transport_caps"
  t_reset :: "('t, transport_error, atr_ats) prog"
  t_protocol :: "'t \<Rightarrow> transport_protocol"
  t_is_connected :: "'t \<Rightarrow> bool"

record 'b backend_ops =
  b_import_key :: "key_kind \<Rightarrow> bytes \<Rightarrow> ('b, backend_error, key_handle) prog"
  b_generate_key :: "key_kind \<Rightarrow> ('b, backend_error, key_handle) prog"
  b_compute_kcv :: "key_handle \<Rightarrow> ('b, backend_error, bytes) prog"
  b_random_bytes :: "usize \<Rightarrow> ('b, backend_error, bytes) prog"
  b_ct_eq :: "bytes \<Rightarrow> bytes \<Rightarrow> bool"
  b_scp03_derive_session :: "key_handle \<Rightarrow> key_handle \<Rightarrow> scp_mode \<Rightarrow> bytes \<Rightarrow> bytes \<Rightarrow> ('b, backend_error, u16) prog"
  b_scp03_card_cryptogram :: "u16 \<Rightarrow> bytes \<Rightarrow> bytes \<Rightarrow> ('b, backend_error, bytes) prog"
  b_scp03_host_cryptogram :: "u16 \<Rightarrow> bytes \<Rightarrow> bytes \<Rightarrow> ('b, backend_error, bytes) prog"
  b_scp03_pseudo_card_challenge :: "key_handle \<Rightarrow> scp_mode \<Rightarrow> bytes \<Rightarrow> bytes \<Rightarrow> ('b, backend_error, bytes) prog"
  b_scp03_wrap_command :: "u16 \<Rightarrow> bytes \<Rightarrow> ('b, backend_error, bytes) prog"
  b_scp03_unwrap_response :: "u16 \<Rightarrow> bytes \<Rightarrow> ('b, backend_error, bytes) prog"
  b_scp03_encrypt_put_key_payload :: "key_handle \<Rightarrow> key_handle \<Rightarrow> ('b, backend_error, bytes) prog"
  b_scp03_close_session :: "u16 \<Rightarrow> 'b \<Rightarrow> 'b"
  b_scp02_derive_session :: "key_handle \<Rightarrow> key_handle \<Rightarrow> key_handle \<Rightarrow> bytes \<Rightarrow> ('b, backend_error, u16) prog"
  b_scp02_card_cryptogram :: "u16 \<Rightarrow> bytes \<Rightarrow> bytes \<Rightarrow> ('b, backend_error, bytes) prog"
  b_scp02_host_cryptogram :: "u16 \<Rightarrow> bytes \<Rightarrow> bytes \<Rightarrow> ('b, backend_error, bytes) prog"
  b_scp02_wrap_command :: "u16 \<Rightarrow> bytes \<Rightarrow> ('b, backend_error, bytes) prog"
  b_scp02_unwrap_response :: "u16 \<Rightarrow> bytes \<Rightarrow> ('b, backend_error, bytes) prog"
  b_scp02_encrypt_put_key_payload_for_session :: "u16 \<Rightarrow> key_handle \<Rightarrow> ('b, backend_error, bytes) prog"
  b_scp02_close_session :: "u16 \<Rightarrow> 'b \<Rightarrow> 'b"

definition rustcrypto :: "prims \<Rightarrow> 'r fill \<Rightarrow> 'r backend_state backend_ops" where
  "rustcrypto P fill = \<lparr>
     b_import_key = import_key,
     b_generate_key = generate_key fill,
     b_compute_kcv = compute_kcv P,
     b_random_bytes = random_bytes fill,
     b_ct_eq = ct_eq,
     b_scp03_derive_session = scp03_derive_session P,
     b_scp03_card_cryptogram = scp03_card_cryptogram P,
     b_scp03_host_cryptogram = scp03_host_cryptogram P,
     b_scp03_pseudo_card_challenge = scp03_pseudo_card_challenge P,
     b_scp03_wrap_command = scp03_wrap_command P,
     b_scp03_unwrap_response = scp03_unwrap_response P,
     b_scp03_encrypt_put_key_payload = scp03_encrypt_put_key_payload P,
     b_scp03_close_session = scp03_close_session,
     b_scp02_derive_session = scp02_derive_session P,
     b_scp02_card_cryptogram = scp02_card_cryptogram P,
     b_scp02_host_cryptogram = scp02_host_cryptogram P,
     b_scp02_wrap_command = scp02_wrap_command P,
     b_scp02_unwrap_response = scp02_unwrap_response P,
     b_scp02_encrypt_put_key_payload_for_session = scp02_encrypt_put_key_payload_for_session P,
     b_scp02_close_session = scp02_close_session\<rparr>"

type_synonym ('t, 'b, 'a) workflow = "('t \<times> 'b, scll_error, 'a) prog"

text \<open>A call of the backend, with \<open>?\<close> on its result.\<close>

definition backend :: "('b, backend_error, 'a) prog \<Rightarrow> ('t, 'b, 'a) workflow" where
  "backend m = on_snd (map_errP Backend m)"

section \<open>The program\<close>

definition SW_OK :: u16 where "SW_OK = 0x9000"
definition SW_REF_NOT_FOUND :: u16 where "SW_REF_NOT_FOUND = 0x6A88"
definition SW_FILE_NOT_FOUND :: u16 where "SW_FILE_NOT_FOUND = 0x6A82"
definition SW_WRONG_DATA :: u16 where "SW_WRONG_DATA = 0x6A80"
definition SW_CONDITIONS :: u16 where "SW_CONDITIONS = 0x6985"
definition SW_MORE_DATA :: u16 where "SW_MORE_DATA = 0x6310"

lemmas sw_consts = SW_OK_def SW_REF_NOT_FOUND_def SW_FILE_NOT_FOUND_def SW_WRONG_DATA_def SW_CONDITIONS_def
  SW_MORE_DATA_def

fun map_transport :: "transport_error \<Rightarrow> scll_error" where
  "map_transport TeCardRemoved = CardRemoved"
| "map_transport TeReaderGone = ReaderGone"
| "map_transport TeTimeout = Timeout"
| "map_transport TeProtocolError = TransportUnavailable"
| "map_transport (TeOther s) = TransportUnavailable"

definition u16_from_be :: "u8 \<Rightarrow> u8 \<Rightarrow> u16" where
  "u16_from_be a b = push_bit 8 (ucast a) OR ucast b"

definition split_sw :: "bytes \<Rightarrow> scll_error + (bytes \<times> u16)" where
  "split_sw rapdu =
    (let n = length rapdu in
     if n < 2 then Inl (Card 0x0000)
     else
       let sw = u16_from_be (rapdu ! (n - 2)) (rapdu ! (n - 1)) in
       rbind (ok_or (Card sw) (vec_extend RAPDU_MAX [] (take (n - 2) rapdu))) (\<lambda>data. Inr (data, sw)))"

definition transmit_raw :: "'t transport \<Rightarrow> bytes \<Rightarrow> ('t, 'b, bytes) workflow" where
  "transmit_raw T capdu = on_fst (map_errP map_transport (t_transmit T capdu))"

definition transmit_plain :: "'t transport \<Rightarrow> bytes \<Rightarrow> ('t, 'b, bytes \<times> u16) workflow" where
  "transmit_plain T capdu = bindP (transmit_raw T capdu) (\<lambda>rapdu. liftR (split_sw rapdu))"

text \<open>\<open>session::select\<close>, called \<open>select_app\<close> here (\<open>select\<close> is the protocol selection).\<close>

definition select_app :: "'t transport \<Rightarrow> bytes \<Rightarrow> ('t, 'b, bytes) workflow" where
  "select_app T aid =
     bindP (liftR (map_err Build (select_by_aid aid))) (\<lambda>capdu.
     bindP (transmit_plain T capdu) (\<lambda>(data, sw).
     if sw = SW_OK then ret data
     else if sw = SW_FILE_NOT_FOUND then throw CardNotUsable
     else throw (from_general_sw sw)))"

definition TAG_FCI :: u32 where "TAG_FCI = 0x6F"
definition TAG_DF_NAME :: u32 where "TAG_DF_NAME = 0x84"

definition find_value :: "tlv list \<Rightarrow> u32 \<Rightarrow> bytes option" where
  "find_value tlvs tag = map_option tlv_value (List.find (\<lambda>t. tlv_tag t = tag) tlvs)"

definition fci_df_name :: "bytes \<Rightarrow> scll_error + bytes option" where
  "fci_df_name fci =
    (if fci = [] then Inr None
     else
       rbind (map_err MalformedResponse (parse fci)) (\<lambda>top.
       case find_value top TAG_FCI of
         Some inner \<Rightarrow>
           rbind (map_err MalformedResponse (parse inner)) (\<lambda>parsed. Inr (find_value parsed TAG_DF_NAME))
       | None \<Rightarrow> Inr (find_value top TAG_DF_NAME)))"

primrec ses_wrap :: "'b backend_ops \<Rightarrow> scp_session \<Rightarrow> bytes \<Rightarrow> ('b, backend_error, bytes) prog" where
  "ses_wrap B (Scp03S s) capdu = b_scp03_wrap_command B (st3_session s) capdu"
| "ses_wrap B (Scp02S s) capdu = b_scp02_wrap_command B (st2_session s) capdu"

primrec ses_unwrap :: "'b backend_ops \<Rightarrow> scp_session \<Rightarrow> bytes \<Rightarrow> ('b, backend_error, bytes) prog" where
  "ses_unwrap B (Scp03S s) rapdu = b_scp03_unwrap_response B (st3_session s) rapdu"
| "ses_unwrap B (Scp02S s) rapdu = b_scp02_unwrap_response B (st2_session s) rapdu"

definition transmit_in_session ::
    "'t transport \<Rightarrow> 'b backend_ops \<Rightarrow> scp_session \<Rightarrow> bytes \<Rightarrow> ('t, 'b, bytes \<times> u16) workflow" where
  "transmit_in_session T B session capdu_plaintext =
     bindP (backend (ses_wrap B session capdu_plaintext)) (\<lambda>wrapped.
     bindP (transmit_raw T wrapped) (\<lambda>rapdu.
     bindP (backend (ses_unwrap B session rapdu)) (\<lambda>unwrapped.
     liftR (split_sw unwrapped))))"

subsection \<open>\<open>transmit\<close> and \<open>probe\<close>\<close>

record applet_transmit_report =
  atr_rapdu :: bytes
  atr_sw :: u16
  atr_session_id :: u64
  atr_capdu_plaintext_len :: u16
  atr_rapdu_plaintext_len :: u16
  atr_sw_bytes :: bytes
  atr_sec_level :: u8
  atr_scp_protocol :: scp_protocol

definition u16_saturating :: "usize \<Rightarrow> u16" where
  "u16_saturating n = (if n < 65536 then of_nat n else - 1)"

definition transmit ::
    "'t transport \<Rightarrow> 'b backend_ops \<Rightarrow> scp_session \<Rightarrow> bytes \<Rightarrow> ('t, 'b, applet_transmit_report) workflow" where
  "transmit T B session plaintext_capdu =
     bindP (transmit_in_session T B session plaintext_capdu) (\<lambda>(data, sw).
     ret \<lparr>atr_rapdu = data, atr_sw = sw, atr_session_id = ses_id session,
       atr_capdu_plaintext_len = u16_saturating (length plaintext_capdu),
       atr_rapdu_plaintext_len = u16_saturating (length data), atr_sw_bytes = to_be_bytes 2 sw,
       atr_sec_level = ses_security_level session, atr_scp_protocol = ses_protocol session\<rparr>)"

datatype transport_name = Pcsc | Jcsim | User | OtherTransport string

definition probe :: "'t transport \<Rightarrow> transport_name \<Rightarrow> ('t, 'b, transport_name \<times> transport_caps) workflow" where
  "probe T name = (\<lambda>(t, b).
     if \<not> t_is_connected T t then (Inl TransportUnavailable, (t, b))
     else (Inr (name, t_capabilities T t), (t, b)))"

section \<open>Running the pieces\<close>

lemma map_errP_Inr: "map_errP h m s = (Inr x, s') \<longleftrightarrow> m s = (Inr x, s')"
  by (auto split: prod.splits)

lemma map_errP_Inl: "map_errP h m s = (Inl e, s') \<longleftrightarrow> (\<exists>e'. m s = (Inl e', s') \<and> e = h e')"
  by (auto split: prod.splits)

lemma on_snd_eq: "on_snd m (t, b) = (r, (t', b')) \<longleftrightarrow> t' = t \<and> m b = (r, b')"
  by (auto split: prod.splits)

lemma on_fst_eq: "on_fst m (t, b) = (r, (t', b')) \<longleftrightarrow> b' = b \<and> m t = (r, t')"
  by (auto split: prod.splits)

lemma backend_Inr: "backend m (t, b) = (Inr x, (t', b')) \<longleftrightarrow> t' = t \<and> m b = (Inr x, b')"
  by (auto simp: backend_def split: prod.splits)

lemma backend_Inl: "backend m (t, b) = (Inl e, (t', b')) \<longleftrightarrow> t' = t \<and> (\<exists>e'. m b = (Inl e', b') \<and> e = Backend e')"
  by (auto simp: backend_def split: prod.splits)

lemma transmit_raw_Inr:
  "transmit_raw T c (t, b) = (Inr r, (t', b')) \<longleftrightarrow> b' = b \<and> t_transmit T c t = (Inr r, t')"
  by (auto simp: transmit_raw_def split: prod.splits)

lemma split_sw_Inr:
  "split_sw r = Inr (data, sw) \<longleftrightarrow> 2 \<le> length r \<and> length r \<le> 260 \<and> data = take (length r - 2) r
     \<and> sw = u16_from_be (r ! (length r - 2)) (r ! (length r - 1))"
  by (auto simp: split_sw_def Let_def limit_simps)

lemma transmit_plain_Inr:
  "transmit_plain T c (t, b) = (Inr (data, sw), (t', b')) \<longleftrightarrow>
     b' = b \<and> (\<exists>r. t_transmit T c t = (Inr r, t') \<and> split_sw r = Inr (data, sw))"
  by (auto simp: transmit_plain_def bindP_eq_Inr transmit_raw_Inr)

lemmas run_simps = bindP_eq_Inr bindP_eq_Inl thenP_eq_Inr map_errP_Inr map_errP_Inl backend_Inr backend_Inl
  transmit_raw_Inr

lemma rustcrypto_sel [simp]:
  "b_ct_eq (rustcrypto P fill) a b \<longleftrightarrow> a = b"
  "b_scp03_derive_session (rustcrypto P fill) = scp03_derive_session P"
  "b_scp03_card_cryptogram (rustcrypto P fill) = scp03_card_cryptogram P"
  "b_scp03_host_cryptogram (rustcrypto P fill) = scp03_host_cryptogram P"
  "b_scp03_pseudo_card_challenge (rustcrypto P fill) = scp03_pseudo_card_challenge P"
  "b_scp03_wrap_command (rustcrypto P fill) = scp03_wrap_command P"
  "b_scp03_unwrap_response (rustcrypto P fill) = scp03_unwrap_response P"
  "b_scp03_encrypt_put_key_payload (rustcrypto P fill) = scp03_encrypt_put_key_payload P"
  "b_scp03_close_session (rustcrypto P fill) = scp03_close_session"
  "b_scp02_derive_session (rustcrypto P fill) = scp02_derive_session P"
  "b_scp02_card_cryptogram (rustcrypto P fill) = scp02_card_cryptogram P"
  "b_scp02_host_cryptogram (rustcrypto P fill) = scp02_host_cryptogram P"
  "b_scp02_wrap_command (rustcrypto P fill) = scp02_wrap_command P"
  "b_scp02_unwrap_response (rustcrypto P fill) = scp02_unwrap_response P"
  "b_scp02_encrypt_put_key_payload_for_session (rustcrypto P fill) = scp02_encrypt_put_key_payload_for_session P"
  "b_scp02_close_session (rustcrypto P fill) = scp02_close_session"
  "b_compute_kcv (rustcrypto P fill) = compute_kcv P"
  "b_random_bytes (rustcrypto P fill) = random_bytes fill"
  by (simp_all add: rustcrypto_def ct_eq_correct_eq)

end
