(* ===== verification/Scll_Replay.thy ===== *)
theory Scll_Replay
  imports Scll_Session
begin

text \<open>
  The scripted environment of \<open>scll-test-support\<close>: \<open>mock_transport.rs\<close>, \<open>replay.rs\<close> and
  \<open>stub_backend.rs\<close>. It is the repository's own instance of the two traits, and the concrete
  transport and backend of the examples below.

  The mock panics when it is sent a command that is not the next of its script. A panic is \<open>None\<close>
  in \<open>mock_transmit\<close>; as a \<open>transport\<close> it is an error that leaves the script as it was, so that a
  run which consumes its script has not panicked.
\<close>

section \<open>The mock transport\<close>

record mock_transport =
  mt_script :: "(bytes \<times> bytes) list"
  mt_caps :: transport_caps
  mt_protocol :: transport_protocol
  mt_atr :: atr_ats

definition default_caps :: transport_caps where
  "default_caps = \<lparr>handles_t0_get_response = False, caps_protocol = T1, contactless = False\<rparr>"

definition synthetic_atr :: atr_ats where
  "synthetic_atr = \<lparr>atr_bytes = [], atr_protocol = T1\<rparr>"

text \<open>\<open>None\<close> is the panic on a scripted response longer than \<open>RAPDU_MAX\<close>.\<close>

definition mock_new :: "(bytes \<times> bytes) list \<Rightarrow> mock_transport option" where
  "mock_new exchanges =
    (if list_all (\<lambda>(c, r). length r \<le> RAPDU_MAX) exchanges
     then Some \<lparr>mt_script = exchanges, mt_caps = default_caps, mt_protocol = T1, mt_atr = synthetic_atr\<rparr>
     else None)"

definition with_caps :: "transport_caps \<Rightarrow> mock_transport \<Rightarrow> mock_transport" where
  "with_caps caps m = m\<lparr>mt_caps := caps\<rparr>"

definition with_protocol :: "transport_protocol \<Rightarrow> mock_transport \<Rightarrow> mock_transport" where
  "with_protocol p m = m\<lparr>mt_protocol := p\<rparr>"

definition with_atr :: "atr_ats \<Rightarrow> mock_transport \<Rightarrow> mock_transport" where
  "with_atr a m = m\<lparr>mt_atr := a\<rparr>"

definition mock_remaining :: "mock_transport \<Rightarrow> usize" where
  "mock_remaining m = length (mt_script m)"

definition is_drained :: "mock_transport \<Rightarrow> bool" where
  "is_drained m = (mt_script m = [])"

definition mock_transmit :: "bytes \<Rightarrow> mock_transport \<Rightarrow> (bytes \<times> mock_transport) option" where
  "mock_transmit capdu m =
    (case mt_script m of
       [] \<Rightarrow> None
     | (expected, rapdu) # rest \<Rightarrow>
         if capdu = expected then Some (rapdu, m\<lparr>mt_script := rest\<rparr>) else None)"

definition mock_dyn :: "mock_transport transport" where
  "mock_dyn = \<lparr>
     t_transmit = (\<lambda>c m. case mock_transmit c m of
         Some (r, m') \<Rightarrow> (Inr r, m') | None \<Rightarrow> (Inl (TeOther ''panic''), m)),
     t_capabilities = mt_caps,
     t_reset = (\<lambda>m. (Inr (mt_atr m), m)),
     t_protocol = mt_protocol,
     t_is_connected = (\<lambda>m. True)\<rparr>"

text \<open>\<open>Trace\<close>: a script under construction.\<close>

type_synonym trace = "(bytes \<times> bytes) list"

definition trace_step :: "trace \<Rightarrow> bytes \<Rightarrow> bytes \<Rightarrow> trace" where
  "trace_step t capdu rapdu = t @ [(capdu, rapdu)]"

definition trace_mock :: "trace \<Rightarrow> mock_transport option" where
  "trace_mock t = mock_new t"

section \<open>The stub backend\<close>

record stub_backend =
  sb_card_crypto :: bytes
  sb_host_crypto :: bytes
  sb_kcv :: bytes
  sb_enc_block :: bytes
  sb_pseudo_challenge :: bytes

definition stub_default :: stub_backend where
  "stub_default = \<lparr>sb_card_crypto = replicate 8 0xAA, sb_host_crypto = replicate 8 0xBB,
     sb_kcv = [0xC0, 0xC1, 0xC2], sb_enc_block = replicate 16 0xE0, sb_pseudo_challenge = replicate 8 9\<rparr>"

definition with_cryptograms :: "bytes \<Rightarrow> bytes \<Rightarrow> stub_backend \<Rightarrow> stub_backend" where
  "with_cryptograms c h b = b\<lparr>sb_card_crypto := c, sb_host_crypto := h\<rparr>"

definition with_pseudo_challenge :: "bytes \<Rightarrow> stub_backend \<Rightarrow> stub_backend" where
  "with_pseudo_challenge c b = b\<lparr>sb_pseudo_challenge := c\<rparr>"

definition echo_capdu :: "bytes \<Rightarrow> backend_error + bytes" where
  "echo_capdu bs = ok_or (Crypto '''') (vec_extend CAPDU_MAX [] bs)"

definition echo_rapdu :: "bytes \<Rightarrow> backend_error + bytes" where
  "echo_rapdu bs = ok_or (Crypto '''') (vec_extend RAPDU_MAX [] bs)"

definition vec_of :: "bytes \<Rightarrow> backend_error + bytes" where
  "vec_of bs = ok_or (Crypto '''') (vec_extend SCP03_S16_MAX [] bs)"

definition stub_ops :: "stub_backend backend_ops" where
  "stub_ops = \<lparr>
     b_import_key = (\<lambda>kind bs. ret 0),
     b_generate_key = (\<lambda>kind. ret 0),
     b_compute_kcv = (\<lambda>h b. (Inr (sb_kcv b), b)),
     b_random_bytes = (\<lambda>n. ret (replicate n 0)),
     b_ct_eq = (\<lambda>x y. x = y),
     b_scp03_derive_session = (\<lambda>e m mode h c. ret 0),
     b_scp03_card_cryptogram = (\<lambda>s h c b. (vec_of (sb_card_crypto b), b)),
     b_scp03_host_cryptogram = (\<lambda>s h c b. (vec_of (sb_host_crypto b), b)),
     b_scp03_pseudo_card_challenge = (\<lambda>e mode sq a b. (vec_of (sb_pseudo_challenge b), b)),
     b_scp03_wrap_command = (\<lambda>s capdu. liftR (echo_capdu capdu)),
     b_scp03_unwrap_response = (\<lambda>s rapdu. liftR (echo_rapdu rapdu)),
     b_scp03_encrypt_put_key_payload = (\<lambda>d n b. (ok_or (Crypto '''') (vec_extend ENC_KEY_BLOCK_MAX [] (sb_enc_block b)), b)),
     b_scp03_close_session = (\<lambda>s b. b),
     b_scp02_derive_session = (\<lambda>e m d sq. ret 0),
     b_scp02_card_cryptogram = (\<lambda>s h c b. (Inr (sb_card_crypto b), b)),
     b_scp02_host_cryptogram = (\<lambda>s h c b. (Inr (sb_host_crypto b), b)),
     b_scp02_wrap_command = (\<lambda>s capdu. liftR (echo_capdu capdu)),
     b_scp02_unwrap_response = (\<lambda>s rapdu. liftR (echo_rapdu rapdu)),
     b_scp02_encrypt_put_key_payload_for_session =
       (\<lambda>s n b. (ok_or (Crypto '''') (vec_extend ENC_KEY_BLOCK_MAX [] (sb_enc_block b)), b)),
     b_scp02_close_session = (\<lambda>s b. b)\<rparr>"

text \<open>Over the stub, a command in a session is exactly the plaintext, and so is the answer.\<close>

lemma stub_transmit_in_session:
  assumes "length c \<le> CAPDU_MAX" "t_transmit T c t = (Inr r, t')" "length r \<le> RAPDU_MAX"
  shows "transmit_in_session T stub_ops session c (t, b) = (split_sw r, (t', b))"
proof -
  have "ses_wrap stub_ops session c b = (Inr c, b)" "ses_unwrap stub_ops session r b = (Inr r, b)"
    using assms(1,3) by (cases session; simp add: stub_ops_def echo_capdu_def echo_rapdu_def limit_simps vec_extend_def)+
  then show ?thesis
    using assms(2) by (simp add: transmit_in_session_def bindP_def backend_def transmit_raw_def)
qed

text \<open>A session of the stub.\<close>

definition stub_session :: scp_session where
  "stub_session = Scp03S \<lparr>st3_session = 0, st3_i_param = 0x70, st3_security_level = 0x33, st3_kvn = 0x01\<rparr>"

text \<open>A card that answers every command with \<open>9000\<close> and keeps the list of the commands.\<close>

definition ok_card :: "bytes list transport" where
  "ok_card = \<lparr>
     t_transmit = (\<lambda>c log. (Inr [0x90, 0x00], log @ [c])),
     t_capabilities = (\<lambda>log. default_caps),
     t_reset = ret synthetic_atr,
     t_protocol = (\<lambda>log. T1),
     t_is_connected = (\<lambda>log. True)\<rparr>"

end
