(* ===== verification/Scll_Transports.thy ===== *)
theory Scll_Transports
  imports Scll_Replay "HOL-Library.Sublist"
begin

text \<open>
  The two transports of the repository: \<open>scll-transport-jcsim/src/lib.rs\<close> (APDUs in length-prefixed
  frames over TCP, to a card simulator) and \<open>scll-transport-pcsc/src/lib.rs\<close> (a PC/SC reader).

  The socket and the \<open>pcsc\<close> crate lie outside: they are records of operations, \<open>tcp\<close> and \<open>pcsc\<close>,
  with the network and the reader as their state. The adapters are instances of the \<open>transport\<close>
  of the workflows.
\<close>

section \<open>Bounded detail strings\<close>

text \<open>\<open>write!(s, ...)\<close> on a bounded string: the formatter writes pieces until one does not fit.\<close>

primrec write_pieces :: "string \<Rightarrow> string list \<Rightarrow> string" where
  "write_pieces s [] = s"
| "write_pieces s (p # ps) = (case vec_extend OTHER_DETAIL_MAX s p of None \<Rightarrow> s | Some s' \<Rightarrow> write_pieces s' ps)"

lemma length_write_pieces: "length s \<le> OTHER_DETAIL_MAX \<Longrightarrow> length (write_pieces s ps) \<le> OTHER_DETAIL_MAX"
  by (induction ps arbitrary: s) (auto split: option.split)

section \<open>The simulator transport\<close>

text \<open>\<open>io::Error\<close>: its kind and the pieces its \<open>Debug\<close> form writes.\<close>

datatype io_kind =
  IoTimedOut | IoWouldBlock | IoUnexpectedEof | IoConnectionReset | IoConnectionAborted | IoBrokenPipe
  | IoNotConnected | IoOtherKind

record io_error =
  ie_kind :: io_kind
  ie_debug :: "string list"

definition other_err :: "string list \<Rightarrow> transport_error" where
  "other_err e = TeOther (write_pieces [] e)"

definition map_io_err :: "io_error \<Rightarrow> transport_error" where
  "map_io_err e = (case ie_kind e of
     IoTimedOut \<Rightarrow> TeTimeout | IoWouldBlock \<Rightarrow> TeTimeout
   | IoUnexpectedEof \<Rightarrow> TeReaderGone | IoConnectionReset \<Rightarrow> TeReaderGone | IoConnectionAborted \<Rightarrow> TeReaderGone
   | IoBrokenPipe \<Rightarrow> TeReaderGone | IoNotConnected \<Rightarrow> TeReaderGone
   | IoOtherKind \<Rightarrow> other_err (ie_debug e))"

text \<open>The operations of \<open>std::net\<close> that are used, on the state \<open>'s\<close> of the network; a stream is a
  handle \<open>'h\<close>.\<close>

record ('s, 'h, 'a) tcp =
  tcp_resolve :: "string \<Rightarrow> ('s, io_error, 'a list) prog"
  tcp_connect :: "'a \<Rightarrow> nat \<Rightarrow> ('s, io_error, 'h) prog"
  tcp_set_read_timeout :: "'h \<Rightarrow> nat \<Rightarrow> ('s, io_error, unit) prog"
  tcp_set_write_timeout :: "'h \<Rightarrow> nat \<Rightarrow> ('s, io_error, unit) prog"
  tcp_set_nodelay :: "'h \<Rightarrow> ('s, io_error, unit) prog"
  tcp_write_all :: "'h \<Rightarrow> bytes \<Rightarrow> ('s, io_error, unit) prog"
  tcp_flush :: "'h \<Rightarrow> ('s, io_error, unit) prog"
  tcp_read_exact :: "'h \<Rightarrow> usize \<Rightarrow> ('s, io_error, bytes) prog"
  tcp_shutdown :: "'h \<Rightarrow> ('s, io_error, unit) prog"
  tcp_has_peer :: "'h \<Rightarrow> 's \<Rightarrow> bool"

text \<open>The fields of \<open>JcSimTransport\<close>, and the network.\<close>

record ('s, 'h, 'a) jcsim =
  jc_net :: 's
  jc_stream :: 'h
  jc_addr :: 'a
  jc_timeout :: nat
  jc_connected :: bool

definition MAX_FRAME :: usize where "MAX_FRAME = 65535"
definition DEFAULT_TIMEOUT :: nat where "DEFAULT_TIMEOUT = 5"

text \<open>\<open>let _ = r\<close>.\<close>

definition ignore_err :: "('s, 'e, unit) prog \<Rightarrow> ('s, 'f, unit) prog" where
  "ignore_err m = (\<lambda>s. (Inr (), snd (m s)))"

definition tcp_open :: "('s, 'h, 'a) tcp \<Rightarrow> 'a \<Rightarrow> nat \<Rightarrow> ('s, transport_error, 'h) prog" where
  "tcp_open N sa timeout =
     bindP (map_errP map_io_err (tcp_connect N sa timeout)) (\<lambda>stream.
     thenP (map_errP (other_err \<circ> ie_debug) (tcp_set_read_timeout N stream timeout)) (
     thenP (map_errP (other_err \<circ> ie_debug) (tcp_set_write_timeout N stream timeout)) (
     thenP (ignore_err (tcp_set_nodelay N stream)) (
     ret stream))))"

definition jcsim_connect_with_timeout ::
    "('s, 'h, 'a) tcp \<Rightarrow> string \<Rightarrow> nat \<Rightarrow> 's \<Rightarrow> (transport_error + ('s, 'h, 'a) jcsim) \<times> 's" where
  "jcsim_connect_with_timeout N addr timeout =
     bindP (map_errP (other_err \<circ> ie_debug) (tcp_resolve N addr)) (\<lambda>addrs.
     case addrs of
       [] \<Rightarrow> throw (other_err [''unresolved address: '', addr])
     | sa # _ \<Rightarrow> bindP (tcp_open N sa timeout) (\<lambda>stream s.
         (Inr \<lparr>jc_net = s, jc_stream = stream, jc_addr = sa, jc_timeout = timeout, jc_connected = True\<rparr>, s)))"

definition jcsim_connect :: "('s, 'h, 'a) tcp \<Rightarrow> string \<Rightarrow> 's \<Rightarrow> (transport_error + ('s, 'h, 'a) jcsim) \<times> 's" where
  "jcsim_connect N addr = jcsim_connect_with_timeout N addr DEFAULT_TIMEOUT"

text \<open>A step on the stream, with \<open>map_err(|e| self.fail(&e))\<close>.\<close>

definition on_stream :: "('h \<Rightarrow> ('s, io_error, 'r) prog) \<Rightarrow> (('s, 'h, 'a) jcsim, transport_error, 'r) prog" where
  "on_stream m j = (case m (jc_stream j) (jc_net j) of
     (Inr x, s) \<Rightarrow> (Inr x, j\<lparr>jc_net := s\<rparr>)
   | (Inl e, s) \<Rightarrow> (Inl (map_io_err e), j\<lparr>jc_net := s, jc_connected := False\<rparr>))"

definition jcsim_transmit :: "('s, 'h, 'a) tcp \<Rightarrow> bytes \<Rightarrow> (('s, 'h, 'a) jcsim, transport_error, bytes) prog" where
  "jcsim_transmit N capdu =
     bindP (liftR (if length capdu \<le> MAX_FRAME then Inr (of_nat (length capdu) :: u32) else Inl TeProtocolError)) (\<lambda>len.
     thenP (on_stream (\<lambda>stream.
       thenP (tcp_write_all N stream (to_be_bytes 4 len)) (thenP (tcp_write_all N stream capdu) (tcp_flush N stream)))) (
     bindP (on_stream (\<lambda>stream. tcp_read_exact N stream 4)) (\<lambda>len_buf.
     let rlen = from_be len_buf in
     if rlen > RAPDU_MAX then throw TeProtocolError
     else
       bindP (on_stream (\<lambda>stream. tcp_read_exact N stream rlen)) (\<lambda>scratch.
       liftR (ok_or TeProtocolError (vec_extend RAPDU_MAX [] scratch))))))"

definition jcsim_capabilities :: "('s, 'h, 'a) jcsim \<Rightarrow> transport_caps" where
  "jcsim_capabilities j = \<lparr>handles_t0_get_response = False, caps_protocol = T1, contactless = False\<rparr>"

definition jcsim_reset :: "('s, 'h, 'a) tcp \<Rightarrow> (('s, 'h, 'a) jcsim, transport_error, atr_ats) prog" where
  "jcsim_reset N j =
    (let (_, s) = tcp_shutdown N (jc_stream j) (jc_net j);
         j = j\<lparr>jc_net := s, jc_connected := False\<rparr> in
     case tcp_open N (jc_addr j) (jc_timeout j) s of
       (Inl e, s) \<Rightarrow> (Inl e, j\<lparr>jc_net := s\<rparr>)
     | (Inr stream, s) \<Rightarrow>
         (Inr \<lparr>atr_bytes = [], atr_protocol = T1\<rparr>, j\<lparr>jc_net := s, jc_stream := stream, jc_connected := True\<rparr>))"

definition jcsim_is_connected :: "('s, 'h, 'a) tcp \<Rightarrow> ('s, 'h, 'a) jcsim \<Rightarrow> bool" where
  "jcsim_is_connected N j = (jc_connected j \<and> tcp_has_peer N (jc_stream j) (jc_net j))"

definition jcsim_dyn :: "('s, 'h, 'a) tcp \<Rightarrow> ('s, 'h, 'a) jcsim transport" where
  "jcsim_dyn N = \<lparr>
     t_transmit = jcsim_transmit N,
     t_capabilities = jcsim_capabilities,
     t_reset = jcsim_reset N,
     t_protocol = (\<lambda>j. T1),
     t_is_connected = jcsim_is_connected N\<rparr>"

section \<open>The framing protocol\<close>

text \<open>What \<open>docs/protocol.md\<close> of the bridge promises about the stream \<open>h\<close>: a frame that is written and
  flushed is answered by the frame of the card's answer. \<open>R\<close> relates the network to the card
  behind it.\<close>

definition framed :: "bytes \<Rightarrow> bytes" where
  "framed bs = be_bytes 4 (length bs) @ bs"

definition bridges :: "('s, 'h, 'a) tcp \<Rightarrow> 'h \<Rightarrow> 't transport \<Rightarrow> ('s \<Rightarrow> 't \<Rightarrow> bool) \<Rightarrow> bool" where
  "bridges N h T R = (\<forall>s t c r t'. R s t \<longrightarrow> length c \<le> MAX_FRAME \<longrightarrow> t_transmit T c t = (Inr r, t') \<longrightarrow> length r < 2 ^ 32 \<longrightarrow>
     (\<exists>s1 s2 s3 s4 s5. tcp_write_all N h (be_bytes 4 (length c)) s = (Inr (), s1) \<and> tcp_write_all N h c s1 = (Inr (), s2)
       \<and> tcp_flush N h s2 = (Inr (), s3) \<and> tcp_read_exact N h 4 s3 = (Inr (be_bytes 4 (length r)), s4)
       \<and> tcp_read_exact N h (length r) s4 = (Inr r, s5) \<and> R s5 t'))"

lemma to_be_bytes_len: "length c \<le> MAX_FRAME \<Longrightarrow> to_be_bytes 4 (of_nat (length c) :: u32) = be_bytes 4 (length c)"
  by (simp add: to_be_bytes_eq MAX_FRAME_def unat_of_nat)

lemma jcsim_transmit_ok:
  assumes "bridges N h T R" "R (jc_net j) t" "jc_stream j = h" "length c \<le> MAX_FRAME"
    and "t_transmit T c t = (Inr r, t')" "length r \<le> RAPDU_MAX"
  shows "\<exists>s. jcsim_transmit N c j = (Inr r, j\<lparr>jc_net := s\<rparr>) \<and> R s t'"
proof -
  have "length r < 2 ^ 32" using assms(6) by (simp add: limit_simps)
  then obtain s1 s2 s3 s4 s5 where s: "tcp_write_all N h (be_bytes 4 (length c)) (jc_net j) = (Inr (), s1)"
    "tcp_write_all N h c s1 = (Inr (), s2)" "tcp_flush N h s2 = (Inr (), s3)"
    "tcp_read_exact N h 4 s3 = (Inr (be_bytes 4 (length r)), s4)" "tcp_read_exact N h (length r) s4 = (Inr r, s5)" "R s5 t'"
    using assms(1,2,4,5) unfolding bridges_def by metis
  have f: "from_be (be_bytes 4 (length r)) = length r"
    using assms(6) by (simp add: from_be_be_bytes limit_simps)
  show ?thesis
    using s assms(3,4,6) by (intro exI [of _ s5]) (simp add: jcsim_transmit_def to_be_bytes_len on_stream_def thenP_def bindP_def f Let_def vec_extend_def ret_def liftR_def ok_or_def)
qed


text \<open>A run of commands over the simulator transport is the run over the card itself.\<close>

lemma jcsim_run:
  assumes "bridges N h T R" "R (jc_net j) t" "jc_stream j = h" "list_all (\<lambda>c. length c \<le> MAX_FRAME) cs"
    and "each (t_transmit T) cs t = (Inr rs, t')" "list_all (\<lambda>r. length r \<le> RAPDU_MAX) rs"
  shows "\<exists>s. each (t_transmit (jcsim_dyn N)) cs j = (Inr rs, j\<lparr>jc_net := s\<rparr>) \<and> R s t'"
  using assms(2-)
proof (induction cs arbitrary: j t rs)
  case Nil
  then show ?case by (intro exI [of _ "jc_net j"]) (simp add: each_Nil)
next
  case (Cons c cs)
  obtain r rs0 t1 where r: "t_transmit T c t = (Inr r, t1)" "each (t_transmit T) cs t1 = (Inr rs0, t')" "rs = r # rs0"
    using Cons.prems(4) unfolding each_Cons by blast
  obtain s where s: "jcsim_transmit N c j = (Inr r, j\<lparr>jc_net := s\<rparr>)" "R s t1"
    using jcsim_transmit_ok [OF assms(1) Cons.prems(1,2) _ r(1)] Cons.prems(3,5) r(3) by auto
  obtain s' where "each (t_transmit (jcsim_dyn N)) cs (j\<lparr>jc_net := s\<rparr>) = (Inr rs0, j\<lparr>jc_net := s'\<rparr>)" "R s' t'"
    using Cons.IH [of "j\<lparr>jc_net := s\<rparr>" t1 rs0] s(2) r(2,3) Cons.prems(2,3,5) by auto
  then show ?case unfolding each_Cons r(3) using s(1) by (auto simp: jcsim_dyn_def)
qed

text \<open>An answer that is announced as too long is refused with its octets left in the stream, and the
  transport stays connected: the next command reads them as its answer.\<close>

lemma overlong_answer_left_in_stream:
  assumes "length c \<le> MAX_FRAME" "tcp_write_all N (jc_stream j) (be_bytes 4 (length c)) (jc_net j) = (Inr (), s1)"
    and "tcp_write_all N (jc_stream j) c s1 = (Inr (), s2)" "tcp_flush N (jc_stream j) s2 = (Inr (), s3)"
    and "tcp_read_exact N (jc_stream j) 4 s3 = (Inr hdr, s4)" "from_be hdr > RAPDU_MAX"
  shows "jcsim_transmit N c j = (Inl TeProtocolError, j\<lparr>jc_net := s4\<rparr>)"
  using assms by (simp add: jcsim_transmit_def to_be_bytes_len on_stream_def thenP_def bindP_def Let_def liftR_def throw_def)

subsection \<open>A bridge in front of a card\<close>

text \<open>The octets of the host that are not served yet, those it has not read, and the card. A flush
  serves a complete frame.\<close>

record 't bridge =
  br_in :: bytes
  br_out :: bytes
  br_card :: 't

definition io_err :: "io_kind \<Rightarrow> io_error" where
  "io_err k = \<lparr>ie_kind = k, ie_debug = []\<rparr>"

definition bridge_serve :: "'t transport \<Rightarrow> 't bridge \<Rightarrow> 't bridge" where
  "bridge_serve T b =
    (let n = from_be (take 4 (br_in b)); body = take n (drop 4 (br_in b)) in
     if length (br_in b) < 4 + n then b
     else case t_transmit T body (br_card b) of
       (Inr r, t) \<Rightarrow> \<lparr>br_in = drop (4 + n) (br_in b), br_out = br_out b @ framed r, br_card = t\<rparr>
     | (Inl e, t) \<Rightarrow> \<lparr>br_in = drop (4 + n) (br_in b), br_out = br_out b, br_card = t\<rparr>)"

definition bridge_tcp :: "'t transport \<Rightarrow> ('t bridge, unit, unit) tcp" where
  "bridge_tcp T = \<lparr>
     tcp_resolve = (\<lambda>a. ret [()]),
     tcp_connect = (\<lambda>sa d b. (Inr (), b\<lparr>br_in := [], br_out := []\<rparr>)),
     tcp_set_read_timeout = (\<lambda>h d. ret ()),
     tcp_set_write_timeout = (\<lambda>h d. ret ()),
     tcp_set_nodelay = (\<lambda>h. ret ()),
     tcp_write_all = (\<lambda>h bs b. (Inr (), b\<lparr>br_in := br_in b @ bs\<rparr>)),
     tcp_flush = (\<lambda>h b. (Inr (), bridge_serve T b)),
     tcp_read_exact = (\<lambda>h n b. if n \<le> length (br_out b)
         then (Inr (take n (br_out b)), b\<lparr>br_out := drop n (br_out b)\<rparr>) else (Inl (io_err IoTimedOut), b)),
     tcp_shutdown = (\<lambda>h b. (Inr (), b\<lparr>br_in := [], br_out := []\<rparr>)),
     tcp_has_peer = (\<lambda>h b. True)\<rparr>"

definition bridge_idle :: "'t bridge \<Rightarrow> 't \<Rightarrow> bool" where
  "bridge_idle b t = (b = \<lparr>br_in = [], br_out = [], br_card = t\<rparr>)"

lemma bridge_tcp_bridges: "bridges (bridge_tcp T) () T bridge_idle"
proof -
  have "bridge_serve T \<lparr>br_in = framed c, br_out = [], br_card = t\<rparr> = \<lparr>br_in = [], br_out = framed r, br_card = t'\<rparr>"
    if "length c \<le> MAX_FRAME" "t_transmit T c t = (Inr r, t')" for c r t t'
    using that by (simp add: bridge_serve_def framed_def from_be_be_bytes MAX_FRAME_def Let_def)
  then show ?thesis
    unfolding bridges_def bridge_idle_def
    by (auto simp: bridge_tcp_def framed_def intro!: exI)
qed

lemma jcsim_overlong_command: "MAX_FRAME < length c \<Longrightarrow> jcsim_transmit N c j = (Inl TeProtocolError, j)"
  by (simp add: jcsim_transmit_def bindP_def liftR_def)

text \<open>C27: the simulator transport is the card it is connected to. When the network behind the stream
  frames APDUs as the bridge does, running any commands over the transport gives the card's own
  answers, as long as these are short, and leaves the network in step with the card, and nothing
  else of the transport changed: it stays connected.\<close>

theorem jcsim_refines:
  assumes "bridges N h T R" "R (jc_net j) t" "jc_stream j = h" "list_all (\<lambda>c. length c \<le> MAX_FRAME) cs"
    and "each (t_transmit T) cs t = (Inr rs, t')" "list_all (\<lambda>r. length r \<le> RAPDU_MAX) rs"
  shows "\<exists>s. each (t_transmit (jcsim_dyn N)) cs j = (Inr rs, j\<lparr>jc_net := s\<rparr>) \<and> R s t'"
  by (rule jcsim_run [OF assms])

lemma jcsim_refines_witness:
  "fst (each (t_transmit (jcsim_dyn (bridge_tcp ok_card))) [[0x00, 0xA4, 0x04, 0x00], [0x80, 0xCA]]
     \<lparr>jc_net = \<lparr>br_in = [], br_out = [], br_card = []\<rparr>, jc_stream = (), jc_addr = (), jc_timeout = 5, jc_connected = True\<rparr>)
   = Inr [[0x90, 0x00], [0x90, 0x00]]"
proof -
  have "each (t_transmit ok_card) [[0x00, 0xA4, 0x04, 0x00], [0x80, 0xCA]] [] = (Inr [[0x90, 0x00], [0x90, 0x00]],
      [[0x00, 0xA4, 0x04, 0x00], [0x80, 0xCA]])"
    by code_simp
  from jcsim_refines [OF bridge_tcp_bridges _ _ _ this,
      where j = "\<lparr>jc_net = \<lparr>br_in = [], br_out = [], br_card = []\<rparr>, jc_stream = (), jc_addr = (), jc_timeout = 5, jc_connected = True\<rparr>"]
  show ?thesis by (auto simp: bridge_idle_def MAX_FRAME_def limit_simps)
qed

section \<open>The PC/SC transport\<close>

text \<open>The errors and protocols of the \<open>pcsc\<close> crate that the adapter distinguishes.\<close>

datatype pcsc_error =
  PeRemovedCard | PeNoSmartcard | PeReaderUnavailable | PeNoService | PeServiceStopped | PeTimeout
  | PeInsufficientBuffer | PeOther "string list"

datatype pcsc_protocol = PpT0 | PpT1 | PpRaw

text \<open>The operations of the crate, on the state \<open>'s\<close> of the PC/SC service; a connected card is a
  handle \<open>'h\<close>. A reader is its name and the text of the name. \<open>pc_transmit\<close> is one exchange inside
  a transaction, into a buffer of the given size.\<close>

record reader =
  rd_name :: bytes
  rd_text :: string

record ('s, 'h) pcsc =
  pc_establish :: "('s, pcsc_error, unit) prog"
  pc_list_readers :: "('s, pcsc_error, reader list) prog"
  pc_connect :: "bytes \<Rightarrow> ('s, pcsc_error, 'h) prog"
  pc_transaction :: "'h \<Rightarrow> ('s, pcsc_error, unit) prog"
  pc_end_transaction :: "'h \<Rightarrow> 's \<Rightarrow> 's"
  pc_transmit :: "'h \<Rightarrow> bytes \<Rightarrow> usize \<Rightarrow> ('s, pcsc_error, bytes) prog"
  pc_reconnect_reset :: "'h \<Rightarrow> ('s, pcsc_error, unit) prog"
  pc_status :: "'h \<Rightarrow> 's \<Rightarrow> pcsc_error + (pcsc_protocol option \<times> bytes)"

record ('s, 'h) pcsc_transport =
  pt_service :: 's
  pt_card :: 'h
  pt_protocol :: transport_protocol

definition map_protocol :: "pcsc_protocol option \<Rightarrow> transport_protocol" where
  "map_protocol p = (if p = Some PpT0 then T0 else T1)"

fun map_pcsc_err :: "pcsc_error \<Rightarrow> transport_error" where
  "map_pcsc_err PeRemovedCard = TeCardRemoved"
| "map_pcsc_err PeNoSmartcard = TeCardRemoved"
| "map_pcsc_err PeReaderUnavailable = TeReaderGone"
| "map_pcsc_err PeNoService = TeReaderGone"
| "map_pcsc_err PeServiceStopped = TeReaderGone"
| "map_pcsc_err PeTimeout = TeTimeout"
| "map_pcsc_err PeInsufficientBuffer = TeProtocolError"
| "map_pcsc_err (PeOther e) = TeOther (write_pieces [] e)"

definition other_msg :: "string \<Rightarrow> transport_error" where
  "other_msg msg = TeOther (extend_ignore OTHER_DETAIL_MAX [] msg)"

text \<open>\<open>str::parse::<usize>\<close> of a string of digits, and \<open>str::rfind\<close> of a character.\<close>

definition parse_usize :: "string \<Rightarrow> usize option" where
  "parse_usize ds = (let n = foldl (\<lambda>a c. a * 10 + (of_char c - 48)) (0 :: int) ds in
     if n < 18446744073709551616 then Some (nat n) else None)"

primrec rfind :: "char \<Rightarrow> string \<Rightarrow> usize option" where
  "rfind c [] = None"
| "rfind c (x # xs) = (case rfind c xs of Some i \<Rightarrow> Some (Suc i) | None \<Rightarrow> if x = c then Some 0 else None)"

definition is_digit :: "char \<Rightarrow> bool" where
  "is_digit c = (48 \<le> (of_char c :: nat) \<and> (of_char c :: nat) \<le> 57)"

definition parse_selector :: "string \<Rightarrow> string \<times> usize option" where
  "parse_selector spec = (case rfind CHR ''@'' spec of
     Some at \<Rightarrow>
       let suffix = drop (at + 1) spec in
       if suffix \<noteq> [] \<and> list_all is_digit suffix then
         (case parse_usize suffix of Some idx \<Rightarrow> (take at spec, Some idx) | None \<Rightarrow> (spec, None))
       else (spec, None)
   | None \<Rightarrow> (spec, None))"

definition from_card :: "('s, 'h) pcsc \<Rightarrow> 'h \<Rightarrow> 's \<Rightarrow> (transport_error + ('s, 'h) pcsc_transport) \<times> 's" where
  "from_card P h s = (case pc_status P h s of
     Inl e \<Rightarrow> (Inl (map_pcsc_err e), s)
   | Inr (protocol, atr) \<Rightarrow> (Inr \<lparr>pt_service = s, pt_card = h, pt_protocol = map_protocol protocol\<rparr>, s))"

primrec connect_any :: "('s, 'h) pcsc \<Rightarrow> reader list \<Rightarrow> 's \<Rightarrow> (transport_error + ('s, 'h) pcsc_transport) \<times> 's" where
  "connect_any P [] s = (Inl (other_msg ''no PC/SC reader with a card present''), s)"
| "connect_any P (rd # rds) s = (case pc_connect P (rd_name rd) s of
     (Inr h, s) \<Rightarrow> from_card P h s
   | (Inl e, s) \<Rightarrow> if e = PeNoSmartcard then connect_any P rds s else (Inl (map_pcsc_err e), s))"

definition connect_first :: "('s, 'h) pcsc \<Rightarrow> 's \<Rightarrow> (transport_error + ('s, 'h) pcsc_transport) \<times> 's" where
  "connect_first P =
     thenP (map_errP map_pcsc_err (pc_establish P)) (
     bindP (map_errP map_pcsc_err (pc_list_readers P)) (\<lambda>readers. connect_any P readers))"

definition pcsc_connect :: "('s, 'h) pcsc \<Rightarrow> bytes \<Rightarrow> 's \<Rightarrow> (transport_error + ('s, 'h) pcsc_transport) \<times> 's" where
  "pcsc_connect P reader_name =
     thenP (map_errP map_pcsc_err (pc_establish P)) (
     bindP (liftR (if list_all (\<lambda>b. b \<noteq> 0) reader_name then Inr reader_name
         else Inl (other_msg ''reader name contains an interior NUL byte''))) (\<lambda>name.
     bindP (map_errP map_pcsc_err (pc_connect P name)) (\<lambda>h. from_card P h)))"

definition connect_selector :: "('s, 'h) pcsc \<Rightarrow> string \<Rightarrow> 's \<Rightarrow> (transport_error + ('s, 'h) pcsc_transport) \<times> 's" where
  "connect_selector P spec =
    (let (substr, index) = parse_selector spec in
     thenP (map_errP map_pcsc_err (pc_establish P)) (
     bindP (map_errP map_pcsc_err (pc_list_readers P)) (\<lambda>readers.
     bindP (liftR (ok_or (other_msg ''no PC/SC reader matched SCLL_PCSC selector'')
         (get_at (filter (\<lambda>r. sublist substr (rd_text r)) readers) (case index of Some i \<Rightarrow> i | None \<Rightarrow> 0)))) (\<lambda>chosen.
     bindP (map_errP map_pcsc_err (pc_connect P (rd_name chosen))) (\<lambda>h. from_card P h)))))"

text \<open>The transaction ends when its guard is dropped, on every path after it has begun.\<close>

definition pcsc_transmit :: "('s, 'h) pcsc \<Rightarrow> bytes \<Rightarrow> (('s, 'h) pcsc_transport, transport_error, bytes) prog" where
  "pcsc_transmit P capdu t = (case pc_transaction P (pt_card t) (pt_service t) of
     (Inl e, s) \<Rightarrow> (Inl (map_pcsc_err e), t\<lparr>pt_service := s\<rparr>)
   | (Inr _, s) \<Rightarrow> (case pc_transmit P (pt_card t) capdu RAPDU_MAX s of
         (Inl e, s) \<Rightarrow> (Inl (map_pcsc_err e), t\<lparr>pt_service := pc_end_transaction P (pt_card t) s\<rparr>)
       | (Inr resp, s) \<Rightarrow> (ok_or TeProtocolError (vec_extend RAPDU_MAX [] resp),
           t\<lparr>pt_service := pc_end_transaction P (pt_card t) s\<rparr>)))"

definition pcsc_capabilities :: "('s, 'h) pcsc_transport \<Rightarrow> transport_caps" where
  "pcsc_capabilities t =
     \<lparr>handles_t0_get_response = True, caps_protocol = pt_protocol t, contactless = (pt_protocol t = TCl)\<rparr>"

definition pcsc_reset :: "('s, 'h) pcsc \<Rightarrow> (('s, 'h) pcsc_transport, transport_error, atr_ats) prog" where
  "pcsc_reset P t = (case pc_reconnect_reset P (pt_card t) (pt_service t) of
     (Inl e, s) \<Rightarrow> (Inl (map_pcsc_err e), t\<lparr>pt_service := s\<rparr>)
   | (Inr _, s) \<Rightarrow> (case pc_status P (pt_card t) s of
         Inl e \<Rightarrow> (Inl (map_pcsc_err e), t\<lparr>pt_service := s\<rparr>)
       | Inr (protocol, atr) \<Rightarrow>
          (let t = t\<lparr>pt_service := s, pt_protocol := map_protocol protocol\<rparr> in
           (rbind (ok_or TeProtocolError (vec_extend ATR_ATS_MAX [] atr)) (\<lambda>bs.
              Inr \<lparr>atr_bytes = bs, atr_protocol = map_protocol protocol\<rparr>), t))))"

definition pcsc_is_connected :: "('s, 'h) pcsc \<Rightarrow> ('s, 'h) pcsc_transport \<Rightarrow> bool" where
  "pcsc_is_connected P t = (case pc_status P (pt_card t) (pt_service t) of
     Inr _ \<Rightarrow> True
   | Inl e \<Rightarrow> \<not> (map_pcsc_err e = TeCardRemoved \<or> map_pcsc_err e = TeReaderGone))"

definition pcsc_dyn :: "('s, 'h) pcsc \<Rightarrow> ('s, 'h) pcsc_transport transport" where
  "pcsc_dyn P = \<lparr>
     t_transmit = pcsc_transmit P,
     t_capabilities = pcsc_capabilities,
     t_reset = pcsc_reset P,
     t_protocol = pt_protocol,
     t_is_connected = pcsc_is_connected P\<rparr>"

subsection \<open>Selecting a reader\<close>

definition digits :: "nat \<Rightarrow> string \<Rightarrow> bool" where
  "digits n ds = (ds \<noteq> [] \<and> list_all is_digit ds \<and> parse_usize ds = Some n)"

lemma rfind_None: "rfind c xs = None \<longleftrightarrow> c \<notin> set xs"
  by (induction xs) (auto split: option.splits)

lemma rfind_append: "c \<notin> set ys \<Longrightarrow> rfind c (xs @ c # ys) = Some (length xs)"
proof (induction xs)
  case Nil
  then show ?case using rfind_None [of c ys] by simp
qed simp

lemma rfind_SomeD: "rfind c xs = Some i \<Longrightarrow> i < length xs \<and> xs ! i = c"
  by (induction xs arbitrary: i) (auto split: option.splits if_splits)

lemma digit_not_at: "list_all is_digit ds \<Longrightarrow> CHR ''@'' \<notin> set ds"
  by (auto simp: list_all_iff is_digit_def)

text \<open>A selector with an index is a name, \<open>@\<close> and the digits of the index; any other text, an index
  too large for a \<open>usize\<close> included, is a name.\<close>

lemma parse_selector_index: "parse_selector spec = (nm, Some n) \<longleftrightarrow> (\<exists>ds. spec = nm @ CHR ''@'' # ds \<and> digits n ds)"
proof
  assume "parse_selector spec = (nm, Some n)"
  then obtain i where i: "rfind CHR ''@'' spec = Some i" "nm = take i spec" "digits n (drop (i + 1) spec)"
    by (auto simp: parse_selector_def digits_def Let_def split: option.splits if_splits)
  then have "spec = nm @ CHR ''@'' # drop (i + 1) spec" using rfind_SomeD [OF i(1)] id_take_nth_drop [of i spec] by simp
  then show "\<exists>ds. spec = nm @ CHR ''@'' # ds \<and> digits n ds" using i(3) by blast
next
  assume "\<exists>ds. spec = nm @ CHR ''@'' # ds \<and> digits n ds"
  then obtain ds where ds: "spec = nm @ CHR ''@'' # ds" "digits n ds" by blast
  have "rfind CHR ''@'' spec = Some (length nm)"
    unfolding ds(1) using ds(2) digit_not_at by (intro rfind_append) (auto simp: digits_def)
  then show "parse_selector spec = (nm, Some n)" using ds by (simp add: parse_selector_def digits_def)
qed

lemma parse_selector_name: "snd (parse_selector spec) = None \<Longrightarrow> fst (parse_selector spec) = spec"
  by (auto simp: parse_selector_def Let_def split: option.splits if_splits)

lemma parse_selector_examples:
  "parse_selector ''Reader@Home@1'' = (''Reader@Home'', Some 1)" "parse_selector ''@2'' = ([], Some 2)"
  "parse_selector ''Reader@Home 3'' = (''Reader@Home 3'', None)" "parse_selector ''weird@'' = (''weird@'', None)"
  "parse_selector ''name@999999999999999999999999999999'' = (''name@999999999999999999999999999999'', None)"
  by code_simp+

text \<open>\<open>connect_first\<close> takes the first reader that has a card; the empty ones before it are skipped, and
  any other error ends the search.\<close>

lemma connect_any_skips:
  "list_all (\<lambda>r. pc_connect P (rd_name r) s = (Inl PeNoSmartcard, s)) rs \<Longrightarrow> connect_any P (rs @ rds) s = connect_any P rds s"
  by (induction rs) auto

text \<open>A PC/SC exchange ends its transaction whenever it has begun one, and never truncates an answer.\<close>

lemma pcsc_transmit_cases:
  "pcsc_transmit P c t = (r, t') \<Longrightarrow>
     (\<exists>e s. pc_transaction P (pt_card t) (pt_service t) = (Inl e, s) \<and> t' = t\<lparr>pt_service := s\<rparr> \<and> r = Inl (map_pcsc_err e))
     \<or> (\<exists>s x s1. pc_transaction P (pt_card t) (pt_service t) = (Inr (), s) \<and> pc_transmit P (pt_card t) c RAPDU_MAX s = (x, s1)
         \<and> t' = t\<lparr>pt_service := pc_end_transaction P (pt_card t) s1\<rparr>
         \<and> r = (case x of Inl e \<Rightarrow> Inl (map_pcsc_err e) | Inr d \<Rightarrow> if length d \<le> RAPDU_MAX then Inr d else Inl TeProtocolError))"
  by (auto simp: pcsc_transmit_def vec_extend_def ok_or_def split: sum.splits prod.splits)

end
