(* ===== verification/Scll_Fixtures.thy ===== *)
theory Scll_Fixtures
  imports Scll_Session
begin

text \<open>
  The card answers that the test support of the repository builds
  (\<open>scll-test-support/src/fixtures.rs\<close>), and the key and privilege helpers of
  \<open>scll-test-util/src/lib.rs\<close> and \<open>privileges.rs\<close>.

  The lemmas relate the builders to the decoders of the library: every answer decodes to what it was
  built from. A panic of a builder (\<open>expect\<close>) is \<open>None\<close>.
\<close>

section \<open>The program\<close>

definition fx_rapdu :: "bytes \<Rightarrow> u16 \<Rightarrow> bytes" where
  "fx_rapdu data sw = data @ to_be_bytes 2 sw"

definition fx_sw :: "u16 \<Rightarrow> bytes" where
  "fx_sw sw = to_be_bytes 2 sw"

text \<open>\<open>la + 2\<close> is checked arithmetic in the test builds.\<close>

definition fci_with_aid :: "bytes \<Rightarrow> bytes option" where
  "fci_with_aid aid = Option.bind (u8_try_from (length aid)) (\<lambda>la.
     map_option (\<lambda>l. [0x6F, l, 0x84, la] @ aid) (u8_checked_add la 2))"

definition crd_scp03 :: "u8 \<Rightarrow> bytes" where
  "crd_scp03 i_param = [0x66, 0x0E, 0x73, 0x0C, 0x64, 0x0A, 0x06, 0x08, 0x2A, 0x86, 0x48, 0x86, 0xFC, 0x6B, 0x03, i_param]"

definition crd_scp02 :: "u8 \<Rightarrow> bytes" where
  "crd_scp02 i_param = [0x66, 0x0E, 0x73, 0x0C, 0x64, 0x0A, 0x06, 0x08, 0x2A, 0x86, 0x48, 0x86, 0xFC, 0x6B, 0x02, i_param]"

definition kit_aes_kvn1 :: bytes where
  "kit_aes_kvn1 = [0xE0, 0x12, 0xC0, 0x04, 0x01, 0x01, 0x88, 0x10, 0xC0, 0x04, 0x02, 0x01, 0x88, 0x10, 0xC0,
     0x04, 0x03, 0x01, 0x88, 0x10]"

definition cci_basic :: bytes where
  "cci_basic = [0x67, 0x08, 0xA0, 0x01, 0x04, 0xA3, 0x03, 0x80, 0x00, 0x00]"

definition iu_scp03 :: "u8 \<Rightarrow> u8 \<Rightarrow> bytes \<Rightarrow> bytes \<Rightarrow> bytes" where
  "iu_scp03 kvn i_param challenge cryptogram =
     replicate 10 0 @ [kvn] @ [0x03] @ [i_param] @ challenge @ cryptogram
     @ (if i_param AND 0x10 \<noteq> 0 then [0x00, 0x00, 0x01] else [])"

definition iu_scp02 :: "u8 \<Rightarrow> bytes \<Rightarrow> bytes \<Rightarrow> bytes \<Rightarrow> bytes" where
  "iu_scp02 kvn sq challenge cryptogram = replicate 10 0 @ [kvn, 0x02] @ sq @ challenge @ cryptogram"

definition status_e3 :: "u8 \<Rightarrow> bytes" where
  "status_e3 life_cycle = [0xE3, 0x0D, 0x4F, 0x07, 0xA0, 0x00, 0x00, 0x00, 0x03, 0x00, 0x00, 0x9F, 0x70, 0x01, life_cycle]"

definition put_key_echo :: "u8 \<Rightarrow> bytes \<Rightarrow> bytes" where
  "put_key_echo new_kvn kcv = [new_kvn] @ kcv @ kcv @ kcv"

definition push_ber_len :: "usize \<Rightarrow> bytes option" where
  "push_ber_len len = (if len < 0x80 then map_option (\<lambda>l. [l]) (u8_try_from len)
     else map_option (\<lambda>l. [0x81, l]) (u8_try_from len))"

definition wrap_e3 :: "bytes \<Rightarrow> bytes option" where
  "wrap_e3 inner = map_option (\<lambda>l. [0xE3] @ l @ inner) (push_ber_len (length inner))"

definition push_obj :: "u8 \<Rightarrow> bytes \<Rightarrow> bytes \<Rightarrow> bytes option" where
  "push_obj tag v out = map_option (\<lambda>l. out @ [tag, l] @ v) (u8_try_from (length v))"

definition status_e3_app :: "bytes \<Rightarrow> u8 \<Rightarrow> bytes \<Rightarrow> bytes option" where
  "status_e3_app aid life_cycle privs =
     Option.bind (push_obj 0x4F aid []) (\<lambda>inner.
     Option.bind (push_obj 0xC5 privs (inner @ [0x9F, 0x70, 0x01, life_cycle])) wrap_e3)"

primrec push_modules :: "bytes list \<Rightarrow> bytes \<Rightarrow> bytes option" where
  "push_modules [] inner = Some inner"
| "push_modules (m # ms) inner = Option.bind (push_obj 0x84 m inner) (push_modules ms)"

definition status_e3_elf :: "bytes \<Rightarrow> u8 \<Rightarrow> bytes \<Rightarrow> bytes list \<Rightarrow> bytes option" where
  "status_e3_elf elf life_cycle assoc_sd modules =
     Option.bind (push_obj 0x4F elf []) (\<lambda>inner.
     let inner = inner @ [0x9F, 0x70, 0x01, life_cycle] in
     Option.bind (if assoc_sd = [] then Some inner else push_obj 0xCC assoc_sd inner) (\<lambda>inner.
     Option.bind (push_modules modules inner) wrap_e3))"

subsection \<open>Keys and privileges\<close>

text \<open>A \<open>&str\<close> is the list of its octets.\<close>

definition hex_nibble :: "u8 \<Rightarrow> string + u8" where
  "hex_nibble c =
    (if 0x30 \<le> c \<and> c \<le> 0x39 then Inr (c - 0x30)
     else if 0x61 \<le> c \<and> c \<le> 0x66 then Inr (c - 0x61 + 10)
     else if 0x41 \<le> c \<and> c \<le> 0x46 then Inr (c - 0x41 + 10)
     else Inl ''non-hex character in key'')"

fun hex_pairs :: "bytes \<Rightarrow> string + bytes" where
  "hex_pairs (a # b # rest) =
     rbind (hex_nibble a) (\<lambda>x. rbind (hex_nibble b) (\<lambda>y.
     rbind (hex_pairs rest) (\<lambda>xs. Inr ((push_bit 4 x OR y) # xs))))"
| "hex_pairs _ = Inr []"

definition parse_key_hex :: "bytes \<Rightarrow> string + (bytes \<times> usize)" where
  "parse_key_hex s =
    (if length s = 32 \<or> length s = 48 \<or> length s = 64 then
       let len = length s div 2 in
       rbind (hex_pairs s) (\<lambda>out. Inr (out @ replicate (32 - len) 0, len))
     else Inl ''expected 32, 48, or 64 hex characters (16/24/32-byte key)'')"

definition decode_key_set :: "bytes \<Rightarrow> bytes \<Rightarrow> bytes \<Rightarrow> string + (bytes list \<times> usize)" where
  "decode_key_set enc mac dek =
     rbind (parse_key_hex enc) (\<lambda>(ke, le).
     rbind (parse_key_hex mac) (\<lambda>(km, lm).
     rbind (parse_key_hex dek) (\<lambda>(kd, ld).
     if le \<noteq> lm \<or> le \<noteq> ld then Inl ''ENC/MAC/DEK keys must all be the same length''
     else Inr ([ke, km, kd], le))))"

definition PRIV_NAMES :: "string option list list" where
  "PRIV_NAMES = [
     [Some ''SecurityDomain'', Some ''DAPVerification'', Some ''DelegatedManagement'', Some ''CardLock'',
      Some ''CardTerminate'', Some ''CardReset'', Some ''CVMManagement'', Some ''MandatedDAPVerification''],
     [Some ''TrustedPath'', Some ''AuthorizedManagement'', Some ''TokenVerification'', Some ''GlobalDelete'',
      Some ''GlobalLock'', Some ''GlobalRegistry'', Some ''FinalApplication'', Some ''GlobalService''],
     [Some ''ReceiptGeneration'', Some ''CipheredLoadFileDataBlock'', Some ''ContactlessActivation'',
      Some ''ContactlessSelfActivation'', None, None, None, None]]"

definition is_security_domain :: "bytes \<Rightarrow> bool" where
  "is_security_domain p = (p ! 0 AND 0x80 \<noteq> 0)"

definition priv_row :: "u8 \<Rightarrow> string option list \<Rightarrow> string list" where
  "priv_row octet row = List.map_filter (\<lambda>(bit_idx, name). if octet AND drop_bit bit_idx 0x80 = 0 then None else name)
     (zip [0..<length row] row)"

definition priv_display :: "bytes \<Rightarrow> string" where
  "priv_display p = (let names = concat (map (\<lambda>(octet, row). priv_row octet row) (zip p PRIV_NAMES)) in
     if names = [] then ''<none>''
     else foldl (\<lambda>s n. s @ '', '' @ n) (hd names) (tl names))"

section \<open>The builders encode\<close>

definition tlv_obj :: "u8 \<Rightarrow> bytes \<Rightarrow> tlv" where
  "tlv_obj t v = \<lparr>tlv_tag = ucast t, tlv_value = v\<rparr>"

lemma be_bytes_0: "be_bytes k 0 = replicate k 0"
  by (induction k) (simp_all add: replicate_append_same)

lemma significant_be_u8: "n < 256 \<Longrightarrow> significant (be_bytes (Suc k) n) = [of_nat n]"
proof -
  have "significant (replicate k 0 @ [x]) = [x]" for x
    by (induction k) (simp_all add: significant_simps)
  then show "n < 256 \<Longrightarrow> ?thesis" by (simp add: be_bytes_0)
qed

lemma enc_tag_u8: "enc_tag (ucast t) = [t :: u8]"
proof -
  have "unat (ucast t :: u32) = unat t"
    by (simp add: unsigned_ucast_eq take_bit_nat_eq_self_iff less_le_trans [OF unat_u8_lt])
  then show ?thesis
    using significant_be_u8 [OF unat_u8_lt [of t], of 3] by (simp add: enc_tag_def to_be_bytes_eq del: be_bytes.simps)
qed

lemma enc_len_u8: "n < 256 \<Longrightarrow> enc_len n = (if n < 128 then [of_nat n] else [0x81, of_nat n])"
  using significant_be_u8 [of n 7] by (simp add: enc_len_def Let_def del: be_bytes.simps)

lemma tag_ok_u8: "t AND 0x1F \<noteq> 0x1F \<Longrightarrow> tag_ok (ucast (t :: u8))"
  by (simp add: tag_ok_def enc_tag_u8 TAG_MULTIBYTE_def)

lemma push_obj_enc: "length v < 128 \<Longrightarrow> push_obj t v out = Some (out @ enc_tlv (tlv_obj t v))"
  by (simp add: push_obj_def u8_try_from_def enc_tlv_def tlv_obj_def enc_tag_u8 enc_len_u8)

lemma wrap_e3_enc: "length inner < 256 \<Longrightarrow> wrap_e3 inner = Some (enc_tlv (tlv_obj 0xE3 inner))"
  by (simp add: wrap_e3_def push_ber_len_def u8_try_from_def enc_tlv_def tlv_obj_def enc_tag_u8 [where t = "0xE3", simplified] enc_len_u8)

section \<open>What the builders build decodes\<close>

lemma parse_objs:
  assumes "list_all tlv_ok ts" "length ts \<le> MAX_TLVS" "length (concat (map enc_tlv ts)) < 2 ^ 64"
  shows "parse (concat (map enc_tlv ts)) = Inr ts"
  using parse_eq_Inr [OF assms(3)] ber_seq_enc [OF assms(1)] assms(2) by blast

lemma tlv_ok_obj: "t AND 0x1F \<noteq> 0x1F \<Longrightarrow> length v < 2 ^ 64 \<Longrightarrow> tlv_ok (tlv_obj t v)"
  by (simp add: tlv_ok_def tlv_obj_def tag_ok_u8)

definition lc_obj :: "u8 \<Rightarrow> tlv" where
  "lc_obj life_cycle = \<lparr>tlv_tag = 0x9F70, tlv_value = [life_cycle]\<rparr>"

lemma lc_obj_enc: "enc_tlv (lc_obj b) = [0x9F, 0x70, 0x01, b]" "tlv_ok (lc_obj b)"
proof -
  have "enc_tag 0x9F70 = [0x9F, 0x70]" "enc_len 1 = [1]" "tag_ok 0x9F70" by code_simp+
  then show "enc_tlv (lc_obj b) = [0x9F, 0x70, 0x01, b]" "tlv_ok (lc_obj b)"
    by (simp_all add: lc_obj_def enc_tlv_def tlv_ok_def)
qed

lemma length_enc_obj: "length v < 128 \<Longrightarrow> length (enc_tlv (tlv_obj t v)) = length v + 2"
  by (simp add: enc_tlv_def tlv_obj_def enc_tag_u8 enc_len_u8)

text \<open>One registry object whose fields are given: the page decodes to one entry.\<close>

lemma parse_registry_one:
  assumes "list_all tlv_ok ts" "length ts \<le> MAX_TLVS" "length (concat (map enc_tlv ts)) < 256"
  shows "map_option parse_status_registry (wrap_e3 (concat (map enc_tlv ts))) = Some (Inr [registry_entry_of ts])"
proof -
  let ?in = "concat (map enc_tlv ts)"
  have "parse (enc_tlv (tlv_obj 0xE3 ?in)) = Inr [tlv_obj 0xE3 ?in]"
    using parse_objs [of "[tlv_obj 0xE3 ?in]"] tlv_ok_obj [of "0xE3" ?in] assms(3)
    by (simp add: limit_simps enc_tlv_def tlv_obj_def enc_len_u8 enc_tag_u8 [where t = "0xE3", simplified])
  moreover have "parse ?in = Inr ts" using parse_objs [OF assms(1,2)] assms(3) by simp
  moreover have "enc_tlv (tlv_obj 0xE3 ?in) \<noteq> []" using enc_tag_u8 [where t = "0xE3"] by (simp add: enc_tlv_def tlv_obj_def)
  ultimately show ?thesis
    by (simp add: wrap_e3_enc [OF assms(3)] parse_status_registry_def tlv_obj_def TAG_GP_REGISTRY_def vec_push_def limit_simps)
qed

lemma find_tlv_simps:
  "find_tlv [] t = None"
  "find_tlv (x # xs) t = (if tlv_tag x = t then Some (tlv_value x) else find_tlv xs t)"
  by (simp_all add: find_tlv_def)

lemmas registry_tags = TAG_AID_def TAG_LIFE_CYCLE_def TAG_PRIVILEGES_def TAG_ASSOC_SD_AID_def TAG_ELF_AID_def TAG_MODULE_AID_def

lemma status_e3_app_decodes:
  assumes "length aid \<le> 16" "length privs \<le> 16"
  shows "map_option parse_status_registry (status_e3_app aid lc privs) =
    Some (Inr [\<lparr>re_aid = aid, re_life_cycle = lc, re_privileges = privileges_to_3 (Some privs),
      re_associated_sd_aid = None, re_elf_aid = None, re_modules = []\<rparr>])"
proof -
  let ?ts = "[tlv_obj 0x4F aid, lc_obj lc, tlv_obj 0xC5 privs]"
  have "status_e3_app aid lc privs = wrap_e3 (concat (map enc_tlv ?ts))"
    using assms by (simp add: status_e3_app_def push_obj_enc lc_obj_enc)
  moreover have "list_all tlv_ok ?ts" using assms by (simp add: tlv_ok_obj lc_obj_enc)
  moreover have "length (concat (map enc_tlv ?ts)) < 256" using assms by (simp add: length_enc_obj lc_obj_enc)
  moreover have "registry_entry_of ?ts = \<lparr>re_aid = aid, re_life_cycle = lc, re_privileges = privileges_to_3 (Some privs),
      re_associated_sd_aid = None, re_elf_aid = None, re_modules = []\<rparr>"
    by (simp add: registry_entry_of_def find_tlv_simps tlv_obj_def lc_obj_def registry_tags first_def get_at_def)
  ultimately show ?thesis using parse_registry_one [of ?ts] by (simp add: limit_simps)
qed

lemma push_modules_enc:
  "list_all (\<lambda>m. length m < 128) ms \<Longrightarrow> push_modules ms inner = Some (inner @ concat (map (enc_tlv \<circ> tlv_obj 0x84) ms))"
  by (induction ms arbitrary: inner) (simp_all add: push_obj_enc)

lemma no_other_found: "t \<noteq> 0x84 \<Longrightarrow> find_tlv (map (tlv_obj 0x84) ms) t = None"
  by (induction ms) (simp_all add: find_tlv_simps tlv_obj_def)

lemma filter_modules: "filter (\<lambda>t. tlv_tag t = TAG_MODULE_AID) (map (tlv_obj 0x84) ms) = map (tlv_obj 0x84) ms"
  by (induction ms) (simp_all add: tlv_obj_def TAG_MODULE_AID_def)

lemma elf_entry:
  "registry_entry_of (tlv_obj 0x4F elf # lc_obj lc # (if sd = [] then [] else [tlv_obj 0xCC sd]) @ map (tlv_obj 0x84) ms) =
    \<lparr>re_aid = elf, re_life_cycle = lc, re_privileges = (0, 0, 0),
      re_associated_sd_aid = (if sd = [] then None else Some sd), re_elf_aid = None, re_modules = take MAX_MODULES_PER_ELF ms\<rparr>"
proof -
  let ?ts = "tlv_obj 0x4F elf # lc_obj lc # (if sd = [] then [] else [tlv_obj 0xCC sd]) @ map (tlv_obj 0x84) ms"
  have t: "tlv_tag (tlv_obj 0x4F elf) = 0x4F" "tlv_tag (lc_obj lc) = 0x9F70" "tlv_tag (tlv_obj 0xCC sd) = 0xCC"
    "tlv_value (tlv_obj t v) = v" "tlv_value (lc_obj lc) = [lc]" for t v
    by (simp_all add: tlv_obj_def lc_obj_def)
  have "find_tlv ?ts TAG_AID = Some elf" "find_tlv ?ts TAG_LIFE_CYCLE = Some [lc]" "find_tlv ?ts TAG_PRIVILEGES = None"
    "find_tlv ?ts TAG_ASSOC_SD_AID = (if sd = [] then None else Some sd)" "find_tlv ?ts TAG_ELF_AID = None"
    by (simp_all add: find_tlv_simps t no_other_found registry_tags)
  moreover have "filter (\<lambda>t. tlv_tag t = TAG_MODULE_AID) ?ts = map (tlv_obj 0x84) ms"
    using filter_modules [of ms] by (simp add: t TAG_MODULE_AID_def)
  then have "collect_modules (filter (\<lambda>t. tlv_tag t = TAG_MODULE_AID) ?ts) [] = take MAX_MODULES_PER_ELF ms"
    using collect_modules_eq [of "[]"] by (simp add: comp_def t)
  ultimately show ?thesis
    unfolding registry_entry_of_def by (simp add: first_def get_at_def privileges_to_3_def)
qed

lemma status_e3_elf_decodes:
  assumes "length elf \<le> 16" "length sd \<le> 16" "list_all (\<lambda>m. length m \<le> 16) ms" "length ms \<le> 11"
  shows "map_option parse_status_registry (status_e3_elf elf lc sd ms) =
    Some (Inr [\<lparr>re_aid = elf, re_life_cycle = lc, re_privileges = (0, 0, 0),
      re_associated_sd_aid = (if sd = [] then None else Some sd), re_elf_aid = None, re_modules = take MAX_MODULES_PER_ELF ms\<rparr>])"
proof -
  let ?sd = "if sd = [] then [] else [tlv_obj 0xCC sd]"
  let ?ts = "[tlv_obj 0x4F elf, lc_obj lc] @ ?sd @ map (tlv_obj 0x84) ms"
  have m: "list_all (\<lambda>m. length m < 128) ms" using assms(3) by (auto simp: list_all_iff)
  have "status_e3_elf elf lc sd ms = wrap_e3 (concat (map enc_tlv ?ts))"
    using assms by (simp add: status_e3_elf_def push_obj_enc lc_obj_enc push_modules_enc [OF m] comp_def)
  moreover have "list_all tlv_ok ?ts"
    using assms by (auto simp: tlv_ok_obj lc_obj_enc list_all_iff)
  moreover have "length (concat (map enc_tlv (map (tlv_obj 0x84) ms))) \<le> 18 * length ms"
    using assms(3) by (induction ms) (simp_all add: length_enc_obj)
  then have "length (concat (map enc_tlv ?ts)) < 256"
    using assms by (simp add: length_enc_obj lc_obj_enc)
  moreover have "registry_entry_of ?ts = \<lparr>re_aid = elf, re_life_cycle = lc, re_privileges = (0, 0, 0),
      re_associated_sd_aid = (if sd = [] then None else Some sd), re_elf_aid = None, re_modules = take MAX_MODULES_PER_ELF ms\<rparr>"
    using elf_entry [of elf lc sd ms] by simp
  ultimately show ?thesis using parse_registry_one [of ?ts] assms(4) by (simp add: limit_simps)
qed

lemma fci_with_aid_decodes:
  assumes "length aid \<le> 125"
  shows "map_option fci_df_name (fci_with_aid aid) = Some (Inr (Some aid))"
proof -
  let ?in = "enc_tlv (tlv_obj 0x84 aid)"
  have "fci_with_aid aid = Some (enc_tlv (tlv_obj 0x6F ?in))"
    using assms enc_tag_u8 [where t = "0x6F"] enc_tag_u8 [where t = "0x84"]
    by (simp add: fci_with_aid_def u8_try_from_def u8_checked_add_def unat_u8_of_nat enc_tlv_def tlv_obj_def enc_len_u8)
  moreover have "parse (enc_tlv (tlv_obj 0x6F ?in)) = Inr [tlv_obj 0x6F ?in]" "parse ?in = Inr [tlv_obj 0x84 aid]"
    using parse_objs [of "[tlv_obj 0x6F ?in]"] parse_objs [of "[tlv_obj 0x84 aid]"] assms
      tlv_ok_obj [of "0x6F" ?in] tlv_ok_obj [of "0x84" aid] length_enc_obj [of aid "0x84"] length_enc_obj [of ?in "0x6F"]
    by (simp_all add: limit_simps)
  moreover have "enc_tlv (tlv_obj 0x6F ?in) \<noteq> []"
    using length_enc_obj [of ?in "0x6F"] length_enc_obj [of aid "0x84"] assms by fastforce
  ultimately show ?thesis
    by (simp add: fci_df_name_def find_value_def tlv_obj_def TAG_FCI_def TAG_DF_NAME_def)
qed

lemma crd_decodes:
  "parse_card_recognition (crd_scp03 i) = Inr \<lparr>cr_scp = [Scp03 i]\<rparr>"
  "parse_card_recognition (crd_scp02 i) = Inr \<lparr>cr_scp = [Scp02 i]\<rparr>"
  by code_simp+

lemma kit_cci_decode:
  "is_ok (parse_key_information kit_aes_kvn1)" "is_ok (parse_card_capabilities cci_basic)"
  by code_simp+

lemma iu_scp03_parses:
  assumes "i_supported i" "from_i i = S8" "length challenge = 8" "length cryptogram = 8"
  shows "parse_iu_response03 (iu_scp03 kvn i challenge cryptogram) = Inr
    \<lparr>iu3_kvn = kvn, iu3_i_param = i, iu3_mode = S8, iu3_card_challenge = challenge, iu3_card_cryptogram = cryptogram,
      iu3_sequence_counter = (if i AND 0x10 \<noteq> 0 then Some [0, 0, 1] else None)\<rparr>"
proof -
  let ?iu = "\<lparr>iu3_kvn = kvn, iu3_i_param = i, iu3_mode = S8, iu3_card_challenge = challenge, iu3_card_cryptogram = cryptogram,
      iu3_sequence_counter = (if i AND 0x10 \<noteq> 0 then Some [0, 0, 1] else None)\<rparr>"
  have "iu_ok03 ?iu" using assms by (simp add: iu_ok03_def I_PSEUDO_RANDOM_def SEQ_COUNTER_LEN_def)
  moreover have "iu_scp03 kvn i challenge cryptogram = iu_layout03 (replicate 10 0) ?iu"
    by (simp add: iu_scp03_def iu_layout03_def)
  ultimately show ?thesis by (simp only: parse_iu_response03_layout length_replicate)
qed

lemma iu_scp02_parses:
  assumes "length sq = 2" "length challenge = 6" "length cryptogram = 8"
  shows "parse_iu_response02 (iu_scp02 kvn sq challenge cryptogram) = Inr
    \<lparr>iu2_kvn = kvn, iu2_seq_counter = sq, iu2_card_challenge = challenge, iu2_card_cryptogram = cryptogram\<rparr>"
  using assms subslice_mid [of "replicate 10 0 @ [kvn, 2]" 12 14 sq "challenge @ cryptogram"]
    subslice_mid [of "replicate 10 0 @ [kvn, 2] @ sq" 14 20 challenge cryptogram]
    subslice_mid [of "replicate 10 0 @ [kvn, 2] @ sq @ challenge" 20 28 cryptogram "[]"]
  by (simp add: parse_iu_response02_iff iu_scp02_def nth_append)

lemma fx_rapdu_splits: "length data \<le> 258 \<Longrightarrow> split_sw (fx_rapdu data sw) = Inr (data, sw)"
proof -
  obtain a b where ab: "to_be_bytes 2 sw = [a, b]"
    by (metis (no_types) length_Suc_conv length_0_conv length_be_bytes numeral_2_eq_2 to_be_bytes_eq)
  have "u16_from_be a b = sw"
  proof -
    have "a = ucast (drop_bit 8 sw)" "b = ucast sw"
      using ab by (simp_all add: to_be_bytes_def numeral_2_eq_2)
    then show ?thesis
      unfolding u16_from_be_def by (auto intro!: bit_word_eqI simp: bit_simps)
  qed
  then show "length data \<le> 258 \<Longrightarrow> ?thesis"
    by (simp add: split_sw_Inr fx_rapdu_def ab nth_append)
qed

section \<open>Keys and privileges\<close>

definition hex_digit :: "bool \<Rightarrow> u8 \<Rightarrow> u8" where
  "hex_digit upper d = (if d < 10 then 0x30 + d else if upper then 0x41 + d - 10 else 0x61 + d - 10)"

definition to_hex :: "bool \<Rightarrow> bytes \<Rightarrow> bytes" where
  "to_hex upper k = concat (map (\<lambda>b. [hex_digit upper (drop_bit 4 b), hex_digit upper (b AND 0x0F)]) k)"

lemma hex_nibble_digit: "d < 16 \<Longrightarrow> hex_nibble (hex_digit u d) = Inr d"
proof -
  assume d: "d < 16"
  have "list_all (\<lambda>d :: u8. hex_nibble (hex_digit True d) = Inr d \<and> hex_nibble (hex_digit False d) = Inr d) (map of_nat [0..<16])"
    by code_simp
  moreover have "unat d < 16" using d by (simp add: word_less_nat_alt)
  then have "d \<in> set (map of_nat [0..<16])" by (auto intro!: image_eqI [of _ _ "unat d"])
  ultimately show ?thesis by (cases u) (auto simp: list_all_iff)
qed

lemma hex_octet:
  "hex_nibble (hex_digit u (drop_bit 4 b)) = Inr (drop_bit 4 b)" "hex_nibble (hex_digit u (b AND 0x0F)) = Inr (b AND 0x0F)"
  "push_bit 4 (drop_bit 4 b) OR b AND 0x0F = (b :: u8)"
proof -
  have "list_all (\<lambda>b :: u8. drop_bit 4 b < 16 \<and> b AND 0x0F < 16 \<and> push_bit 4 (drop_bit 4 b) OR b AND 0x0F = b) (map of_nat [0..<256])"
    by code_simp
  then have "drop_bit 4 b < 16" "b AND 0x0F < 16" "push_bit 4 (drop_bit 4 b) OR b AND 0x0F = b"
    unfolding u8_all [symmetric] by blast+
  then show "hex_nibble (hex_digit u (drop_bit 4 b)) = Inr (drop_bit 4 b)"
    "hex_nibble (hex_digit u (b AND 0x0F)) = Inr (b AND 0x0F)" "push_bit 4 (drop_bit 4 b) OR b AND 0x0F = b"
    by (simp_all add: hex_nibble_digit)
qed

lemma hex_pairs_to_hex: "hex_pairs (to_hex u k) = Inr k"
  by (induction k) (simp_all add: to_hex_def hex_octet)

lemma length_to_hex: "length (to_hex u k) = 2 * length k"
  by (induction k) (simp_all add: to_hex_def)

text \<open>A key written in hexadecimal, in either case, is read back, padded to 32 octets.\<close>

lemma parse_key_hex_to_hex:
  "aes_key_len k \<Longrightarrow> parse_key_hex (to_hex u k) = Inr (k @ replicate (32 - length k) 0, length k)"
  by (auto simp: parse_key_hex_def length_to_hex hex_pairs_to_hex aes_key_len_def)

lemma decode_key_set_to_hex:
  "aes_key_len a \<Longrightarrow> length b = length a \<Longrightarrow> length c = length a \<Longrightarrow>
     decode_key_set (to_hex u a) (to_hex v b) (to_hex w c) =
       Inr (map (\<lambda>k. k @ replicate (32 - length a) 0) [a, b, c], length a)"
  by (simp add: decode_key_set_def parse_key_hex_to_hex aes_key_len_def)

lemma priv_display_examples:
  "priv_display [0x80, 0x40, 0x80] = ''SecurityDomain, AuthorizedManagement, ReceiptGeneration''"
  "priv_display [0x00, 0x00, 0x0F] = ''<none>''"
  by code_simp+

end
