(* ===== verification/Scll_Cap.thy ===== *)
theory Scll_Cap
  imports Scll_Model
begin

text \<open>
  The CAP-file parser: \<open>scll-core/src/cap/mod.rs\<close> (the ZIP walk and the metadata parsers) and
  \<open>cap/components.rs\<close>. The Load File Data Block reader of the same file is in the theory
  \<open>Scll_Lfdb\<close>.

  The input is attacker-influenceable, so every read is bounds-checked: \<open>read_u16\<close> and its
  relatives are partial. DEFLATE is the third-party crate \<open>miniz_oxide\<close>: the record \<open>miniz\<close> holds
  the two functions the source calls, a fresh decompressor and \<open>decompress\<close>, and every definition
  that inflates takes it as an argument. An offset is a \<open>usize\<close>; the sums below are at most a
  \<open>u32\<close> plus three \<open>u16\<close> and do not wrap.
\<close>

section \<open>The decompressor, a parameter\<close>

text \<open>The three statuses the source names; \<open>StFailed\<close> stands for the others.\<close>

datatype tinfl_status = StDone | StHasMoreOutput | StNeedsMoreInput | StFailed

text \<open>\<open>decompress state input window out_pos non_wrapping\<close> returns the status, the number of input
  octets consumed and of output octets written, and the two buffers it was lent, updated.\<close>

record 'd miniz =
  mz_new :: 'd
  mz_decompress :: "'d \<Rightarrow> bytes \<Rightarrow> bytes \<Rightarrow> usize \<Rightarrow> bool \<Rightarrow> (tinfl_status \<times> usize \<times> usize) \<times> 'd \<times> bytes"

record 'd inflate_ctx =
  ic_window :: bytes
  ic_state :: 'd

definition inflate_new :: "'d miniz \<Rightarrow> 'd inflate_ctx" where
  "inflate_new M = \<lparr>ic_window = replicate INFLATE_WINDOW 0, ic_state = mz_new M\<rparr>"

definition infl_reset :: "'d miniz \<Rightarrow> 'd inflate_ctx \<Rightarrow> 'd inflate_ctx" where
  "infl_reset M c = c\<lparr>ic_state := mz_new M\<rparr>"

section \<open>Components\<close>

definition ascii :: "string \<Rightarrow> bytes" where
  "ascii s = map of_char s"

definition LFDB_COMPONENTS :: usize where "LFDB_COMPONENTS = 11"

definition COMPONENT_NAMES :: "bytes list" where
  "COMPONENT_NAMES = map ascii
     [''Header.cap'', ''Directory.cap'', ''Import.cap'', ''Applet.cap'', ''Class.cap'', ''Method.cap'',
      ''StaticField.cap'', ''Export.cap'', ''ConstantPool.cap'', ''RefLocation.cap'', ''Descriptor.cap'']"

definition IDX_HEADER :: usize where "IDX_HEADER = 0"
definition IDX_IMPORT :: usize where "IDX_IMPORT = 2"
definition IDX_APPLET :: usize where "IDX_APPLET = 3"
definition HEADER_MAGIC :: u32 where "HEADER_MAGIC = 0xDECAFFED"
definition METHOD_STORED :: u16 where "METHOD_STORED = 0"
definition METHOD_DEFLATE :: u16 where "METHOD_DEFLATE = 8"
definition SIG_EOCD :: u32 where "SIG_EOCD = 0x06054b50"
definition SIG_CDH :: u32 where "SIG_CDH = 0x02014b50"
definition SIG_LFH :: u32 where "SIG_LFH = 0x04034b50"
definition EOCD_MIN :: usize where "EOCD_MIN = 22"

record comp_loc =
  cl_method :: u16
  cl_data_off :: usize
  cl_comp_size :: usize
  cl_uncomp_size :: usize

record applet_entry =
  ae_class_aid :: aid
  ae_install_method_offset :: u16

record cap_components =
  cc_jc_platform_version :: "u8 \<times> u8 \<times> u8"
  cc_imports :: "aid list"
  cc_applets :: "applet_entry list"

record cap_file =
  cf_package_aid :: aid
  cf_components :: cap_components
  cf_zip :: bytes
  cf_locs :: "comp_loc option list"

section \<open>Bounds-checked readers\<close>

text \<open>\<open>from_le_bytes\<close> and \<open>from_be_bytes\<close> of an unsigned integer.\<close>

definition word_of_le :: "bytes \<Rightarrow> 'a::len word" where
  "word_of_le bs = foldr (\<lambda>b w. push_bit 8 w OR ucast b) bs 0"

definition word_of_be :: "bytes \<Rightarrow> 'a::len word" where
  "word_of_be bs = foldl (\<lambda>w b. push_bit 8 w OR ucast b) 0 bs"

definition read_u16 :: "bytes \<Rightarrow> usize \<Rightarrow> u16 option" where
  "read_u16 b at = map_option word_of_le (get_range b at (at + 2))"

definition read_u32 :: "bytes \<Rightarrow> usize \<Rightarrow> u32 option" where
  "read_u32 b at = map_option word_of_le (get_range b at (at + 4))"

definition read_u16_be :: "bytes \<Rightarrow> usize \<Rightarrow> u16 option" where
  "read_u16_be b at = map_option word_of_be (get_range b at (at + 2))"

definition read_u32_be :: "bytes \<Rightarrow> usize \<Rightarrow> u32 option" where
  "read_u32_be b at = map_option word_of_be (get_range b at (at + 4))"

section \<open>The ZIP central directory\<close>

fun position :: "('a \<Rightarrow> bool) \<Rightarrow> 'a list \<Rightarrow> usize option" where
  "position P [] = None"
| "position P (x # xs) = (if P x then Some 0 else map_option Suc (position P xs))"

definition rposition :: "('a \<Rightarrow> bool) \<Rightarrow> 'a list \<Rightarrow> usize option" where
  "rposition P xs = map_option (\<lambda>i. length xs - 1 - i) (position P (rev xs))"

definition component_index :: "bytes \<Rightarrow> usize option" where
  "component_index name =
    (let base = (case rposition (\<lambda>b. b = 0x2F \<or> b = 0x5C) name of
        Some i \<Rightarrow> drop (i + 1) name
      | None \<Rightarrow> name) in
     position (\<lambda>n. n = base) COMPONENT_NAMES)"

fun find_eocd_from :: "bytes \<Rightarrow> usize \<Rightarrow> usize \<Rightarrow> usize option" where
  "find_eocd_from zp lim i =
    (if read_u32 zp i = Some SIG_EOCD then Some i
     else if i = 0 \<or> i = lim then None
     else find_eocd_from zp lim (i - 1))"

declare find_eocd_from.simps [simp del]

definition find_eocd :: "bytes \<Rightarrow> usize option" where
  "find_eocd zp =
    (if length zp < EOCD_MIN then None
     else
       let max_back = length zp - EOCD_MIN in
       find_eocd_from zp (max_back - 0xFFFF) max_back)"

definition local_data_offset :: "bytes \<Rightarrow> usize \<Rightarrow> cap_error + usize" where
  "local_data_offset zp local_off =
    (if read_u32 zp local_off \<noteq> Some SIG_LFH then Inl Malformed
     else
       rbind (ok_or Malformed (read_u16 zp (local_off + 26))) (\<lambda>name_len.
       rbind (ok_or Malformed (read_u16 zp (local_off + 28))) (\<lambda>extra_len.
       ok_or Malformed
         (Option.bind (checked_add local_off 30) (\<lambda>p.
          Option.bind (checked_add p (unat name_len)) (\<lambda>p.
          Option.bind (checked_add p (unat extra_len)) (\<lambda>p.
          if p \<le> length zp then Some p else None)))))))"

text \<open>The loop of \<open>walk_zip\<close> over the \<open>total\<close> entries of the central directory.\<close>

primrec walk_entries :: "bytes \<Rightarrow> nat \<Rightarrow> usize \<Rightarrow> comp_loc option list \<Rightarrow> cap_error + comp_loc option list" where
  "walk_entries zp 0 pos locs = Inr locs"
| "walk_entries zp (Suc n) pos locs =
    (if read_u32 zp pos \<noteq> Some SIG_CDH then Inl Malformed
     else
       rbind (ok_or Malformed (read_u16 zp (pos + 10))) (\<lambda>method.
       rbind (ok_or Malformed (read_u32 zp (pos + 20))) (\<lambda>comp_size.
       rbind (ok_or Malformed (read_u32 zp (pos + 24))) (\<lambda>uncomp_size.
       rbind (ok_or Malformed (read_u16 zp (pos + 28))) (\<lambda>name_len.
       rbind (ok_or Malformed (read_u16 zp (pos + 30))) (\<lambda>extra_len.
       rbind (ok_or Malformed (read_u16 zp (pos + 32))) (\<lambda>comment_len.
       rbind (ok_or Malformed (read_u32 zp (pos + 42))) (\<lambda>local_off.
       let name_start = pos + 46 in
       rbind (ok_or Malformed (checked_add name_start (unat name_len))) (\<lambda>name_end.
       if name_end > length zp then Inl Malformed
       else
         let name = take (name_end - name_start) (drop name_start zp) in
         rbind (case component_index name of
             Some idx \<Rightarrow>
               if locs ! idx = None then
                 rbind (local_data_offset zp (unat local_off)) (\<lambda>data_off.
                 Inr (locs[idx := Some \<lparr>cl_method = method, cl_data_off = data_off,
                   cl_comp_size = unat comp_size, cl_uncomp_size = unat uncomp_size\<rparr>]))
               else Inr locs
           | None \<Rightarrow> Inr locs) (\<lambda>locs.
         rbind (ok_or Malformed
           (Option.bind (checked_add name_end (unat extra_len)) (\<lambda>p. checked_add p (unat comment_len)))) (\<lambda>pos.
         walk_entries zp n pos locs)))))))))))"

definition walk_zip :: "bytes \<Rightarrow> cap_error + comp_loc option list" where
  "walk_zip zp =
     rbind (ok_or NotAZip (find_eocd zp)) (\<lambda>eocd.
     let entries = unat (word_of_le [zp ! (eocd + 10), zp ! (eocd + 11)] :: u16) in
     rbind (ok_or Malformed (read_u32 zp (eocd + 16))) (\<lambda>cd_off.
     walk_entries zp entries (unat cd_off) (replicate LFDB_COMPONENTS None)))"

section \<open>Component metadata\<close>

definition parse_header :: "bytes \<Rightarrow> cap_error + aid \<times> (u8 \<times> u8 \<times> u8)" where
  "parse_header b =
     rbind (ok_or Malformed (read_u32_be b 3)) (\<lambda>magic.
     if magic \<noteq> HEADER_MAGIC then Inl Malformed
     else
       rbind (ok_or Malformed (get_at b 7)) (\<lambda>minor.
       rbind (ok_or Malformed (get_at b 8)) (\<lambda>major.
       rbind (ok_or Malformed (get_at b 12)) (\<lambda>aid_len.
       let aid_start = 13 in
       rbind (ok_or Malformed (checked_add aid_start (unat aid_len))) (\<lambda>aid_end.
       rbind (ok_or Malformed (get_range b aid_start aid_end)) (\<lambda>aid_bytes.
       rbind (map_err (\<lambda>_. Malformed) (aid_new aid_bytes)) (\<lambda>aid.
       Inr (aid, (major, minor, 0)))))))))"

primrec imports_loop :: "bytes \<Rightarrow> nat \<Rightarrow> usize \<Rightarrow> aid list \<Rightarrow> cap_error + aid list" where
  "imports_loop b 0 p out = Inr out"
| "imports_loop b (Suc count) p out =
     rbind (ok_or Malformed (get_at b (p + 2))) (\<lambda>len.
     let aid_start = p + 3 in
     rbind (ok_or Malformed (checked_add aid_start (unat len))) (\<lambda>aid_end.
     rbind (ok_or Malformed (get_range b aid_start aid_end)) (\<lambda>aid_bytes.
     rbind (map_err (\<lambda>_. Malformed) (aid_new aid_bytes)) (\<lambda>aid.
     rbind (ok_or Malformed (vec_push MAX_CAP_IMPORTS out aid)) (\<lambda>out.
     imports_loop b count aid_end out)))))"

definition parse_imports :: "bytes \<Rightarrow> cap_components \<Rightarrow> cap_error + cap_components" where
  "parse_imports b out =
     rbind (ok_or Malformed (get_at b 3)) (\<lambda>count.
     rbind (imports_loop b (unat count) 4 (cc_imports out)) (\<lambda>imports.
     Inr (out\<lparr>cc_imports := imports\<rparr>)))"

primrec applets_loop :: "bytes \<Rightarrow> nat \<Rightarrow> usize \<Rightarrow> applet_entry list \<Rightarrow> cap_error + applet_entry list" where
  "applets_loop b 0 p out = Inr out"
| "applets_loop b (Suc count) p out =
     rbind (ok_or Malformed (get_at b p)) (\<lambda>len.
     let aid_start = p + 1 in
     rbind (ok_or Malformed (checked_add aid_start (unat len))) (\<lambda>aid_end.
     rbind (ok_or Malformed (get_range b aid_start aid_end)) (\<lambda>aid_bytes.
     rbind (map_err (\<lambda>_. Malformed) (aid_new aid_bytes)) (\<lambda>aid.
     rbind (ok_or Malformed (read_u16_be b aid_end)) (\<lambda>install_method_offset.
     rbind (ok_or Malformed (vec_push MAX_CAP_APPLETS out
       \<lparr>ae_class_aid = aid, ae_install_method_offset = install_method_offset\<rparr>)) (\<lambda>out.
     applets_loop b count (aid_end + 2) out))))))"

definition parse_applets :: "bytes \<Rightarrow> cap_components \<Rightarrow> cap_error + cap_components" where
  "parse_applets b out =
     rbind (ok_or Malformed (get_at b 3)) (\<lambda>count.
     rbind (applets_loop b (unat count) 4 (cc_applets out)) (\<lambda>applets.
     Inr (out\<lparr>cc_applets := applets\<rparr>)))"

section \<open>Reading a metadata component and parsing a CAP file\<close>

text \<open>The state is the lent inflate context. The returned slice is a copy of the window's prefix.\<close>

definition read_component :: "'d miniz \<Rightarrow> bytes \<Rightarrow> comp_loc \<Rightarrow> ('d inflate_ctx, cap_error, bytes) prog" where
  "read_component M zp loc =
     bindP (liftR (ok_or Malformed (checked_add (cl_data_off loc) (cl_comp_size loc)))) (\<lambda>end.
     if end > length zp then throw Malformed
     else
       let input = take (end - cl_data_off loc) (drop (cl_data_off loc) zp) in
       if cl_method loc = METHOD_STORED then (\<lambda>infl.
         if length input > length (ic_window infl) then (Inl Malformed, infl)
         else
           let infl = infl\<lparr>ic_window := input @ drop (length input) (ic_window infl)\<rparr> in
           (Inr (take (length input) (ic_window infl)), infl))
       else if cl_method loc = METHOD_DEFLATE then (\<lambda>infl.
         let infl = infl_reset M infl in
         case mz_decompress M (ic_state infl) input (ic_window infl) 0 True of
           ((status, in_consumed, written), d, win) \<Rightarrow>
             let infl = infl\<lparr>ic_state := d, ic_window := win\<rparr> in
             (if status = StDone then (Inr (take written win), infl) else (Inl Inflate, infl)))
       else throw Malformed)"

definition parse_cap :: "'d miniz \<Rightarrow> bytes \<Rightarrow> ('d inflate_ctx, cap_error, cap_file) prog" where
  "parse_cap M cap_zip =
     bindP (liftR (walk_zip cap_zip)) (\<lambda>locs.
     bindP (liftR (ok_or (MissingComponent ''Header.cap'') (locs ! IDX_HEADER))) (\<lambda>header_loc.
     bindP (read_component M cap_zip header_loc) (\<lambda>header.
     bindP (liftR (parse_header header)) (\<lambda>(package_aid, jc_platform_version).
     let components = \<lparr>cc_jc_platform_version = jc_platform_version, cc_imports = [], cc_applets = []\<rparr> in
     bindP (case locs ! IDX_IMPORT of
         Some import_loc \<Rightarrow>
           bindP (read_component M cap_zip import_loc) (\<lambda>bytes. liftR (parse_imports bytes components))
       | None \<Rightarrow> ret components) (\<lambda>components.
     bindP (case locs ! IDX_APPLET of
         Some applet_loc \<Rightarrow>
           bindP (read_component M cap_zip applet_loc) (\<lambda>bytes. liftR (parse_applets bytes components))
       | None \<Rightarrow> ret components) (\<lambda>components.
     (\<lambda>infl. (Inr \<lparr>cf_package_aid = package_aid, cf_components = components, cf_zip = cap_zip,
         cf_locs = locs\<rparr>, infl_reset M infl))))))))"

section \<open>What the parser accepts\<close>

lemma position_Some: "position P xs = Some i \<Longrightarrow> i < length xs \<and> P (xs ! i)"
  by (induction xs arbitrary: i) (auto split: if_splits)

lemma length_COMPONENT_NAMES: "length COMPONENT_NAMES = LFDB_COMPONENTS"
  by (simp add: COMPONENT_NAMES_def LFDB_COMPONENTS_def)

lemma component_index_lt: "component_index name = Some i \<Longrightarrow> i < LFDB_COMPONENTS"
  using position_Some [of _ COMPONENT_NAMES i] length_COMPONENT_NAMES
  by (auto simp: component_index_def Let_def simp del: position.simps)

lemma read_u32_Some: "read_u32 b p = Some v \<Longrightarrow> p + 4 \<le> length b"
  by (auto simp: read_u32_def)

lemma find_eocd_from_Some:
  "lim \<le> i \<Longrightarrow> find_eocd_from z lim i = Some e \<longleftrightarrow>
     lim \<le> e \<and> e \<le> i \<and> read_u32 z e = Some SIG_EOCD \<and> (\<forall>j. e < j \<and> j \<le> i \<longrightarrow> read_u32 z j \<noteq> Some SIG_EOCD)"
proof (induction z lim i rule: find_eocd_from.induct)
  case (1 z lim i)
  show ?case
  proof (cases "read_u32 z i = Some SIG_EOCD")
    case True
    have "e = i" if "\<forall>j. e < j \<and> j \<le> i \<longrightarrow> read_u32 z j \<noteq> Some SIG_EOCD" "e \<le> i"
      using that True by (cases "e = i") auto
    then show ?thesis using True 1(2) by (subst find_eocd_from.simps) auto
  next
    case False
    show ?thesis
    proof (cases "i = 0 \<or> i = lim")
      case True
      then have "i = lim" using 1(2) by auto
      then show ?thesis using False by (subst find_eocd_from.simps) (auto dest: le_antisym)
    next
      case i: False
      have "e \<le> i - 1 \<and> (\<forall>j. e < j \<and> j \<le> i - 1 \<longrightarrow> read_u32 z j \<noteq> Some SIG_EOCD) \<longleftrightarrow>
          e \<le> i \<and> (\<forall>j. e < j \<and> j \<le> i \<longrightarrow> read_u32 z j \<noteq> Some SIG_EOCD)"
        if "read_u32 z e = Some SIG_EOCD"
      proof
        assume a: "e \<le> i - 1 \<and> (\<forall>j. e < j \<and> j \<le> i - 1 \<longrightarrow> read_u32 z j \<noteq> Some SIG_EOCD)"
        have "j = i \<or> j \<le> i - 1" if "j \<le> i" for j using that i by arith
        then show "e \<le> i \<and> (\<forall>j. e < j \<and> j \<le> i \<longrightarrow> read_u32 z j \<noteq> Some SIG_EOCD)"
          using a False i by auto
      next
        assume a: "e \<le> i \<and> (\<forall>j. e < j \<and> j \<le> i \<longrightarrow> read_u32 z j \<noteq> Some SIG_EOCD)"
        moreover have "e \<noteq> i" using that False by auto
        ultimately show "e \<le> i - 1 \<and> (\<forall>j. e < j \<and> j \<le> i - 1 \<longrightarrow> read_u32 z j \<noteq> Some SIG_EOCD)"
          using i by auto
      qed
      moreover have "find_eocd_from z lim i = find_eocd_from z lim (i - 1)"
        using False i by (subst find_eocd_from.simps) simp
      moreover have "lim \<le> i - 1" using i 1(2) by linarith
      ultimately show ?thesis using 1(1) [OF False i] by auto
    qed
  qed
qed

lemma find_eocd_Some:
  "find_eocd z = Some e \<longleftrightarrow>
     e + 22 \<le> length z \<and> length z \<le> e + 22 + 65535 \<and> read_u32 z e = Some SIG_EOCD
     \<and> (\<forall>j. e < j \<and> j + 22 \<le> length z \<longrightarrow> read_u32 z j \<noteq> Some SIG_EOCD)"
proof (cases "length z < 22")
  case False
  then have "length z - 22 - 0xFFFF \<le> length z - 22" by simp
  from find_eocd_from_Some [OF this, of z e] False show ?thesis
    by (auto simp: find_eocd_def EOCD_MIN_def Let_def)
qed (auto simp: find_eocd_def EOCD_MIN_def)

text \<open>A location is sound when a central-directory record with the base name of the component
  points to it: the local header is where the record says, the data starts right after that
  header's name and extra field, inside the file, and the sizes are those of the record.\<close>

definition loc_sound :: "bytes \<Rightarrow> usize \<Rightarrow> comp_loc \<Rightarrow> bool" where
  "loc_sound z i loc \<longleftrightarrow> (\<exists>pos name off nl el n.
     read_u32 z pos = Some SIG_CDH \<and> read_u16 z (pos + 28) = Some nl
     \<and> name = take (unat nl) (drop (pos + 46) z) \<and> length name = unat nl \<and> component_index name = Some i
     \<and> read_u16 z (pos + 10) = Some (cl_method loc)
     \<and> map_option unat (read_u32 z (pos + 20)) = Some (cl_comp_size loc)
     \<and> map_option unat (read_u32 z (pos + 24)) = Some (cl_uncomp_size loc)
     \<and> map_option unat (read_u32 z (pos + 42)) = Some off
     \<and> read_u32 z off = Some SIG_LFH \<and> read_u16 z (off + 26) = Some n \<and> read_u16 z (off + 28) = Some el
     \<and> cl_data_off loc = off + 30 + unat n + unat el \<and> cl_data_off loc \<le> length z)"

definition locs_sound :: "bytes \<Rightarrow> comp_loc option list \<Rightarrow> bool" where
  "locs_sound z locs \<longleftrightarrow> length locs = LFDB_COMPONENTS
     \<and> (\<forall>i < LFDB_COMPONENTS. \<forall>loc. locs ! i = Some loc \<longrightarrow> loc_sound z i loc)"

lemma local_data_offset_Inr:
  "local_data_offset z off = Inr d \<Longrightarrow>
    \<exists>n el. read_u32 z off = Some SIG_LFH \<and> read_u16 z (off + 26) = Some n \<and> read_u16 z (off + 28) = Some el
      \<and> d = off + 30 + unat n + unat el \<and> d \<le> length z"
  by (auto simp: local_data_offset_def checked_add_def split: if_splits Option.bind_splits)

lemma walk_entries_sound:
  "walk_entries z n pos locs = Inr locs' \<Longrightarrow> locs_sound z locs \<Longrightarrow> locs_sound z locs'"
proof (induction n arbitrary: pos locs)
  case (Suc n)
  from Suc.prems(1) obtain meth cs us nl el cl off ne locs1 pos' where
    e: "read_u32 z pos = Some SIG_CDH" "read_u16 z (pos + 10) = Some meth"
      "read_u32 z (pos + 20) = Some cs" "read_u32 z (pos + 24) = Some us" "read_u16 z (pos + 28) = Some nl"
      "read_u16 z (pos + 30) = Some el" "read_u16 z (pos + 32) = Some cl" "read_u32 z (pos + 42) = Some off"
      "ne = pos + 46 + unat nl" "ne \<le> length z"
    and l: "(case component_index (take (ne - (pos + 46)) (drop (pos + 46) z)) of
             Some idx \<Rightarrow>
               if locs ! idx = None then
                 rbind (local_data_offset z (unat off)) (\<lambda>data_off.
                 Inr (locs[idx := Some \<lparr>cl_method = meth, cl_data_off = data_off,
                   cl_comp_size = unat cs, cl_uncomp_size = unat us\<rparr>]))
               else Inr locs
           | None \<Rightarrow> Inr locs) = Inr locs1"
    and w: "walk_entries z n pos' locs1 = Inr locs'"
    by (auto simp: checked_add_def Let_def split: if_splits)
  have "locs_sound z locs1"
  proof (cases "component_index (take (ne - (pos + 46)) (drop (pos + 46) z))")
    case None then show ?thesis using l Suc.prems(2) by simp
  next
    case (Some idx)
    show ?thesis
    proof (cases "locs ! idx = None")
      case False then show ?thesis using l Some Suc.prems(2) by auto
    next
      case True
      then obtain d where d: "local_data_offset z (unat off) = Inr d"
          and l1: "locs1 = locs[idx := Some \<lparr>cl_method = meth, cl_data_off = d, cl_comp_size = unat cs,
            cl_uncomp_size = unat us\<rparr>]" using l Some by auto
      from local_data_offset_Inr [OF d] e Some have
        "loc_sound z idx \<lparr>cl_method = meth, cl_data_off = d, cl_comp_size = unat cs, cl_uncomp_size = unat us\<rparr>"
        unfolding loc_sound_def
        by (intro exI [of _ pos] exI [of _ "take (unat nl) (drop (pos + 46) z)"] exI [of _ "unat off"]) auto
      then show ?thesis
        using Suc.prems(2) component_index_lt [OF Some] unfolding locs_sound_def l1
        by (auto simp: nth_list_update split: if_splits)
    qed
  qed
  then show ?case by (rule Suc.IH [OF w])
qed simp

text \<open>C34: the ZIP walk is sound and never reads outside the file. If it accepts, the end record is the
  last signature within reach of the end of the file, the entry count is read inside the file, and
  every located component is one a central-directory record with its base name points to, with its
  data starting inside the file.\<close>

theorem walk_zip_sound:
  assumes "walk_zip z = Inr locs"
  shows "\<exists>e. find_eocd z = Some e \<and> e + 22 \<le> length z \<and> length z \<le> e + 22 + 65535
     \<and> read_u32 z e = Some SIG_EOCD
     \<and> {j. e < j \<and> j + 22 \<le> length z \<and> read_u32 z j = Some SIG_EOCD} = {}
     \<and> locs_sound z locs"
proof -
  obtain e and cd :: u32 where e: "find_eocd z = Some e"
      and w: "walk_entries z (unat (word_of_le [z ! (e + 10), z ! (e + 11)] :: u16)) (unat cd) (replicate LFDB_COMPONENTS None) = Inr locs"
    using assms unfolding walk_zip_def Let_def rbind_eq_Inr ok_or_eq_Inr by blast
  have "locs_sound z (replicate LFDB_COMPONENTS None)" by (simp add: locs_sound_def)
  from walk_entries_sound [OF w this] e [unfolded find_eocd_Some] e show ?thesis by blast
qed

text \<open>A CAP file with two stored components, \<open>Header.cap\<close> and \<open>Applet.cap\<close>.\<close>

definition demo_cap :: bytes where
  "demo_cap = [
    80, 75, 3, 4, 20, 0, 0, 0, 0, 0, 0, 0, 0, 0, 0, 0, 0, 0, 20, 0, 0, 0, 20, 0, 0, 0, 12, 0, 0, 0, 112, 47,
    72, 101, 97, 100, 101, 114, 46, 99, 97, 112, 1, 0, 17, 222, 202, 255, 237, 1, 2, 0, 0, 1, 7, 160, 0, 0, 0,
    98, 3, 1, 80, 75, 3, 4, 20, 0, 0, 0, 0, 0, 0, 0, 0, 0, 0, 0, 0, 0, 15, 0, 0, 0, 15, 0, 0, 0, 12, 0, 0, 0,
    112, 47, 65, 112, 112, 108, 101, 116, 46, 99, 97, 112, 3, 0, 12, 1, 8, 160, 0, 0, 0, 98, 3, 1, 10, 0, 31,
    80, 75, 1, 2, 20, 0, 20, 0, 0, 0, 0, 0, 0, 0, 0, 0, 0, 0, 0, 0, 20, 0, 0, 0, 20, 0, 0, 0, 12, 0, 0, 0, 0,
    0, 0, 0, 0, 0, 0, 0, 0, 0, 0, 0, 0, 0, 112, 47, 72, 101, 97, 100, 101, 114, 46, 99, 97, 112, 80, 75, 1, 2,
    20, 0, 20, 0, 0, 0, 0, 0, 0, 0, 0, 0, 0, 0, 0, 0, 15, 0, 0, 0, 15, 0, 0, 0, 12, 0, 0, 0, 0, 0, 0, 0, 0, 0,
    0, 0, 0, 0, 62, 0, 0, 0, 112, 47, 65, 112, 112, 108, 101, 116, 46, 99, 97, 112, 80, 75, 5, 6, 0, 0, 0, 0,
    2, 0, 2, 0, 116, 0, 0, 0, 119, 0, 0, 0, 0, 0]"

definition demo_locs :: "comp_loc option list" where
  "demo_locs = (replicate LFDB_COMPONENTS None)
     [0 := Some \<lparr>cl_method = 0, cl_data_off = 42, cl_comp_size = 20, cl_uncomp_size = 20\<rparr>,
      3 := Some \<lparr>cl_method = 0, cl_data_off = 104, cl_comp_size = 15, cl_uncomp_size = 15\<rparr>]"

lemma demo_cap_eocd: "find_eocd demo_cap = Some 235"
proof -
  have "length demo_cap = 257" by (simp add: demo_cap_def)
  moreover have "read_u32 demo_cap 235 = Some SIG_EOCD" by code_simp
  ultimately show ?thesis by (simp add: find_eocd_def EOCD_MIN_def) (subst find_eocd_from.simps, simp)
qed

lemma walk_demo_cap: "walk_zip demo_cap = Inr demo_locs"
proof -
  have "unat (word_of_le [demo_cap ! (235 + 10), demo_cap ! (235 + 11)] :: u16) = 2" by code_simp
  moreover have "map_option unat (read_u32 demo_cap (235 + 16)) = Some 119" by code_simp
  moreover have "walk_entries demo_cap 2 119 (replicate LFDB_COMPONENTS None) = Inr demo_locs" by code_simp
  ultimately show ?thesis by (auto simp: walk_zip_def demo_cap_eocd)
qed

lemma walk_zip_sound_witness: "locs_sound demo_cap demo_locs \<and> find_eocd demo_cap = Some 235"
  using walk_zip_sound [OF walk_demo_cap] by (simp add: demo_cap_eocd)

section \<open>The tables of the metadata components\<close>

text \<open>An entry of \<open>Import.cap\<close> and of \<open>Applet.cap\<close>, as octets.\<close>

definition import_bytes :: "u8 \<times> u8 \<times> bytes \<Rightarrow> bytes" where
  "import_bytes = (\<lambda>(mi, ma, a). mi # ma # of_nat (length a) # a)"

definition applet_bytes :: "applet_entry \<Rightarrow> bytes" where
  "applet_bytes e = of_nat (length (as_bytes (ae_class_aid e))) # as_bytes (ae_class_aid e)
     @ to_be_bytes 2 (ae_install_method_offset e)"

lemma drop_field: "p + n \<le> length b \<Longrightarrow> drop p b = take n (drop p b) @ drop (p + n) b"
  by (metis add.commute append_take_drop_id drop_drop)

text \<open>A loop that reads one entry per round is described by the sequence of its entries.\<close>

lemma table_loop:
  assumes base: "\<And>p out. loop 0 p out = Inr out"
    and step: "\<And>n p out. loop (Suc n) p out = Inr r \<longleftrightarrow>
      (\<exists>e rest. drop p b = enc e @ rest \<and> good e \<and> length out < cap
        \<and> loop n (p + length (enc e)) (out @ [val e]) = Inr r)"
  shows "loop n p out = Inr r \<longleftrightarrow> (\<exists>es rest. length es = n \<and> drop p b = concat (map enc es) @ rest
     \<and> list_all good es \<and> r = out @ map val es \<and> (es = [] \<or> length r \<le> cap))"
proof (induction n arbitrary: p out)
  case (Suc n)
  have next_entry: "drop (p + length (enc e)) b = rest" if "drop p b = enc e @ rest" for e rest
    using that by (metis add.commute append_eq_conv_conj drop_drop)
  show ?case
  proof
    assume "loop (Suc n) p out = Inr r"
    then obtain e rest where e: "drop p b = enc e @ rest" "good e" "length out < cap"
        "loop n (p + length (enc e)) (out @ [val e]) = Inr r" unfolding step by blast
    then obtain es rest' where es: "length es = n" "rest = concat (map enc es) @ rest'" "list_all good es"
        "r = (out @ [val e]) @ map val es" "es = [] \<or> length r \<le> cap"
      unfolding Suc.IH next_entry [OF e(1)] by blast
    then show "\<exists>es rest. length es = Suc n \<and> drop p b = concat (map enc es) @ rest
       \<and> list_all good es \<and> r = out @ map val es \<and> (es = [] \<or> length r \<le> cap)"
      using e by (intro exI [of _ "e # es"] exI [of _ rest']) auto
  next
    assume "\<exists>es rest. length es = Suc n \<and> drop p b = concat (map enc es) @ rest
       \<and> list_all good es \<and> r = out @ map val es \<and> (es = [] \<or> length r \<le> cap)"
    then obtain e es rest where es: "length es = n" "drop p b = enc e @ concat (map enc es) @ rest" "good e"
        "list_all good es" "r = (out @ [val e]) @ map val es" "length r \<le> cap"
      by (auto simp: length_Suc_conv)
    then have "loop n (p + length (enc e)) (out @ [val e]) = Inr r"
      unfolding Suc.IH next_entry [OF es(2)] by blast
    moreover have "length out < cap" using es(5,6) by simp
    ultimately show "loop (Suc n) p out = Inr r" unfolding step using es(2,3) by blast
  qed
qed (auto simp: base)

lemma word_of_be_u16: "word_of_be (to_be_bytes 2 w) = (w :: u16)"
  by (simp add: word_of_be_def to_be_bytes_def numeral_2_eq_2) (rule bit_word_eqI, auto simp: bit_simps)

lemma u16_be_bytes:
  assumes "length bs = 2"
  shows "to_be_bytes 2 (word_of_be bs :: u16) = bs"
proof -
  from assms obtain x y where "bs = [x, y]" by (auto simp: length_Suc_conv numeral_2_eq_2)
  moreover have "to_be_bytes 2 (word_of_be [x, y] :: u16) = [x, y]"
    by (simp add: word_of_be_def to_be_bytes_def numeral_2_eq_2) (intro conjI; rule bit_word_eqI; auto simp: bit_simps dest: bit_imp_le_length)
  ultimately show ?thesis by simp
qed

lemma u8_of_length: "length a \<le> 16 \<Longrightarrow> unat (of_nat (length a) :: u8) = length a"
  by (simp add: unat_of_nat)

lemma drop_Cons: "p < length b \<Longrightarrow> drop p b = b ! p # drop (Suc p) b"
  by (simp add: Cons_nth_drop_Suc)

lemma drop_Cons_D: "drop p b = x # xs \<Longrightarrow> p < length b \<and> b ! p = x \<and> drop (Suc p) b = xs"
proof -
  assume d: "drop p b = x # xs"
  then have p: "p < length b" by (metis drop_all linorder_not_le list.distinct(1))
  then show ?thesis using drop_Cons [OF p] d by simp
qed

lemma drop_append_D: "drop p b = xs @ ys \<Longrightarrow> p \<le> length b \<Longrightarrow>
    p + length xs \<le> length b \<and> take (length xs) (drop p b) = xs \<and> drop (p + length xs) b = ys"
proof -
  assume d: "drop p b = xs @ ys" and p: "p \<le> length b"
  have "drop (p + length xs) b = ys" by (metis add.commute append_eq_conv_conj d drop_drop)
  moreover have "p + length xs \<le> length b" using arg_cong [OF d, of length] p by simp
  ultimately show ?thesis using d by simp
qed

definition import_ok :: "u8 \<times> u8 \<times> bytes \<Rightarrow> bool" where
  "import_ok = (\<lambda>(mi, ma, a). 5 \<le> length a \<and> length a \<le> 16)"

lemma imports_step:
  assumes "length b < 2 ^ 64"
  shows "imports_loop b (Suc n) p out = Inr r \<longleftrightarrow>
      (\<exists>e rest. drop p b = import_bytes e @ rest \<and> import_ok e \<and> length out < MAX_CAP_IMPORTS
        \<and> imports_loop b n (p + length (import_bytes e)) (out @ [case e of (mi, ma, a) \<Rightarrow> Aid a]) = Inr r)"
proof
  assume l: "imports_loop b (Suc n) p out = Inr r"
  define k where "k = unat (b ! (p + 2))"
  define a where "a = take k (drop (p + 3) b)"
  from l have le: "p + 3 + k \<le> length b" and ok: "5 \<le> length a" "length a \<le> 16"
    and o: "length out < MAX_CAP_IMPORTS" and i: "imports_loop b n (p + 3 + k) (out @ [Aid a]) = Inr r"
    by (auto simp: checked_add_def Let_def a_def k_def split: if_splits)
  have la: "length a = k" using le by (simp add: a_def)
  then have "b ! (p + 2) = of_nat (length a)" by (simp add: k_def)
  moreover have "drop (p + 3) b = a @ drop (p + 3 + k) b" unfolding a_def by (rule drop_field) (use le in simp)
  ultimately have "drop p b = import_bytes (b ! p, b ! (p + 1), a) @ drop (p + 3 + k) b"
    using le by (simp add: import_bytes_def drop_Cons numeral_3_eq_3)
  then show "\<exists>e rest. drop p b = import_bytes e @ rest \<and> import_ok e \<and> length out < MAX_CAP_IMPORTS
        \<and> imports_loop b n (p + length (import_bytes e)) (out @ [case e of (mi, ma, a) \<Rightarrow> Aid a]) = Inr r"
    using ok o i la by (intro exI [of _ "(b ! p, b ! (p + 1), a)"]) (auto simp: import_ok_def import_bytes_def numeral_3_eq_3)
next
  assume "\<exists>e rest. drop p b = import_bytes e @ rest \<and> import_ok e \<and> length out < MAX_CAP_IMPORTS
        \<and> imports_loop b n (p + length (import_bytes e)) (out @ [case e of (mi, ma, a) \<Rightarrow> Aid a]) = Inr r"
  then obtain mi ma a rest where d: "drop p b = mi # ma # of_nat (length a) # a @ rest"
      and a: "5 \<le> length a" "length a \<le> 16" "length out < MAX_CAP_IMPORTS"
      and i: "imports_loop b n (p + 3 + length a) (out @ [Aid a]) = Inr r"
    by (auto simp: import_bytes_def import_ok_def add.assoc numeral_3_eq_3)
  from drop_Cons_D [OF d] have d1: "drop (Suc p) b = ma # of_nat (length a) # a @ rest" by simp
  from drop_Cons_D [OF d1] have d2: "drop (p + 2) b = of_nat (length a) # a @ rest" by simp
  from drop_Cons_D [OF d2] have p2: "p + 2 < length b" "b ! (p + 2) = of_nat (length a)" "drop (p + 3) b = a @ rest"
    by (simp_all add: numeral_3_eq_3)
  from drop_append_D [OF p2(3)] p2(1) have "p + 3 + length a \<le> length b" by simp
  then show "imports_loop b (Suc n) p out = Inr r"
    using a i assms p2 by (simp add: u8_of_length checked_add_def Let_def get_at_def get_range_def vec_push_def)
qed

lemma applets_step:
  assumes "length b < 2 ^ 64"
  shows "applets_loop b (Suc n) p out = Inr r \<longleftrightarrow>
      (\<exists>e rest. drop p b = applet_bytes e @ rest \<and> aid_ok (ae_class_aid e) \<and> length out < MAX_CAP_APPLETS
        \<and> applets_loop b n (p + length (applet_bytes e)) (out @ [e]) = Inr r)"
proof
  assume l: "applets_loop b (Suc n) p out = Inr r"
  define k where "k = unat (b ! p)"
  define a where "a = take k (drop (p + 1) b)"
  from l obtain off where le: "p + 1 + k \<le> length b" "p < length b" and ok: "5 \<le> length a" "length a \<le> 16"
    and o: "length out < MAX_CAP_APPLETS" and off: "read_u16_be b (p + 1 + k) = Some off"
    and i: "applets_loop b n (p + 1 + k + 2) (out @ [\<lparr>ae_class_aid = Aid a, ae_install_method_offset = off\<rparr>]) = Inr r"
    by (auto simp: checked_add_def Let_def a_def k_def split: if_splits)
  have la: "length a = k" using le by (simp add: a_def)
  then have "b ! p = of_nat (length a)" by (simp add: k_def)
  moreover have "drop (p + 1) b = a @ drop (p + 1 + k) b" unfolding a_def by (rule drop_field) (use le in simp)
  moreover from off have le2: "p + 1 + k + 2 \<le> length b"
    and w: "word_of_be (take 2 (drop (p + 1 + k) b)) = off" by (auto simp: read_u16_be_def)
  moreover have "drop (p + 1 + k) b = take 2 (drop (p + 1 + k) b) @ drop (p + 1 + k + 2) b"
    by (rule drop_field) (use le2 in simp)
  moreover have "take 2 (drop (p + 1 + k) b) = to_be_bytes 2 off"
    using u16_be_bytes [of "take 2 (drop (p + 1 + k) b)"] w le2 by simp
  ultimately have "drop p b = applet_bytes \<lparr>ae_class_aid = Aid a, ae_install_method_offset = off\<rparr> @ drop (p + 1 + k + 2) b"
    using le by (simp add: applet_bytes_def drop_Cons)
  then show "\<exists>e rest. drop p b = applet_bytes e @ rest \<and> aid_ok (ae_class_aid e) \<and> length out < MAX_CAP_APPLETS
        \<and> applets_loop b n (p + length (applet_bytes e)) (out @ [e]) = Inr r"
    using ok o i la
    by (intro exI [of _ "\<lparr>ae_class_aid = Aid a, ae_install_method_offset = off\<rparr>"])
      (auto simp: aid_ok_def limit_simps applet_bytes_def add.assoc to_be_bytes_eq)
next
  assume "\<exists>e rest. drop p b = applet_bytes e @ rest \<and> aid_ok (ae_class_aid e) \<and> length out < MAX_CAP_APPLETS
        \<and> applets_loop b n (p + length (applet_bytes e)) (out @ [e]) = Inr r"
  then obtain e a rest where ea: "ae_class_aid e = Aid a"
      and d: "drop p b = of_nat (length a) # a @ to_be_bytes 2 (ae_install_method_offset e) @ rest"
      and a: "5 \<le> length a" "length a \<le> 16" "length out < MAX_CAP_APPLETS"
      and i: "applets_loop b n (p + length (applet_bytes e)) (out @ [e]) = Inr r"
    by (auto simp: applet_bytes_def aid_ok_def limit_simps) (metis aid.exhaust as_bytes.simps)
  from drop_Cons_D [OF d] have p1: "p < length b" "b ! p = of_nat (length a)"
    "drop (p + 1) b = a @ to_be_bytes 2 (ae_install_method_offset e) @ rest" by simp_all
  from drop_append_D [OF p1(3)] p1(1) have p2: "p + 1 + length a \<le> length b" "take (length a) (drop (p + 1) b) = a"
    "drop (p + 1 + length a) b = to_be_bytes 2 (ae_install_method_offset e) @ rest" by simp_all
  from drop_append_D [OF p2(3)] p2(1) have p3: "p + 1 + length a + 2 \<le> length b"
    "take 2 (drop (p + 1 + length a) b) = to_be_bytes 2 (ae_install_method_offset e)" by (simp_all add: to_be_bytes_eq)
  then have "read_u16_be b (p + 1 + length a) = Some (ae_install_method_offset e)"
    by (simp add: read_u16_be_def get_range_def word_of_be_u16)
  moreover have "\<lparr>ae_class_aid = Aid a, ae_install_method_offset = ae_install_method_offset e\<rparr> = e"
    using ea by simp
  moreover have "p + length (applet_bytes e) = p + 1 + length a + 2"
    by (simp add: applet_bytes_def ea to_be_bytes_eq)
  ultimately show "applets_loop b (Suc n) p out = Inr r"
    using a i assms p1 p2(1,2) p3(1)
    by (simp add: u8_of_length checked_add_def Let_def get_at_def get_range_def vec_push_def add.left_commute del: add_2_eq_Suc')
qed

lemma take4: "4 \<le> length b \<Longrightarrow> b = take 3 b @ b ! 3 # drop 4 b"
proof -
  assume "4 \<le> length b"
  then have l: "3 < length b" by simp
  have "Suc 3 = (4 :: nat)" by simp
  from id_take_nth_drop [OF l, unfolded this] show ?thesis .
qed

text \<open>C35: the metadata tables are read exactly. \<open>parse_imports\<close> and \<open>parse_applets\<close> accept a component
  if and only if it is three octets of header, a count within the capacity and that many complete
  entries with valid AIDs (anything may follow), and they return precisely these entries in order.\<close>

theorem cap_tables_exact:
  assumes "length b < 2 ^ 64" "cc_imports c = []" "cc_applets c = []"
  shows "(parse_imports b c = Inr c' \<longleftrightarrow> (\<exists>h es rest. length h = 3 \<and> length es \<le> MAX_CAP_IMPORTS
      \<and> b = h @ of_nat (length es) # concat (map import_bytes es) @ rest \<and> list_all import_ok es
      \<and> c' = c\<lparr>cc_imports := map (\<lambda>(mi, ma, a). Aid a) es\<rparr>))
    \<and> (parse_applets b c = Inr c' \<longleftrightarrow> (\<exists>h es rest. length h = 3 \<and> length es \<le> MAX_CAP_APPLETS
      \<and> b = h @ of_nat (length es) # concat (map applet_bytes es) @ rest
      \<and> list_all (\<lambda>e. aid_ok (ae_class_aid e)) es \<and> c' = c\<lparr>cc_applets := es\<rparr>))"
proof -
  have frame: "(\<exists>v. get_at b 3 = Some v \<and> (\<exists>es rest. length es = unat v \<and> drop 4 b = concat (map enc es) @ rest
        \<and> P es \<and> (es = [] \<or> length es \<le> cap)))
     \<longleftrightarrow> (\<exists>h es rest. length h = 3 \<and> length es \<le> cap \<and> b = h @ of_nat (length es) # concat (map enc es) @ rest \<and> P es)"
    if "cap < 256" for enc :: "'x \<Rightarrow> bytes" and P cap
  proof
    assume "\<exists>v. get_at b 3 = Some v \<and> (\<exists>es rest. length es = unat v \<and> drop 4 b = concat (map enc es) @ rest
        \<and> P es \<and> (es = [] \<or> length es \<le> cap))"
    then obtain es rest where e: "3 < length b" "length es = unat (b ! 3)" "drop 4 b = concat (map enc es) @ rest"
        "P es" "length es \<le> cap" by (auto simp: le_Suc_eq)
    have "b = take 3 b @ b ! 3 # drop 4 b" by (rule take4) (use e(1) in simp)
    then have "b = take 3 b @ of_nat (length es) # concat (map enc es) @ rest" unfolding e(3) e(2) by simp
    moreover have "length (take 3 b) = 3" using e(1) by simp
    ultimately show "\<exists>h es rest. length h = 3 \<and> length es \<le> cap \<and> b = h @ of_nat (length es) # concat (map enc es) @ rest \<and> P es"
      using e(4,5) by blast
  next
    assume "\<exists>h es rest. length h = 3 \<and> length es \<le> cap \<and> b = h @ of_nat (length es) # concat (map enc es) @ rest \<and> P es"
    then obtain h es rest where h: "length h = 3" "length es \<le> cap" "P es"
      "b = h @ of_nat (length es) # concat (map enc es) @ rest" by blast
    then have "get_at b 3 = Some (of_nat (length es))" "drop 4 b = concat (map enc es) @ rest"
      by (simp_all add: nth_append)
    moreover have "unat (of_nat (length es) :: u8) = length es" using h(2) that by (simp add: unat_of_nat)
    ultimately show "\<exists>v. get_at b 3 = Some v \<and> (\<exists>es rest. length es = unat v \<and> drop 4 b = concat (map enc es) @ rest
        \<and> P es \<and> (es = [] \<or> length es \<le> cap))" using h(2,3) by metis
  qed
  have imp: "imports_loop b n p [] = Inr r \<longleftrightarrow> (\<exists>es rest. length es = n \<and> drop p b = concat (map import_bytes es) @ rest
     \<and> list_all import_ok es \<and> r = map (\<lambda>(mi, ma, a). Aid a) es \<and> (es = [] \<or> length es \<le> MAX_CAP_IMPORTS))" for n p r
    using table_loop [where loop = "imports_loop b" and out = "[]", OF imports_loop.simps(1) imports_step [OF assms(1)]] by auto
  have app: "applets_loop b n p [] = Inr r \<longleftrightarrow> (\<exists>es rest. length es = n \<and> drop p b = concat (map applet_bytes es) @ rest
     \<and> list_all (\<lambda>e. aid_ok (ae_class_aid e)) es \<and> r = es \<and> (es = [] \<or> length es \<le> MAX_CAP_APPLETS))" for n p r
    using table_loop [where loop = "applets_loop b" and out = "[]" and val = "\<lambda>x. x",
        OF applets_loop.simps(1) applets_step [OF assms(1)]] by auto
  have i: "parse_imports b c = Inr c' \<longleftrightarrow> (\<exists>v. get_at b 3 = Some v \<and> (\<exists>es rest. length es = unat v
      \<and> drop 4 b = concat (map import_bytes es) @ rest
      \<and> (list_all import_ok es \<and> c' = c\<lparr>cc_imports := map (\<lambda>(mi, ma, a). Aid a) es\<rparr>) \<and> (es = [] \<or> length es \<le> MAX_CAP_IMPORTS)))"
    unfolding parse_imports_def rbind_eq_Inr ok_or_eq_Inr assms(2) imp by blast
  have a: "parse_applets b c = Inr c' \<longleftrightarrow> (\<exists>v. get_at b 3 = Some v \<and> (\<exists>es rest. length es = unat v
      \<and> drop 4 b = concat (map applet_bytes es) @ rest
      \<and> (list_all (\<lambda>e. aid_ok (ae_class_aid e)) es \<and> c' = c\<lparr>cc_applets := es\<rparr>) \<and> (es = [] \<or> length es \<le> MAX_CAP_APPLETS)))"
    unfolding parse_applets_def rbind_eq_Inr ok_or_eq_Inr assms(3) app by blast
  show ?thesis unfolding i a
    by (intro conjI; rule frame) (simp_all add: limit_simps)
qed

definition demo_applet :: applet_entry where
  "demo_applet = \<lparr>ae_class_aid = Aid [0xA0, 0, 0, 0, 0x62, 3, 1, 0x0A], ae_install_method_offset = 0x1F\<rparr>"

definition demo_components :: cap_components where
  "demo_components = \<lparr>cc_jc_platform_version = (2, 1, 0), cc_imports = [], cc_applets = []\<rparr>"

lemma cap_tables_exact_witness:
  "parse_applets [3, 0, 12, 1, 8, 0xA0, 0, 0, 0, 0x62, 3, 1, 0x0A, 0, 0x1F] demo_components
     = Inr (demo_components\<lparr>cc_applets := [demo_applet]\<rparr>)"
  (is "parse_applets ?b ?c = Inr ?r")
proof -
  have l: "length ?b < 2 ^ 64" "cc_imports ?c = []" "cc_applets ?c = []" by (simp_all add: demo_components_def)
  have "?b = [3, 0, 12] @ of_nat (length [demo_applet]) # concat (map applet_bytes [demo_applet]) @ []" by code_simp
  moreover have "list_all (\<lambda>e. aid_ok (ae_class_aid e)) [demo_applet]" by code_simp
  moreover have "length [3, 0, 12 :: u8] = 3" "length [demo_applet] \<le> MAX_CAP_APPLETS" by (simp_all add: limit_simps)
  ultimately show ?thesis using conjunct2 [OF cap_tables_exact [OF l, of ?r]] by blast
qed

end
