(* ===== verification/Scll_Lfdb.thy ===== *)
theory Scll_Lfdb
  imports Scll_Cap
begin

text \<open>
  The streaming Load File Data Block reader of \<open>scll-core/src/cap/mod.rs\<close>: \<open>LfdbHeader\<close>,
  \<open>CompCursor\<close> and \<open>LoadFileDataBlock\<close>.

  The reader's state is the record \<open>lfdb\<close>; the inflate context is lent by the caller. The
  borrowed ZIP is part of the reader, as in the source. A call of \<open>next_block\<close> with a buffer of
  \<open>n\<close> octets returns the octets written to it. \<open>emit_deflate\<close> and \<open>next_block\<close> terminate for
  every decompressor: a round without output and without error has consumed input, and the
  consumed input is checked against the compressed size.
\<close>

section \<open>The header\<close>

record lfdb_header =
  lh_buf :: bytes
  lh_len :: usize
  lh_emitted :: usize

text \<open>The buffer has five octets; the ones beyond \<open>lh_len\<close> are zero and never emitted.\<close>

definition lfdb_header_new :: "usize \<Rightarrow> lfdb_header" where
  "lfdb_header_new content_len =
    (if content_len < 0x80 then
       \<lparr>lh_buf = [0xC4, of_nat content_len, 0, 0, 0], lh_len = 2, lh_emitted = 0\<rparr>
     else if content_len \<le> 0xFF then
       \<lparr>lh_buf = [0xC4, 0x81, of_nat content_len, 0, 0], lh_len = 3, lh_emitted = 0\<rparr>
     else if content_len \<le> 0xFFFF then
       \<lparr>lh_buf = [0xC4, 0x82, of_nat (content_len div 256), of_nat content_len, 0], lh_len = 4, lh_emitted = 0\<rparr>
     else
       \<lparr>lh_buf = [0xC4, 0x83, of_nat (content_len div 65536), of_nat (content_len div 256), of_nat content_len],
        lh_len = 5, lh_emitted = 0\<rparr>)"

definition header_remaining :: "lfdb_header \<Rightarrow> usize" where
  "header_remaining h = lh_len h - lh_emitted h"

definition header_emit :: "nat \<Rightarrow> lfdb_header \<Rightarrow> bytes \<times> lfdb_header" where
  "header_emit n h =
    (let from = lh_emitted h;
         k = min (header_remaining h) n in
     (take k (drop from (lh_buf h)), h\<lparr>lh_emitted := from + k\<rparr>))"

definition header_reset :: "lfdb_header \<Rightarrow> lfdb_header" where
  "header_reset h = h\<lparr>lh_emitted := 0\<rparr>"

section \<open>The reader\<close>

record comp_cursor =
  cu_in_pos :: usize
  cu_produced :: usize
  cu_emitted :: usize
  cu_done :: bool
  cu_started :: bool

definition cursor_new :: comp_cursor where
  "cursor_new = \<lparr>cu_in_pos = 0, cu_produced = 0, cu_emitted = 0, cu_done = False, cu_started = False\<rparr>"

record lfdb =
  lf_zip :: bytes
  lf_locs :: "comp_loc option list"
  lf_comp :: usize
  lf_cursor :: comp_cursor
  lf_header :: lfdb_header

definition locs_content_len :: "comp_loc option list \<Rightarrow> usize" where
  "locs_content_len locs = sum_list (map cl_uncomp_size (List.map_filter (\<lambda>l. l) locs))"

definition cap_lfdb :: "cap_file \<Rightarrow> lfdb" where
  "cap_lfdb cap = \<lparr>lf_zip = cf_zip cap, lf_locs = cf_locs cap, lf_comp = 0, lf_cursor = cursor_new,
     lf_header = lfdb_header_new (locs_content_len (cf_locs cap))\<rparr>"

definition lfdb_content_len :: "lfdb \<Rightarrow> usize" where
  "lfdb_content_len l = locs_content_len (lf_locs l)"

definition lfdb_len :: "lfdb \<Rightarrow> usize" where
  "lfdb_len l = lh_len (lf_header l) + lfdb_content_len l"

definition lfdb_is_empty :: "lfdb \<Rightarrow> bool" where
  "lfdb_is_empty l = (lfdb_content_len l = 0)"

definition lfdb_reset :: "lfdb \<Rightarrow> lfdb" where
  "lfdb_reset l = l\<lparr>lf_comp := 0, lf_cursor := cursor_new, lf_header := header_reset (lf_header l)\<rparr>"

definition current_loc :: "lfdb \<Rightarrow> comp_loc option" where
  "current_loc l = Option.bind (get_at (lf_locs l) (lf_comp l)) (\<lambda>x. x)"

definition advance :: "lfdb \<Rightarrow> lfdb" where
  "advance l = l\<lparr>lf_comp := lf_comp l + 1, lf_cursor := cursor_new\<rparr>"

definition component_exhausted :: "lfdb \<Rightarrow> comp_loc \<Rightarrow> bool" where
  "component_exhausted l loc = (cl_uncomp_size loc \<le> cu_emitted (lf_cursor l))"

text \<open>Octets \<open>a\<close> to \<open>a + n\<close> of a buffer that holds them, by index.\<close>

definition window_slice :: "bytes \<Rightarrow> usize \<Rightarrow> usize \<Rightarrow> bytes" where
  "window_slice w a n = map (\<lambda>i. w ! i) [a..<a + n]"

definition emit_stored :: "comp_loc \<Rightarrow> nat \<Rightarrow> lfdb \<Rightarrow> bytes \<times> lfdb" where
  "emit_stored loc n l =
    (let start = cl_data_off loc + cu_emitted (lf_cursor l);
         remaining = cl_uncomp_size loc - cu_emitted (lf_cursor l);
         k = min (min remaining n) (length (lf_zip l) - start) in
     (window_slice (lf_zip l) start k,
      l\<lparr>lf_cursor := lf_cursor l\<lparr>cu_emitted := cu_emitted (lf_cursor l) + k\<rparr>\<rparr>))"

text \<open>The inflating half works on the cursor and the inflate context.\<close>

definition pump ::
    "'d miniz \<Rightarrow> bytes \<Rightarrow> comp_loc \<Rightarrow> (comp_cursor \<times> 'd inflate_ctx, cap_error, unit) prog" where
  "pump M zp loc = (\<lambda>(cur, infl).
    (let comp_end = cl_data_off loc + cl_comp_size loc in
     if comp_end > length zp \<or> cl_data_off loc + cu_in_pos cur > comp_end then (Inl Inflate, (cur, infl))
     else
       let start = cl_data_off loc + cu_in_pos cur;
           input = take (comp_end - start) (drop start zp);
           ring_pos = cu_produced cur AND (INFLATE_WINDOW - 1) in
       case mz_decompress M (ic_state infl) input (ic_window infl) ring_pos False of
         ((status, in_consumed, out_written), d, win) \<Rightarrow>
           let infl = infl\<lparr>ic_state := d, ic_window := win\<rparr>;
               cur = cur\<lparr>cu_in_pos := cu_in_pos cur + in_consumed, cu_produced := cu_produced cur + out_written\<rparr> in
           if status = StDone then (Inr (), (cur\<lparr>cu_done := True\<rparr>, infl))
           else if status = StHasMoreOutput \<or> status = StNeedsMoreInput then
             if in_consumed = 0 \<and> out_written = 0 then (Inl Inflate, (cur, infl)) else (Inr (), (cur, infl))
           else (Inl Inflate, (cur, infl))))"

text \<open>The loop of \<open>emit_deflate\<close>, with \<open>w\<close> of the \<open>n\<close> octets of the buffer written (\<open>out\<close>).\<close>

function emit_deflate_loop ::
    "'d miniz \<Rightarrow> bytes \<Rightarrow> comp_loc \<Rightarrow> nat \<Rightarrow> nat \<Rightarrow> bytes \<Rightarrow> comp_cursor \<times> 'd inflate_ctx \<Rightarrow>
     (cap_error + bytes) \<times> (comp_cursor \<times> 'd inflate_ctx)" where
  "emit_deflate_loop M zp loc n w out (cur, infl) =
    (if w < n then
       let pending = cu_produced cur - cu_emitted cur in
       if pending = 0 then
         if cu_done cur then (Inr out, (cur, infl))
         else (case pump M zp loc (cur, infl) of
             (Inl e, s) \<Rightarrow> (Inl e, s)
           | (Inr u, (cur', infl')) \<Rightarrow>
               if cu_produced cur' = cu_emitted cur' \<and> cu_done cur' then (Inr out, (cur', infl'))
               else emit_deflate_loop M zp loc n w out (cur', infl'))
       else
         let mask = INFLATE_WINDOW - 1;
             start = cu_emitted cur AND mask;
             k = min (min pending (n - w)) (INFLATE_WINDOW - start) in
         emit_deflate_loop M zp loc n (w + k) (out @ window_slice (ic_window infl) start k)
           (cur\<lparr>cu_emitted := cu_emitted cur + k\<rparr>, infl)
     else (Inr out, (cur, infl)))"
  by pat_completeness auto

lemma ring_index: "n AND (INFLATE_WINDOW - 1) = n mod INFLATE_WINDOW"
proof -
  have "INFLATE_WINDOW - 1 = mask 15" by (simp add: limit_simps mask_eq_exp_minus_1)
  then have "n AND (INFLATE_WINDOW - 1) = take_bit 15 n" by (simp only: take_bit_eq_mask)
  then show ?thesis by (simp add: take_bit_eq_mod limit_simps)
qed

lemma ring_index_Suc: "n AND (INFLATE_WINDOW - Suc 0) = n mod INFLATE_WINDOW"
  using ring_index by simp

lemma ring_index_lt: "n AND (INFLATE_WINDOW - 1) < INFLATE_WINDOW"
  unfolding ring_index by (rule mod_less_divisor) (simp add: limit_simps)

lemma pump_Inr:
  assumes "pump M zp loc (cur, infl) = (Inr u, (cur', infl'))"
  shows "cu_emitted cur' = cu_emitted cur" "cu_produced cur \<le> cu_produced cur'" "cu_started cur' = cu_started cur"
    "cu_in_pos cur \<le> cl_comp_size loc" "cu_in_pos cur \<le> cu_in_pos cur'"
    "cu_done cur' \<or> cu_in_pos cur < cu_in_pos cur' \<or> cu_produced cur < cu_produced cur'"
  using assms by (auto simp: pump_def Let_def split: if_splits prod.splits)

text \<open>Each round writes output, or makes output pending, or finishes, or consumes input.\<close>

termination emit_deflate_loop
proof (relation "measures [\<lambda>(M, zp, loc, n, w, out, cur, infl). n - w,
    \<lambda>(M, zp, loc, n, w, out, cur, infl). if cu_produced cur - cu_emitted cur = 0 then 1 else 0,
    \<lambda>(M, zp, loc, n, w, out, cur, infl). if cu_done cur then 0 else 1,
    \<lambda>(M, zp, loc, n, w, out, cur, infl). cu_emitted cur - cu_produced cur,
    \<lambda>(M, zp, loc, n, w, out, cur, infl). cl_comp_size loc + 1 - cu_in_pos cur]", goal_cases)
  case (2 M zp loc n w out cur infl pending p s u cur' infl')
  then have "pump M zp loc (cur, infl) = (Inr u, (cur', infl'))" by simp
  note f = pump_Inr [OF this]
  from 2 have a: "cu_produced cur \<le> cu_emitted cur" "\<not> cu_done cur" by simp_all
  show ?case
  proof (cases "cu_emitted cur < cu_produced cur'")
    case True
    then show ?thesis using a f(1) by simp
  next
    case le: False
    show ?thesis
    proof (cases "cu_done cur'")
      case True
      then show ?thesis using a f(1) le by simp
    next
      case nd: False
      show ?thesis
      proof (cases "cu_produced cur < cu_produced cur'")
        case True
        then have "cu_emitted cur - cu_produced cur' < cu_emitted cur - cu_produced cur" using le by linarith
        then show ?thesis using a f(1) le nd by simp
      next
        case False
        then have "cu_produced cur' = cu_produced cur" "cu_in_pos cur < cu_in_pos cur'" using f(2,6) nd by simp_all
        then have "cl_comp_size loc + 1 - cu_in_pos cur' < cl_comp_size loc + 1 - cu_in_pos cur" using f(4) by linarith
        then show ?thesis using \<open>cu_produced cur' = cu_produced cur\<close> a f(1) nd by simp
      qed
    qed
  qed
next
  case (3 M zp loc n w out cur infl pending mask start k)
  have "start < INFLATE_WINDOW" unfolding 3(5,4) by (rule ring_index_lt)
  then have "0 < k" unfolding 3(6) using 3(1,3) by simp
  then have "n - (w + k) < n - w" using 3(1) by linarith
  then show ?case by simp
qed simp

declare emit_deflate_loop.simps [simp del]

definition emit_deflate ::
    "'d miniz \<Rightarrow> comp_loc \<Rightarrow> nat \<Rightarrow> (lfdb \<times> 'd inflate_ctx, cap_error, bytes) prog" where
  "emit_deflate M loc n = (\<lambda>(l, infl).
    (let (cur, infl) = (if \<not> cu_started (lf_cursor l) then ((lf_cursor l)\<lparr>cu_started := True\<rparr>, infl_reset M infl)
                        else (lf_cursor l, infl)) in
     case emit_deflate_loop M (lf_zip l) loc n 0 [] (cur, infl) of
       (r, (cur, infl)) \<Rightarrow> (r, (l\<lparr>lf_cursor := cur\<rparr>, infl))))"

text \<open>The loop of \<open>next_block\<close>, with \<open>out\<close> written of a buffer of \<open>n\<close> octets.\<close>

function next_block_loop ::
    "'d miniz \<Rightarrow> nat \<Rightarrow> bytes \<Rightarrow> lfdb \<times> 'd inflate_ctx \<Rightarrow> (cap_error + bytes) \<times> (lfdb \<times> 'd inflate_ctx)" where
  "next_block_loop M n out (l, infl) =
    (if length out < n then
       (case current_loc l of
          None \<Rightarrow>
            if lf_comp l \<ge> LFDB_COMPONENTS then (Inr out, (l, infl))
            else next_block_loop M n out (advance l, infl)
        | Some loc \<Rightarrow>
            (case (if cl_method loc = METHOD_DEFLATE then emit_deflate M loc (n - length out) (l, infl)
                   else (case emit_stored loc (n - length out) l of (bs, l') \<Rightarrow> (Inr bs, (l', infl)))) of
               (Inl e, s) \<Rightarrow> (Inl e, s)
             | (Inr bs, (l', infl')) \<Rightarrow>
                 if component_exhausted l' loc then next_block_loop M n (out @ bs) (advance l', infl')
                 else if bs = [] then (Inr (out @ bs), (l', infl'))
                 else next_block_loop M n (out @ bs) (l', infl')))
     else (Inr out, (l, infl)))"
  by pat_completeness auto

lemma advance_sel [simp]:
  "lf_comp (advance l) = lf_comp l + 1" "lf_locs (advance l) = lf_locs l" "lf_zip (advance l) = lf_zip l"
  "lf_cursor (advance l) = cursor_new" "lf_header (advance l) = lf_header l"
  by (simp_all add: advance_def)

lemma emit_keeps:
  "emit_stored loc n l = (bs, l') \<Longrightarrow> lf_comp l' = lf_comp l \<and> lf_locs l' = lf_locs l"
  "emit_deflate M loc n (l, infl) = (r, (l', infl')) \<Longrightarrow> lf_comp l' = lf_comp l \<and> lf_locs l' = lf_locs l"
  by (auto simp: emit_stored_def emit_deflate_def Let_def split: prod.splits if_splits)

termination next_block_loop
proof (relation "measures [\<lambda>(M, n, out, l, infl). length (lf_locs l) + LFDB_COMPONENTS + 1 - lf_comp l,
    \<lambda>(M, n, out, l, infl). n - length out]", goal_cases)
  case (2 M n out l infl)
  then show ?case by (auto simp: current_loc_def)
next
  case (3 M n out l infl loc r s bs l' infl')
  then have "lf_comp l' = lf_comp l \<and> lf_locs l' = lf_locs l"
    by (auto dest: emit_keeps emit_keeps [OF sym] split: if_splits prod.splits)
  moreover have "lf_comp l < length (lf_locs l)" using 3(2) by (auto simp: current_loc_def split: Option.bind_splits)
  ultimately show ?case by auto
next
  case (4 M n out l infl loc r s bs l' infl')
  then have "lf_comp l' = lf_comp l \<and> lf_locs l' = lf_locs l"
    by (auto dest: emit_keeps emit_keeps [OF sym] split: if_splits prod.splits)
  moreover have "0 < length bs" using 4 by simp
  ultimately show ?case using 4(1) by (simp del: length_greater_0_conv)
qed simp

declare next_block_loop.simps [simp del]

definition next_block :: "'d miniz \<Rightarrow> nat \<Rightarrow> (lfdb \<times> 'd inflate_ctx, cap_error, bytes) prog" where
  "next_block M n = (\<lambda>(l, infl).
    (if header_remaining (lf_header l) > 0 then
       (case header_emit n (lf_header l) of
          (bs, h) \<Rightarrow> next_block_loop M n bs (l\<lparr>lf_header := h\<rparr>, infl))
     else next_block_loop M n [] (l, infl)))"

section \<open>What the reader delivers\<close>

text \<open>The documented behaviour of the decompressor. In the wrapping mode the window keeps the last
  \<open>INFLATE_WINDOW\<close> octets of the output, which the compressed data may refer back to. While the
  window is left as it was, each call appends at most a window of output at the ring position and
  consumes input; it makes progress unless it reports that the content is complete.\<close>

definition window_holds :: "bytes \<Rightarrow> bytes \<Rightarrow> usize \<Rightarrow> bool" where
  "window_holds win content p \<longleftrightarrow>
     (\<forall>j. j < p \<and> p \<le> j + INFLATE_WINDOW \<longrightarrow> win ! (j mod INFLATE_WINDOW) = content ! j)"

coinductive inflating :: "'d miniz \<Rightarrow> bytes \<Rightarrow> bytes \<Rightarrow> 'd \<Rightarrow> usize \<Rightarrow> usize \<Rightarrow> bool"
  for M :: "'d miniz" and input content :: bytes where
  inflating_step: "i \<le> length input \<Longrightarrow> p \<le> length content \<Longrightarrow>
    (\<And>win st ic ow d' win'. length win = INFLATE_WINDOW \<Longrightarrow> window_holds win content p \<Longrightarrow>
       mz_decompress M d (drop i input) win (p mod INFLATE_WINDOW) False = ((st, ic, ow), d', win') \<Longrightarrow>
       i + ic \<le> length input \<and> p + ow \<le> length content \<and> ow \<le> INFLATE_WINDOW
       \<and> length win' = INFLATE_WINDOW \<and> window_holds win' content (p + ow)
       \<and> (st = StDone \<and> p + ow = length content
          \<or> (st = StHasMoreOutput \<or> st = StNeedsMoreInput) \<and> 0 < ic + ow \<and> inflating M input content d' (i + ic) (p + ow)))
    \<Longrightarrow> inflating M input content d i p"

inductive_cases inflatingE: "inflating M input content d i p"

definition inflates :: "'d miniz \<Rightarrow> bytes \<Rightarrow> bytes \<Rightarrow> bool" where
  "inflates M input content = inflating M input content (mz_new M) 0 0"

text \<open>The content of a located component: a slice of the file, or what its compressed data inflates
  to, of the declared size.\<close>

definition comp_input :: "bytes \<Rightarrow> comp_loc \<Rightarrow> bytes" where
  "comp_input z loc = take (cl_comp_size loc) (drop (cl_data_off loc) z)"

definition comp_content :: "'d miniz \<Rightarrow> bytes \<Rightarrow> comp_loc \<Rightarrow> bytes \<Rightarrow> bool" where
  "comp_content M z loc c \<longleftrightarrow> length c = cl_uncomp_size loc
     \<and> (if cl_method loc = METHOD_DEFLATE
        then cl_data_off loc + cl_comp_size loc \<le> length z \<and> inflates M (comp_input z loc) c
        else cl_data_off loc + cl_uncomp_size loc \<le> length z
          \<and> c = take (cl_uncomp_size loc) (drop (cl_data_off loc) z))"

text \<open>The invariant of the inflating cursor.\<close>

definition deflate_ok :: "'d miniz \<Rightarrow> bytes \<Rightarrow> bytes \<Rightarrow> comp_cursor \<Rightarrow> 'd inflate_ctx \<Rightarrow> bool" where
  "deflate_ok M input c cur infl \<longleftrightarrow>
     cu_emitted cur \<le> cu_produced cur \<and> cu_produced cur \<le> length c \<and> cu_produced cur \<le> cu_emitted cur + INFLATE_WINDOW
     \<and> length (ic_window infl) = INFLATE_WINDOW \<and> window_holds (ic_window infl) c (cu_produced cur)
     \<and> (if cu_done cur then cu_produced cur = length c
        else inflating M input c (ic_state infl) (cu_in_pos cur) (cu_produced cur))"

lemma inflatingD:
  assumes "inflating M input c d i p" "length win = INFLATE_WINDOW" "window_holds win c p"
    "mz_decompress M d (drop i input) win (p mod INFLATE_WINDOW) False = ((st, ic, ow), d', win')"
  shows "i + ic \<le> length input \<and> p + ow \<le> length c \<and> ow \<le> INFLATE_WINDOW \<and> length win' = INFLATE_WINDOW
    \<and> window_holds win' c (p + ow)
    \<and> (st = StDone \<and> p + ow = length c
       \<or> (st = StHasMoreOutput \<or> st = StNeedsMoreInput) \<and> 0 < ic + ow \<and> inflating M input c d' (i + ic) (p + ow))"
  using assms(1)
proof (cases rule: inflating.cases)
  case inflating_step
  from inflating_step(3) [OF assms(2-4)] show ?thesis .
qed

lemma inflating_le: "inflating M input c d i p \<Longrightarrow> i \<le> length input"
  by (erule inflatingE) simp

lemma pump_ok:
  assumes ok: "deflate_ok M (comp_input z loc) c cur infl" "\<not> cu_done cur" "cu_produced cur = cu_emitted cur"
    and z: "cl_data_off loc + cl_comp_size loc \<le> length z"
  shows "\<exists>cur' infl'. pump M z loc (cur, infl) = (Inr (), (cur', infl')) \<and> deflate_ok M (comp_input z loc) c cur' infl'
    \<and> cu_emitted cur' = cu_emitted cur \<and> cu_started cur' = cu_started cur"
proof -
  let ?in = "comp_input z loc" let ?i = "cu_in_pos cur" let ?p = "cu_produced cur"
  have infl: "inflating M ?in c (ic_state infl) ?i ?p" and win: "length (ic_window infl) = INFLATE_WINDOW"
    "window_holds (ic_window infl) c ?p" using ok by (simp_all add: deflate_ok_def)
  have len: "length ?in = cl_comp_size loc" using z by (simp add: comp_input_def)
  have i: "?i \<le> cl_comp_size loc" using inflating_le [OF infl] len by simp
  have input: "take (cl_comp_size loc - ?i) (drop (cl_data_off loc + ?i) z) = drop ?i ?in"
    by (simp add: comp_input_def drop_take add.commute)
  obtain st ic ow d' win' where m: "mz_decompress M (ic_state infl) (drop ?i ?in) (ic_window infl) (?p mod INFLATE_WINDOW) False
      = ((st, ic, ow), d', win')" by (metis prod_cases3)
  note s = inflatingD [OF infl win m]
  let ?cur = "cur\<lparr>cu_in_pos := ?i + ic, cu_produced := ?p + ow\<rparr>" let ?infl = "infl\<lparr>ic_state := d', ic_window := win'\<rparr>"
  have "pump M z loc (cur, infl) = (Inr (), (if st = StDone then ?cur\<lparr>cu_done := True\<rparr> else ?cur, ?infl))"
    using s z i by (auto simp: pump_def Let_def ring_index_Suc input m)
  moreover have "deflate_ok M ?in c (if st = StDone then ?cur\<lparr>cu_done := True\<rparr> else ?cur) ?infl"
    using s ok by (auto simp: deflate_ok_def)
  ultimately show ?thesis by auto
qed

lemma window_slice_eq:
  assumes "window_holds win c p" "p \<le> length c" "e + k \<le> p" "p \<le> e + INFLATE_WINDOW"
    "e mod INFLATE_WINDOW + k \<le> INFLATE_WINDOW"
  shows "window_slice win (e mod INFLATE_WINDOW) k = take k (drop e c)"
proof (rule nth_equalityI)
  show "length (window_slice win (e mod INFLATE_WINDOW) k) = length (take k (drop e c))"
    using assms by (simp add: window_slice_def)
next
  fix j assume "j < length (window_slice win (e mod INFLATE_WINDOW) k)"
  then have j: "j < k" by (simp add: window_slice_def)
  have "(e + j) mod INFLATE_WINDOW = e mod INFLATE_WINDOW + j"
    using j assms(5) by (metis add_less_cancel_left less_le_trans mod_add_left_eq mod_less)
  then have "win ! (e mod INFLATE_WINDOW + j) = c ! (e + j)"
    using assms(1) [unfolded window_holds_def, rule_format, of "e + j"] assms(2-4) j by simp
  then show "window_slice win (e mod INFLATE_WINDOW) k ! j = take k (drop e c) ! j"
    using j assms by (simp add: window_slice_def)
qed

lemma emit_deflate_loop_ok:
  assumes "deflate_ok M (comp_input z loc) c cur infl" "cl_data_off loc + cl_comp_size loc \<le> length z" "w \<le> n"
  shows "\<exists>cur' infl'. emit_deflate_loop M z loc n w out (cur, infl)
      = (Inr (out @ take (n - w) (drop (cu_emitted cur) c)), (cur', infl'))
    \<and> deflate_ok M (comp_input z loc) c cur' infl' \<and> cu_emitted cur' = min (length c) (cu_emitted cur + (n - w))
    \<and> cu_started cur' = cu_started cur"
  using assms
proof (induction M z loc n w out "(cur, infl)" arbitrary: cur infl rule: emit_deflate_loop.induct)
  case (1 M z loc n w out cur infl)
  note ok = 1(3) and z = 1(4) and wn = 1(5)
  have e: "cu_emitted cur \<le> cu_produced cur" "cu_produced cur \<le> length c"
    "cu_produced cur \<le> cu_emitted cur + INFLATE_WINDOW" using ok by (simp_all add: deflate_ok_def)
  show ?case
  proof (cases "w < n")
    case False
    then show ?thesis using ok wn e by (subst emit_deflate_loop.simps) auto
  next
    case w: True
    show ?thesis
    proof (cases "cu_produced cur - cu_emitted cur = 0")
      case p0: True
      then have pe: "cu_produced cur = cu_emitted cur" using e by simp
      show ?thesis
      proof (cases "cu_done cur")
        case True
        then have "cu_emitted cur = length c" using ok pe by (simp add: deflate_ok_def)
        then show ?thesis using True w p0 ok by (subst emit_deflate_loop.simps) auto
      next
        case nd: False
        from pump_ok [OF ok nd pe z] obtain cur' infl' where p: "pump M z loc (cur, infl) = (Inr (), (cur', infl'))"
          and ok': "deflate_ok M (comp_input z loc) c cur' infl'" and s: "cu_emitted cur' = cu_emitted cur"
            "cu_started cur' = cu_started cur" by blast
        show ?thesis
        proof (cases "cu_produced cur' = cu_emitted cur' \<and> cu_done cur'")
          case True
          then have "cu_emitted cur = length c" using ok' s by (simp add: deflate_ok_def)
          then show ?thesis using True w p0 nd p ok' s by (subst emit_deflate_loop.simps) auto
        next
          case False
          from 1(1) [OF w refl p0 nd p [symmetric] refl refl False ok' z wn]
          show ?thesis using w p0 nd p False s by (subst emit_deflate_loop.simps) auto
        qed
      qed
    next
      case pend: False
      define e0 where "e0 = cu_emitted cur"
      define start where "start = e0 mod INFLATE_WINDOW"
      define k where "k = min (min (cu_produced cur - e0) (n - w)) (INFLATE_WINDOW - start)"
      define cur1 where "cur1 = cur\<lparr>cu_emitted := e0 + k\<rparr>"
      have start: "start < INFLATE_WINDOW" unfolding start_def by (rule mod_less_divisor) (simp add: limit_simps)
      have k: "e0 + k \<le> cu_produced cur" "w + k \<le> n" "start + k \<le> INFLATE_WINDOW"
        using e start w pend by (auto simp: k_def e0_def)
      have sl: "window_slice (ic_window infl) start k = take k (drop e0 c)"
        unfolding start_def by (rule window_slice_eq [of _ _ "cu_produced cur"])
          (use ok e k in \<open>auto simp: deflate_ok_def e0_def start_def\<close>)
      have ok1: "deflate_ok M (comp_input z loc) c cur1 infl"
        using ok k(1) by (auto simp: deflate_ok_def cur1_def e0_def)
      have step: "emit_deflate_loop M z loc n w out (cur, infl) =
          emit_deflate_loop M z loc n (w + k) (out @ take k (drop e0 c)) (cur1, infl)"
        unfolding sl [symmetric]
        by (subst emit_deflate_loop.simps)
          (simp only: w pend if_True if_False Let_def ring_index k_def start_def e0_def cur1_def)
      have "\<exists>cur' infl'. emit_deflate_loop M z loc n (w + k) (out @ take k (drop e0 c)) (cur1, infl)
          = (Inr ((out @ take k (drop e0 c)) @ take (n - (w + k)) (drop (cu_emitted cur1) c)), (cur', infl'))
        \<and> deflate_ok M (comp_input z loc) c cur' infl' \<and> cu_emitted cur' = min (length c) (cu_emitted cur1 + (n - (w + k)))
        \<and> cu_started cur' = cu_started cur1"
        using 1(2) [OF w refl pend refl refl refl, unfolded ring_index, folded e0_def, folded start_def, folded k_def,
            folded cur1_def, OF ok1 z k(2)] unfolding sl .
      moreover have "take k (drop e0 c) @ take (n - (w + k)) (drop (e0 + k) c) = take (n - w) (drop e0 c)"
        using k(2) by (metis add_diff_cancel_left' diff_diff_left drop_drop add.commute le_add_diff_inverse2 take_add le_diff_conv2 le_add_diff_inverse Nat.add_diff_assoc)
      ultimately show ?thesis unfolding step using k(2) by (auto simp: cur1_def e0_def)
    qed
  qed
qed

text \<open>The contents of the eleven components of a file, in the order of the Load File Data Block; an
  absent component contributes nothing.\<close>

definition cap_contents :: "'d miniz \<Rightarrow> bytes \<Rightarrow> comp_loc option list \<Rightarrow> bytes list \<Rightarrow> bool" where
  "cap_contents M z locs cs \<longleftrightarrow> length locs = LFDB_COMPONENTS \<and> length cs = LFDB_COMPONENTS
     \<and> (\<forall>i < LFDB_COMPONENTS. case locs ! i of None \<Rightarrow> cs ! i = [] | Some loc \<Rightarrow> comp_content M z loc (cs ! i))"

text \<open>The reader's invariant, and the octets it has still to deliver.\<close>

definition lfdb_ok :: "'d miniz \<Rightarrow> bytes list \<Rightarrow> lfdb \<Rightarrow> 'd inflate_ctx \<Rightarrow> bool" where
  "lfdb_ok M cs l infl \<longleftrightarrow> cap_contents M (lf_zip l) (lf_locs l) cs \<and> length (ic_window infl) = INFLATE_WINDOW
     \<and> lf_comp l \<le> LFDB_COMPONENTS \<and> lh_emitted (lf_header l) \<le> lh_len (lf_header l)
     \<and> lh_len (lf_header l) \<le> length (lh_buf (lf_header l))
     \<and> (case current_loc l of
          None \<Rightarrow> lf_cursor l = cursor_new
        | Some loc \<Rightarrow> cu_emitted (lf_cursor l) \<le> length (cs ! lf_comp l)
            \<and> (if cl_method loc = METHOD_DEFLATE then
                 if cu_started (lf_cursor l)
                 then deflate_ok M (comp_input (lf_zip l) loc) (cs ! lf_comp l) (lf_cursor l) infl
                 else lf_cursor l = cursor_new
               else True))"

definition header_rest :: "lfdb_header \<Rightarrow> bytes" where
  "header_rest h = drop (lh_emitted h) (take (lh_len h) (lh_buf h))"

definition body_rest :: "bytes list \<Rightarrow> lfdb \<Rightarrow> bytes" where
  "body_rest cs l = drop (cu_emitted (lf_cursor l)) (concat (drop (lf_comp l) cs))"

definition lfdb_rest :: "bytes list \<Rightarrow> lfdb \<Rightarrow> bytes" where
  "lfdb_rest cs l = header_rest (lf_header l) @ body_rest cs l"

lemma current_loc_Some: "current_loc l = Some loc \<longleftrightarrow> lf_comp l < length (lf_locs l) \<and> lf_locs l ! lf_comp l = Some loc"
  by (auto simp: current_loc_def split: Option.bind_splits)

lemma cursor_new_sel [simp]:
  "cu_emitted cursor_new = 0" "cu_produced cursor_new = 0" "cu_in_pos cursor_new = 0" "\<not> cu_done cursor_new"
  "\<not> cu_started cursor_new"
  by (simp_all add: cursor_new_def)

lemma deflate_ok_start:
  assumes "comp_content M z loc c" "cl_method loc = METHOD_DEFLATE" "length (ic_window infl) = INFLATE_WINDOW"
  shows "deflate_ok M (comp_input z loc) c (cursor_new\<lparr>cu_started := True\<rparr>) (infl_reset M infl)"
  using assms by (simp add: deflate_ok_def comp_content_def inflates_def infl_reset_def window_holds_def)

text \<open>One component, either way: the next octets of its content, up to the room in the buffer.\<close>

lemma emit_component:
  assumes ok: "lfdb_ok M cs l infl" and loc: "current_loc l = Some loc"
  defines "e \<equiv> cu_emitted (lf_cursor l)" and "c \<equiv> cs ! lf_comp l"
  shows "\<exists>cur infl'. (if cl_method loc = METHOD_DEFLATE then emit_deflate M loc n (l, infl)
           else (case emit_stored loc n l of (bs, l') \<Rightarrow> (Inr bs, (l', infl))))
         = (Inr (take n (drop e c)), (l\<lparr>lf_cursor := cur\<rparr>, infl'))
       \<and> cu_emitted cur = min (length c) (e + n) \<and> lfdb_ok M cs (l\<lparr>lf_cursor := cur\<rparr>) infl'"
proof -
  from loc have cl: "lf_comp l < length (lf_locs l)" "lf_locs l ! lf_comp l = Some loc" by (simp_all add: current_loc_Some)
  have cc: "cap_contents M (lf_zip l) (lf_locs l) cs" using ok by (simp add: lfdb_ok_def)
  then have c: "comp_content M (lf_zip l) loc c" using cl by (auto simp: cap_contents_def c_def)
  have el: "e \<le> length c" using ok loc by (simp add: lfdb_ok_def e_def c_def)
  have cur: "current_loc (l\<lparr>lf_cursor := x\<rparr>) = Some loc" for x using loc by (simp add: current_loc_def)
  show ?thesis
  proof (cases "cl_method loc = METHOD_DEFLATE")
    case False
    let ?k = "min (min (cl_uncomp_size loc - e) n) (length (lf_zip l) - (cl_data_off loc + e))"
    let ?cur = "(lf_cursor l)\<lparr>cu_emitted := e + ?k\<rparr>"
    have b: "length c = cl_uncomp_size loc" "cl_data_off loc + cl_uncomp_size loc \<le> length (lf_zip l)"
      "c = take (cl_uncomp_size loc) (drop (cl_data_off loc) (lf_zip l))"
      using c False unfolding comp_content_def by argo+
    have k: "?k = min (length c - e) n" using b el by auto
    have "window_slice (lf_zip l) (cl_data_off loc + e) ?k = take n (drop e c)"
      unfolding k using b(1,2) el
      by (intro nth_equalityI) (auto simp: window_slice_def b(3) add.assoc)
    then have "emit_stored loc n l = (take n (drop e c), l\<lparr>lf_cursor := ?cur\<rparr>)"
      by (simp add: emit_stored_def Let_def e_def)
    moreover have "e + ?k = min (length c) (e + n)" unfolding k using el by simp
    moreover have "lfdb_ok M cs (l\<lparr>lf_cursor := ?cur\<rparr>) infl"
      using ok loc False el unfolding k lfdb_ok_def cur by (auto simp: c_def)
    ultimately show ?thesis using False by (intro exI [of _ ?cur] exI [of _ infl]) simp
  next
    case True
    define st where "st = (if \<not> cu_started (lf_cursor l) then ((lf_cursor l)\<lparr>cu_started := True\<rparr>, infl_reset M infl)
                        else (lf_cursor l, infl))"
    obtain cur0 infl0 where s0: "st = (cur0, infl0)" by (cases st)
    have win: "length (ic_window infl) = INFLATE_WINDOW" using ok by (simp add: lfdb_ok_def)
    have ok0: "deflate_ok M (comp_input (lf_zip l) loc) c cur0 infl0" "cu_emitted cur0 = e" "cu_started cur0"
      using s0 ok loc True deflate_ok_start [OF c True win]
      by (auto simp: st_def lfdb_ok_def c_def e_def split: if_splits)
    have z: "cl_data_off loc + cl_comp_size loc \<le> length (lf_zip l)" using c True by (simp add: comp_content_def)
    from emit_deflate_loop_ok [OF ok0(1) z, of 0 n "[]"] obtain cur' infl' where
      r: "emit_deflate_loop M (lf_zip l) loc n 0 [] (cur0, infl0) = (Inr (take n (drop e c)), (cur', infl'))"
        "deflate_ok M (comp_input (lf_zip l) loc) c cur' infl'" "cu_emitted cur' = min (length c) (e + n)" "cu_started cur'"
      using ok0 by auto
    have "emit_deflate M loc n (l, infl) = (Inr (take n (drop e c)), (l\<lparr>lf_cursor := cur'\<rparr>, infl'))"
      using s0 r(1) by (simp add: emit_deflate_def st_def [symmetric])
    moreover have "lfdb_ok M cs (l\<lparr>lf_cursor := cur'\<rparr>) infl'"
      using ok loc True r unfolding lfdb_ok_def cur by (auto simp: c_def deflate_ok_def)
    ultimately show ?thesis using True r(3) by (intro exI [of _ cur'] exI [of _ infl']) simp
  qed
qed

lemma lfdb_ok_advance:
  assumes "lfdb_ok M cs l infl" "lf_comp l < LFDB_COMPONENTS"
  shows "lfdb_ok M cs (advance l) infl"
  using assms by (auto simp: lfdb_ok_def current_loc_Some split: option.splits)

lemma body_rest_Cons:
  "lf_comp l < length cs \<Longrightarrow> cu_emitted (lf_cursor l) \<le> length (cs ! lf_comp l) \<Longrightarrow>
     body_rest cs l = drop (cu_emitted (lf_cursor l)) (cs ! lf_comp l) @ body_rest cs (advance l)"
  by (simp add: body_rest_def Cons_nth_drop_Suc [symmetric])

lemma next_block_loop_ok:
  assumes "lfdb_ok M cs l infl" "length out \<le> n"
  shows "\<exists>l' infl'. next_block_loop M n out (l, infl) = (Inr (out @ take (n - length out) (body_rest cs l)), (l', infl'))
    \<and> lfdb_ok M cs l' infl' \<and> body_rest cs l' = drop (n - length out) (body_rest cs l) \<and> lf_header l' = lf_header l"
  using assms
proof (induction M n out "(l, infl)" arbitrary: l infl rule: next_block_loop.induct)
  case (1 M n out l infl)
  note ok = 1(4) and len = 1(5)
  have L: "length (lf_locs l) = LFDB_COMPONENTS" "length cs = LFDB_COMPONENTS" "lf_comp l \<le> LFDB_COMPONENTS"
    using ok by (simp_all add: lfdb_ok_def cap_contents_def)
  show ?case
  proof (cases "length out < n")
    case False
    then show ?thesis using ok len by (subst next_block_loop.simps) auto
  next
    case room: True
    show ?thesis
    proof (cases "current_loc l")
      case None
      show ?thesis
      proof (cases "LFDB_COMPONENTS \<le> lf_comp l")
        case True
        then have "body_rest cs l = []" using L by (simp add: body_rest_def)
        then show ?thesis using room None True ok by (subst next_block_loop.simps) auto
      next
        case False
        then have lt: "lf_comp l < LFDB_COMPONENTS" by simp
        then have "lf_locs l ! lf_comp l = None" using None L by (auto simp: current_loc_def split: Option.bind_splits)
        then have "cs ! lf_comp l = []" using ok lt by (auto simp: lfdb_ok_def cap_contents_def)
        moreover have "lf_cursor l = cursor_new" using ok None by (simp add: lfdb_ok_def)
        ultimately have "body_rest cs l = body_rest cs (advance l)" using body_rest_Cons [of l cs] lt L by simp
        then show ?thesis using 1(1) [OF room None False lfdb_ok_advance [OF ok lt] len] room None False
          by (subst next_block_loop.simps) auto
      qed
    next
      case (Some loc)
      let ?m = "n - length out" let ?e = "cu_emitted (lf_cursor l)" let ?c = "cs ! lf_comp l"
      have lt: "lf_comp l < LFDB_COMPONENTS" using Some L by (simp add: current_loc_Some)
      have el: "?e \<le> length ?c" using ok Some by (simp add: lfdb_ok_def)
      have uc: "length ?c = cl_uncomp_size loc"
        using ok Some lt by (auto simp: lfdb_ok_def cap_contents_def current_loc_Some comp_content_def)
      from emit_component [OF ok Some, of ?m] obtain cur infl1 where
        em: "(if cl_method loc = METHOD_DEFLATE then emit_deflate M loc ?m (l, infl)
           else (case emit_stored loc ?m l of (bs, l') \<Rightarrow> (Inr bs, (l', infl))))
         = (Inr (take ?m (drop ?e ?c)), (l\<lparr>lf_cursor := cur\<rparr>, infl1))"
        and ce: "cu_emitted cur = min (length ?c) (?e + ?m)" and ok1: "lfdb_ok M cs (l\<lparr>lf_cursor := cur\<rparr>) infl1" by blast
      let ?l1 = "l\<lparr>lf_cursor := cur\<rparr>" let ?bs = "take ?m (drop ?e ?c)"
      have adv: "advance ?l1 = advance l" by (simp add: advance_def)
      have split: "body_rest cs l = drop ?e ?c @ body_rest cs (advance l)" using body_rest_Cons [of l cs] lt L el by simp
      have split1: "body_rest cs ?l1 = drop (cu_emitted cur) ?c @ body_rest cs (advance l)"
        using body_rest_Cons [of ?l1 cs] lt L ce by (simp add: adv)
      have lb: "length (out @ ?bs) \<le> n" using room by auto
      show ?thesis
      proof (cases "component_exhausted ?l1 loc")
        case ex: True
        then have full: "length ?c \<le> ?e + ?m" using ce uc by (simp add: component_exhausted_def)
        then have bs: "?bs = drop ?e ?c" by simp
        have ok2: "lfdb_ok M cs (advance ?l1) infl1" by (rule lfdb_ok_advance [OF ok1]) (use lt in simp)
        from 1(2) [OF room Some em [symmetric] refl refl ex ok2 lb]
        obtain l2 infl2 where r: "next_block_loop M n (out @ ?bs) (advance l, infl1)
              = (Inr ((out @ ?bs) @ take (n - length (out @ ?bs)) (body_rest cs (advance l))), (l2, infl2))"
            "lfdb_ok M cs l2 infl2" "body_rest cs l2 = drop (n - length (out @ ?bs)) (body_rest cs (advance l))"
            "lf_header l2 = lf_header l" unfolding adv by auto
        have "take ?m (body_rest cs l) = ?bs @ take (n - length (out @ ?bs)) (body_rest cs (advance l))"
          "drop ?m (body_rest cs l) = drop (n - length (out @ ?bs)) (body_rest cs (advance l))"
          unfolding split bs using full by simp_all
        moreover have "next_block_loop M n out (l, infl) = next_block_loop M n (out @ ?bs) (advance l, infl1)"
          by (subst next_block_loop.simps) (simp only: room Some em if_True ex adv option.case prod.case sum.case)
        ultimately show ?thesis using r by auto
      next
        case nex: False
        then have part: "?e + ?m < length ?c" "cu_emitted cur = ?e + ?m" using ce uc by (auto simp: component_exhausted_def)
        then have ne: "?bs \<noteq> []" and lbs: "length ?bs = ?m" using room by auto
        from 1(3) [OF room Some em [symmetric] refl refl nex ne ok1 lb]
        obtain l2 infl2 where r: "next_block_loop M n (out @ ?bs) (?l1, infl1) = (Inr (out @ ?bs), (l2, infl2))"
            "lfdb_ok M cs l2 infl2" "body_rest cs l2 = body_rest cs ?l1" "lf_header l2 = lf_header l"
          using lbs room by auto
        have "take ?m (body_rest cs l) = ?bs" "drop ?m (body_rest cs l) = body_rest cs ?l1"
          unfolding split split1 using part by (simp_all add: add.commute)
        moreover have "next_block_loop M n out (l, infl) = next_block_loop M n (out @ ?bs) (?l1, infl1)"
          by (subst next_block_loop.simps) (simp only: room Some em if_True if_False nex ne option.case prod.case sum.case)
        ultimately show ?thesis using r by auto
      qed
    qed
  qed
qed

text \<open>The header is the tag and the BER length of the content, shorter than 16 MiB.\<close>

lemma be_bytes_ne: "0 < k \<Longrightarrow> be_bytes k n \<noteq> []"
  by (metis length_be_bytes less_numeral_extra(3) list.size(3))

lemma lfdb_header_rest:
  assumes "n < 2 ^ 24"
  shows "\<exists>len. header_rest (lfdb_header_new n) = 0xC4 # len \<and> ber_len len = Some n \<and> length len + 1 = lh_len (lfdb_header_new n)"
proof -
  have "n < 16777216" using assms by simp
  then consider "n < 128" | "128 \<le> n" "n < 256" | "256 \<le> n" "n < 65536" | "65536 \<le> n" "n < 16777216"
    by linarith
  then show ?thesis
  proof cases
    case 1
    then show ?thesis by (simp add: header_rest_def lfdb_header_new_def unat_of_nat)
  next
    case 2
    then have "header_rest (lfdb_header_new n) = 0xC4 # 0x81 # be_bytes 1 n" by (simp add: header_rest_def lfdb_header_new_def)
    moreover have "from_be (be_bytes 1 n) = n" "be_bytes 1 n \<noteq> []" using be_bytes_ne [of 1 n] 2 from_be_be_bytes [of 1 n] by (simp_all del: be_bytes.simps)
    moreover have "lh_len (lfdb_header_new n) = 3" using 2 by (simp add: lfdb_header_new_def)
    ultimately show ?thesis by (simp add: del: be_bytes.simps)
  next
    case 3
    then have "header_rest (lfdb_header_new n) = 0xC4 # 0x82 # be_bytes 2 n"
      by (simp add: header_rest_def lfdb_header_new_def numeral_2_eq_2)
    moreover have "from_be (be_bytes 2 n) = n" "be_bytes 2 n \<noteq> []" using be_bytes_ne [of 2 n] 3 from_be_be_bytes [of 2 n] by (simp_all del: be_bytes.simps)
    moreover have "lh_len (lfdb_header_new n) = 4" using 3 by (simp add: lfdb_header_new_def)
    ultimately show ?thesis by (simp add: del: be_bytes.simps)
  next
    case 4
    then have "header_rest (lfdb_header_new n) = 0xC4 # 0x83 # be_bytes 3 n"
      by (simp add: header_rest_def lfdb_header_new_def numeral_3_eq_3 div_mult2_eq [symmetric])
    moreover have "from_be (be_bytes 3 n) = n" "be_bytes 3 n \<noteq> []" using be_bytes_ne [of 3 n] 4 from_be_be_bytes [of 3 n] by (simp_all del: be_bytes.simps)
    moreover have "lh_len (lfdb_header_new n) = 5" using 4 by (simp add: lfdb_header_new_def)
    ultimately show ?thesis by (simp add: del: be_bytes.simps)
  qed
qed

lemma lfdb_header_new_wf:
  "lh_emitted (lfdb_header_new n) = 0" "lh_len (lfdb_header_new n) \<le> length (lh_buf (lfdb_header_new n))"
  by (simp_all add: lfdb_header_new_def)

lemma header_emit_ok:
  assumes "lh_emitted h \<le> lh_len h" "lh_len h \<le> length (lh_buf h)" "header_emit n h = (bs, h')"
  shows "bs = take n (header_rest h)" "header_rest h' = drop n (header_rest h)"
    "lh_emitted h' \<le> lh_len h'" "lh_len h' \<le> length (lh_buf h')"
  using assms by (auto simp: header_emit_def Let_def header_remaining_def header_rest_def drop_take min_def add.commute)

text \<open>The content length the header announces is the length of the contents.\<close>

lemma contents_length:
  assumes "cap_contents M z locs cs"
  shows "locs_content_len locs = length (concat cs)"
proof -
  have len: "length locs = length cs" using assms by (simp add: cap_contents_def)
  have "list_all2 (\<lambda>l c. length c = (case l of None \<Rightarrow> 0 | Some loc \<Rightarrow> cl_uncomp_size loc)) locs cs"
    using assms unfolding list_all2_conv_all_nth by (auto simp: cap_contents_def comp_content_def split: option.splits)
  then show ?thesis unfolding locs_content_len_def
    by (induction rule: list_all2_induct) (auto simp: map_filter_simps split: option.splits)
qed

lemma lfdb_start:
  assumes c: "cap_contents M (cf_zip cap) (cf_locs cap) cs" and w: "length (ic_window infl) = INFLATE_WINDOW"
  shows "lfdb_ok M cs (cap_lfdb cap) infl"
    "lfdb_rest cs (cap_lfdb cap) = header_rest (lfdb_header_new (length (concat cs))) @ concat cs"
    "lfdb_len (cap_lfdb cap) = length (lfdb_rest cs (cap_lfdb cap))"
proof -
  let ?h = "lfdb_header_new (length (concat cs))"
  have h: "lf_header (cap_lfdb cap) = ?h" by (simp add: cap_lfdb_def contents_length [OF c])
  show "lfdb_ok M cs (cap_lfdb cap) infl"
    using c w lfdb_header_new_wf by (simp add: lfdb_ok_def cap_lfdb_def LFDB_COMPONENTS_def split: option.splits)
  show r: "lfdb_rest cs (cap_lfdb cap) = header_rest ?h @ concat cs"
    by (simp add: lfdb_rest_def h) (simp add: body_rest_def cap_lfdb_def)
  show "lfdb_len (cap_lfdb cap) = length (lfdb_rest cs (cap_lfdb cap))"
    unfolding r using lfdb_header_new_wf [of "length (concat cs)"] contents_length [OF c]
    by (simp add: lfdb_len_def h lfdb_content_len_def header_rest_def) (simp add: cap_lfdb_def)
qed

lemma next_block_ok:
  assumes "lfdb_ok M cs l infl"
  shows "\<exists>l' infl'. next_block M n (l, infl) = (Inr (take n (lfdb_rest cs l)), (l', infl'))
    \<and> lfdb_ok M cs l' infl' \<and> lfdb_rest cs l' = drop n (lfdb_rest cs l)"
proof (cases "0 < header_remaining (lf_header l)")
  case False
  then have "header_rest (lf_header l) = []" by (simp add: header_rest_def header_remaining_def)
  moreover from next_block_loop_ok [OF assms, of "[]" n] obtain l' infl' where
    "next_block_loop M n [] (l, infl) = (Inr (take n (body_rest cs l)), (l', infl'))" "lfdb_ok M cs l' infl'"
    "body_rest cs l' = drop n (body_rest cs l)" "lf_header l' = lf_header l" by auto
  ultimately show ?thesis using False by (simp add: next_block_def lfdb_rest_def)
next
  case True
  obtain bs h where e: "header_emit n (lf_header l) = (bs, h)" by (cases "header_emit n (lf_header l)")
  have wf: "lh_emitted (lf_header l) \<le> lh_len (lf_header l)" "lh_len (lf_header l) \<le> length (lh_buf (lf_header l))"
    using assms by (simp_all add: lfdb_ok_def)
  note h = header_emit_ok [OF wf e]
  let ?l = "l\<lparr>lf_header := h\<rparr>"
  have "current_loc ?l = current_loc l" "body_rest cs ?l = body_rest cs l" by (simp_all add: current_loc_def body_rest_def)
  moreover from this have "lfdb_ok M cs ?l infl" using assms h(3,4) by (auto simp: lfdb_ok_def split: option.splits)
  moreover have "length bs \<le> n" using h(1) by simp
  ultimately obtain l' infl' where
    "next_block_loop M n bs (?l, infl) = (Inr (bs @ take (n - length bs) (body_rest cs l)), (l', infl'))" "lfdb_ok M cs l' infl'"
    "body_rest cs l' = drop (n - length bs) (body_rest cs l)" "lf_header l' = h"
    using next_block_loop_ok [of M cs ?l infl bs n] by auto
  then show ?thesis using True e h(1,2) by (auto simp: next_block_def lfdb_rest_def min_def)
qed

text \<open>A call never writes past its buffer.\<close>

lemma emit_deflate_loop_length:
  "emit_deflate_loop M z loc n w out (cur, infl) = (Inr bs, s') \<Longrightarrow> w \<le> n \<Longrightarrow> length bs \<le> length out + (n - w)"
proof (induction M z loc n w out "(cur, infl)" arbitrary: cur infl rule: emit_deflate_loop.induct)
  case (1 M z loc n w out cur infl)
  note step = 1(3) [unfolded emit_deflate_loop.simps [of M z loc n w out cur infl]]
  show ?case
  proof (cases "w < n \<and> cu_produced cur - cu_emitted cur \<noteq> 0")
    case False
    then show ?thesis using step 1(1) 1(4)
      by (auto split: if_splits prod.splits sum.splits)
  next
    case True
    define start where "start = cu_emitted cur AND (INFLATE_WINDOW - 1)"
    define k where "k = min (min (cu_produced cur - cu_emitted cur) (n - w)) (INFLATE_WINDOW - start)"
    have k: "w + k \<le> n" using True by (auto simp: k_def)
    have "emit_deflate_loop M z loc n (w + k) (out @ window_slice (ic_window infl) start k)
        (cur\<lparr>cu_emitted := cu_emitted cur + k\<rparr>, infl) = (Inr bs, s')"
      using step True by (simp add: Let_def start_def k_def)
    from 1(2) [OF _ refl _ refl refl refl, folded start_def, folded k_def, OF _ _ this k] True k
    show ?thesis by (simp add: window_slice_def)
  qed
qed

lemma emit_length:
  "emit_stored loc n l = (bs, l') \<Longrightarrow> length bs \<le> n"
  "emit_deflate M loc n (l, infl) = (Inr bs, s') \<Longrightarrow> length bs \<le> n"
  by (auto simp: emit_stored_def Let_def window_slice_def)
    (auto simp: emit_deflate_def dest: emit_deflate_loop_length split: prod.splits if_splits)

lemma next_block_loop_length:
  "next_block_loop M n out (l, infl) = (Inr b, s') \<Longrightarrow> length out \<le> n \<Longrightarrow> length b \<le> n"
proof (induction M n out "(l, infl)" arbitrary: l infl rule: next_block_loop.induct)
  case (1 M n out l infl)
  note step = 1(4) [unfolded next_block_loop.simps [of M n out l infl]]
  show ?case
  proof (cases "length out < n \<and> current_loc l \<noteq> None")
    case False
    then show ?thesis using step 1(1) 1(5) by (auto split: if_splits option.splits)
  next
    case True
    then obtain loc where room: "length out < n" and loc: "current_loc l = Some loc" by auto
    define em where "em = (if cl_method loc = METHOD_DEFLATE then emit_deflate M loc (n - length out) (l, infl)
        else (case emit_stored loc (n - length out) l of (bs, l') \<Rightarrow> (Inr bs, (l', infl))))"
    obtain bs l1 infl1 where em1: "em = (Inr bs, (l1, infl1))"
      using step room loc by (cases em) (auto simp: em_def [symmetric] split: sum.splits)
    have "length bs \<le> n - length out"
      using em1 emit_length unfolding em_def by (auto split: if_splits prod.splits)
    then have lb: "length (out @ bs) \<le> n" using room by simp
    note em2 = em1 [unfolded em_def, symmetric]
    show ?thesis
      using step room loc em1 lb 1(2) [OF room loc em2 refl refl] 1(3) [OF room loc em2 refl refl]
      by (auto simp: em_def [symmetric] split: if_splits)
  qed
qed

lemma next_block_length: "next_block M n s = (Inr b, s') \<Longrightarrow> length b \<le> n"
  by (cases s) (auto simp: next_block_def header_emit_def Let_def min_le_iff_disj dest: next_block_loop_length split: if_splits prod.splits)

text \<open>A call of \<open>next_block\<close> rewinds to where the reader was opened: the file, its directory and the header
  octets stay.\<close>

lemma lfdb_reset_sel:
  "lfdb_reset (advance l) = lfdb_reset l" "lfdb_reset (l\<lparr>lf_cursor := c\<rparr>) = lfdb_reset l"
  "header_emit n (lf_header l) = (bs, h) \<Longrightarrow> lfdb_reset (l\<lparr>lf_header := h\<rparr>) = lfdb_reset l"
  by (auto simp: lfdb_reset_def advance_def header_emit_def header_reset_def Let_def)

lemma emit_reset:
  "emit_stored loc n l = (bs, l') \<Longrightarrow> lfdb_reset l' = lfdb_reset l"
  "emit_deflate M loc n (l, infl) = (r, (l', infl')) \<Longrightarrow> lfdb_reset l' = lfdb_reset l"
  by (auto simp: emit_stored_def emit_deflate_def Let_def lfdb_reset_sel split: prod.splits if_splits)

lemma next_block_loop_reset:
  "next_block_loop M n out (l, infl) = (r, (l', infl')) \<Longrightarrow> lfdb_reset l' = lfdb_reset l"
proof (induction M n out "(l, infl)" arbitrary: l infl rule: next_block_loop.induct)
  case (1 M n out l infl)
  note step = 1(4) [unfolded next_block_loop.simps [of M n out l infl]]
  show ?case
  proof (cases "length out < n \<and> current_loc l \<noteq> None")
    case False
    then show ?thesis using step 1(1) by (auto simp: lfdb_reset_sel split: if_splits option.splits)
  next
    case True
    then obtain loc where room: "length out < n" and loc: "current_loc l = Some loc" by auto
    define em where "em = (if cl_method loc = METHOD_DEFLATE then emit_deflate M loc (n - length out) (l, infl)
        else (case emit_stored loc (n - length out) l of (bs, l') \<Rightarrow> (Inr bs, (l', infl))))"
    obtain r1 l1 infl1 where em1: "em = (r1, (l1, infl1))" by (cases em) auto
    have e: "lfdb_reset l1 = lfdb_reset l"
      using em1 emit_reset unfolding em_def by (auto split: if_splits prod.splits)
    show ?thesis
    proof (cases r1)
      case (Inl err)
      then show ?thesis using step room loc em1 e by (simp add: em_def [symmetric])
    next
      case (Inr bs)
      note em2 = em1 [unfolded em_def Inr, symmetric]
      show ?thesis
        using step room loc em1 e Inr 1(2) [OF room loc em2 refl refl] 1(3) [OF room loc em2 refl refl]
        by (auto simp: em_def [symmetric] lfdb_reset_sel split: if_splits)
    qed
  qed
qed

lemma next_block_reset: "next_block M n (l, infl) = (r, (l', infl')) \<Longrightarrow> lfdb_reset l' = lfdb_reset l"
  by (auto simp: next_block_def lfdb_reset_sel dest: next_block_loop_reset split: if_splits prod.splits)

text \<open>Calls of \<open>next_block\<close> with buffers of the given sizes, and a stream cut at these sizes.\<close>

primrec read_blocks :: "'d miniz \<Rightarrow> nat list \<Rightarrow> (lfdb \<times> 'd inflate_ctx, cap_error, bytes list) prog" where
  "read_blocks M [] = ret []"
| "read_blocks M (n # ns) = bindP (next_block M n) (\<lambda>b. bindP (read_blocks M ns) (\<lambda>bs. ret (b # bs)))"

primrec cut_at :: "nat list \<Rightarrow> bytes \<Rightarrow> bytes list" where
  "cut_at [] stream = []"
| "cut_at (n # ns) stream = take n stream # cut_at ns (drop n stream)"

lemma read_blocks_ok:
  "lfdb_ok M cs l infl \<Longrightarrow> \<exists>l' infl'. read_blocks M ns (l, infl) = (Inr (cut_at ns (lfdb_rest cs l)), (l', infl'))
     \<and> lfdb_ok M cs l' infl' \<and> lfdb_reset l' = lfdb_reset l"
proof (induction ns arbitrary: l infl)
  case (Cons n ns)
  from next_block_ok [OF Cons.prems, of n] obtain l1 infl1 where
    b: "next_block M n (l, infl) = (Inr (take n (lfdb_rest cs l)), (l1, infl1))" "lfdb_ok M cs l1 infl1"
      "lfdb_rest cs l1 = drop n (lfdb_rest cs l)" by blast
  from Cons.IH [OF b(2)] show ?case using b(1,3) next_block_reset [OF b(1)] by (auto simp: bindP_def ret_def)
qed (simp add: ret_def)

lemma cap_lfdb_reset: "lfdb_reset (cap_lfdb cap) = cap_lfdb cap"
  by (simp add: lfdb_reset_def cap_lfdb_def header_reset_def lfdb_header_new_def)

text \<open>C6: the streaming reader refines the assembled block. When the components of a file have the sizes
  its directory declares, the reader opened on it is a reader of one stream: the tag \<open>C4\<close>, the BER
  length of the contents, and the contents of the eleven components in order. \<open>len\<close> is the length of
  that stream, and calls of \<open>next_block\<close> with any sequence of buffer sizes never fail and return
  exactly its consecutive pieces, all of it and then nothing at the end; \<open>reset\<close> goes back to the start
  from wherever the reader is. Stored and DEFLATE components may alternate, blocks may straddle components,
  and a component may be larger than the window.\<close>

theorem next_block_refines:
  assumes "cap_contents M (cf_zip cap) (cf_locs cap) cs" "length (ic_window infl) = INFLATE_WINDOW"
    and "length (concat cs) < 2 ^ 24"
  shows "\<exists>len. ber_len len = Some (length (concat cs))
    \<and> lfdb_len (cap_lfdb cap) = length (0xC4 # len @ concat cs)
    \<and> (\<forall>ns. \<exists>l' infl'. read_blocks M ns (cap_lfdb cap, infl) = (Inr (cut_at ns (0xC4 # len @ concat cs)), (l', infl'))
         \<and> lfdb_reset l' = cap_lfdb cap)"
proof -
  note st = lfdb_start [OF assms(1,2)]
  from lfdb_header_rest [OF assms(3)] obtain len where len: "header_rest (lfdb_header_new (length (concat cs))) = 0xC4 # len"
    "ber_len len = Some (length (concat cs))" by blast
  have r: "lfdb_rest cs (cap_lfdb cap) = 0xC4 # len @ concat cs" unfolding st(2) len(1) by simp
  show ?thesis using read_blocks_ok [OF st(1), unfolded r cap_lfdb_reset] len(2) st(3) unfolding r by blast
qed

text \<open>A decompressor that copies its input, as far as the window goes; it stands for \<open>miniz_oxide\<close> in
  the examples.\<close>

definition copying :: "unit miniz" where
  "copying = \<lparr>mz_new = (), mz_decompress = (\<lambda>d input win pos nw.
     let k = min (length input) (length win - pos) in
     ((if k = length input then StDone else StHasMoreOutput, k, k), (), take pos win @ take k input @ drop (pos + k) win))\<rparr>"

lemma copying_step:
  assumes p: "p \<le> length input"
    and w: "length win = INFLATE_WINDOW" "window_holds win input p"
    and m: "mz_decompress copying () (drop p input) win (p mod INFLATE_WINDOW) False = ((st, ic, ow), d', win')"
  shows "p + ic \<le> length input \<and> p + ow \<le> length input \<and> ow \<le> INFLATE_WINDOW \<and> length win' = INFLATE_WINDOW
     \<and> window_holds win' input (p + ow)
     \<and> (st = StDone \<and> p + ow = length input
        \<or> (st = StHasMoreOutput \<or> st = StNeedsMoreInput) \<and> 0 < ic + ow \<and> ic = ow)"
proof -
  have W: "0 < INFLATE_WINDOW" by (simp add: limit_simps)
  let ?r = "p mod INFLATE_WINDOW"
  have r: "?r < INFLATE_WINDOW" using W by simp
  define k where "k = min (length input - p) (INFLATE_WINDOW - ?r)"
  have s: "ic = k" "ow = k" "win' = take ?r win @ take k (drop p input) @ drop (?r + k) win"
      "st = (if k = length input - p then StDone else StHasMoreOutput)"
    using m w(1) by (auto simp: copying_def Let_def k_def [symmetric])
  have lk: "length (take k (drop p input)) = k" "length (take ?r win) = ?r"
    using w(1) r by (simp_all add: k_def)
  have nth: "win' ! x = (if x < ?r then win ! x else if x < ?r + k then input ! (p + (x - ?r)) else win ! x)"
    if "x < INFLATE_WINDOW" for x
  proof -
    have "take k (drop p input) ! (x - ?r) = input ! (p + (x - ?r))" if "\<not> x < ?r" "x < ?r + k"
      using that p by (subst nth_take) (auto simp: k_def)
    moreover have "?r + k \<le> length win" using w(1) r by (simp add: k_def)
    ultimately show ?thesis using that lk unfolding s(3) nth_append lk
      by (auto simp: nth_append)
  qed
  have "window_holds win' input (p + k)" unfolding window_holds_def
  proof (intro allI impI)
    fix j assume j: "j < p + k \<and> p + k \<le> j + INFLATE_WINDOW"
    show "win' ! (j mod INFLATE_WINDOW) = input ! j"
    proof (cases "j < p")
      case True
      have "j mod INFLATE_WINDOW < ?r \<or> ?r + k \<le> j mod INFLATE_WINDOW"
      proof (rule ccontr)
        assume "\<not> ?thesis"
        then have c: "?r \<le> j mod INFLATE_WINDOW" "j mod INFLATE_WINDOW < ?r + k" by auto
        obtain d where d: "p = j + d" "0 < d" using True less_imp_add_positive by blast
        have "(j mod INFLATE_WINDOW - ?r + p) mod INFLATE_WINDOW = j mod INFLATE_WINDOW"
          using c(1) r by (metis le_add_diff_inverse2 mod_add_right_eq mod_mod_trivial)
        then have "(j + (j mod INFLATE_WINDOW - ?r + d)) mod INFLATE_WINDOW = j mod INFLATE_WINDOW" by (simp add: d(1) ac_simps)
        then have "(j mod INFLATE_WINDOW - ?r + d) mod INFLATE_WINDOW = 0"
          by (metis add.right_neutral mod_add_left_eq mod_eq_0_iff_dvd mod_eq_dvd_iff_nat le_add1 diff_add_inverse)
        moreover have "0 < j mod INFLATE_WINDOW - ?r + d" "j mod INFLATE_WINDOW - ?r + d < INFLATE_WINDOW"
          using d(2) c j d(1) by linarith+
        ultimately show False by simp
      qed
      then show ?thesis using nth [of "j mod INFLATE_WINDOW"] W True j w(2) by (auto simp: window_holds_def)
    next
      case False
      then obtain x where x: "j = p + x" "x < k" using j by (metis add_less_cancel_left le_Suc_ex not_less)
      then have "?r + x < INFLATE_WINDOW" by (simp add: k_def less_diff_conv add.commute)
      then have "j mod INFLATE_WINDOW = ?r + x" using x by (metis mod_add_left_eq mod_less)
      then show ?thesis using nth [of "?r + x"] \<open>?r + x < INFLATE_WINDOW\<close> x by simp
    qed
  qed
  moreover have "k \<noteq> length input - p \<Longrightarrow> 0 < k" using r by (simp add: k_def)
  moreover have "p + k \<le> length input" using p by (simp add: k_def)
  moreover have "length win' = INFLATE_WINDOW" using w(1) lk r unfolding s(3) by (simp add: k_def)
  ultimately show ?thesis unfolding s(1,2,4) using p by (auto simp: k_def)
qed

lemma copying_inflates: "inflates copying input input"
proof -
  have "inflating copying input input () 0 0"
  proof (rule inflating.coinduct [where X = "\<lambda>d i q. i = q \<and> q \<le> length input"])
    show "(0::nat) = 0 \<and> 0 \<le> length input" by simp
  next
    fix d i q assume iq: "i = q \<and> q \<le> length input"
    show "\<exists>i' p d'. d = d' \<and> i = i' \<and> q = p \<and> i' \<le> length input \<and> p \<le> length input \<and>
        (\<forall>win st ic ow d'' win'. length win = INFLATE_WINDOW \<longrightarrow> window_holds win input p \<longrightarrow>
           mz_decompress copying d' (drop i' input) win (p mod INFLATE_WINDOW) False = ((st, ic, ow), d'', win') \<longrightarrow>
           i' + ic \<le> length input \<and> p + ow \<le> length input \<and> ow \<le> INFLATE_WINDOW
           \<and> length win' = INFLATE_WINDOW \<and> window_holds win' input (p + ow)
           \<and> (st = StDone \<and> p + ow = length input
              \<or> (st = StHasMoreOutput \<or> st = StNeedsMoreInput) \<and> 0 < ic + ow
                \<and> ((i' + ic = p + ow \<and> p + ow \<le> length input) \<or> inflating copying input input d'' (i' + ic) (p + ow))))"
    proof (rule exI [of _ q], rule exI [of _ q], rule exI [of _ d], intro conjI allI impI)
      fix win st ic ow d'' win'
      assume a: "length win = INFLATE_WINDOW" "window_holds win input q"
        "mz_decompress copying d (drop q input) win (q mod INFLATE_WINDOW) False = ((st, ic, ow), d'', win')"
      have "d = ()" by simp
      with a(3) have m: "mz_decompress copying () (drop q input) win (q mod INFLATE_WINDOW) False = ((st, ic, ow), d'', win')"
        by simp
      have q: "q \<le> length input" using iq by simp
      note s = copying_step [OF q a(1,2) m]
      show "q + ic \<le> length input" "q + ow \<le> length input" "ow \<le> INFLATE_WINDOW" "length win' = INFLATE_WINDOW"
        "window_holds win' input (q + ow)" using s by blast+
      show "st = StDone \<and> q + ow = length input
              \<or> (st = StHasMoreOutput \<or> st = StNeedsMoreInput) \<and> 0 < ic + ow
                \<and> ((q + ic = q + ow \<and> q + ow \<le> length input) \<or> inflating copying input input d'' (q + ic) (q + ow))"
        using s by blast
    qed (use iq in simp_all)
  qed
  then show ?thesis by (simp add: inflates_def copying_def)
qed

text \<open>The example file, with its second component taken as compressed.\<close>

definition demo_file :: cap_file where
  "demo_file = \<lparr>cf_package_aid = Aid [0xA0, 0, 0, 0, 0x62, 3, 1], cf_components = demo_components, cf_zip = demo_cap,
     cf_locs = demo_locs[3 := Some \<lparr>cl_method = METHOD_DEFLATE, cl_data_off = 104, cl_comp_size = 15, cl_uncomp_size = 15\<rparr>]\<rparr>"

definition demo_contents :: "bytes list" where
  "demo_contents = (replicate LFDB_COMPONENTS [])[0 := take 20 (drop 42 demo_cap), 3 := take 15 (drop 104 demo_cap)]"

lemma demo_contents_ok: "cap_contents copying (cf_zip demo_file) (cf_locs demo_file) demo_contents"
proof -
  have "length demo_cap = 257" by (simp add: demo_cap_def)
  then show ?thesis
    by (auto simp: cap_contents_def demo_file_def demo_locs_def demo_contents_def LFDB_COMPONENTS_def less_Suc_eq
        numeral_eq_Suc comp_content_def METHOD_DEFLATE_def comp_input_def copying_inflates)
qed

lemma next_block_refines_witness:
  "fst (read_blocks copying [5, 0, 30, 10, 10] (cap_lfdb demo_file, inflate_new copying))
     = Inr [[0xC4, 35, 1, 0, 17], [], take 17 (drop 45 demo_cap) @ take 13 (drop 104 demo_cap), take 2 (drop 117 demo_cap), []]
   \<and> lfdb_len (cap_lfdb demo_file) = 37"
proof -
  have w: "length (ic_window (inflate_new copying)) = INFLATE_WINDOW" by (simp add: inflate_new_def)
  have l: "length (concat demo_contents) = 35" by code_simp
  then have "length (concat demo_contents) < 2 ^ 24" by simp
  from next_block_refines [OF demo_contents_ok w this] obtain len where
    len: "ber_len len = Some 35" "lfdb_len (cap_lfdb demo_file) = length (0xC4 # len @ concat demo_contents)"
    and r: "\<And>ns. fst (read_blocks copying ns (cap_lfdb demo_file, inflate_new copying)) = Inr (cut_at ns (0xC4 # len @ concat demo_contents))"
    unfolding l by (metis fst_conv)
  have n: "lfdb_len (cap_lfdb demo_file) = 37" by code_simp
  then have "length len = 1" using len(2) l by simp
  then obtain b where b: "len = [b]" by (auto simp: length_Suc_conv)
  then have "unat b = unat (35 :: u8)" using len(1) by (auto split: if_splits)
  then have "len = [35]" unfolding b by (simp add: word_unat_eq_iff)
  moreover have "cut_at [5, 0, 30, 10, 10] (0xC4 # [35] @ concat demo_contents)
      = [[0xC4, 35, 1, 0, 17], [], take 17 (drop 45 demo_cap) @ take 13 (drop 104 demo_cap), take 2 (drop 117 demo_cap), []]"
    by code_simp
  ultimately show ?thesis unfolding r using n by metis
qed

end
