(* ===== verification/Scll_Provision.thy ===== *)
theory Scll_Provision
  imports Scll_Replay
begin

text \<open>
  The provisioning workflows over an open session: \<open>workflow/keys.rs\<close> (PUT KEY and DELETE KEY),
  \<open>workflow/ssd.rs\<close> without \<open>load_package\<close>, and \<open>workflow/applet.rs\<close>.

  Each workflow builds one or two commands, sends them with \<open>transmit_in_session\<close> and maps the
  status word. The report of the source is a record; its \<open>warnings\<close> are always empty here.
\<close>

section \<open>Keys\<close>

definition KEYS_TYPE_AES :: u8 where "KEYS_TYPE_AES = 0x88"
definition KEYS_TYPE_3DES :: u8 where "KEYS_TYPE_3DES = 0x80"
definition P1_ADD :: u8 where "P1_ADD = 0x00"
definition KCV_ECHO_LEN :: usize where "KCV_ECHO_LEN = 1 + 9"

record new_keyset =
  nk_enc :: key_handle
  nk_mac :: key_handle
  nk_dek :: key_handle
  nk_kind :: key_kind

record put_sd_keys_args =
  psk_dek :: key_handle
  psk_new_keys :: new_keyset
  psk_new_kvn :: u8
  psk_target_sd_aid :: bytes

record put_keys_report =
  pkr_target_sd_aid :: aid
  pkr_scp_protocol :: scp_protocol
  pkr_new_kvn :: u8
  pkr_key_type :: key_type
  pkr_key_length :: u8
  pkr_kcvs :: bytes

record delete_key_report =
  dkr_target_sd_aid :: aid
  dkr_kvn :: u8

primrec encrypt_key ::
    "'b backend_ops \<Rightarrow> scp_session \<Rightarrow> key_handle \<Rightarrow> key_handle \<Rightarrow> ('t, 'b, bytes) workflow" where
  "encrypt_key B (Scp03S s) dek new = backend (b_scp03_encrypt_put_key_payload B dek new)"
| "encrypt_key B (Scp02S s) dek new = backend (b_scp02_encrypt_put_key_payload_for_session B (st2_session s) new)"

definition make_key_block :: "u8 \<Rightarrow> bytes \<Rightarrow> bytes \<Rightarrow> u8 \<Rightarrow> key_block" where
  "make_key_block key_type encrypted_key kcv clear_key_len =
     \<lparr>kb_key_type = key_type, kb_encrypted_key = encrypted_key, kb_kcv = kcv, kb_clear_key_len = clear_key_len\<rparr>"

definition verify_kcv_echo :: "bytes \<Rightarrow> u8 \<Rightarrow> bytes \<Rightarrow> bytes \<Rightarrow> bytes \<Rightarrow> scll_error + bytes" where
  "verify_kcv_echo echo new_kvn kcv_enc kcv_mac kcv_dek =
    (let kcvs = kcv_enc @ kcv_mac @ kcv_dek in
     if KCV_ECHO_LEN \<le> length echo \<and> take KCV_ECHO_LEN echo \<noteq> new_kvn # kcvs then Inl KeyCheckValueMismatch
     else Inr kcvs)"

definition put_sd_keys ::
    "'t transport \<Rightarrow> 'b backend_ops \<Rightarrow> scp_session \<Rightarrow> put_sd_keys_args \<Rightarrow> ('t, 'b, put_keys_report) workflow" where
  "put_sd_keys T B session args =
    (let keyset = psk_new_keys args;
         is_scp03 = (ses_protocol session = ProtoScp03);
         key_type_byte = (if is_scp03 then KEYS_TYPE_AES else KEYS_TYPE_3DES);
         report_key_type = (if is_scp03 then Aes else Des) in
     bindP (encrypt_key B session (psk_dek args) (nk_enc keyset)) (\<lambda>enc_blob.
     bindP (encrypt_key B session (psk_dek args) (nk_mac keyset)) (\<lambda>mac_blob.
     bindP (encrypt_key B session (psk_dek args) (nk_dek keyset)) (\<lambda>dek_blob.
     bindP (backend (b_compute_kcv B (nk_enc keyset))) (\<lambda>kcv_enc.
     bindP (backend (b_compute_kcv B (nk_mac keyset))) (\<lambda>kcv_mac.
     bindP (backend (b_compute_kcv B (nk_dek keyset))) (\<lambda>kcv_dek.
     let clear = (if is_scp03 then (case u8_try_from (clear_len (nk_kind keyset)) of Some n \<Rightarrow> n | None \<Rightarrow> 16) else 16);
         blocks = [make_key_block key_type_byte enc_blob kcv_enc clear,
           make_key_block key_type_byte mac_blob kcv_mac clear,
           make_key_block key_type_byte dek_blob kcv_dek clear] in
     bindP (liftR (map_err Build (put_key P1_ADD (psk_new_kvn args) blocks))) (\<lambda>capdu.
     bindP (transmit_in_session T B session capdu) (\<lambda>(echo, sw).
     if sw \<noteq> SW_OK then throw (from_general_sw sw)
     else
       bindP (liftR (verify_kcv_echo echo (psk_new_kvn args) kcv_enc kcv_mac kcv_dek)) (\<lambda>kcvs.
       bindP (liftR (aid_new (psk_target_sd_aid args))) (\<lambda>target.
       ret \<lparr>pkr_target_sd_aid = target, pkr_scp_protocol = ses_protocol session,
         pkr_new_kvn = psk_new_kvn args, pkr_key_type = report_key_type, pkr_key_length = clear,
         pkr_kcvs = kcvs\<rparr>)))))))))))"

definition delete_sd_keyset ::
    "'t transport \<Rightarrow> 'b backend_ops \<Rightarrow> scp_session \<Rightarrow> u8 \<Rightarrow> bytes \<Rightarrow> ('t, 'b, delete_key_report) workflow" where
  "delete_sd_keyset T B session kvn target_sd_aid =
     bindP (liftR (map_err Build (delete_key None (Some kvn)))) (\<lambda>capdu.
     bindP (transmit_in_session T B session capdu) (\<lambda>(data, sw).
     if sw = SW_REF_NOT_FOUND then throw KeyNotFound
     else if sw \<noteq> SW_OK then throw (from_general_sw sw)
     else
       bindP (liftR (aid_new target_sd_aid)) (\<lambda>target.
       ret \<lparr>dkr_target_sd_aid = target, dkr_kvn = kvn\<rparr>)))"

section \<open>Security domains and applets\<close>

datatype delete_target_kind = Ssd | AppletInstance | ExecutableLoadFile

datatype delete_cascade = Never | OnlyIfEmpty | IfLastInstance | Cascade | Always

definition SSD_PRIV_REFUSED_MASK :: u8 where "SSD_PRIV_REFUSED_MASK = 0x40 OR 0x20 OR 0x01"
definition APPLET_PRIV_REFUSED_MASK :: u8 where "APPLET_PRIV_REFUSED_MASK = 0x80 OR 0x40 OR 0x20 OR 0x01"
definition TAG_C9_APP_PARAMS :: u8 where "TAG_C9_APP_PARAMS = 0xC9"
definition TAG_EF_SYS_PARAMS :: u8 where "TAG_EF_SYS_PARAMS = 0xEF"

definition copy_bounded :: "nat \<Rightarrow> bytes \<Rightarrow> scll_error + bytes" where
  "copy_bounded n src = ok_or (Build BuildOverflow) (vec_extend n [] src)"

record create_ssd_args =
  csa_parent_sd_aid :: bytes
  csa_ssd_aid :: bytes
  csa_elf_aid :: bytes
  csa_module_aid :: bytes
  csa_privileges :: privileges
  csa_install_params :: bytes

record create_ssd_report =
  csr_ssd_aid_effective :: aid
  csr_aid_was_generated :: bool
  csr_parent_sd_aid :: aid
  csr_privileges_used :: privileges
  csr_elf_aid_used :: aid
  csr_module_aid_used :: aid
  csr_install_params_used :: bytes

definition create_ssd ::
    "'t transport \<Rightarrow> 'b backend_ops \<Rightarrow> scp_session \<Rightarrow> create_ssd_args \<Rightarrow> priv_len \<Rightarrow> ('t, 'b, create_ssd_report) workflow" where
  "create_ssd T B parent_session args pl =
    (if fst (csa_privileges args) AND SSD_PRIV_REFUSED_MASK \<noteq> 0 then throw UnsupportedPrivilege
     else
       bindP (liftR (map_err Build (install_for_install_make_selectable (csa_elf_aid args) (csa_module_aid args)
         (csa_ssd_aid args) (csa_privileges args) pl (csa_install_params args)))) (\<lambda>capdu.
       bindP (transmit_in_session T B parent_session capdu) (\<lambda>(d, sw).
       if sw = SW_REF_NOT_FOUND then throw ResidentSdNotFound
       else if sw = SW_WRONG_DATA then throw AidAlreadyExists
       else if sw \<noteq> SW_OK then throw (from_general_sw sw)
       else
         bindP (liftR (aid_new (csa_ssd_aid args))) (\<lambda>ssd.
         bindP (liftR (aid_new (csa_parent_sd_aid args))) (\<lambda>parent.
         bindP (liftR (aid_new (csa_elf_aid args))) (\<lambda>elf.
         bindP (liftR (aid_new (csa_module_aid args))) (\<lambda>module.
         bindP (liftR (copy_bounded INSTALL_PARAMS_MAX (csa_install_params args))) (\<lambda>params.
         ret \<lparr>csr_ssd_aid_effective = ssd, csr_aid_was_generated = False, csr_parent_sd_aid = parent,
           csr_privileges_used = csa_privileges args, csr_elf_aid_used = elf, csr_module_aid_used = module,
           csr_install_params_used = params\<rparr>))))))))"

record delete_object_report =
  dor_target_aid :: aid
  dor_target_kind :: delete_target_kind
  dor_cascade_requested :: delete_cascade
  dor_cascade_used :: bool
  dor_instances_removed :: "aid list"
  dor_elfs_removed :: "aid list"

definition delete_ssd ::
    "'t transport \<Rightarrow> 'b backend_ops \<Rightarrow> scp_session \<Rightarrow> bytes \<Rightarrow> delete_cascade \<Rightarrow> ('t, 'b, delete_object_report) workflow" where
  "delete_ssd T B parent_session ssd_aid cascade =
    (let cascade_flag = (cascade = Cascade \<or> cascade = Always) in
     bindP (liftR (map_err Build (delete_object ssd_aid cascade_flag))) (\<lambda>capdu.
     bindP (transmit_in_session T B parent_session capdu) (\<lambda>(d, sw).
     if sw = SW_REF_NOT_FOUND then throw TargetNoLongerExists
     else if sw = SW_CONDITIONS \<and> \<not> cascade_flag then throw SsdHasApplets
     else if sw \<noteq> SW_OK then throw (from_general_sw sw)
     else
       bindP (liftR (aid_new ssd_aid)) (\<lambda>target.
       ret \<lparr>dor_target_aid = target, dor_target_kind = Ssd, dor_cascade_requested = cascade,
         dor_cascade_used = cascade_flag, dor_instances_removed = [], dor_elfs_removed = []\<rparr>))))"

record install_applet_args =
  iaa_parent_sd_aid :: bytes
  iaa_package_aid :: bytes
  iaa_module_aid :: bytes
  iaa_instance_aid :: bytes
  iaa_privileges :: privileges
  iaa_system_install_params :: bytes
  iaa_applet_install_params :: bytes

record install_applet_report =
  iar_instance_aid :: aid
  iar_package_aid_used :: aid
  iar_module_aid_used :: aid
  iar_privileges_used :: privileges
  iar_system_install_params :: bytes
  iar_applet_install_params :: bytes
  iar_parent_sd_aid :: aid

definition push_tlv :: "nat \<Rightarrow> bytes \<Rightarrow> u8 \<Rightarrow> bytes \<Rightarrow> scll_error + bytes" where
  "push_tlv cap out tag val =
     rbind (ok_or (Build BuildOverflow) (u8_try_from (length val))) (\<lambda>len.
     rbind (ok_or (Build BuildOverflow) (vec_push cap out tag)) (\<lambda>out.
     rbind (ok_or (Build BuildOverflow) (vec_push cap out len)) (\<lambda>out.
     ok_or (Build BuildOverflow) (vec_extend cap out val))))"

definition build_install_params :: "bytes \<Rightarrow> bytes \<Rightarrow> scll_error + bytes" where
  "build_install_params app_params sys_params =
     rbind (push_tlv INSTALL_PARAMS_MAX [] TAG_C9_APP_PARAMS app_params) (\<lambda>out.
     if sys_params \<noteq> [] then push_tlv INSTALL_PARAMS_MAX out TAG_EF_SYS_PARAMS sys_params
     else Inr out)"

definition install_applet ::
    "'t transport \<Rightarrow> 'b backend_ops \<Rightarrow> scp_session \<Rightarrow> install_applet_args \<Rightarrow> priv_len \<Rightarrow>
     ('t, 'b, install_applet_report) workflow" where
  "install_applet T B parent_session args pl =
    (if fst (iaa_privileges args) AND APPLET_PRIV_REFUSED_MASK \<noteq> 0 then throw UnsupportedPrivilege
     else
       bindP (liftR (build_install_params (iaa_applet_install_params args) (iaa_system_install_params args))) (\<lambda>params.
       bindP (liftR (map_err Build (install_for_install_make_selectable (iaa_package_aid args) (iaa_module_aid args)
         (iaa_instance_aid args) (iaa_privileges args) pl params))) (\<lambda>capdu.
       bindP (transmit_in_session T B parent_session capdu) (\<lambda>(d, sw).
       if sw = SW_REF_NOT_FOUND then throw PackageNotFound
       else if sw = SW_WRONG_DATA then throw AidAlreadyExists
       else if sw \<noteq> SW_OK then throw (from_general_sw sw)
       else
         bindP (liftR (aid_new (iaa_instance_aid args))) (\<lambda>inst.
         bindP (liftR (aid_new (iaa_package_aid args))) (\<lambda>package.
         bindP (liftR (aid_new (iaa_module_aid args))) (\<lambda>module.
         bindP (liftR (copy_bounded INSTALL_PARAMS_MAX (iaa_system_install_params args))) (\<lambda>sys.
         bindP (liftR (copy_bounded INSTALL_PARAMS_MAX (iaa_applet_install_params args))) (\<lambda>app.
         bindP (liftR (aid_new (iaa_parent_sd_aid args))) (\<lambda>parent.
         ret \<lparr>iar_instance_aid = inst, iar_package_aid_used = package, iar_module_aid_used = module,
           iar_privileges_used = iaa_privileges args, iar_system_install_params = sys,
           iar_applet_install_params = app, iar_parent_sd_aid = parent\<rparr>))))))))))"

record delete_applet_args =
  daa_instance_aid :: bytes
  daa_elf_aid :: "bytes option"
  daa_cascade_elf :: delete_cascade

text \<open>The optional second DELETE: \<open>elfs_removed\<close> and \<open>cascade_used\<close>.\<close>

definition cascade_elf ::
    "'t transport \<Rightarrow> 'b backend_ops \<Rightarrow> scp_session \<Rightarrow> delete_applet_args \<Rightarrow> ('t, 'b, aid list \<times> bool) workflow" where
  "cascade_elf T B parent_session args =
    (let want_cascade = (daa_cascade_elf args = Always \<or> daa_cascade_elf args = IfLastInstance) in
     if want_cascade then
       (case daa_elf_aid args of
          None \<Rightarrow> ret ([], False)
        | Some elf \<Rightarrow>
           bindP (liftR (map_err Build (delete_object elf False))) (\<lambda>ecapdu.
           bindP (transmit_in_session T B parent_session ecapdu) (\<lambda>(ed, esw).
           if esw = SW_OK then bindP (liftR (aid_new elf)) (\<lambda>a. ret ([a], True))
           else if esw = SW_CONDITIONS then throw ElfHasOtherInstances
           else if esw = SW_REF_NOT_FOUND then throw TargetNoLongerExists
           else throw (from_general_sw esw))))
     else ret ([], False))"

definition delete_applet ::
    "'t transport \<Rightarrow> 'b backend_ops \<Rightarrow> scp_session \<Rightarrow> delete_applet_args \<Rightarrow> ('t, 'b, delete_object_report) workflow" where
  "delete_applet T B parent_session args =
     bindP (liftR (map_err Build (delete_object (daa_instance_aid args) False))) (\<lambda>capdu.
     bindP (transmit_in_session T B parent_session capdu) (\<lambda>(d, sw).
     if sw = SW_REF_NOT_FOUND then throw TargetNoLongerExists
     else if sw \<noteq> SW_OK then throw (from_general_sw sw)
     else
       bindP (liftR (aid_new (daa_instance_aid args))) (\<lambda>inst.
       bindP (cascade_elf T B parent_session args) (\<lambda>(elfs_removed, cascade_used).
       bindP (liftR (aid_new (daa_instance_aid args))) (\<lambda>target.
       ret \<lparr>dor_target_aid = target, dor_target_kind = AppletInstance,
         dor_cascade_requested = daa_cascade_elf args, dor_cascade_used = cascade_used,
         dor_instances_removed = [inst], dor_elfs_removed = elfs_removed\<rparr>)))))"

section \<open>What success means\<close>

lemma verify_kcv_echo_Inr:
  "verify_kcv_echo echo kvn ke km kd = Inr kcvs \<longleftrightarrow>
     kcvs = ke @ km @ kd \<and> (length echo < 10 \<or> take 10 echo = kvn # ke @ km @ kd)"
  by (auto simp: verify_kcv_echo_def KCV_ECHO_LEN_def Let_def)

text \<open>The backend's part of a key change: the encryption and the check value of the three keys.\<close>

primrec encrypt_op :: "'b backend_ops \<Rightarrow> scp_session \<Rightarrow> key_handle \<Rightarrow> key_handle \<Rightarrow> ('b, backend_error, bytes) prog" where
  "encrypt_op B (Scp03S s) dek new = b_scp03_encrypt_put_key_payload B dek new"
| "encrypt_op B (Scp02S s) dek new = b_scp02_encrypt_put_key_payload_for_session B (st2_session s) new"

lemma encrypt_key_eq: "encrypt_key B session dek new = backend (encrypt_op B session dek new)"
  by (cases session) simp_all

definition new_key_handles :: "put_sd_keys_args \<Rightarrow> key_handle list" where
  "new_key_handles args = [nk_enc (psk_new_keys args), nk_mac (psk_new_keys args), nk_dek (psk_new_keys args)]"

definition aid_bytes_ok :: "bytes \<Rightarrow> bool" where
  "aid_bytes_ok a = (5 \<le> length a \<and> length a \<le> 16)"

definition clear_octets :: "scp_session \<Rightarrow> key_kind \<Rightarrow> u8" where
  "clear_octets session kind =
    (if ses_protocol session = ProtoScp03 then (case kind of KindAes192 \<Rightarrow> 24 | KindAes256 \<Rightarrow> 32 | _ \<Rightarrow> 16) else 16)"

text \<open>The keys are encrypted and their check values computed by the backend, the PUT KEY that carries both is built,
  and the card answers it with \<open>9000\<close> and \<open>echo\<close>.\<close>

definition keys_accepted :: "'t transport \<Rightarrow> 'b backend_ops \<Rightarrow> scp_session \<Rightarrow> put_sd_keys_args \<Rightarrow> 't \<times> 'b \<Rightarrow>
    bytes \<Rightarrow> bytes list \<Rightarrow> 't \<times> 'b \<Rightarrow> bool" where
  "keys_accepted T B session args s echo kcvs s' \<longleftrightarrow> (\<exists>blobs b1 b2 capdu.
     each (encrypt_op B session (psk_dek args)) (new_key_handles args) (snd s) = (Inr blobs, b1)
   \<and> each (b_compute_kcv B) (new_key_handles args) b1 = (Inr kcvs, b2)
   \<and> put_key 0x00 (psk_new_kvn args) (map2 (\<lambda>blob kcv.
       \<lparr>kb_key_type = if ses_protocol session = ProtoScp03 then 0x88 else 0x80, kb_encrypted_key = blob, kb_kcv = kcv,
         kb_clear_key_len = clear_octets session (nk_kind (psk_new_keys args))\<rparr>) blobs kcvs) = Inr capdu
   \<and> transmit_in_session T B session capdu (fst s, b2) = (Inr (echo, 0x9000), s'))"

definition keys_report :: "scp_session \<Rightarrow> put_sd_keys_args \<Rightarrow> bytes list \<Rightarrow> put_keys_report" where
  "keys_report session args kcvs = \<lparr>pkr_target_sd_aid = Aid (psk_target_sd_aid args), pkr_scp_protocol = ses_protocol session,
     pkr_new_kvn = psk_new_kvn args, pkr_key_type = if ses_protocol session = ProtoScp03 then Aes else Des,
     pkr_key_length = clear_octets session (nk_kind (psk_new_keys args)), pkr_kcvs = concat kcvs\<rparr>"

lemma put_sd_keys_run:
  fixes args :: put_sd_keys_args
  defines "ks \<equiv> psk_new_keys args" and "enc \<equiv> \<lambda>B session. encrypt_op B session (psk_dek args)"
  assumes "enc B session (nk_enc ks) b = (Inr e, b1)" "enc B session (nk_mac ks) b1 = (Inr m, b2)"
    "enc B session (nk_dek ks) b2 = (Inr d, b3)" "b_compute_kcv B (nk_enc ks) b3 = (Inr ke, b4)"
    "b_compute_kcv B (nk_mac ks) b4 = (Inr km, b5)" "b_compute_kcv B (nk_dek ks) b5 = (Inr kd, b6)"
    and c: "put_key 0x00 (psk_new_kvn args) (map2 (\<lambda>blob kcv.
       \<lparr>kb_key_type = if ses_protocol session = ProtoScp03 then 0x88 else 0x80, kb_encrypted_key = blob, kb_kcv = kcv,
         kb_clear_key_len = clear_octets session (nk_kind ks)\<rparr>) [e, m, d] [ke, km, kd]) = Inr capdu"
    and x: "transmit_in_session T B session capdu (t, b6) = (Inr (echo, 0x9000), s')"
  shows "put_sd_keys T B session args (t, b) =
    (if 10 \<le> length echo \<and> take 10 echo \<noteq> psk_new_kvn args # ke @ km @ kd then (Inl KeyCheckValueMismatch, s')
     else bindP (liftR (aid_new (psk_target_sd_aid args)))
       (\<lambda>a. ret ((keys_report session args [ke, km, kd])\<lparr>pkr_target_sd_aid := a\<rparr>)) s')"
proof -
  have len: "(case u8_try_from (clear_len kind) of Some n \<Rightarrow> n | None \<Rightarrow> 16) =
      (case kind of KindAes192 \<Rightarrow> 24 | KindAes256 \<Rightarrow> 32 | _ \<Rightarrow> 16)" for kind
    by (cases kind) (simp_all add: u8_try_from_def)
  show ?thesis
    using assms(3-8) x c unfolding ks_def enc_def
    by (cases "ses_protocol session = ProtoScp03")
      (simp_all add: Let_def put_sd_keys_def encrypt_key_eq bindP_def backend_def len make_key_block_def clear_octets_def
        KEYS_TYPE_AES_def KEYS_TYPE_3DES_def P1_ADD_def SW_OK_def verify_kcv_echo_def KCV_ECHO_LEN_def keys_report_def ret_def throw_def
        cong: if_cong)
qed

lemma keys_accepted_run:
  assumes "keys_accepted T B session args s echo kcvs s'"
  shows "put_sd_keys T B session args s =
    (if 10 \<le> length echo \<and> take 10 echo \<noteq> psk_new_kvn args # concat kcvs then (Inl KeyCheckValueMismatch, s')
     else bindP (liftR (aid_new (psk_target_sd_aid args))) (\<lambda>a. ret ((keys_report session args kcvs)\<lparr>pkr_target_sd_aid := a\<rparr>)) s')"
proof -
  let ?ks = "psk_new_keys args" let ?enc = "encrypt_op B session (psk_dek args)"
  from assms obtain e m d ke km kd b1 b2 b3 b4 b5 b6 capdu where
    "?enc (nk_enc ?ks) (snd s) = (Inr e, b1)" "?enc (nk_mac ?ks) b1 = (Inr m, b2)" "?enc (nk_dek ?ks) b2 = (Inr d, b3)"
    "b_compute_kcv B (nk_enc ?ks) b3 = (Inr ke, b4)" "b_compute_kcv B (nk_mac ?ks) b4 = (Inr km, b5)"
    "b_compute_kcv B (nk_dek ?ks) b5 = (Inr kd, b6)" "kcvs = [ke, km, kd]"
    "put_key 0x00 (psk_new_kvn args) (map2 (\<lambda>blob kcv.
       \<lparr>kb_key_type = if ses_protocol session = ProtoScp03 then 0x88 else 0x80, kb_encrypted_key = blob, kb_kcv = kcv,
         kb_clear_key_len = clear_octets session (nk_kind ?ks)\<rparr>) [e, m, d] [ke, km, kd]) = Inr capdu"
    "transmit_in_session T B session capdu (fst s, b6) = (Inr (echo, 0x9000), s')"
    unfolding keys_accepted_def new_key_handles_def each_Cons each_Nil by blast
  from put_sd_keys_run [OF this(1-6,8,9)] this(7) show ?thesis by simp
qed

lemma put_sd_keys_accepted:
  assumes "put_sd_keys T B session args s = (Inr rep, s')"
  shows "\<exists>echo kcvs. keys_accepted T B session args s echo kcvs s'"
proof -
  let ?ks = "psk_new_keys args" let ?enc = "encrypt_op B session (psk_dek args)"
  let ?type = "if ses_protocol session = ProtoScp03 then KEYS_TYPE_AES else KEYS_TYPE_3DES"
  let ?len = "if ses_protocol session = ProtoScp03 then
      (case u8_try_from (clear_len (nk_kind ?ks)) of Some n \<Rightarrow> n | None \<Rightarrow> 16) else 16"
  have len: "?len = clear_octets session (nk_kind ?ks)"
    by (cases "nk_kind ?ks") (simp_all add: u8_try_from_def clear_octets_def)
  obtain t b where s: "s = (t, b)" by (cases s)
  from assms obtain e m d ke km kd b1 b2 b3 b4 b5 b6 capdu echo where
    r: "?enc (nk_enc ?ks) b = (Inr e, b1)" "?enc (nk_mac ?ks) b1 = (Inr m, b2)" "?enc (nk_dek ?ks) b2 = (Inr d, b3)"
      "b_compute_kcv B (nk_enc ?ks) b3 = (Inr ke, b4)" "b_compute_kcv B (nk_mac ?ks) b4 = (Inr km, b5)"
      "b_compute_kcv B (nk_dek ?ks) b5 = (Inr kd, b6)"
    and c: "put_key P1_ADD (psk_new_kvn args) [make_key_block ?type e ke ?len, make_key_block ?type m km ?len,
        make_key_block ?type d kd ?len] = Inr capdu"
    and x: "transmit_in_session T B session capdu (t, b6) = (Inr (echo, SW_OK), s')"
    unfolding put_sd_keys_def Let_def encrypt_key_eq s
    by (auto simp: success_simps backend_Inr split del: if_split)
  have keys: "each ?enc (new_key_handles args) (snd s) = (Inr [e, m, d], b3)"
    "each (b_compute_kcv B) (new_key_handles args) b3 = (Inr [ke, km, kd], b6)"
    using r by (simp_all add: new_key_handles_def bindP_def s)
  have cmd: "put_key 0x00 (psk_new_kvn args) (map2 (\<lambda>blob kcv.
       \<lparr>kb_key_type = if ses_protocol session = ProtoScp03 then 0x88 else 0x80, kb_encrypted_key = blob, kb_kcv = kcv,
         kb_clear_key_len = clear_octets session (nk_kind ?ks)\<rparr>) [e, m, d] [ke, km, kd]) = Inr capdu"
    using c unfolding len make_key_block_def KEYS_TYPE_AES_def KEYS_TYPE_3DES_def P1_ADD_def by simp
  have "transmit_in_session T B session capdu (fst s, b6) = (Inr (echo, 0x9000), s')" using x by (simp add: s SW_OK_def)
  with keys cmd show ?thesis unfolding keys_accepted_def by blast
qed


definition demo_put_keys :: put_sd_keys_args where
  "demo_put_keys = \<lparr>psk_dek = 0, psk_new_keys = \<lparr>nk_enc = 0, nk_mac = 0, nk_dek = 0, nk_kind = KindAes128\<rparr>,
     psk_new_kvn = 0x30, psk_target_sd_aid = [0xA0, 0, 0, 0, 3]\<rparr>"

text \<open>A card that answers every command with the given octets.\<close>

definition fixed_card :: "bytes \<Rightarrow> bytes list transport" where
  "fixed_card r = ok_card\<lparr>t_transmit := \<lambda>c log. (Inr r, log @ [c])\<rparr>"


text \<open>The install parameters an applet is given: its own under \<open>C9\<close>, then the system ones under \<open>EF\<close>.\<close>

definition install_params :: "bytes \<Rightarrow> bytes \<Rightarrow> bytes" where
  "install_params app sys = 0xC9 # lv app @ (if sys = [] then [] else 0xEF # lv sys)"

lemma push_tlv_eq:
  "push_tlv cap out tag val = (if length val < 256 \<and> length out + 2 + length val \<le> cap
     then Inr (out @ tag # lv val) else Inl (Build BuildOverflow))"
proof (cases "length val < 256 \<and> length out + 2 + length val \<le> cap")
  case True
  then show ?thesis by (simp add: push_tlv_def u8_try_from_def vec_push_def vec_extend_def lv_def)
next
  case False
  then show ?thesis by (auto simp: push_tlv_def u8_try_from_def vec_push_def vec_extend_def)
qed

lemma build_install_params_eq:
  "build_install_params app sys = (if length (install_params app sys) \<le> 255 then Inr (install_params app sys)
     else Inl (Build BuildOverflow))"
  by (auto simp: build_install_params_def push_tlv_eq install_params_def limit_simps lv_def
      TAG_C9_APP_PARAMS_def TAG_EF_SYS_PARAMS_def)

definition install_capdu :: "bytes \<Rightarrow> bytes \<Rightarrow> bytes \<Rightarrow> privileges \<Rightarrow> priv_len \<Rightarrow> bytes \<Rightarrow> capdu" where
  "install_capdu elf module inst privs pl params =
     short_apdu 0x84 0xE6 0x0C 0x00 (concat (map lv [elf, module, inst, privileges_field privs pl, params, []])) True"

lemma install_capdu_le:
  "length (install_capdu e m i p pl x) \<le> 261 \<longleftrightarrow>
     length (concat (map lv [e, m, i, privileges_field p pl, x, []])) \<le> 255"
  by (auto simp: install_capdu_def short_apdu_def lv_def)

lemma copy_bounded_Inr: "copy_bounded n x = Inr y \<longleftrightarrow> length x \<le> n \<and> y = x"
  by (auto simp: copy_bounded_def)



text \<open>The ELF is deleted after the instance on these policies, when its AID is given.\<close>

definition elf_to_delete :: "delete_applet_args \<Rightarrow> bytes option" where
  "elf_to_delete args = (if daa_cascade_elf args = Always \<or> daa_cascade_elf args = IfLastInstance then daa_elf_aid args else None)"

definition delete_capdu :: "bytes \<Rightarrow> capdu" where
  "delete_capdu aid = short_apdu 0x84 0xE4 0x00 0x00 (0x4F # lv aid) True"

text \<open>Deleting an applet. \<open>delete_applet\<close> succeeds exactly when the AIDs are valid and the card answers
  \<open>9000\<close> to DELETE of the instance and then, only for the policies \<open>Always\<close> and \<open>IfLastInstance\<close> with an
  ELF given, to a second DELETE of that ELF, neither with the cascade bit; the report lists exactly
  what was deleted. The policy \<open>Cascade\<close> deletes the instance only.\<close>

theorem delete_applet_success:
  "delete_applet T B session args s = (Inr rep, s') \<longleftrightarrow>
     aid_bytes_ok (daa_instance_aid args)
     \<and> (\<exists>d s1. transmit_in_session T B session (delete_capdu (daa_instance_aid args)) s = (Inr (d, SW_OK), s1)
        \<and> (case elf_to_delete args of
            None \<Rightarrow> s' = s1
          | Some elf \<Rightarrow> aid_bytes_ok elf
              \<and> (\<exists>d. transmit_in_session T B session (delete_capdu elf) s1 = (Inr (d, SW_OK), s'))))
     \<and> rep = \<lparr>dor_target_aid = Aid (daa_instance_aid args), dor_target_kind = AppletInstance,
          dor_cascade_requested = daa_cascade_elf args, dor_cascade_used = (elf_to_delete args \<noteq> None),
          dor_instances_removed = [Aid (daa_instance_aid args)],
          dor_elfs_removed = (case elf_to_delete args of None \<Rightarrow> [] | Some elf \<Rightarrow> [Aid elf])\<rparr>"
proof -
  have sw: "SW_OK \<noteq> SW_REF_NOT_FOUND" by (simp add: sw_consts)
  have elf: "cascade_elf T B session args s1 = (Inr r, s2) \<longleftrightarrow>
      (case elf_to_delete args of
         None \<Rightarrow> s2 = s1 \<and> r = ([], False)
       | Some e \<Rightarrow> aid_bytes_ok e \<and> (\<exists>d. transmit_in_session T B session (delete_capdu e) s1 = (Inr (d, SW_OK), s2))
           \<and> r = ([Aid e], True))" for s1 s2 r
    by (cases s2; cases "daa_elf_aid args")
      (auto simp: cascade_elf_def elf_to_delete_def success_simps delete_object_eq delete_capdu_def aid_bytes_ok_def
        split: if_splits)
  show ?thesis
    unfolding delete_applet_def
    apply (simp only: success_simps map_err_eq_Inr delete_object_eq aid_new_Inr elf)
    using sw by (cases s'; cases "elf_to_delete args") (auto simp: delete_capdu_def aid_bytes_ok_def split: if_splits)
qed

end
