(* ===== verification/Scll_Load.thy ===== *)
theory Scll_Load
  imports Scll_Lfdb Scll_Provision Scll_Replay
begin

text \<open>
  \<open>load_package\<close> of \<open>workflow/ssd.rs\<close>: parse the CAP file, INSTALL [for Load], and stream the Load
  File Data Block through LOAD commands.

  The state is that of the other workflows paired with the inflate context the caller lends.
\<close>

section \<open>The program\<close>

definition MAX_LOAD_BYTES :: usize where "MAX_LOAD_BYTES = 256 * LOAD_BLOCK_DATA"

record load_package_args =
  lpa_target_sd_aid :: bytes
  lpa_cap_zip :: bytes
  lpa_lfdb_hash :: bytes

record load_package_report =
  lpr_package_aid :: aid
  lpr_load_file_size :: u32
  lpr_hash_value :: bytes
  lpr_block_count :: u16
  lpr_target_sd_aid :: aid

text \<open>The LOAD loop, which returns the number of blocks sent. It ends for every transport, backend and
  decompressor: a block that is not the last adds at least one octet to \<open>sent\<close>.\<close>

function load_loop ::
    "'t transport \<Rightarrow> 'b backend_ops \<Rightarrow> scp_session \<Rightarrow> 'd miniz \<Rightarrow> usize \<Rightarrow> usize \<Rightarrow> u8 \<Rightarrow> u16 \<Rightarrow> lfdb \<Rightarrow>
     ('t \<times> 'b) \<times> 'd inflate_ctx \<Rightarrow> (scll_error + u16) \<times> (('t \<times> 'b) \<times> 'd inflate_ctx)" where
  "load_loop T B session M tot sent block_no blocks_sent lfdb (s, infl) =
    (case next_block M LOAD_BLOCK_DATA (lfdb, infl) of
       (Inl e, (lfdb', infl')) \<Rightarrow> (Inl (Cap e), (s, infl'))
     | (Inr out, (lfdb', infl')) \<Rightarrow>
         if out = [] then (Inr blocks_sent, (s, infl'))
         else
           let sent' = sent + length out;
               is_last = (sent' \<ge> tot) in
           (case load_block block_no is_last out of
              Inl e \<Rightarrow> (Inl (Build e), (s, infl'))
            | Inr capdu \<Rightarrow>
                (case transmit_in_session T B session capdu s of
                   (Inl e, s') \<Rightarrow> (Inl e, (s', infl'))
                 | (Inr (ld, lsw), s') \<Rightarrow>
                     if lsw \<noteq> SW_OK then (Inl (from_general_sw lsw), (s', infl'))
                     else if is_last then (Inr (blocks_sent + 1), (s', infl'))
                     else load_loop T B session M tot sent' (block_no + 1) (blocks_sent + 1) lfdb' (s', infl'))))"
  by pat_completeness auto

termination load_loop
proof (relation "measure (\<lambda>(T, B, session, M, tot, sent, block_no, blocks_sent, lfdb, s, infl). tot - sent)", goal_cases)
  case (2 T B session M tot sent block_no blocks_sent lfdb s infl r st out lfdb' infl' sent' is_last)
  then have "0 < length out" "sent' = sent + length out" "sent' < tot" by simp_all
  then have "tot - sent' < tot - sent" by linarith
  then show ?case by simp
qed simp

declare load_loop.simps [simp del]

definition load_package ::
    "'t transport \<Rightarrow> 'b backend_ops \<Rightarrow> scp_session \<Rightarrow> 'd miniz \<Rightarrow> load_package_args \<Rightarrow>
     (('t \<times> 'b) \<times> 'd inflate_ctx, scll_error, load_package_report) prog" where
  "load_package T B parent_session M args =
     bindP (on_snd (map_errP Cap (parse_cap M (lpa_cap_zip args)))) (\<lambda>cap.
     let package_aid = cf_package_aid cap;
         tot = lfdb_len (cap_lfdb cap) in
     if tot > MAX_LOAD_BYTES then throw LoadTooLarge
     else
       bindP (liftR (map_err Build (install_for_load (as_bytes package_aid) (lpa_target_sd_aid args)
         (lpa_lfdb_hash args)))) (\<lambda>install.
       bindP (on_fst (transmit_in_session T B parent_session install)) (\<lambda>(d, sw).
       if sw = SW_REF_NOT_FOUND then throw ResidentSdNotFound
       else if sw = SW_WRONG_DATA then throw PackageAidExists
       else if sw \<noteq> SW_OK then throw (from_general_sw sw)
       else
         bindP (\<lambda>(s, infl).
           load_loop T B parent_session M tot 0 0 0 (cap_lfdb cap) (s, infl_reset M infl)) (\<lambda>blocks_sent.
         bindP (liftR (copy_bounded HASH_MAX (lpa_lfdb_hash args))) (\<lambda>hash.
         bindP (liftR (aid_new (lpa_target_sd_aid args))) (\<lambda>target.
         ret \<lparr>lpr_package_aid = package_aid,
           lpr_load_file_size = (if tot < 2 ^ 32 then of_nat tot else - 1),
           lpr_hash_value = hash, lpr_block_count = blocks_sent, lpr_target_sd_aid = target\<rparr>))))))"

section \<open>What the card is sent\<close>

text \<open>The LOAD commands for a stream, numbered from \<open>k\<close>: full blocks, and only the last one marked.\<close>

function load_commands :: "nat \<Rightarrow> bytes \<Rightarrow> capdu list" where
  "load_commands k stream =
    (if stream = [] then []
     else short_apdu 0x84 0xE8 (if length stream \<le> LOAD_BLOCK_DATA then 0x80 else 0x00) (of_nat k)
            (take LOAD_BLOCK_DATA stream) True
          # load_commands (k + 1) (drop LOAD_BLOCK_DATA stream))"
  by pat_completeness auto

termination load_commands
  by (relation "measure (\<lambda>(k, stream). length stream)") (auto simp: limit_simps)

declare load_commands.simps [simp del]

text \<open>Sending commands one after the other, until one is not answered with \<open>9000\<close>.\<close>

primrec send_commands ::
    "(bytes \<Rightarrow> ('s, scll_error, bytes \<times> u16) prog) \<Rightarrow> capdu list \<Rightarrow> ('s, scll_error, unit) prog" where
  "send_commands send [] = ret ()"
| "send_commands send (c # cs) =
     bindP (send c) (\<lambda>(d, sw). if sw \<noteq> SW_OK then throw (from_general_sw sw) else send_commands send cs)"

definition script_of ::
    "(bytes \<Rightarrow> ('s, scll_error, bytes \<times> u16) prog) \<Rightarrow> capdu \<Rightarrow> capdu list \<Rightarrow> ('s, scll_error, unit) prog" where
  "script_of send install cmds =
     bindP (send install) (\<lambda>(d, sw).
     if sw = SW_REF_NOT_FOUND then throw ResidentSdNotFound
     else if sw = SW_WRONG_DATA then throw PackageAidExists
     else if sw \<noteq> SW_OK then throw (from_general_sw sw)
     else send_commands send cmds)"

definition load_script ::
    "(bytes \<Rightarrow> ('s, scll_error, bytes \<times> u16) prog) \<Rightarrow> capdu \<Rightarrow> bytes \<Rightarrow> ('s, scll_error, unit) prog" where
  "load_script send install stream = script_of send install (load_commands 0 stream)"

lemma load_commands_length: "length (load_commands k stream) = (length stream + 222) div 223"
proof (induction k stream rule: load_commands.induct)
  case (1 k stream)
  show ?case
  proof (cases "stream = []")
    case True
    then show ?thesis by (simp add: load_commands.simps)
  next
    case False
    have "(length stream + 222) div 223 = Suc ((length stream - 223 + 222) div 223)"
    proof (cases "223 \<le> length stream")
      case True
      then have "length stream + 222 = 223 + (length stream - 223 + 222)" by simp
      then show ?thesis by (metis add_Suc_right add_0_right div_add_self1 plus_1_eq_Suc semiring_1_class.of_nat_simps(1) zero_neq_numeral add.commute)
    next
      case False
      then have "length stream + 222 = 223 + (length stream - 1)" "length stream - 1 < 223" "length stream - 223 = 0"
        using \<open>stream \<noteq> []\<close> by (auto simp: Suc_le_eq)
      then show ?thesis by simp
    qed
    then show ?thesis using 1 [OF False] False by (subst load_commands.simps) (simp add: limit_simps)
  qed
qed

lemma load_loop_sends:
  assumes "lfdb_ok M cs lfdb infl" "tot = sent + length (lfdb_rest cs lfdb)" "lfdb_rest cs lfdb \<noteq> []"
  shows "\<exists>infl'. load_loop T B session M tot sent (of_nat k) blocks_sent lfdb (s, infl) =
    (case send_commands (transmit_in_session T B session) (load_commands k (lfdb_rest cs lfdb)) s of
       (Inl e, s') \<Rightarrow> (Inl e, (s', infl'))
     | (Inr u, s') \<Rightarrow> (Inr (blocks_sent + of_nat (length (load_commands k (lfdb_rest cs lfdb)))), (s', infl')))"
  using assms
proof (induction "length (lfdb_rest cs lfdb)" arbitrary: lfdb infl sent k blocks_sent s rule: less_induct)
  case less
  let ?rest = "lfdb_rest cs lfdb" let ?out = "take LOAD_BLOCK_DATA ?rest"
  let ?send = "transmit_in_session T B session"
  from next_block_ok [OF less.prems(1), of LOAD_BLOCK_DATA] obtain lfdb' infl' where
    nb: "next_block M LOAD_BLOCK_DATA (lfdb, infl) = (Inr ?out, (lfdb', infl'))" and ok': "lfdb_ok M cs lfdb' infl'"
    and rest': "lfdb_rest cs lfdb' = drop LOAD_BLOCK_DATA ?rest" by blast
  have out: "?out \<noteq> []" "length ?out \<le> 255" using less.prems(3) by (auto simp: limit_simps)
  let ?last = "length ?rest \<le> LOAD_BLOCK_DATA"
  have last: "(sent + length ?out \<ge> tot) = ?last" using less.prems(2) by (auto simp: min_def)
  define c where "c = short_apdu 0x84 0xE8 (if ?last then 0x80 else 0x00) (of_nat k) ?out True"
  have lb: "load_block (of_nat k) ?last ?out = Inr c" using out(2) by (simp only: load_block_eq if_True c_def)
  have cmds: "load_commands k ?rest = c # load_commands (k + 1) (lfdb_rest cs lfdb')"
    using less.prems(3) unfolding rest' by (subst load_commands.simps) (simp add: c_def)
  obtain r s1 where tr: "?send c s = (r, s1)" by (cases "?send c s")
  have step: "load_loop T B session M tot sent (of_nat k) blocks_sent lfdb (s, infl) =
      (case r of Inl e \<Rightarrow> (Inl e, (s1, infl'))
       | Inr (ld, lsw) \<Rightarrow> if lsw \<noteq> SW_OK then (Inl (from_general_sw lsw), (s1, infl'))
           else if ?last then (Inr (blocks_sent + 1), (s1, infl'))
           else load_loop T B session M tot (sent + length ?out) (of_nat k + 1) (blocks_sent + 1) lfdb' (s1, infl'))"
    by (subst load_loop.simps)
      (simp only: nb out last lb tr Let_def prod.case sum.case if_False split: sum.split prod.split)
  show ?case
  proof (cases r)
    case (Inl e)
    then show ?thesis unfolding step cmds by (simp add: bindP_def tr)
  next
    case (Inr a)
    obtain ld lsw where a: "a = (ld, lsw)" by (cases a)
    show ?thesis
    proof (cases "lsw = SW_OK")
      case False
      then show ?thesis unfolding step cmds using Inr a by (simp add: bindP_def tr)
    next
      case ok: True
      show ?thesis
      proof (cases ?last)
        case True
        then have "lfdb_rest cs lfdb' = []" unfolding rest' by simp
        then have "load_commands (k + 1) (lfdb_rest cs lfdb') = []" by (simp add: load_commands.simps)
        then show ?thesis unfolding step cmds using Inr a ok True by (simp add: bindP_def tr)
      next
        case False
        have shorter: "length (lfdb_rest cs lfdb') < length ?rest" using False unfolding rest' by (simp add: limit_simps)
        have tot: "tot = sent + length ?out + length (lfdb_rest cs lfdb')"
          using less.prems(2) False unfolding rest' by (simp add: min_def)
        have ne: "lfdb_rest cs lfdb' \<noteq> []" using False unfolding rest' by simp
        from less.hyps [OF shorter ok' tot ne, of "k + 1" "blocks_sent + 1" s1] obtain infl2 where
          ih: "load_loop T B session M tot (sent + length ?out) (of_nat (k + 1)) (blocks_sent + 1) lfdb' (s1, infl') =
            (case send_commands ?send (load_commands (k + 1) (lfdb_rest cs lfdb')) s1 of
               (Inl e, s') \<Rightarrow> (Inl e, (s', infl2))
             | (Inr u, s') \<Rightarrow> (Inr (blocks_sent + 1 + of_nat (length (load_commands (k + 1) (lfdb_rest cs lfdb')))), (s', infl2)))"
          by blast
        have k1: "(of_nat k + 1 :: u8) = of_nat (k + 1)" by simp
        define cmds1 where "cmds1 = load_commands (k + 1) (lfdb_rest cs lfdb')"
        obtain r2 s2 where sc: "send_commands ?send cmds1 s1 = (r2, s2)" by (cases "send_commands ?send cmds1 s1")
        have full: "send_commands ?send (c # cmds1) s = (r2, s2)" using Inr a ok by (simp add: bindP_def tr sc)
        have cnt: "blocks_sent + 1 + of_nat (length cmds1) = blocks_sent + of_nat (length (c # cmds1))" by simp
        have "load_loop T B session M tot sent (of_nat k) blocks_sent lfdb (s, infl) =
            load_loop T B session M tot (sent + length ?out) (of_nat (k + 1)) (blocks_sent + 1) lfdb' (s1, infl')"
          unfolding step k1 Inr a using ok False by (simp only: sum.case prod.case if_False) simp
        then show ?thesis unfolding ih cmds cmds1_def [symmetric] full sc cnt by blast
      qed
    qed
  qed
qed

text \<open>A \<open>load_package\<close> whose LOAD loop sends a list of commands is the script of these commands.\<close>

lemma load_package_script:
  assumes parse: "parse_cap M (lpa_cap_zip args) infl = (Inr cap, infl1)"
    and tot: "lfdb_len (cap_lfdb cap) \<le> MAX_LOAD_BYTES"
    and args: "install_for_load (as_bytes (cf_package_aid cap)) (lpa_target_sd_aid args) (lpa_lfdb_hash args) = Inr install"
      "length (lpa_lfdb_hash args) \<le> HASH_MAX" "aid_new (lpa_target_sd_aid args) = Inr target"
    and loop: "\<And>s1. \<exists>infl'. load_loop T B session M (lfdb_len (cap_lfdb cap)) 0 0 0 (cap_lfdb cap) (s1, infl_reset M infl1) =
      (case send_commands (transmit_in_session T B session) cmds s1 of
         (Inl e, s') \<Rightarrow> (Inl e, (s', infl'))
       | (Inr u, s') \<Rightarrow> (Inr n, (s', infl')))"
  shows "\<exists>infl'. load_package T B session M args (s, infl) =
    (case script_of (transmit_in_session T B session) install cmds s of
       (Inl e, s') \<Rightarrow> (Inl e, (s', infl'))
     | (Inr u, s') \<Rightarrow> (Inr \<lparr>lpr_package_aid = cf_package_aid cap,
         lpr_load_file_size = of_nat (lfdb_len (cap_lfdb cap)), lpr_hash_value = lpa_lfdb_hash args,
         lpr_block_count = n, lpr_target_sd_aid = target\<rparr>, (s', infl')))"
proof -
  let ?send = "transmit_in_session T B session" let ?l = "cap_lfdb cap"
  have tot32: "lfdb_len ?l \<le> 57088" using tot by (simp add: MAX_LOAD_BYTES_def limit_simps)
  have copy: "copy_bounded HASH_MAX (lpa_lfdb_hash args) = Inr (lpa_lfdb_hash args)"
    using args(2) by (simp add: copy_bounded_def limit_simps)
  have p: "on_snd (map_errP Cap (parse_cap M (lpa_cap_zip args))) (s, infl) = (Inr cap, (s, infl1))"
    using parse by simp
  have pre: "load_package T B session M args (s, infl) =
      bindP (on_fst (?send install)) (\<lambda>(d, sw).
       if sw = SW_REF_NOT_FOUND then throw ResidentSdNotFound
       else if sw = SW_WRONG_DATA then throw PackageAidExists
       else if sw \<noteq> SW_OK then throw (from_general_sw sw)
       else bindP (\<lambda>(s, infl). load_loop T B session M (lfdb_len ?l) 0 0 0 ?l (s, infl_reset M infl)) (\<lambda>blocks_sent.
         ret \<lparr>lpr_package_aid = cf_package_aid cap, lpr_load_file_size = of_nat (lfdb_len ?l),
           lpr_hash_value = lpa_lfdb_hash args, lpr_block_count = blocks_sent, lpr_target_sd_aid = target\<rparr>)) (s, infl1)"
    using tot args(1) tot32 unfolding load_package_def
    by (subst bindP_apply(1) [where m = "on_snd (map_errP Cap (parse_cap M (lpa_cap_zip args)))", OF p]) (simp add: Let_def copy args(3) ret_def cong: if_cong del: aid_new_Inr)
  obtain r1 s1 where i: "?send install s = (r1, s1)" by (cases "?send install s")
  obtain infl2 where l2: "load_loop T B session M (lfdb_len ?l) 0 0 0 ?l (s1, infl_reset M infl1) =
      (case send_commands ?send cmds s1 of (Inl e, s') \<Rightarrow> (Inl e, (s', infl2)) | (Inr u, s') \<Rightarrow> (Inr n, (s', infl2)))"
    using loop by blast
  obtain r2 s2 where sc: "send_commands ?send cmds s1 = (r2, s2)" by (cases "send_commands ?send cmds s1")
  show ?thesis
  proof (cases "\<exists>d. r1 = Inr (d, SW_OK)")
    case True
    then show ?thesis unfolding pre script_of_def
      by (intro exI [of _ "infl2"]) (auto simp: bindP_def i l2 sc sw_consts split: sum.splits)
  next
    case False
    then show ?thesis unfolding pre script_of_def
      by (intro exI [of _ "infl1"]) (auto simp: bindP_def i split: sum.splits)
  qed
qed

text \<open>The framed Load File Data Block of a file with the given component contents.\<close>

definition load_stream :: "bytes list \<Rightarrow> bytes" where
  "load_stream cs = header_rest (lfdb_header_new (length (concat cs))) @ concat cs"

text \<open>C5: loading is sending the right commands. For a CAP file that parses, whose components have the
  declared sizes and fit the budget, \<open>load_package\<close> over any transport, backend and decompressor is
  the script: INSTALL [for Load], then the file's Load File Data Block (the tag \<open>C4\<close>, its BER length
  and the components in order) cut into LOAD commands of \<open>LOAD_BLOCK_DATA\<close> octets numbered from 0, at
  most 256 of them so that the numbers do not wrap, only the last one marked as last. The script
  stops at the first answer that is not \<open>9000\<close>, with the error of its status word. The report counts
  the blocks.\<close>

theorem load_package_sends:
  assumes "parse_cap M (lpa_cap_zip args) infl = (Inr cap, infl1)"
    "cap_contents M (cf_zip cap) (cf_locs cap) cs" "length (ic_window infl1) = INFLATE_WINDOW"
    "lfdb_len (cap_lfdb cap) \<le> MAX_LOAD_BYTES"
    "install_for_load (as_bytes (cf_package_aid cap)) (lpa_target_sd_aid args) (lpa_lfdb_hash args) = Inr install"
    "length (lpa_lfdb_hash args) \<le> HASH_MAX" "aid_new (lpa_target_sd_aid args) = Inr target"
  shows "\<exists>len infl'. load_stream cs = 0xC4 # len @ concat cs \<and> ber_len len = Some (length (concat cs))
    \<and> length (load_commands 0 (load_stream cs)) \<le> 256
    \<and> load_package T B session M args (s, infl) =
      (case load_script (transmit_in_session T B session) install (load_stream cs) s of
         (Inl e, s') \<Rightarrow> (Inl e, (s', infl'))
       | (Inr u, s') \<Rightarrow> (Inr \<lparr>lpr_package_aid = cf_package_aid cap,
           lpr_load_file_size = of_nat (lfdb_len (cap_lfdb cap)), lpr_hash_value = lpa_lfdb_hash args,
           lpr_block_count = of_nat (length (load_commands 0 (load_stream cs))),
           lpr_target_sd_aid = target\<rparr>, (s', infl')))"
proof -
  let ?send = "transmit_in_session T B session" let ?l = "cap_lfdb cap"
  have tot: "lfdb_len ?l \<le> 57088" using assms(4) by (simp add: MAX_LOAD_BYTES_def limit_simps)
  have w: "length (ic_window (infl_reset M infl1)) = INFLATE_WINDOW" using assms(3) by (simp add: infl_reset_def)
  note st = lfdb_start [OF assms(2) w]
  have "length (concat cs) < 2 ^ 24" using tot unfolding st(3) st(2) by simp
  from lfdb_header_rest [OF this] obtain len where len: "header_rest (lfdb_header_new (length (concat cs))) = 0xC4 # len"
    "ber_len len = Some (length (concat cs))" by blast
  define stream where "stream = load_stream cs"
  have str: "stream = 0xC4 # len @ concat cs" by (simp add: stream_def load_stream_def len(1))
  have r: "lfdb_rest cs ?l = stream" unfolding st(2) stream_def load_stream_def ..
  have n: "length (load_commands 0 stream) \<le> 256" using tot unfolding st(3) r load_commands_length by simp
  have ne: "lfdb_rest cs ?l \<noteq> []" unfolding r str by simp
  have loop: "\<exists>infl'. load_loop T B session M (lfdb_len ?l) 0 0 0 ?l (s1, infl_reset M infl1) =
      (case send_commands ?send (load_commands 0 stream) s1 of
         (Inl e, s') \<Rightarrow> (Inl e, (s', infl'))
       | (Inr u, s') \<Rightarrow> (Inr (of_nat (length (load_commands 0 stream))), (s', infl')))" for s1
    using load_loop_sends [OF st(1) _ ne, of "lfdb_len ?l" 0 T B session 0 0 s1, unfolded add_0 of_nat_0]
      st(3) unfolding r by simp
  from load_package_script [OF assms(1,4-7) loop] show ?thesis
    using len(2) n str unfolding stream_def load_script_def by blast
qed

definition demo_load_args :: load_package_args where
  "demo_load_args = \<lparr>lpa_target_sd_aid = [0xA0, 0, 0, 0, 3], lpa_cap_zip = demo_cap, lpa_lfdb_hash = []\<rparr>"

definition demo_stored :: cap_file where
  "demo_stored = demo_file\<lparr>cf_locs := demo_locs, cf_components := demo_components\<lparr>cc_applets := [demo_applet]\<rparr>\<rparr>"

lemma read_component_stored:
  assumes "cl_method loc = METHOD_STORED" "cl_data_off loc + cl_comp_size loc \<le> length z" "length z < 2 ^ 64"
    "cl_comp_size loc \<le> length (ic_window infl)"
  shows "\<exists>win. read_component M z loc infl = (Inr (comp_input z loc), infl\<lparr>ic_window := win\<rparr>) \<and> length win = length (ic_window infl)"
  using assms by (auto simp: read_component_def bindP_def checked_add_def Let_def comp_input_def)

text \<open>The example file parses, whatever its directory says of the size of the stored \<open>Applet.cap\<close>.\<close>

lemma parse_stored:
  assumes w: "walk_zip z = Inr (demo_locs[3 := Some \<lparr>cl_method = 0, cl_data_off = 104, cl_comp_size = 15, cl_uncomp_size = n\<rparr>])"
    and z: "length z = 257" "take 119 z = take 119 demo_cap"
  shows "\<exists>infl. parse_cap copying z (inflate_new copying) = (Inr (demo_stored\<lparr>cf_zip := z,
      cf_locs := demo_locs[3 := Some \<lparr>cl_method = 0, cl_data_off = 104, cl_comp_size = 15, cl_uncomp_size = n\<rparr>]\<rparr>), infl)
    \<and> length (ic_window infl) = INFLATE_WINDOW"
proof -
  let ?h = "\<lparr>cl_method = 0, cl_data_off = 42, cl_comp_size = 20, cl_uncomp_size = 20\<rparr> :: comp_loc"
  let ?a = "\<lparr>cl_method = 0, cl_data_off = 104, cl_comp_size = 15, cl_uncomp_size = n\<rparr> :: comp_loc"
  let ?i0 = "inflate_new copying" let ?locs = "demo_locs[3 := Some ?a]"
  have w0: "length (ic_window ?i0) = 32768" by (simp add: inflate_new_def limit_simps)
  have part: "take k (drop m z) = take k (drop m demo_cap)" if "m + k \<le> 119" for k m
    using z(2) that by (metis add.commute min.absorb1 take_drop take_take)
  have ih: "comp_input z ?h = comp_input demo_cap ?h" "comp_input z ?a = take 15 (drop 104 demo_cap)"
    using part [of 42 20] part [of 104 15] by (simp_all add: comp_input_def)
  obtain w1 where r1: "read_component copying z ?h ?i0 = (Inr (comp_input demo_cap ?h), ?i0\<lparr>ic_window := w1\<rparr>)"
      "length w1 = 32768" using read_component_stored [of ?h z ?i0 copying] w0 z(1) ih by (auto simp: METHOD_STORED_def)
  obtain w2 where r2: "read_component copying z ?a (?i0\<lparr>ic_window := w1\<rparr>) = (Inr (take 15 (drop 104 demo_cap)), ?i0\<lparr>ic_window := w2\<rparr>)"
      "length w2 = 32768" using read_component_stored [of ?a z "?i0\<lparr>ic_window := w1\<rparr>" copying] r1(2) z(1) ih
    by (auto simp: METHOD_STORED_def)
  have h: "parse_header (comp_input demo_cap ?h) = Inr (cf_package_aid demo_file, (2, 1, 0))" by code_simp
  have a: "parse_applets (take 15 (drop 104 demo_cap)) demo_components = Inr (demo_components\<lparr>cc_applets := [demo_applet]\<rparr>)"
    by code_simp
  have l: "?locs ! IDX_HEADER = Some ?h" "?locs ! IDX_IMPORT = None" "?locs ! IDX_APPLET = Some ?a"
    by (simp_all add: demo_locs_def IDX_HEADER_def IDX_IMPORT_def IDX_APPLET_def LFDB_COMPONENTS_def)
  have "parse_cap copying z ?i0 = (Inr (demo_stored\<lparr>cf_zip := z, cf_locs := ?locs\<rparr>), infl_reset copying (?i0\<lparr>ic_window := w2\<rparr>))"
    using a by (simp add: parse_cap_def w l bindP_def r1 r2 h demo_components_def demo_stored_def demo_file_def)
  then show ?thesis using r2(2) by (simp add: infl_reset_def limit_simps)
qed

lemma parse_demo_cap:
  "\<exists>infl. parse_cap copying demo_cap (inflate_new copying) = (Inr demo_stored, infl) \<and> length (ic_window infl) = INFLATE_WINDOW"
proof -
  have l: "demo_locs[3 := Some \<lparr>cl_method = 0, cl_data_off = 104, cl_comp_size = 15, cl_uncomp_size = 15\<rparr>] = demo_locs"
    by (simp add: demo_locs_def)
  have "length demo_cap = 257" by (simp add: demo_cap_def)
  from parse_stored [of _ 15, unfolded l, OF walk_demo_cap this refl] show ?thesis
    by (simp add: demo_stored_def demo_file_def)
qed

lemma demo_stored_contents: "cap_contents copying (cf_zip demo_stored) (cf_locs demo_stored) demo_contents"
proof -
  have "length demo_cap = 257" by (simp add: demo_cap_def)
  then show ?thesis
    by (auto simp: cap_contents_def demo_stored_def demo_file_def demo_locs_def demo_contents_def LFDB_COMPONENTS_def
        less_Suc_eq numeral_eq_Suc comp_content_def METHOD_DEFLATE_def comp_input_def copying_inflates)
qed

lemma load_package_sends_witness:
  "\<exists>report log infl'. load_package ok_card stub_ops stub_session copying demo_load_args (([], stub_default), inflate_new copying)
     = (Inr report, ((log, stub_default), infl')) \<and> lpr_block_count report = 1 \<and> map (\<lambda>c. take 4 c) log
       = [[0x84, 0xE6, 0x02, 0x00], [0x84, 0xE8, 0x80, 0x00]]"
proof -
  obtain infl where p: "parse_cap copying demo_cap (inflate_new copying) = (Inr demo_stored, infl)"
    "length (ic_window infl) = INFLATE_WINDOW" using parse_demo_cap by blast
  let ?install = "short_apdu 0x84 0xE6 0x02 0x00 (concat (map lv [[0xA0, 0, 0, 0, 0x62, 3, 1], [0xA0, 0, 0, 0, 3], [], [], []])) True"
  have i: "install_for_load (as_bytes (cf_package_aid demo_stored)) (lpa_target_sd_aid demo_load_args) (lpa_lfdb_hash demo_load_args)
      = Inr ?install" by (simp add: install_for_load_eq demo_stored_def demo_file_def demo_load_args_def)
  have n: "lfdb_len (cap_lfdb demo_stored) \<le> MAX_LOAD_BYTES"
  proof -
    have "lfdb_len (cap_lfdb demo_stored) = 37" by code_simp
    then show ?thesis by (simp add: MAX_LOAD_BYTES_def limit_simps)
  qed
  have args: "lpa_cap_zip demo_load_args = demo_cap" "length (lpa_lfdb_hash demo_load_args) \<le> HASH_MAX"
    "aid_new (lpa_target_sd_aid demo_load_args) = Inr (Aid [0xA0, 0, 0, 0, 3])" by (simp_all add: demo_load_args_def)
  have script: "map_prod id (map (take 4) \<circ> fst) (load_script (transmit_in_session ok_card stub_ops stub_session) ?install
      (load_stream demo_contents) ([], stub_default)) = (Inr (), [[0x84, 0xE6, 0x02, 0x00], [0x84, 0xE8, 0x80, 0x00]])" by code_simp
  have cnt: "length (load_commands 0 (load_stream demo_contents)) = 1" by code_simp
  have snd: "snd (snd (load_script (transmit_in_session ok_card stub_ops stub_session) ?install
      (load_stream demo_contents) ([], stub_default))) = stub_default" by code_simp
  obtain log where s: "load_script (transmit_in_session ok_card stub_ops stub_session) ?install
      (load_stream demo_contents) ([], stub_default) = (Inr (), (log, stub_default))"
      "map (take 4) log = [[0x84, 0xE6, 0x02, 0x00], [0x84, 0xE8, 0x80, 0x00]]"
    using script snd by (cases "load_script (transmit_in_session ok_card stub_ops stub_session) ?install
      (load_stream demo_contents) ([], stub_default)") auto
  from load_package_sends [OF p(1) [folded args(1)] demo_stored_contents p(2) n i args(2,3), of ok_card stub_ops stub_session
      "([], stub_default)"] s cnt show ?thesis by auto
qed

section \<open>A file that ends early\<close>

text \<open>The blocks a reader delivers before it returns an empty one.\<close>

inductive runs_dry :: "'d miniz \<Rightarrow> lfdb \<times> 'd inflate_ctx \<Rightarrow> bytes list \<Rightarrow> bool" for M :: "'d miniz" where
  dry: "next_block M LOAD_BLOCK_DATA s = (Inr [], s') \<Longrightarrow> runs_dry M s []"
| more: "next_block M LOAD_BLOCK_DATA s = (Inr b, s') \<Longrightarrow> b \<noteq> [] \<Longrightarrow> runs_dry M s' bs \<Longrightarrow> runs_dry M s (b # bs)"

text \<open>The LOAD commands of these blocks: none is marked as the last one.\<close>

definition open_ended :: "nat \<Rightarrow> bytes list \<Rightarrow> capdu list" where
  "open_ended k bs = map (\<lambda>(i, b). short_apdu 0x84 0xE8 0x00 (of_nat i) b True) (enumerate k bs)"

lemma open_ended_simps:
  "open_ended k [] = []" "open_ended k (b # bs) = short_apdu 0x84 0xE8 0x00 (of_nat k) b True # open_ended (Suc k) bs"
  by (simp_all add: open_ended_def)

lemma load_loop_runs_dry:
  assumes "runs_dry M (l, infl) bs" "sent + length (concat bs) < tot"
  shows "\<exists>infl'. load_loop T B session M tot sent (of_nat k) blocks_sent l (s, infl) =
    (case send_commands (transmit_in_session T B session) (open_ended k bs) s of
       (Inl e, s') \<Rightarrow> (Inl e, (s', infl'))
     | (Inr u, s') \<Rightarrow> (Inr (blocks_sent + of_nat (length bs)), (s', infl')))"
  using assms
proof (induction "(l, infl)" bs arbitrary: l infl sent k blocks_sent s rule: runs_dry.induct)
  case (dry s')
  then show ?case by (subst load_loop.simps) (cases s', auto simp: open_ended_simps ret_def)
next
  case (more b s' bs)
  obtain l1 infl1 where s': "s' = (l1, infl1)" by (cases s')
  let ?send = "transmit_in_session T B session" let ?c = "short_apdu 0x84 0xE8 0x00 (of_nat k) b True"
  have b: "length b \<le> 255" using next_block_length [OF more(1)] by (simp add: limit_simps)
  have nl: "\<not> tot \<le> sent + length b" "sent + length b + length (concat bs) < tot" using more(5) by simp_all
  have lb: "load_block (of_nat k) False b = Inr ?c" using b by (simp only: load_block_eq if_True if_False)
  obtain r s1 where tr: "?send ?c s = (r, s1)" by (cases "?send ?c s")
  have step: "load_loop T B session M tot sent (of_nat k) blocks_sent l (s, infl) =
      (case r of Inl e \<Rightarrow> (Inl e, (s1, infl1))
       | Inr (ld, lsw) \<Rightarrow> if lsw \<noteq> SW_OK then (Inl (from_general_sw lsw), (s1, infl1))
           else load_loop T B session M tot (sent + length b) (of_nat (Suc k)) (blocks_sent + 1) l1 (s1, infl1))"
    by (subst load_loop.simps) (simp add: more(1,2) s' nl(1) lb tr add.commute split: sum.split)
  from more(4) [OF s' nl(2), of "Suc k" "blocks_sent + 1" s1] obtain infl2 where
    ih: "load_loop T B session M tot (sent + length b) (of_nat (Suc k)) (blocks_sent + 1) l1 (s1, infl1) =
      (case send_commands ?send (open_ended (Suc k) bs) s1 of
         (Inl e, s') \<Rightarrow> (Inl e, (s', infl2))
       | (Inr u, s') \<Rightarrow> (Inr (blocks_sent + 1 + of_nat (length bs)), (s', infl2)))" by blast
  have cnt: "blocks_sent + of_nat (length (b # bs)) = blocks_sent + 1 + of_nat (length bs)" by simp
  show ?case
  proof (cases "\<exists>ld. r = Inr (ld, SW_OK)")
    case True
    then show ?thesis unfolding cnt
      by (intro exI [of _ infl2]) (auto simp: step [unfolded of_nat_Suc] ih [unfolded of_nat_Suc] open_ended_simps bindP_def tr add.assoc split: sum.split)
  next
    case False
    then show ?thesis
      by (intro exI [of _ infl1]) (auto simp: step open_ended_simps bindP_def tr split: sum.splits)
  qed
qed

text \<open>C29: a load that ends early is reported as done. Take a CAP file that parses and fits the budget, but
  whose reader runs dry after some blocks that hold fewer octets than the stream was announced to have, because
  a stored component goes past the end of the file or a compressed one inflates to less than the directory
  says. Then \<open>load_package\<close>, over any transport, backend and decompressor, sends INSTALL [for Load] and
  these blocks in order, none of them marked as the last one, and when the card accepts them it returns success:
  the report gives the announced size as the size of the load file, and the number of blocks sent.\<close>

theorem load_stall_accepted:
  assumes "parse_cap M (lpa_cap_zip args) infl = (Inr cap, infl1)"
    "runs_dry M (cap_lfdb cap, infl_reset M infl1) bs" "length (concat bs) < lfdb_len (cap_lfdb cap)"
    "lfdb_len (cap_lfdb cap) \<le> MAX_LOAD_BYTES"
    "install_for_load (as_bytes (cf_package_aid cap)) (lpa_target_sd_aid args) (lpa_lfdb_hash args) = Inr install"
    "length (lpa_lfdb_hash args) \<le> HASH_MAX" "aid_new (lpa_target_sd_aid args) = Inr target"
  shows "\<exists>infl'. load_package T B session M args (s, infl) =
    (case script_of (transmit_in_session T B session) install
        (map (\<lambda>(i, b). short_apdu 0x84 0xE8 0x00 (of_nat i) b True) (enumerate 0 bs)) s of
       (Inl e, s') \<Rightarrow> (Inl e, (s', infl'))
     | (Inr u, s') \<Rightarrow> (Inr \<lparr>lpr_package_aid = cf_package_aid cap,
         lpr_load_file_size = of_nat (lfdb_len (cap_lfdb cap)), lpr_hash_value = lpa_lfdb_hash args,
         lpr_block_count = of_nat (length bs), lpr_target_sd_aid = target\<rparr>, (s', infl')))"
proof -
  have "\<exists>infl'. load_loop T B session M (lfdb_len (cap_lfdb cap)) 0 0 0 (cap_lfdb cap) (s1, infl_reset M infl1) =
    (case send_commands (transmit_in_session T B session) (open_ended 0 bs) s1 of
       (Inl e, s') \<Rightarrow> (Inl e, (s', infl'))
     | (Inr u, s') \<Rightarrow> (Inr (of_nat (length bs)), (s', infl')))" for s1
    using load_loop_runs_dry [OF assms(2), of 0 "lfdb_len (cap_lfdb cap)" T B session 0 0 s1, unfolded add_0 of_nat_0] assms(3)
    by simp
  from load_package_script [OF assms(1,4-7) this] show ?thesis unfolding open_ended_def .
qed

text \<open>The example file with a directory that claims 400 octets for \<open>Applet.cap\<close>, where the file has 153
  from its start on: the metadata are still read, from the 15 octets of the compressed size.\<close>

definition short_cap :: bytes where
  "short_cap = demo_cap[201 := 144, 202 := 1]"

abbreviation short_locs :: "comp_loc option list" where
  "short_locs \<equiv> demo_locs[3 := Some \<lparr>cl_method = 0, cl_data_off = 104, cl_comp_size = 15, cl_uncomp_size = 400\<rparr>]"

lemma walk_short_cap: "walk_zip short_cap = Inr short_locs"
proof -
  have "length short_cap = 257" by (simp add: short_cap_def demo_cap_def)
  moreover have "read_u32 short_cap 235 = Some SIG_EOCD" by code_simp
  ultimately have "find_eocd short_cap = Some 235"
    by (simp add: find_eocd_def EOCD_MIN_def) (subst find_eocd_from.simps, simp)
  moreover have "unat (word_of_le [short_cap ! (235 + 10), short_cap ! (235 + 11)] :: u16) = 2" by code_simp
  moreover have "map_option unat (read_u32 short_cap (235 + 16)) = Some 119" by code_simp
  moreover have "walk_entries short_cap 2 119 (replicate LFDB_COMPONENTS None) = Inr short_locs" by code_simp
  ultimately show ?thesis by (auto simp: walk_zip_def)
qed

definition short_file :: cap_file where
  "short_file = demo_stored\<lparr>cf_zip := short_cap, cf_locs := short_locs\<rparr>"

text \<open>The one block its reader delivers.\<close>

definition short_block :: bytes where
  "short_block = [0xC4, 0x82, 1, 164] @ window_slice short_cap 42 20 @ window_slice short_cap 104 153"

lemma short_runs_dry: "runs_dry copying (cap_lfdb short_file, infl) [short_block]"
proof -
  let ?h = "(lfdb_header_new 420)\<lparr>lh_emitted := 4\<rparr>"
  let ?l = "(cap_lfdb short_file)\<lparr>lf_header := ?h, lf_comp := 3, lf_cursor := cursor_new\<lparr>cu_emitted := 153\<rparr>\<rparr>"
  have z: "length short_cap = 257" by (simp add: short_cap_def demo_cap_def)
  have n: "locs_content_len (cf_locs short_file) = 420" by code_simp
  have w: "length (window_slice w a k) = k" for w a k by (simp add: window_slice_def)
  have e: "window_slice w a 0 = []" for w a by (simp add: window_slice_def)
  have ne: "window_slice w a 153 \<noteq> []" for w a using w [of w a 153] by (metis list.size(3) zero_neq_numeral)
  have h: "header_emit LOAD_BLOCK_DATA (lfdb_header_new 420) = ([0xC4, 0x82, 1, 164], ?h)" "0 < header_remaining (lfdb_header_new 420)"
      "header_remaining ?h = 0"
    by (simp_all add: header_emit_def lfdb_header_new_def header_remaining_def limit_simps Let_def)
  have zp: "cf_zip short_file = short_cap" by (simp add: short_file_def)
  have l: "cf_locs short_file = Some \<lparr>cl_method = 0, cl_data_off = 42, cl_comp_size = 20, cl_uncomp_size = 20\<rparr> # None # None
      # Some \<lparr>cl_method = 0, cl_data_off = 104, cl_comp_size = 15, cl_uncomp_size = 400\<rparr> # replicate 7 None" by code_simp
  note read = get_at_def current_loc_def METHOD_DEFLATE_def emit_stored_def component_exhausted_def advance_def LFDB_COMPONENTS_def
    limit_simps l z w e ne zp numeral_3_eq_3
  have "next_block copying LOAD_BLOCK_DATA (cap_lfdb short_file, infl) = (Inr short_block, (?l, infl))"
    by (simp add: next_block_def cap_lfdb_def n h)
      (subst next_block_loop.simps, simp add: read short_block_def)+
  moreover have "next_block copying LOAD_BLOCK_DATA (?l, infl) = (Inr [], (?l, infl))"
    by (simp add: next_block_def cap_lfdb_def h) (subst next_block_loop.simps, simp add: read)
  moreover have "short_block \<noteq> []" by (simp add: short_block_def)
  ultimately show ?thesis by (blast intro: runs_dry.intros)
qed

lemma load_stall_accepted_witness:
  "\<exists>report log infl'. load_package ok_card stub_ops stub_session copying (demo_load_args\<lparr>lpa_cap_zip := short_cap\<rparr>)
       (([], stub_default), inflate_new copying) = (Inr report, ((log, stub_default), infl'))
     \<and> lpr_load_file_size report = 424 \<and> lpr_block_count report = 1
     \<and> map (\<lambda>c. take 5 c) log = [[0x84, 0xE6, 0x02, 0x00, 17], [0x84, 0xE8, 0x00, 0x00, 177]]"
proof -
  let ?args = "demo_load_args\<lparr>lpa_cap_zip := short_cap\<rparr>"
  have z: "length short_cap = 257" "take 119 short_cap = take 119 demo_cap" by (simp_all add: short_cap_def demo_cap_def)
  obtain infl where p: "parse_cap copying (lpa_cap_zip ?args) (inflate_new copying) = (Inr short_file, infl)"
    using parse_stored [OF walk_short_cap z] by (auto simp: short_file_def)
  let ?install = "short_apdu 0x84 0xE6 0x02 0x00 (concat (map lv [[0xA0, 0, 0, 0, 0x62, 3, 1], [0xA0, 0, 0, 0, 3], [], [], []])) True"
  have i: "install_for_load (as_bytes (cf_package_aid short_file)) (lpa_target_sd_aid ?args) (lpa_lfdb_hash ?args) = Inr ?install"
    by (simp add: install_for_load_eq short_file_def demo_stored_def demo_file_def demo_load_args_def)
  have n: "lfdb_len (cap_lfdb short_file) = 424" by code_simp
  have lb: "length short_block = 177" by (simp add: short_block_def window_slice_def)
  have args: "length (lpa_lfdb_hash ?args) \<le> HASH_MAX"
    "aid_new (lpa_target_sd_aid ?args) = Inr (Aid [0xA0, 0, 0, 0, 3])" by (simp_all add: demo_load_args_def)
  have d: "length (concat [short_block]) < lfdb_len (cap_lfdb short_file)" "lfdb_len (cap_lfdb short_file) \<le> MAX_LOAD_BYTES"
    by (simp_all add: n lb MAX_LOAD_BYTES_def limit_simps)
  let ?cmds = "map (\<lambda>(i, b). short_apdu 0x84 0xE8 0x00 (of_nat i) b True) (enumerate 0 [short_block])"
  have script: "map_prod id (map (take 5) \<circ> fst) (script_of (transmit_in_session ok_card stub_ops stub_session) ?install ?cmds
      ([], stub_default)) = (Inr (), [[0x84, 0xE6, 0x02, 0x00, 17], [0x84, 0xE8, 0x00, 0x00, 177]])" by code_simp
  have snd: "snd (snd (script_of (transmit_in_session ok_card stub_ops stub_session) ?install ?cmds ([], stub_default))) = stub_default"
    by code_simp
  obtain log where s: "script_of (transmit_in_session ok_card stub_ops stub_session) ?install ?cmds ([], stub_default)
        = (Inr (), (log, stub_default))"
      "map (take 5) log = [[0x84, 0xE6, 0x02, 0x00, 17], [0x84, 0xE8, 0x00, 0x00, 177]]"
    using script snd by (cases "script_of (transmit_in_session ok_card stub_ops stub_session) ?install ?cmds ([], stub_default)") auto
  from load_stall_accepted [OF p short_runs_dry d i args, of ok_card stub_ops stub_session "([], stub_default)"]
  show ?thesis using s n by auto
qed

end
