(* ===== verification/Scll_Status.thy ===== *)
theory Scll_Status
  imports Scll_Lifecycle Scll_Provision
begin

text \<open>
  \<open>workflow/card_status.rs\<close>: reading and setting the card's life-cycle state, and the inventory of
  its registry.

  The card chains a GET STATUS answer over several pages, split at any octet; \<open>read_status_scope\<close>
  joins them and \<open>collect_scope\<close> hands the decoded entries to a closure, which is here a function
  on the inventory collected so far that also says whether the entry was kept.
\<close>

section \<open>The program\<close>

definition P1_ISD_SCOPE :: u8 where "P1_ISD_SCOPE = 0x80"
definition P1_APP_SD_SCOPE :: u8 where "P1_APP_SD_SCOPE = 0x40"
definition P1_ELF_MODULE_SCOPE :: u8 where "P1_ELF_MODULE_SCOPE = 0x10"
definition PRIV_SECURITY_DOMAIN :: u8 where "PRIV_SECURITY_DOMAIN = 0x80"

definition warn :: "warning_kind \<Rightarrow> warning list \<Rightarrow> warning list" where
  "warn kind ws = push_ignore MAX_WARNINGS ws \<lparr>warning_kind = kind, warning_detail = []\<rparr>"

text \<open>What \<open>read_status_scope\<close> returns after its loop.\<close>

definition scope_end :: "bytes \<Rightarrow> usize \<Rightarrow> bool \<Rightarrow> bool \<Rightarrow> bytes \<times> bool" where
  "scope_end buf good_len truncated done = (take good_len buf, truncated \<or> \<not> done)"

primrec scope_loop ::
    "nat \<Rightarrow> 't transport \<Rightarrow> 'b backend_ops \<Rightarrow> scp_session \<Rightarrow> u8 \<Rightarrow> u8 \<Rightarrow> bytes \<Rightarrow> usize \<Rightarrow> bool \<Rightarrow>
     ('t, 'b, bytes \<times> bool) workflow" where
  "scope_loop 0 T B session p1 p2 buf good_len truncated = ret (scope_end buf good_len truncated False)"
| "scope_loop (Suc n) T B session p1 p2 buf good_len truncated =
     bindP (liftR (map_err Build (get_status_p2 p1 p2 []))) (\<lambda>capdu.
     bindP (transmit_in_session T B session capdu) (\<lambda>(data, sw).
     if sw = SW_OK \<or> sw = SW_MORE_DATA then
       (case vec_extend MAX_STATUS_SCOPE_BYTES buf data of
          None \<Rightarrow> ret (scope_end buf good_len True False)
        | Some buf' \<Rightarrow>
            let parses = is_ok (parse buf');
                good_len' = (if parses then length buf' else good_len);
                truncated' = (if \<not> parses \<and> sw = SW_OK then True else truncated) in
            if sw = SW_OK then ret (scope_end buf' good_len' truncated' True)
            else scope_loop n T B session p1 P2_NEXT_TLV buf' good_len' truncated')
     else if sw = SW_REF_NOT_FOUND then ret ([], False)
     else throw (from_general_sw sw)))"

definition read_status_scope ::
    "'t transport \<Rightarrow> 'b backend_ops \<Rightarrow> scp_session \<Rightarrow> u8 \<Rightarrow> ('t, 'b, bytes \<times> bool) workflow" where
  "read_status_scope T B session p1 = scope_loop MAX_STATUS_PAGES T B session p1 P2_FIRST_TLV [] 0 False"

primrec store_all :: "(registry_entry \<Rightarrow> 'v \<Rightarrow> bool \<times> 'v) \<Rightarrow> registry_entry list \<Rightarrow> bool \<Rightarrow> 'v \<Rightarrow> bool \<times> 'v" where
  "store_all store [] truncated v = (truncated, v)"
| "store_all store (e # es) truncated v =
    (case store e v of (kept, v') \<Rightarrow> store_all store es (if \<not> kept then True else truncated) v')"

definition collect_scope ::
    "'t transport \<Rightarrow> 'b backend_ops \<Rightarrow> scp_session \<Rightarrow> u8 \<Rightarrow> (registry_entry \<Rightarrow> 'v \<Rightarrow> bool \<times> 'v) \<Rightarrow> 'v \<Rightarrow>
     ('t, 'b, bool \<times> 'v) workflow" where
  "collect_scope T B session p1 store v =
     bindP (read_status_scope T B session p1) (\<lambda>(data, truncated).
     if data = [] \<and> \<not> truncated then ret (False, v)
     else
       bindP (liftR (map_err MalformedResponse (parse_status_registry data))) (\<lambda>entries.
       ret (store_all store entries truncated v)))"

fun raw_byte :: "card_life_cycle \<Rightarrow> u8" where
  "raw_byte OpReady = 0x01"
| "raw_byte Initialized = 0x07"
| "raw_byte Secured = 0x0F"
| "raw_byte CardLocked = 0x7F"
| "raw_byte Terminated = 0xFF"
| "raw_byte (Unknown b) = b"

record get_card_status_report =
  gcs_state :: card_life_cycle
  gcs_raw_state_byte :: u8
  gcs_decoded_state :: card_life_cycle
  gcs_isd_aid :: aid
  gcs_warnings :: "warning list"

definition get_card_status ::
    "'t transport \<Rightarrow> 'b backend_ops \<Rightarrow> scp_session \<Rightarrow> bytes \<Rightarrow> ('t, 'b, get_card_status_report) workflow" where
  "get_card_status T B session isd_aid =
     bindP (read_status_scope T B session P1_ISD_SCOPE) (\<lambda>(data, scope_truncated).
     bindP (liftR (map_err MalformedResponse (parse_status_e3 data))) (\<lambda>parsed.
     let (decoded, warnings) = (case parsed of
           Some s \<Rightarrow> (s, [])
         | None \<Rightarrow> (Unknown 0, warn GetStatusParseFailed []));
         warnings = (if scope_truncated then warn GetStatusParseFailed warnings else warnings) in
     bindP (liftR (aid_new isd_aid)) (\<lambda>isd.
     ret \<lparr>gcs_state = decoded, gcs_raw_state_byte = raw_byte decoded, gcs_decoded_state = decoded,
       gcs_isd_aid = isd, gcs_warnings = warnings\<rparr>)))"

subsection \<open>The inventory\<close>

text \<open>\<open>e.associated_sd_aid.and_then(|s| Aid::new(s).ok())\<close>.\<close>

definition aid_opt :: "bytes option \<Rightarrow> aid option" where
  "aid_opt v = Option.bind v (\<lambda>s. case aid_new s of Inr a \<Rightarrow> Some a | Inl e \<Rightarrow> None)"

definition unwrap_or :: "'a \<Rightarrow> 'a option \<Rightarrow> 'a" where
  "unwrap_or d v = (case v of Some x \<Rightarrow> x | None \<Rightarrow> d)"

definition push_sd :: "security_domain_entry \<Rightarrow> card_inventory \<Rightarrow> bool \<times> card_inventory" where
  "push_sd sd iv = (case vec_push MAX_SDS (inv_security_domains iv) sd of
     Some v \<Rightarrow> (True, iv\<lparr>inv_security_domains := v\<rparr>) | None \<Rightarrow> (False, iv))"

definition push_applet :: "application_entry \<Rightarrow> card_inventory \<Rightarrow> bool \<times> card_inventory" where
  "push_applet app iv = (case vec_push MAX_APPLETS (inv_applets iv) app of
     Some v \<Rightarrow> (True, iv\<lparr>inv_applets := v\<rparr>) | None \<Rightarrow> (False, iv))"

definition push_elf :: "executable_load_file_entry \<Rightarrow> card_inventory \<Rightarrow> bool \<times> card_inventory" where
  "push_elf elf iv = (case vec_push MAX_ELFS (inv_elfs iv) elf of
     Some v \<Rightarrow> (True, iv\<lparr>inv_elfs := v\<rparr>) | None \<Rightarrow> (False, iv))"

definition store_isd :: "aid \<Rightarrow> registry_entry \<Rightarrow> card_inventory \<Rightarrow> bool \<times> card_inventory" where
  "store_isd isd e iv =
     push_sd \<lparr>sde_aid = (case aid_new (re_aid e) of Inr a \<Rightarrow> a | Inl x \<Rightarrow> isd), sde_life_cycle_state = re_life_cycle e,
       sde_privileges = re_privileges e, sde_associated_sd_aid = None\<rparr> iv"

definition store_app :: "aid \<Rightarrow> registry_entry \<Rightarrow> card_inventory \<Rightarrow> bool \<times> card_inventory" where
  "store_app isd e iv =
    (if re_aid e = as_bytes isd then (True, iv)
     else case aid_new (re_aid e) of
       Inl x \<Rightarrow> (True, iv)
     | Inr a \<Rightarrow>
         if fst (re_privileges e) AND PRIV_SECURITY_DOMAIN \<noteq> 0 then
           push_sd \<lparr>sde_aid = a, sde_life_cycle_state = re_life_cycle e, sde_privileges = re_privileges e,
             sde_associated_sd_aid = aid_opt (re_associated_sd_aid e)\<rparr> iv
         else
           push_applet \<lparr>ape_aid = a, ape_life_cycle_state = re_life_cycle e, ape_privileges = re_privileges e,
             ape_associated_sd_aid = unwrap_or isd (aid_opt (re_associated_sd_aid e)),
             ape_associated_elf_aid = aid_opt (re_elf_aid e)\<rparr> iv)"

definition elf_modules :: "bytes list \<Rightarrow> aid list" where
  "elf_modules ms = foldl (\<lambda>v m. case aid_new m of Inr a \<Rightarrow> push_ignore MAX_MODULES_PER_ELF v a | Inl x \<Rightarrow> v) [] ms"

definition store_elf :: "aid \<Rightarrow> registry_entry \<Rightarrow> card_inventory \<Rightarrow> bool \<times> card_inventory" where
  "store_elf isd e iv =
    (case aid_new (re_aid e) of
       Inl x \<Rightarrow> (True, iv)
     | Inr a \<Rightarrow>
         push_elf \<lparr>elfe_aid = a, elfe_life_cycle_state = re_life_cycle e,
           elfe_associated_sd_aid = unwrap_or isd (aid_opt (re_associated_sd_aid e)),
           elfe_modules = elf_modules (re_modules e)\<rparr> iv)"

record get_card_inventory_report =
  gci_inventory :: card_inventory
  gci_isd_aid :: aid
  gci_security_domain_count :: usize
  gci_application_count :: usize
  gci_elf_count :: usize
  gci_truncated :: bool
  gci_warnings :: "warning list"

definition get_card_inventory ::
    "'t transport \<Rightarrow> 'b backend_ops \<Rightarrow> scp_session \<Rightarrow> bytes \<Rightarrow> ('t, 'b, get_card_inventory_report) workflow" where
  "get_card_inventory T B session isd_aid =
     bindP (liftR (aid_new isd_aid)) (\<lambda>isd.
     let inv0 = \<lparr>inv_security_domains = [], inv_applets = [], inv_elfs = []\<rparr> in
     bindP (collect_scope T B session P1_ISD_SCOPE (store_isd isd) inv0) (\<lambda>(t1, inv1).
     bindP (collect_scope T B session P1_APP_SD_SCOPE (store_app isd) inv1) (\<lambda>(t2, inv2).
     bindP (collect_scope T B session P1_ELF_MODULE_SCOPE (store_elf isd) inv2) (\<lambda>(t3, iv).
     let truncated = (t1 \<or> t2 \<or> t3) in
     ret \<lparr>gci_inventory = iv, gci_isd_aid = isd,
       gci_security_domain_count = length (inv_security_domains iv),
       gci_application_count = length (inv_applets iv), gci_elf_count = length (inv_elfs iv),
       gci_truncated = truncated,
       gci_warnings = (if truncated then warn InventoryTruncated [] else [])\<rparr>))))"

subsection \<open>Setting the state\<close>

record set_card_status_args =
  sca_target_state :: card_life_cycle
  sca_current_state :: "card_life_cycle option"
  sca_force :: bool
  sca_isd_aid :: bytes

record set_card_status_report =
  scr_state_before :: card_life_cycle
  scr_target_state :: card_life_cycle
  scr_p1_status_type :: u8
  scr_p2_state_byte :: u8
  scr_was_no_op :: bool
  scr_force_used :: bool
  scr_irreversible :: bool
  scr_warnings :: "warning list"

text \<open>The two arms of the match on the plan.\<close>

primrec run_plan ::
    "'t transport \<Rightarrow> 'b backend_ops \<Rightarrow> scp_session \<Rightarrow> set_card_status_args \<Rightarrow> transition_plan \<Rightarrow>
     ('t, 'b, bool \<times> u8 \<times> warning list) workflow" where
  "run_plan T B session args NoOp = ret (True, raw_byte (sca_target_state args), warn LifecycleNoOp [])"
| "run_plan T B session args (Apply p2) =
     bindP (liftR (map_err Build (set_card_status_cmd p2 (sca_isd_aid args)))) (\<lambda>capdu.
     bindP (transmit_in_session T B session capdu) (\<lambda>(d, sw).
     if sw = SW_OK then ret (False, p2, [])
     else if sw = SW_CONDITIONS then throw IllegalLifecycleTransition
     else throw (from_general_sw sw)))"

definition current_state ::
    "'t transport \<Rightarrow> 'b backend_ops \<Rightarrow> scp_session \<Rightarrow> set_card_status_args \<Rightarrow> ('t, 'b, card_life_cycle) workflow" where
  "current_state T B session args = (case sca_current_state args of
     Some s \<Rightarrow> ret s
   | None \<Rightarrow> bindP (get_card_status T B session (sca_isd_aid args)) (\<lambda>r. ret (gcs_state r)))"

definition set_card_status ::
    "'t transport \<Rightarrow> 'b backend_ops \<Rightarrow> scp_session \<Rightarrow> set_card_status_args \<Rightarrow> ('t, 'b, set_card_status_report) workflow" where
  "set_card_status T B session args =
     bindP (current_state T B session args) (\<lambda>current.
     bindP (liftR (check_transition current (sca_target_state args) (sca_force args))) (\<lambda>plan.
     bindP (run_plan T B session args plan) (\<lambda>(was_no_op, p2_state_byte, warnings).
     let irreversible = (sca_target_state args \<in> {Initialized, Secured} \<and> current \<noteq> CardLocked) in
     ret \<lparr>scr_state_before = current, scr_target_state = sca_target_state args,
       scr_p1_status_type = P1_ISD_SCOPE, scr_p2_state_byte = p2_state_byte, scr_was_no_op = was_no_op,
       scr_force_used = sca_force args, scr_irreversible = irreversible, scr_warnings = warnings\<rparr>)))"

section \<open>Joining the pages\<close>

definition status_query :: "u8 \<Rightarrow> u8 \<Rightarrow> bytes" where
  "status_query p1 p2 = short_apdu 0x80 0xF2 p1 p2 [0x4F, 0x00] True"

text \<open>The commands of \<open>n\<close> pages: the first, then the continuations.\<close>

primrec queries :: "u8 \<Rightarrow> u8 \<Rightarrow> nat \<Rightarrow> bytes list" where
  "queries p1 p2 0 = []"
| "queries p1 p2 (Suc n) = status_query p1 p2 # queries p1 P2_NEXT_TLV n"

definition status_pages :: "'t transport \<Rightarrow> 'b backend_ops \<Rightarrow> scp_session \<Rightarrow> u8 \<Rightarrow> u8 \<Rightarrow> 't \<times> 'b \<Rightarrow> (bytes \<times> u16) list \<Rightarrow> 't \<times> 'b \<Rightarrow> bool" where
  "status_pages T B session p1 p2 s pages s' =
     (each (transmit_in_session T B session) (queries p1 p2 (length pages)) s = (Inr pages, s'))"

lemma status_pages_Nil: "status_pages T B session p1 p2 s [] s' \<longleftrightarrow> s' = s"
  by (auto simp: status_pages_def)

lemma status_pages_Cons:
  "status_pages T B session p1 p2 s (p # ps) s' \<longleftrightarrow>
     (\<exists>s1. transmit_in_session T B session (status_query p1 p2) s = (Inr p, s1)
         \<and> status_pages T B session p1 P2_NEXT_TLV s1 ps s')"
  unfolding status_pages_def list.size(4) One_nat_def add_Suc_right add_0_right queries.simps each.simps
  by (cases s'; cases p) (auto simp: bindP_eq_Inr success_simps)

lemma get_status_p2_Nil: "get_status_p2 p1 p2 [] = Inr (status_query p1 p2)"
  by (simp add: get_status_p2_eq status_query_def lv_def)

lemma transmit_data_le:
  assumes "transmit_in_session T B session c s = (Inr (data, sw), s')"
  shows "length data \<le> RAPDU_MAX"
  using assms unfolding transmit_in_session_def
  by (cases s; cases s') (auto simp: bindP_eq_Inr success_simps split_sw_Inr limit_simps)

text \<open>The answers that end a scope without truncation, after the octets \<open>buf\<close>.\<close>

fun joined :: "bytes \<Rightarrow> (bytes \<times> u16) list \<Rightarrow> bytes option" where
  "joined buf [] = None"
| "joined buf ((data, sw) # ps) =
    (if sw = SW_OK then (if ps = [] \<and> is_ok (parse (buf @ data)) then Some (buf @ data) else None)
     else if sw = SW_MORE_DATA then joined (buf @ data) ps
     else if sw = SW_REF_NOT_FOUND \<and> ps = [] then Some []
     else None)"

lemma sw_distinct [simp]: "SW_MORE_DATA \<noteq> SW_OK" "SW_REF_NOT_FOUND \<noteq> SW_OK" "SW_REF_NOT_FOUND \<noteq> SW_MORE_DATA"
  "SW_CONDITIONS \<noteq> SW_OK" "SW_OK \<noteq> SW_MORE_DATA" "SW_OK \<noteq> SW_REF_NOT_FOUND" "SW_MORE_DATA \<noteq> SW_REF_NOT_FOUND" "SW_OK \<noteq> SW_CONDITIONS"
  by (simp_all add: sw_consts)

lemma joined_iff:
  "joined buf pages = Some d \<longleftrightarrow>
     pages \<noteq> [] \<and> list_all (\<lambda>p. snd p = SW_MORE_DATA) (butlast pages)
     \<and> (snd (last pages) = SW_OK \<and> d = buf @ concat (map fst pages) \<and> is_ok (parse d)
        \<or> snd (last pages) = SW_REF_NOT_FOUND \<and> d = [])"
  by (induction buf pages rule: joined.induct) (auto split: if_splits)

lemma scope_step:
  assumes "length buf + RAPDU_MAX * Suc n \<le> MAX_STATUS_SCOPE_BYTES"
  shows "scope_loop (Suc n) T B session p1 p2 buf good False s = (Inr r, s') \<longleftrightarrow>
    (\<exists>data sw s1. transmit_in_session T B session (status_query p1 p2) s = (Inr (data, sw), s1)
       \<and> (let ok = is_ok (parse (buf @ data)); good' = (if ok then length (buf @ data) else good) in
          sw = SW_OK \<and> s' = s1 \<and> r = (take good' (buf @ data), \<not> ok)
          \<or> sw = SW_MORE_DATA \<and> scope_loop n T B session p1 P2_NEXT_TLV (buf @ data) good' False s1 = (Inr r, s')
          \<or> sw = SW_REF_NOT_FOUND \<and> s' = s1 \<and> r = ([], False)))"
proof -
  obtain x s1 where run: "transmit_in_session T B session (status_query p1 p2) s = (x, s1)" by (meson surj_pair)
  show ?thesis
  proof (cases x)
    case (Inl e)
    then show ?thesis using run by (simp add: get_status_p2_Nil bindP_def)
  next
    case (Inr page)
    obtain data sw where page: "page = (data, sw)" by (cases page)
    have x: "transmit_in_session T B session (status_query p1 p2) s = (Inr (data, sw), s1)"
      using run Inr page by simp
    have "length buf + length data \<le> MAX_STATUS_SCOPE_BYTES"
      using assms transmit_data_le [OF x] by simp
    then show ?thesis
      by (cases "sw = SW_OK"; cases "sw = SW_MORE_DATA"; cases "sw = SW_REF_NOT_FOUND"; cases r; cases "is_ok (parse (buf @ data))")
        (auto simp: x get_status_p2_Nil bindP_def scope_end_def Let_def vec_extend_def)
  qed
qed

lemma scope_loop_joined:
  assumes "length buf + RAPDU_MAX * n \<le> MAX_STATUS_SCOPE_BYTES"
  shows "scope_loop n T B session p1 p2 buf good False s = (Inr (d, False), s') \<longleftrightarrow>
    (\<exists>pages. length pages \<le> n \<and> status_pages T B session p1 p2 s pages s' \<and> joined buf pages = Some d)"
  using assms
proof (induction n arbitrary: p2 buf good s)
  case 0
  then show ?case by (auto simp: scope_end_def)
next
  case (Suc n)
  have split: "(\<exists>pages. length pages \<le> Suc n \<and> P pages) \<longleftrightarrow> P [] \<or> (\<exists>p ps. length ps \<le> n \<and> P (p # ps))" for P
    by (metis Suc_le_mono length_Cons list.exhaust list.size(3) zero_le)
  obtain x s1 where run: "transmit_in_session T B session (status_query p1 p2) s = (x, s1)" by (meson surj_pair)
  show ?case
  proof (cases x)
    case (Inl e)
    then show ?thesis unfolding scope_step [OF Suc.prems] split status_pages_Cons using run by simp
  next
    case (Inr page)
    obtain data sw where page: "page = (data, sw)" by (cases page)
    have x: "transmit_in_session T B session (status_query p1 p2) s = (Inr (data, sw), s1)"
      using run Inr page by simp
    have rec: "scope_loop n T B session p1 P2_NEXT_TLV (buf @ data) g False s1 = (Inr (d, False), s') \<longleftrightarrow>
      (\<exists>pages. length pages \<le> n \<and> status_pages T B session p1 P2_NEXT_TLV s1 pages s' \<and> joined (buf @ data) pages = Some d)" for g
      using Suc.prems transmit_data_le [OF x] by (intro Suc.IH) simp
    have pages: "(\<exists>p ps. length ps \<le> n \<and> status_pages T B session p1 p2 s (p # ps) s' \<and> Q p ps) \<longleftrightarrow>
      (\<exists>ps. length ps \<le> n \<and> status_pages T B session p1 P2_NEXT_TLV s1 ps s' \<and> Q (data, sw) ps)" for Q
      unfolding status_pages_Cons x by auto
    have last: "(\<exists>ps. length ps \<le> n \<and> status_pages T B session p1 P2_NEXT_TLV s1 ps s' \<and> (ps = [] \<and> q)) \<longleftrightarrow> s' = s1 \<and> q" for q
      by (auto simp: status_pages_Nil)
    consider "sw = SW_OK" | "sw = SW_MORE_DATA" | "sw \<noteq> SW_OK" "sw \<noteq> SW_MORE_DATA" by blast
    then show ?thesis
      unfolding scope_step [OF Suc.prems] split pages x
      by cases (auto simp: rec Let_def status_pages_Nil split: if_splits)
  qed
qed

text \<open>Whatever happens, what is returned parses and is the beginning of what the card sent.\<close>

lemma scope_loop_prefix:
  assumes "length buf + RAPDU_MAX * n \<le> MAX_STATUS_SCOPE_BYTES" "good \<le> length buf" "is_ok (parse (take good buf))"
    and "scope_loop n T B session p1 p2 buf good False s = (Inr (d, t), s')"
  shows "is_ok (parse d) \<and> (\<exists>pages k. length pages \<le> n \<and> status_pages T B session p1 p2 s pages s'
    \<and> d = take k (buf @ concat (map fst pages)))"
  using assms
proof (induction n arbitrary: p2 buf good s)
  case 0
  then show ?case by (auto simp: scope_end_def status_pages_Nil intro!: exI [of _ "[]"])
next
  case (Suc n)
  from Suc.prems(4) obtain data sw s1 where x: "transmit_in_session T B session (status_query p1 p2) s = (Inr (data, sw), s1)"
    and r: "let ok = is_ok (parse (buf @ data)); good' = (if ok then length (buf @ data) else good) in
        sw = SW_OK \<and> s' = s1 \<and> (d, t) = (take good' (buf @ data), \<not> ok)
        \<or> sw = SW_MORE_DATA \<and> scope_loop n T B session p1 P2_NEXT_TLV (buf @ data) good' False s1 = (Inr (d, t), s')
        \<or> sw = SW_REF_NOT_FOUND \<and> s' = s1 \<and> (d, t) = ([], False)"
    unfolding scope_step [OF Suc.prems(1)] by blast
  define good' where "good' = (if is_ok (parse (buf @ data)) then length (buf @ data) else good)"
  have good': "good' \<le> length (buf @ data)" "is_ok (parse (take good' (buf @ data)))"
    using Suc.prems(2,3) by (auto simp: good'_def)
  have one: "status_pages T B session p1 p2 s [(data, sw)] s1"
    by (simp add: status_pages_Cons status_pages_Nil x)
  consider "sw = SW_OK" "s' = s1" "d = take good' (buf @ data)"
    | "sw = SW_MORE_DATA" "scope_loop n T B session p1 P2_NEXT_TLV (buf @ data) good' False s1 = (Inr (d, t), s')"
    | "s' = s1" "d = []"
    using r by (auto simp: Let_def good'_def)
  then show ?case
  proof cases
    case 1
    then show ?thesis using one good'(2) by (intro conjI exI [of _ "[(data, sw)]"] exI [of _ good']) auto
  next
    case 2
    have "length (buf @ data) + RAPDU_MAX * n \<le> MAX_STATUS_SCOPE_BYTES"
      using Suc.prems(1) transmit_data_le [OF x] by simp
    from Suc.IH [OF this good' 2(2)] obtain pages k where
      "is_ok (parse d)" "length pages \<le> n" "status_pages T B session p1 P2_NEXT_TLV s1 pages s'"
      "d = take k ((buf @ data) @ concat (map fst pages))" by blast
    moreover from this have "status_pages T B session p1 p2 s ((data, sw) # pages) s'"
      using x by (auto simp: status_pages_Cons)
    ultimately show ?thesis by (intro conjI exI [of _ "(data, sw) # pages"] exI [of _ k]) simp_all
  next
    case 3
    have "is_ok (parse [])" by (simp add: parse_def parse_loop.simps)
    then show ?thesis using one 3 by (intro conjI exI [of _ "[(data, sw)]"] exI [of _ 0]) auto
  qed
qed

text \<open>C23: a scope is joined exactly. \<open>read_status_scope\<close> returns \<open>d\<close> as complete exactly when the card
  answered the first query and its continuations with \<open>6310\<close>, at most sixteen pages in all, until
  either a final \<open>9000\<close> page completes octets that parse, and \<open>d\<close> is the concatenation of all pages,
  wherever the card split them; or the last answer is \<open>6A88\<close>, and \<open>d\<close> is empty.\<close>

theorem status_scope_joined:
  "read_status_scope T B session p1 s = (Inr (d, False), s') \<longleftrightarrow>
    (\<exists>pages. pages \<noteq> [] \<and> length pages \<le> 16
      \<and> each (transmit_in_session T B session) (queries p1 0x02 (length pages)) s = (Inr pages, s')
      \<and> list_all (\<lambda>p. snd p = 0x6310) (butlast pages)
      \<and> (snd (last pages) = 0x9000 \<and> d = concat (map fst pages) \<and> is_ok (parse d)
         \<or> snd (last pages) = 0x6A88 \<and> d = []))"
proof -
  have room: "length [] + RAPDU_MAX * MAX_STATUS_PAGES \<le> MAX_STATUS_SCOPE_BYTES" by (simp add: limit_simps)
  show ?thesis
    unfolding read_status_scope_def scope_loop_joined [OF room] joined_iff status_pages_def
    by (auto simp: limit_simps P2_FIRST_TLV_def sw_consts)
qed

text \<open>A scope is never malformed at the top. Whatever the card answers, truncated or not, the octets
  handed to the decoders parse as BER-TLV and are the beginning of what the card sent in at most
  sixteen pages; a structurally broken answer is cut, not reported.\<close>

lemma status_scope_parses:
  assumes "read_status_scope T B session p1 s = (Inr (d, truncated), s')"
  shows "is_ok (parse d) \<and> (\<exists>pages k. length pages \<le> 16
    \<and> each (transmit_in_session T B session) (queries p1 0x02 (length pages)) s = (Inr pages, s')
    \<and> d = take k (concat (map fst pages)))"
proof -
  have room: "length [] + RAPDU_MAX * MAX_STATUS_PAGES \<le> MAX_STATUS_SCOPE_BYTES" by (simp add: limit_simps)
  have "is_ok (parse (take 0 []))" by (simp add: parse_def parse_loop.simps)
  from scope_loop_prefix [OF room le0 this assms [unfolded read_status_scope_def]]
  show ?thesis by (simp add: status_pages_def limit_simps P2_FIRST_TLV_def)
qed

section \<open>The inventory\<close>

definition isd_entry :: "aid \<Rightarrow> registry_entry \<Rightarrow> security_domain_entry" where
  "isd_entry isd e = \<lparr>sde_aid = (if aid_bytes_ok (re_aid e) then Aid (re_aid e) else isd),
     sde_life_cycle_state = re_life_cycle e, sde_privileges = re_privileges e, sde_associated_sd_aid = None\<rparr>"

definition valid_aid :: "bytes option \<Rightarrow> aid option" where
  "valid_aid v = (case v of Some b \<Rightarrow> (if aid_bytes_ok b then Some (Aid b) else None) | None \<Rightarrow> None)"

definition is_sd :: "registry_entry \<Rightarrow> bool" where
  "is_sd e = bit (fst (re_privileges e)) 7"

definition listed :: "aid \<Rightarrow> registry_entry \<Rightarrow> bool" where
  "listed isd e = (aid_bytes_ok (re_aid e) \<and> re_aid e \<noteq> as_bytes isd)"

definition sd_entry :: "registry_entry \<Rightarrow> security_domain_entry" where
  "sd_entry e = \<lparr>sde_aid = Aid (re_aid e), sde_life_cycle_state = re_life_cycle e,
     sde_privileges = re_privileges e, sde_associated_sd_aid = valid_aid (re_associated_sd_aid e)\<rparr>"

definition app_entry :: "aid \<Rightarrow> registry_entry \<Rightarrow> application_entry" where
  "app_entry isd e = \<lparr>ape_aid = Aid (re_aid e), ape_life_cycle_state = re_life_cycle e,
     ape_privileges = re_privileges e, ape_associated_sd_aid = unwrap_or isd (valid_aid (re_associated_sd_aid e)),
     ape_associated_elf_aid = valid_aid (re_elf_aid e)\<rparr>"

definition elf_entry :: "aid \<Rightarrow> registry_entry \<Rightarrow> executable_load_file_entry" where
  "elf_entry isd e = \<lparr>elfe_aid = Aid (re_aid e), elfe_life_cycle_state = re_life_cycle e,
     elfe_associated_sd_aid = unwrap_or isd (valid_aid (re_associated_sd_aid e)),
     elfe_modules = take 16 (map Aid (filter aid_bytes_ok (re_modules e)))\<rparr>"

lemma aid_new_cases: "aid_new b = (if aid_bytes_ok b then Inr (Aid b) else Inl (InvalidAid (length b)))"
  by (auto simp: aid_new_def aid_bytes_ok_def vec_extend_def limit_simps)

lemma aid_opt_eq [simp]: "aid_opt v = valid_aid v"
  by (auto simp: aid_opt_def valid_aid_def aid_new_cases split: option.splits)

lemma is_sd_eq: "(fst (re_privileges e) AND PRIV_SECURITY_DOMAIN \<noteq> 0) = is_sd e"
proof -
  have "(b AND 0x80 \<noteq> 0) = bit b 7" for b :: u8
  proof -
    have "list_all (\<lambda>b :: u8. (b AND 0x80 \<noteq> 0) = bit b 7) (map of_nat [0..<256])" by code_simp
    then show ?thesis unfolding u8_all [symmetric] by blast
  qed
  then show ?thesis by (simp add: is_sd_def PRIV_SECURITY_DOMAIN_def)
qed

lemma push_ignore_take: "push_ignore n (take n v) x = take n (v @ [x])"
  by (auto simp: push_ignore_def vec_push_def)

lemma elf_modules_eq: "elf_modules ms = take 16 (map Aid (filter aid_bytes_ok ms))"
proof -
  have "foldl (\<lambda>v m. case aid_new m of Inr a \<Rightarrow> push_ignore MAX_MODULES_PER_ELF v a | Inl x \<Rightarrow> v) (take 16 v) ms
      = take 16 (v @ map Aid (filter aid_bytes_ok ms))" for v
    by (induction ms arbitrary: v) (simp_all add: aid_new_cases limit_simps push_ignore_take del: take_append)
  from this [of "[]"] show ?thesis by (simp add: elf_modules_def)
qed

lemma store_elf_eq: "store_elf isd e iv = (if aid_bytes_ok (re_aid e) then push_elf (elf_entry isd e) iv else (True, iv))"
  by (simp add: store_elf_def aid_new_cases elf_entry_def elf_modules_eq)

lemma store_isd_eq: "store_isd isd e iv = push_sd (isd_entry isd e) iv"
  by (simp add: store_isd_def aid_new_cases isd_entry_def)

lemma store_app_eq:
  "store_app isd e iv = (if listed isd e then (if is_sd e then push_sd (sd_entry e) iv else push_applet (app_entry isd e) iv)
     else (True, iv))"
  by (auto simp: store_app_def aid_new_cases is_sd_eq listed_def sd_entry_def app_entry_def)

lemma take_push: "take n (take n xs @ ys) = take n (xs @ ys)"
  by (cases "length xs \<le> n") simp_all

lemma push_sd_take:
  "push_sd x (iv\<lparr>inv_security_domains := take 8 xs\<rparr>) = (length xs < 8, iv\<lparr>inv_security_domains := take 8 (xs @ [x])\<rparr>)"
  by (auto simp: push_sd_def vec_push_def limit_simps)

lemma push_applet_take:
  "push_applet x (iv\<lparr>inv_applets := take 48 xs\<rparr>) = (length xs < 48, iv\<lparr>inv_applets := take 48 (xs @ [x])\<rparr>)"
  by (auto simp: push_applet_def vec_push_def limit_simps)

lemma push_elf_take:
  "push_elf x (iv\<lparr>inv_elfs := take 32 xs\<rparr>) = (length xs < 32, iv\<lparr>inv_elfs := take 32 (xs @ [x])\<rparr>)"
  by (auto simp: push_elf_def vec_push_def limit_simps)

lemma store_all_isd:
  "store_all (store_isd isd) es (t \<or> 8 < length xs) (iv\<lparr>inv_security_domains := take 8 xs\<rparr>)
     = (t \<or> 8 < length (xs @ map (isd_entry isd) es), iv\<lparr>inv_security_domains := take 8 (xs @ map (isd_entry isd) es)\<rparr>)"
proof (induction es arbitrary: xs)
  case (Cons e es)
  have "(if \<not> length xs < 8 then True else t \<or> 8 < length xs) = (t \<or> 8 < length (xs @ [isd_entry isd e]))" by auto
  then show ?case using Cons [of "xs @ [isd_entry isd e]"]
    by (simp add: store_isd_eq push_sd_take del: take_append)
qed simp

lemma store_all_elf:
  "store_all (store_elf isd) es (t \<or> 32 < length xs) (iv\<lparr>inv_elfs := take 32 xs\<rparr>)
     = (let ys = xs @ map (elf_entry isd) (filter (\<lambda>e. aid_bytes_ok (re_aid e)) es) in
        (t \<or> 32 < length ys, iv\<lparr>inv_elfs := take 32 ys\<rparr>))"
proof (induction es arbitrary: xs)
  case (Cons e es)
  have "(if \<not> length xs < 32 then True else t \<or> 32 < length xs) = (t \<or> 32 < length (xs @ [elf_entry isd e]))" by auto
  then show ?case using Cons [of "xs @ [elf_entry isd e]"] Cons [of xs]
    by (simp add: store_elf_eq push_elf_take Let_def del: take_append)
qed (simp add: Let_def)

lemma store_all_True: "fst (store_all f es True v)"
  by (induction es arbitrary: v) (simp_all split: prod.splits)

lemma store_all_TrueD: "store_all f es True v = (t', v') \<Longrightarrow> t'"
  using store_all_True [of f es v] by simp

text \<open>In the application scope a full list of either kind sets the flag.\<close>

lemma push_sd_take2:
  "push_sd x (iv\<lparr>inv_security_domains := take 8 xs, inv_applets := a\<rparr>)
     = (length xs < 8, iv\<lparr>inv_security_domains := take 8 (xs @ [x]), inv_applets := a\<rparr>)"
  by (auto simp: push_sd_def vec_push_def limit_simps)

lemma push_applet_take2:
  "push_applet x (iv\<lparr>inv_security_domains := a, inv_applets := take 48 xs\<rparr>)
     = (length xs < 48, iv\<lparr>inv_security_domains := a, inv_applets := take 48 (xs @ [x])\<rparr>)"
  by (auto simp: push_applet_def vec_push_def limit_simps)

lemma store_all_app:
  assumes "store_all (store_app isd) es t (iv\<lparr>inv_security_domains := take 8 xs, inv_applets := take 48 ys\<rparr>) = (t', iv')"
  shows "let sds = xs @ map sd_entry (filter (\<lambda>e. listed isd e \<and> is_sd e) es);
             apps = ys @ map (app_entry isd) (filter (\<lambda>e. listed isd e \<and> \<not> is_sd e) es) in
    (t' \<or> 8 < length xs \<or> 48 < length ys) = (t \<or> 8 < length sds \<or> 48 < length apps)
    \<and> iv' = iv\<lparr>inv_security_domains := take 8 sds, inv_applets := take 48 apps\<rparr>"
  using assms
proof (induction es arbitrary: xs ys t)
  case Nil
  then show ?case by (auto simp: Let_def)
next
  case (Cons e es)
  consider "\<not> listed isd e" | "listed isd e" "is_sd e" | "listed isd e" "\<not> is_sd e" by blast
  then show ?case
  proof cases
    case 1
    then show ?thesis using Cons by (simp add: store_app_eq)
  next
    case 2
    then have r: "store_all (store_app isd) es (if \<not> length xs < 8 then True else t)
        (iv\<lparr>inv_security_domains := take 8 (xs @ [sd_entry e]), inv_applets := take 48 ys\<rparr>) = (t', iv')"
      using Cons.prems by (simp only: store_all.simps store_app_eq [of isd e] if_True push_sd_take2 prod.case)
    have "t'" if "\<not> length xs < 8"
      using r unfolding if_P [OF that] by (rule store_all_TrueD)
    then have full: "length xs < 8 \<or> t'" by blast
    have parts: "xs @ map sd_entry (filter (\<lambda>e. listed isd e \<and> is_sd e) (e # es))
        = (xs @ [sd_entry e]) @ map sd_entry (filter (\<lambda>e. listed isd e \<and> is_sd e) es)"
      "filter (\<lambda>e. listed isd e \<and> \<not> is_sd e) (e # es) = filter (\<lambda>e. listed isd e \<and> \<not> is_sd e) es"
      using 2 by simp_all
    show ?thesis
      using Cons.IH [OF r, unfolded Let_def] full unfolding Let_def parts
      by (elim disjE; elim conjE; intro conjI) (simp_all del: take_append split: if_splits)
  next
    case 3
    then have r: "store_all (store_app isd) es (if \<not> length ys < 48 then True else t)
        (iv\<lparr>inv_security_domains := take 8 xs, inv_applets := take 48 (ys @ [app_entry isd e])\<rparr>) = (t', iv')"
      using Cons.prems by (simp only: store_all.simps store_app_eq [of isd e] if_True if_False push_applet_take2 prod.case)
    have "t'" if "\<not> length ys < 48"
      using r unfolding if_P [OF that] by (rule store_all_TrueD)
    then have full: "length ys < 48 \<or> t'" by blast
    have parts: "ys @ map (app_entry isd) (filter (\<lambda>e. listed isd e \<and> \<not> is_sd e) (e # es))
        = (ys @ [app_entry isd e]) @ map (app_entry isd) (filter (\<lambda>e. listed isd e \<and> \<not> is_sd e) es)"
      "filter (\<lambda>e. listed isd e \<and> is_sd e) (e # es) = filter (\<lambda>e. listed isd e \<and> is_sd e) es"
      using 3 by simp_all
    show ?thesis
      using Cons.IH [OF r, unfolded Let_def] full unfolding Let_def parts
      by (elim disjE; elim conjE; intro conjI) (simp_all del: take_append split: if_splits)
  qed
qed

lemma collect_scope_Inr:
  "collect_scope T B session p1 f v s = (Inr r, s') \<longleftrightarrow>
    (\<exists>d t es. read_status_scope T B session p1 s = (Inr (d, t), s') \<and> parse_status_registry d = Inr es
       \<and> r = store_all f es t v)"
proof -
  have e: "parse_status_registry [] = Inr []" by (simp add: parse_status_registry_def)
  have "(case x of (d, t) \<Rightarrow> if d = [] \<and> \<not> t then ret (False, v) else
      bindP (liftR (map_err MalformedResponse (parse_status_registry d))) (\<lambda>entries. ret (store_all f entries t v))) s1 = (Inr r, s')
    \<longleftrightarrow> s1 = s' \<and> (\<exists>es. parse_status_registry (fst x) = Inr es \<and> r = store_all f es (snd x) v)" for x s1
    by (cases x; cases "parse_status_registry (fst x)") (auto simp: e bindP_def)
  then show ?thesis
    unfolding collect_scope_def bindP_eq_Inr [of "read_status_scope T B session p1"]
    by (simp only:) (auto simp del: split_paired_Ex)
qed

definition status_report :: "aid \<Rightarrow> security_domain_entry list \<Rightarrow> application_entry list \<Rightarrow>
    executable_load_file_entry list \<Rightarrow> bool \<Rightarrow> get_card_inventory_report" where
  "status_report isd sds apps elfs trunc = \<lparr>
     gci_inventory = \<lparr>inv_security_domains = take 8 sds, inv_applets = take 48 apps, inv_elfs = take 32 elfs\<rparr>,
     gci_isd_aid = isd, gci_security_domain_count = min (length sds) 8, gci_application_count = min (length apps) 48,
     gci_elf_count = min (length elfs) 32, gci_truncated = trunc,
     gci_warnings = (if trunc then [\<lparr>warning_kind = InventoryTruncated, warning_detail = []\<rparr>] else [])\<rparr>"

text \<open>The three closures over the decoded entries, and the report made of their result.\<close>

definition fold_inventory :: "aid \<Rightarrow> registry_entry list \<Rightarrow> bool \<Rightarrow> registry_entry list \<Rightarrow> bool \<Rightarrow> registry_entry list \<Rightarrow> bool \<Rightarrow>
    bool \<times> card_inventory" where
  "fold_inventory isd es1 t1 es2 t2 es3 t3 =
    (let iv0 = \<lparr>inv_security_domains = [], inv_applets = [], inv_elfs = []\<rparr>;
         r1 = store_all (store_isd isd) es1 t1 iv0;
         r2 = store_all (store_app isd) es2 t2 (snd r1);
         r3 = store_all (store_elf isd) es3 t3 (snd r2) in
     (fst r1 \<or> fst r2 \<or> fst r3, snd r3))"

definition inventory_report :: "aid \<Rightarrow> bool \<times> card_inventory \<Rightarrow> get_card_inventory_report" where
  "inventory_report isd r = (case r of (trunc, iv) \<Rightarrow>
     \<lparr>gci_inventory = iv, gci_isd_aid = isd,
       gci_security_domain_count = length (inv_security_domains iv),
       gci_application_count = length (inv_applets iv), gci_elf_count = length (inv_elfs iv),
       gci_truncated = trunc, gci_warnings = (if trunc then warn InventoryTruncated [] else [])\<rparr>)"

lemma fold_inventory_eq:
  "inventory_report isd (fold_inventory isd es1 t1 es2 t2 es3 t3) =
    (let sds = map (isd_entry isd) es1 @ map sd_entry (filter (\<lambda>e. listed isd e \<and> is_sd e) es2);
         apps = map (app_entry isd) (filter (\<lambda>e. listed isd e \<and> \<not> is_sd e) es2);
         elfs = map (elf_entry isd) (filter (\<lambda>e. aid_bytes_ok (re_aid e)) es3) in
     status_report isd sds apps elfs
       (t1 \<or> t2 \<or> t3 \<or> 8 < length sds \<or> 48 < length apps \<or> 32 < length elfs))"
proof -
  let ?iv = "\<lparr>inv_security_domains = [], inv_applets = [], inv_elfs = []\<rparr>"
  let ?a = "map (isd_entry isd) es1"
  let ?b = "map sd_entry (filter (\<lambda>e. listed isd e \<and> is_sd e) es2)"
  let ?c = "map (app_entry isd) (filter (\<lambda>e. listed isd e \<and> \<not> is_sd e) es2)"
  let ?d = "map (elf_entry isd) (filter (\<lambda>e. aid_bytes_ok (re_aid e)) es3)"
  have one: "store_all (store_isd isd) es1 t1 ?iv
      = (t1 \<or> 8 < length ?a, \<lparr>inv_security_domains = take 8 ?a, inv_applets = [], inv_elfs = []\<rparr>)"
    using store_all_isd [of isd es1 t1 "[]" ?iv] by simp
  obtain u where two: "store_all (store_app isd) es2 t2 \<lparr>inv_security_domains = take 8 ?a, inv_applets = [], inv_elfs = []\<rparr>
      = (u, \<lparr>inv_security_domains = take 8 (?a @ ?b), inv_applets = take 48 ?c, inv_elfs = []\<rparr>)"
    and u: "(u \<or> 8 < length ?a) = (t2 \<or> 8 < length (?a @ ?b) \<or> 48 < length ?c)"
    using store_all_app [where isd = isd and es = es2 and t = t2 and iv = ?iv and xs = ?a and ys = "[]"]
    by (cases "store_all (store_app isd) es2 t2 \<lparr>inv_security_domains = take 8 ?a, inv_applets = [], inv_elfs = []\<rparr>")
      (simp add: Let_def del: take_append)
  have three: "store_all (store_elf isd) es3 t3 \<lparr>inv_security_domains = sds, inv_applets = apps, inv_elfs = []\<rparr>
      = (t3 \<or> 32 < length ?d, \<lparr>inv_security_domains = sds, inv_applets = apps, inv_elfs = take 32 ?d\<rparr>)" for sds apps
    using store_all_elf [of isd es3 t3 "[]" "\<lparr>inv_security_domains = sds, inv_applets = apps, inv_elfs = []\<rparr>"]
    by (simp add: Let_def)
  have warn: "warn k [] = [\<lparr>warning_kind = k, warning_detail = []\<rparr>]" for k
    by (simp add: warn_def push_ignore_def vec_push_def limit_simps)
  have f: "fold_inventory isd es1 t1 es2 t2 es3 t3
      = ((t1 \<or> 8 < length ?a) \<or> u \<or> (t3 \<or> 32 < length ?d),
         \<lparr>inv_security_domains = take 8 (?a @ ?b), inv_applets = take 48 ?c, inv_elfs = take 32 ?d\<rparr>)"
    unfolding fold_inventory_def Let_def one snd_conv fst_conv two three ..
  have flag: "((t1 \<or> 8 < length ?a) \<or> u \<or> (t3 \<or> 32 < length ?d))
      = (t1 \<or> t2 \<or> t3 \<or> 8 < length (?a @ ?b) \<or> 48 < length ?c \<or> 32 < length ?d)"
    using u by blast
  show ?thesis
    unfolding f flag inventory_report_def Let_def status_report_def warn by (simp del: take_append)
qed

lemma get_card_inventory_Inr:
  "get_card_inventory T B session isd_aid s = (Inr rep, s') \<longleftrightarrow>
    aid_bytes_ok isd_aid \<and>
    (\<exists>d1 t1 s1 es1 d2 t2 s2 es2 d3 t3 es3.
       read_status_scope T B session 0x80 s = (Inr (d1, t1), s1) \<and> parse_status_registry d1 = Inr es1
     \<and> read_status_scope T B session 0x40 s1 = (Inr (d2, t2), s2) \<and> parse_status_registry d2 = Inr es2
     \<and> read_status_scope T B session 0x10 s2 = (Inr (d3, t3), s') \<and> parse_status_registry d3 = Inr es3
     \<and> rep = inventory_report (Aid isd_aid) (fold_inventory (Aid isd_aid) es1 t1 es2 t2 es3 t3))"
proof -
  have p: "P1_ISD_SCOPE = 0x80" "P1_APP_SD_SCOPE = 0x40" "P1_ELF_MODULE_SCOPE = 0x10"
    by (simp_all add: P1_ISD_SCOPE_def P1_APP_SD_SCOPE_def P1_ELF_MODULE_SCOPE_def)
  have aid: "bindP (liftR (aid_new isd_aid)) k s = (Inr rep, s') \<longleftrightarrow>
      aid_bytes_ok isd_aid \<and> k (Aid isd_aid) s = (Inr rep, s')" for k
    by (simp add: aid_new_cases bindP_def)
  have step: "bindP (collect_scope T B session p1 f v) k s0 = (Inr rep, s') \<longleftrightarrow>
      (\<exists>d t s1 es. read_status_scope T B session p1 s0 = (Inr (d, t), s1) \<and> parse_status_registry d = Inr es
        \<and> k (store_all f es t v) s1 = (Inr rep, s'))" for p1 f v k s0
    unfolding bindP_eq_Inr collect_scope_Inr by blast
  have last: "ret x s0 = (Inr rep, s') \<longleftrightarrow> s0 = s' \<and> rep = x" for x s0
    by auto
  show ?thesis
    unfolding get_card_inventory_def Let_def aid step case_pair_Inr last p inventory_report_def fold_inventory_def prod.case
    by blast
qed


section \<open>Setting the state\<close>

lemma raw_byte_eq: "raw_byte c = life_cycle_byte c"
  by (cases c) simp_all

lemma check_transition_NoOp: "check_transition c t force = Inr NoOp \<longleftrightarrow> c = t \<and> t \<noteq> Terminated \<and> \<not> is_unknown t"
  by (auto simp: check_transition_def split: option.splits)

definition status_change :: "set_card_status_args \<Rightarrow> card_life_cycle \<Rightarrow> bool \<Rightarrow> set_card_status_report" where
  "status_change args c no_op = \<lparr>scr_state_before = c, scr_target_state = sca_target_state args,
     scr_p1_status_type = 0x80, scr_p2_state_byte = life_cycle_byte (sca_target_state args), scr_was_no_op = no_op,
     scr_force_used = sca_force args,
     scr_irreversible = (sca_target_state args \<in> {Initialized, Secured} \<and> c \<noteq> CardLocked),
     scr_warnings = (if no_op then [\<lparr>warning_kind = LifecycleNoOp, warning_detail = []\<rparr>] else [])\<rparr>"

text \<open>C40: the state of the card is changed by one command, and only along the legal transitions.
  \<open>set_card_status\<close> succeeds exactly when the current state (the given one, or the one read from the
  card first) is already the target, and then nothing is sent; or the pair is one of the four
  transitions, or the forced skip to \<open>SECURED\<close>, and the card answers \<open>9000\<close> to the one SET STATUS
  with the target's byte. The report repeats this; \<open>irreversible\<close> is also set on a no-op.\<close>

theorem set_card_status_success:
  "set_card_status T B session args s = (Inr rep, s') \<longleftrightarrow>
    (\<exists>c s1. (case sca_current_state args of
          Some c0 \<Rightarrow> c = c0 \<and> s1 = s
        | None \<Rightarrow> \<exists>r. get_card_status T B session (sca_isd_aid args) s = (Inr r, s1) \<and> c = gcs_state r)
      \<and> (let t = sca_target_state args in
         c = t \<and> t \<noteq> Terminated \<and> \<not> is_unknown t \<and> s' = s1 \<and> rep = status_change args c True
         \<or> ((c, t) \<in> {(OpReady, Initialized), (Initialized, Secured), (CardLocked, Secured), (Secured, CardLocked)}
            \<or> (c, t) = (OpReady, Secured) \<and> sca_force args)
           \<and> length (sca_isd_aid args) \<le> 255
           \<and> (\<exists>d. transmit_in_session T B session
                (short_apdu 0x84 0xF0 0x80 (life_cycle_byte t) (sca_isd_aid args) False) s1 = (Inr (d, 0x9000), s'))
           \<and> rep = status_change args c False))"
proof -
  have w: "warn k [] = [\<lparr>warning_kind = k, warning_detail = []\<rparr>]" for k
    by (simp add: warn_def push_ignore_def vec_push_def limit_simps)
  have cur: "current_state T B session args s = (Inr c, s1) \<longleftrightarrow> (case sca_current_state args of
          Some c0 \<Rightarrow> c = c0 \<and> s1 = s
        | None \<Rightarrow> \<exists>r. get_card_status T B session (sca_isd_aid args) s = (Inr r, s1) \<and> c = gcs_state r)" for c s1
    by (cases s1) (auto simp: current_state_def bindP_eq_Inr split: option.splits)
  have plan: "(\<exists>p s1'. (check_transition c t f = Inr p \<and> s1' = s1) \<and> Q p s1') \<longleftrightarrow>
      c = t \<and> t \<noteq> Terminated \<and> \<not> is_unknown t \<and> Q NoOp s1 \<or> (\<exists>p2. transition_p2 c t f = Some p2 \<and> Q (Apply p2) s1)"
    for c t f Q s1
    by (metis check_transition_NoOp check_transition_Apply transition_plan.exhaust)
  have p2: "transition_p2 c t f = Some p2 \<longleftrightarrow>
      ((c, t) \<in> {(OpReady, Initialized), (Initialized, Secured), (CardLocked, Secured), (Secured, CardLocked)}
        \<or> (c, t) = (OpReady, Secured) \<and> f) \<and> p2 = life_cycle_byte t" for c t f p2
    by (auto simp: transition_p2_Some)
  have run: "(\<exists>r s2. run_plan T B session args (Apply p2) s1 = (Inr r, s2) \<and> Q r s2) \<longleftrightarrow>
      length (sca_isd_aid args) \<le> 255 \<and> (\<exists>d s2. transmit_in_session T B session
        (short_apdu 0x84 0xF0 0x80 p2 (sca_isd_aid args) False) s1 = (Inr (d, SW_OK), s2) \<and> Q (False, p2, []) s2)" for p2 s1 Q
    by (auto simp: bindP_eq_Inr set_card_status_cmd_eq success_simps split: if_splits)
  show ?thesis
    unfolding set_card_status_def bindP_eq_Inr [where m = "current_state T B session args"] cur
      bindP_eq_Inr [where m = "liftR (check_transition c t f)" for c t f] liftR_Inr plan
      bindP_eq_Inr [where m = "run_plan T B session args p" for p] run p2
    by (cases "sca_current_state args"; cases s')
      (auto simp: raw_byte_eq w status_change_def Let_def P1_ISD_SCOPE_def SW_OK_def)
qed

section \<open>A registry entry split over two pages\<close>

definition demo_pages :: "(bytes \<times> bytes) list" where
  "demo_pages = [(status_query 0x80 0x02, [0xE3, 0x0B, 0x4F, 0x05, 0xA0, 0x00, 0x63, 0x10]),
     (status_query 0x80 0x03, [0x00, 0x00, 0x03, 0x9F, 0x70, 0x01, 0x0F, 0x90, 0x00])]"

definition demo_reader :: mock_transport where
  "demo_reader = the (mock_new demo_pages)"

lemma status_scope_parses_witness:
  "\<exists>m. read_status_scope mock_dyn stub_ops stub_session 0x80 (demo_reader, stub_default)
      = (Inr ([0xE3, 0x0B, 0x4F, 0x05, 0xA0, 0x00, 0x00, 0x00, 0x03, 0x9F, 0x70, 0x01, 0x0F], False), (m, stub_default))
    \<and> is_ok (parse [0xE3, 0x0B, 0x4F, 0x05, 0xA0, 0x00, 0x00, 0x00, 0x03, 0x9F, 0x70, 0x01, 0x0F])"
proof -
  let ?d = "[0xE3, 0x0B, 0x4F, 0x05, 0xA0, 0x00, 0x00, 0x00, 0x03, 0x9F, 0x70, 0x01, 0x0F] :: bytes"
  let ?pages = "[([0xE3, 0x0B, 0x4F, 0x05, 0xA0, 0x00], SW_MORE_DATA), ([0x00, 0x00, 0x03, 0x9F, 0x70, 0x01, 0x0F], SW_OK)]"
  let ?run = "\<lambda>p2 s. transmit_in_session mock_dyn stub_ops stub_session (status_query 0x80 p2) s"
  define s0 where "s0 = (demo_reader, stub_default)"
  define s1 where "s1 = snd (?run 0x02 s0)"
  define s2 where "s2 = snd (?run 0x03 s1)"
  have 1: "?run 0x02 s0 = (Inr ([0xE3, 0x0B, 0x4F, 0x05, 0xA0, 0x00], SW_MORE_DATA), s1)"
    unfolding s1_def s0_def by code_simp
  have 2: "?run P2_NEXT_TLV s1 = (Inr ([0x00, 0x00, 0x03, 0x9F, 0x70, 0x01, 0x0F], SW_OK), s2)"
    unfolding s2_def s1_def s0_def P2_NEXT_TLV_def by code_simp
  have s2: "snd s2 = stub_default" unfolding s2_def s1_def s0_def by code_simp
  have ok: "is_ok (parse ?d)" by code_simp
  have room: "length [] + RAPDU_MAX * MAX_STATUS_PAGES \<le> MAX_STATUS_SCOPE_BYTES" by (simp add: limit_simps)
  have "status_pages mock_dyn stub_ops stub_session 0x80 P2_FIRST_TLV s0 ?pages s2"
    unfolding status_pages_Cons status_pages_Nil P2_FIRST_TLV_def using 1 2 by blast
  moreover have "joined [] ?pages = Some ?d"
    using ok by simp
  ultimately have r: "read_status_scope mock_dyn stub_ops stub_session 0x80 s0 = (Inr (?d, False), s2)"
    unfolding read_status_scope_def scope_loop_joined [OF room]
    by (intro exI [of _ ?pages] conjI) (assumption | simp add: limit_simps)+
  from status_scope_parses [OF r] have "is_ok (parse ?d)" by (rule conjunct1)
  then show ?thesis using r s2 unfolding s0_def by (intro exI [of _ "fst s2"]) (simp add: prod_eq_iff)
qed

end
