(* ===== verification/Scll_Handshake.thy ===== *)
theory Scll_Handshake
  imports Scll_Session
begin

text \<open>
  Opening a secure channel: \<open>begin\<close> of \<open>scll-core/src/scp/scp03.rs\<close> and \<open>scp02.rs\<close> (\<open>begin03\<close>,
  \<open>begin02\<close>), and \<open>open_scp\<close> of \<open>scll-core/src/workflow/open_scp.rs\<close>.

  The lemmas run \<open>begin03\<close> on the software backend: which answers of a card it accepts, that the
  card's end of the channel then agrees with the host's, and what a refused card leaves behind.
\<close>

section \<open>The program\<close>

definition begin03 ::
    "'b backend_ops \<Rightarrow> key_handle \<Rightarrow> key_handle \<Rightarrow> u8 \<Rightarrow> u8 \<Rightarrow> bytes \<Rightarrow> bytes \<Rightarrow> bytes \<Rightarrow>
     ('b, scll_error, scp03_state \<times> capdu) prog" where
  "begin03 B static_enc static_mac kvn_expected requested_level host_challenge invoker_aid iu_response =
     bindP (liftR (parse_iu_response03 iu_response)) (\<lambda>iu.
     if kvn_expected \<noteq> 0x00 \<and> iu3_kvn iu \<noteq> kvn_expected then throw KvnMismatch
     else
       bindP (map_errP Backend
         (b_scp03_derive_session B static_enc static_mac (iu3_mode iu) host_challenge (iu3_card_challenge iu))) (\<lambda>session.
       bindP (map_errP Backend (b_scp03_card_cryptogram B session host_challenge (iu3_card_challenge iu))) (\<lambda>expected_card.
       if \<not> b_ct_eq B expected_card (iu3_card_cryptogram iu) then throw CardCryptogramFail
       else
         thenP (case iu3_sequence_counter iu of
             None \<Rightarrow> ret ()
           | Some seq \<Rightarrow>
               bindP (map_errP Backend
                 (b_scp03_pseudo_card_challenge B static_enc (iu3_mode iu) seq invoker_aid)) (\<lambda>expected_challenge.
               if \<not> b_ct_eq B expected_challenge (iu3_card_challenge iu) then throw CardChallengeFail
               else ret ())) (
         bindP (liftR (cap_security_level03 (iu3_i_param iu) requested_level)) (\<lambda>security_level.
         bindP (map_errP Backend (b_scp03_host_cryptogram B session host_challenge (iu3_card_challenge iu))) (\<lambda>host_cryptogram.
         bindP (liftR (ea_plaintext03 security_level host_cryptogram)) (\<lambda>ea_plain.
         bindP (map_errP Backend (b_scp03_wrap_command B session ea_plain)) (\<lambda>ea_wrapped.
         ret (\<lparr>st3_session = session, st3_i_param = iu3_i_param iu, st3_security_level = security_level,
           st3_kvn = iu3_kvn iu\<rparr>, ea_wrapped))))))))) "

definition begin02 ::
    "'b backend_ops \<Rightarrow> key_handle \<Rightarrow> key_handle \<Rightarrow> key_handle \<Rightarrow> u8 \<Rightarrow> u8 \<Rightarrow> u8 \<Rightarrow> bytes \<Rightarrow> bytes \<Rightarrow>
     ('b, scll_error, scp02_state \<times> capdu) prog" where
  "begin02 B base_enc base_mac base_dek i_par kvn_expected requested_level host_challenge iu_response =
     bindP (liftR (parse_iu_response02 iu_response)) (\<lambda>iu.
     if kvn_expected \<noteq> 0x00 \<and> iu2_kvn iu \<noteq> kvn_expected then throw KvnMismatch
     else
       bindP (map_errP Backend
         (b_scp02_derive_session B base_enc base_mac base_dek (iu2_seq_counter iu))) (\<lambda>session.
       let card_ch8 = iu2_seq_counter iu @ iu2_card_challenge iu in
       bindP (map_errP Backend (b_scp02_card_cryptogram B session host_challenge card_ch8)) (\<lambda>expected_card.
       if \<not> b_ct_eq B expected_card (iu2_card_cryptogram iu) then throw CardCryptogramFail
       else
         bindP (liftR (cap_security_level02 i_par requested_level)) (\<lambda>security_level.
         bindP (map_errP Backend (b_scp02_host_cryptogram B session host_challenge card_ch8)) (\<lambda>host_cryptogram.
         bindP (liftR (ea_plaintext02 security_level host_cryptogram)) (\<lambda>ea_plain.
         bindP (map_errP Backend (b_scp02_wrap_command B session ea_plain)) (\<lambda>ea_wrapped.
         ret (\<lparr>st2_session = session, st2_i_param = i_par, st2_security_level = security_level,
           st2_kvn = iu2_kvn iu\<rparr>, ea_wrapped))))))))"

record sd_keys =
  sdk_enc :: key_handle
  sdk_mac :: key_handle
  sdk_dek :: key_handle

datatype scp_target_kind = SecurityDomainAid | ApplicationAid

record open_scp_args =
  osa_target_aid :: bytes
  osa_target_kind :: scp_target_kind
  osa_sd_keys :: sd_keys
  osa_advertised :: "scp_variant list"
  osa_force_scp :: "scp_variant option"
  osa_kvn :: u8
  osa_requested_level :: u8

record open_scp_report =
  osr_session :: scp_session
  osr_target_aid :: aid
  osr_target_kind :: scp_target_kind
  osr_sd_aid_used_for_keys :: aid
  osr_scp_protocol_effective :: scp_protocol
  osr_kvn_requested :: u8
  osr_kvn_effective :: u8
  osr_i_param_effective :: u8
  osr_security_level_requested :: u8
  osr_security_level_effective :: u8
  osr_session_id :: u64
  osr_invoker_aid_used :: aid

definition SCP02_KEY_ID :: u8 where "SCP02_KEY_ID = 0x00"

text \<open>The two arms of the \<open>match\<close> on the selected version: session, key version, \<open>i\<close>, level.\<close>

definition open_arm03 ::
    "'t transport \<Rightarrow> 'b backend_ops \<Rightarrow> open_scp_args \<Rightarrow> aid \<Rightarrow> u8 \<Rightarrow> ('t, 'b, scp_session \<times> u8 \<times> u8 \<times> u8) workflow" where
  "open_arm03 T B args invoker_aid i_par =
    (let mode = from_i i_par; host_len = field_len mode; keys = osa_sd_keys args in
     bindP (backend (b_random_bytes B host_len)) (\<lambda>host_challenge.
     bindP (liftR (iu_command03 (osa_kvn args) host_challenge)) (\<lambda>iu_capdu.
     bindP (transmit_plain T iu_capdu) (\<lambda>(iu_data, sw).
     if sw \<noteq> SW_OK then throw (from_general_sw sw)
     else
       bindP (liftR (parse_iu_response03 iu_data)) (\<lambda>iu.
       bindP (on_snd (begin03 B (sdk_enc keys) (sdk_mac keys) (osa_kvn args) (osa_requested_level args)
         host_challenge (as_bytes invoker_aid) iu_data)) (\<lambda>(state, ea).
       let level = st3_security_level state in
       bindP (transmit_plain T ea) (\<lambda>(d, ea_sw).
       if ea_sw \<noteq> SW_OK then throw (ExternalAuthFail ea_sw)
       else ret (Scp03S state, iu3_kvn iu, iu3_i_param iu, level))))))))"

definition open_arm02 ::
    "'t transport \<Rightarrow> 'b backend_ops \<Rightarrow> open_scp_args \<Rightarrow> u8 \<Rightarrow> ('t, 'b, scp_session \<times> u8 \<times> u8 \<times> u8) workflow" where
  "open_arm02 T B args i_par =
    (let keys = osa_sd_keys args in
     bindP (backend (b_random_bytes B 8)) (\<lambda>host_challenge.
     bindP (liftR (iu_command02 (osa_kvn args) SCP02_KEY_ID host_challenge)) (\<lambda>iu_capdu.
     bindP (transmit_plain T iu_capdu) (\<lambda>(iu_data, sw).
     if sw \<noteq> SW_OK then throw (from_general_sw sw)
     else
       bindP (liftR (parse_iu_response02 iu_data)) (\<lambda>iu.
       bindP (on_snd (begin02 B (sdk_enc keys) (sdk_mac keys) (sdk_dek keys) i_par (osa_kvn args)
         (osa_requested_level args) host_challenge iu_data)) (\<lambda>(state, ea).
       let level = st2_security_level state in
       bindP (transmit_plain T ea) (\<lambda>(d, ea_sw).
       if ea_sw \<noteq> SW_OK then throw (ExternalAuthFail ea_sw)
       else ret (Scp02S state, iu2_kvn iu, i_par, level))))))))"

definition invoker_aid_of :: "bytes \<Rightarrow> aid \<Rightarrow> aid" where
  "invoker_aid_of fci target_aid = (case ok (fci_df_name fci) of
     Some (Some name) \<Rightarrow> (case ok (aid_new name) of Some a \<Rightarrow> a | None \<Rightarrow> target_aid)
   | _ \<Rightarrow> target_aid)"

definition open_scp :: "'t transport \<Rightarrow> 'b backend_ops \<Rightarrow> open_scp_args \<Rightarrow> ('t, 'b, open_scp_report) workflow" where
  "open_scp T B args =
     bindP (liftR (ok_or ScpProtocolUnsupported (select (osa_advertised args) (osa_force_scp args)))) (\<lambda>variant.
     bindP (select_app T (osa_target_aid args)) (\<lambda>fci.
     bindP (liftR (aid_new (osa_target_aid args))) (\<lambda>target_aid.
     let invoker_aid = invoker_aid_of fci target_aid in
     bindP (case variant of
         Scp03 i_par \<Rightarrow> open_arm03 T B args invoker_aid i_par
       | Scp02 i_par \<Rightarrow> open_arm02 T B args i_par) (\<lambda>(session, kvn_effective, i_param_effective, level).
     ret \<lparr>osr_session = session, osr_target_aid = target_aid, osr_target_kind = osa_target_kind args,
       osr_sd_aid_used_for_keys = target_aid, osr_scp_protocol_effective = ses_protocol session,
       osr_kvn_requested = osa_kvn args, osr_kvn_effective = kvn_effective,
       osr_i_param_effective = i_param_effective, osr_security_level_requested = osa_requested_level args,
       osr_security_level_effective = level, osr_session_id = ses_id session,
       osr_invoker_aid_used = invoker_aid\<rparr>))))"

section \<open>The SCP03 handshake on the software backend\<close>

definition cryptogram_ref03 :: "prims \<Rightarrow> scp03_session_slot \<Rightarrow> u8 \<Rightarrow> bytes \<Rightarrow> bytes" where
  "cryptogram_ref03 P s const ctx = kdf_ref P (s3_mac s) const (l_bits (s3_mode s)) ctx (field_len (s3_mode s))"

definition challenge_ref03 :: "prims \<Rightarrow> bytes \<Rightarrow> scp_mode \<Rightarrow> bytes \<Rightarrow> bytes \<Rightarrow> bytes" where
  "challenge_ref03 P enc mode seq aid = kdf_ref P enc DC_CARD_CHALLENGE (l_bits mode) (seq @ aid) (field_len mode)"

lemma cryptogram03_eq:
  assumes "prims_ok P" "get_slot (bs_sessions st) (unat h) = Some s" "slot3_ok s"
    and "length hc = field_len (s3_mode s)" "length cc = field_len (s3_mode s)"
  shows "cryptogram03 P h hc cc const st = (Inr (cryptogram_ref03 P s const (hc @ cc)), st)"
    and "length (cryptogram_ref03 P s const (hc @ cc)) = field_len (s3_mode s)"
proof -
  have len: "length (hc @ cc) \<le> 48" using assms(4,5) field_len_le [of "s3_mode s"] by simp
  show l: "length (cryptogram_ref03 P s const (hc @ cc)) = field_len (s3_mode s)"
    using length_kdf_ref [OF assms(1) slot3_okD(2) [OF assms(3)]] by (simp add: cryptogram_ref03_def)
  show "cryptogram03 P h hc cc const st = (Inr (cryptogram_ref03 P s const (hc @ cc)), st)"
    using l kdf_eq [OF assms(1) slot3_okD(2) [OF assms(3)] len] field_len_le [of "s3_mode s"]
    by (simp add: cryptogram03_def field_len_context [OF assms(4,5)] session_snapshot_def assms(2) Let_def
        cryptogram_ref03_def vec_extend_def limit_simps)
qed

lemma pseudo_challenge_eq:
  assumes "prims_ok P" "state_ok st" "length seq = 3" "length aid \<le> 16" "read_aes_key st h = Inr enc"
  shows "scp03_pseudo_card_challenge P h mode seq aid st = (Inr (challenge_ref03 P enc mode seq aid), st)"
proof -
  have k: "aes_key_len enc" using read_aes_key_ok [OF assms(2,5)] .
  have "length (seq @ aid) \<le> 48" using assms(3,4) by simp
  from kdf_eq [OF assms(1) k this] length_kdf_ref [OF assms(1) k] show ?thesis
    using assms(3-5) field_len_le [of mode]
    by (simp add: scp03_pseudo_card_challenge_def vec_extend_def Let_def challenge_ref03_def limit_simps)
qed

text \<open>The cryptogram operations read the state only.\<close>

lemma readers03:
  "scp03_card_cryptogram P h a b st = (r, st') \<longleftrightarrow> st' = st \<and> fst (scp03_card_cryptogram P h a b st) = r"
  "scp03_host_cryptogram P h a b st = (r, st') \<longleftrightarrow> st' = st \<and> fst (scp03_host_cryptogram P h a b st) = r"
  "scp03_pseudo_card_challenge P ke m a b st = (r, st') \<longleftrightarrow> st' = st \<and> fst (scp03_pseudo_card_challenge P ke m a b st) = r"
  by (auto simp: scp03_card_cryptogram_def scp03_host_cryptogram_def cryptogram03_def scp03_pseudo_card_challenge_def)

text \<open>What the card has to send for a host that holds the keys \<open>enc\<close> and \<open>mac\<close>.\<close>

definition genuine03 :: "prims \<Rightarrow> bytes \<Rightarrow> bytes \<Rightarrow> bytes \<Rightarrow> bytes \<Rightarrow> iu_response03 \<Rightarrow> bool" where
  "genuine03 P enc mac hc aid iu =
    (let ctx = hc @ iu3_card_challenge iu in
     iu3_card_cryptogram iu = cryptogram_ref03 P (derived03 P enc mac (iu3_mode iu) ctx) DC_CARD_CRYPTO ctx
     \<and> (case iu3_sequence_counter iu of None \<Rightarrow> True
        | Some seq \<Rightarrow> iu3_card_challenge iu = challenge_ref03 P enc (iu3_mode iu) seq aid))"

definition ea_sent :: "u8 \<Rightarrow> bytes \<Rightarrow> bytes" where
  "ea_sent level hcg = [0x84, 0x82, level, 0x00, of_nat (length hcg)] @ hcg"

lemma ea_plaintext03_eq: "length hcg \<le> 16 \<Longrightarrow> ea_plaintext03 level hcg = Inr (ea_sent level hcg)"
  by (simp add: ea_plaintext03_def u8_try_from_def apdu_of_def thenP_def bindP_def extend_apdu_def push_def
      vec_extend_def limit_simps ea_sent_def INS_EXTERNAL_AUTHENTICATE_def)

lemma ea_sent_parts:
  assumes "length hcg \<le> 16"
  shows "apdu_framed (ea_sent level hcg)" "apdu_data (ea_sent level hcg) = hcg" "capdu_le (ea_sent level hcg) = []"
    "ea_sent level hcg ! 0 = 0x84" "ea_sent level hcg ! Suc 0 = 0x82" "ea_sent level hcg ! 2 = level" "4 \<le> length (ea_sent level hcg)"
    "ea_sent level hcg ! 3 = 0"
proof -
  have "unat (of_nat (length hcg) :: u8) = length hcg" using assms by (simp add: unat_u8_of_nat)
  then show "apdu_framed (ea_sent level hcg)" "apdu_data (ea_sent level hcg) = hcg" "capdu_le (ea_sent level hcg) = []"
    by (auto simp: apdu_framed_def apdu_data_def capdu_le_def ea_sent_def Let_def)
qed (simp_all add: ea_sent_def)

lemma parse_iu_response03_ok: "parse_iu_response03 bs = Inr iu \<Longrightarrow> iu_ok03 iu"
  using parse_iu_response03_sound by blast

lemma scp03_derive_fresh:
  assumes "prims_ok P" "state_ok st" "scp03_derive_session P he hm mode hc cc st = (Inr h, st')"
  shows "\<exists>enc mac. read_aes_key st he = Inr enc \<and> read_aes_key st hm = Inr mac \<and> length enc = length mac
    \<and> length hc = field_len mode \<and> length cc = field_len mode
    \<and> get_slot (bs_sessions st) (unat h) = None \<and> unat h < 16
    \<and> (\<forall>j. get_slot (bs_sessions st') j =
        (if j = unat h then Some (derived03 P enc mac mode (hc @ cc)) else get_slot (bs_sessions st) j))
    \<and> st' = st\<lparr>bs_sessions := bs_sessions st'\<rparr> \<and> state_ok st'"
proof -
  obtain enc mac i ss where d: "read_aes_key st he = Inr enc" "read_aes_key st hm = Inr mac" "length enc = length mac"
    "length hc = field_len mode" "length cc = field_len mode"
    "alloc_slot (derived03 P enc mac mode (hc @ cc)) (bs_sessions st) = Some (i, ss)" "h = of_nat i"
    "st' = st\<lparr>bs_sessions := ss\<rparr>"
    using assms(3) unfolding scp03_derive_Inr [OF assms(1,2)] by blast
  note a = alloc_get [OF d(6)]
  have i: "i < 16" using a assms(2) by (simp add: state_ok_def limit_simps)
  then have u: "unat h = i" by (simp add: d(7) unat_of_nat)
  have ok: "slot3_ok (derived03 P enc mac mode (hc @ cc))"
    using derived03_ok [OF assms(1)] read_aes_key_ok [OF assms(2)] d(1-3) by blast
  have "state_ok st'" using assms(2) a ok by (auto simp: state_ok_def d(8))
  then show ?thesis using d a i u by auto
qed

lemma begin03_success:
  assumes "prims_ok P" "state_ok st" "length aid \<le> 16"
    and run: "begin03 (rustcrypto P fill) he hm kvn lvl hc aid bs st = (Inr (s, ea), st')"
  shows "\<exists>iu enc mac k k'. parse_iu_response03 bs = Inr iu \<and> (kvn = 0 \<or> iu3_kvn iu = kvn)
    \<and> read_aes_key st he = Inr enc \<and> read_aes_key st hm = Inr mac \<and> genuine03 P enc mac hc aid iu
    \<and> cap_security_level03 (iu3_i_param iu) lvl = Inr (st3_security_level s)
    \<and> st3_kvn s = iu3_kvn iu \<and> st3_i_param s = iu3_i_param iu
    \<and> get_slot (bs_sessions st) (unat (st3_session s)) = None
    \<and> k = derived03 P enc mac (iu3_mode iu) (hc @ iu3_card_challenge iu)
    \<and> card_receive03 P k ea = Some (((0x84, 0x82, st3_security_level s, 0),
        cryptogram_ref03 P k DC_HOST_CRYPTO (hc @ iu3_card_challenge iu), []), k')
    \<and> synced03 P (st3_session s) st' k' \<and> s3_authed k' \<and> s3_level k' = st3_security_level s"
proof -
  obtain iu h st1 card_cg lev hcg plain where
    iu: "parse_iu_response03 bs = Inr iu" "kvn = 0 \<or> iu3_kvn iu = kvn"
    and der: "scp03_derive_session P he hm (iu3_mode iu) hc (iu3_card_challenge iu) st = (Inr h, st1)"
    and rest: "fst (scp03_card_cryptogram P h hc (iu3_card_challenge iu) st1) = Inr card_cg"
      "card_cg = iu3_card_cryptogram iu"
      "case iu3_sequence_counter iu of None \<Rightarrow> True | Some seq \<Rightarrow>
        fst (scp03_pseudo_card_challenge P he (iu3_mode iu) seq aid st1) = Inr (iu3_card_challenge iu)"
      "cap_security_level03 (iu3_i_param iu) lvl = Inr lev"
      "fst (scp03_host_cryptogram P h hc (iu3_card_challenge iu) st1) = Inr hcg"
      "ea_plaintext03 lev hcg = Inr plain"
      "scp03_wrap_command P h plain st1 = (Inr ea, st')"
      "s = \<lparr>st3_session = h, st3_i_param = iu3_i_param iu, st3_security_level = lev, st3_kvn = iu3_kvn iu\<rparr>"
    using run
    by (auto simp: begin03_def run_simps readers03 simp del: map_errP_apply split: if_splits option.splits)
  let ?ctx = "hc @ iu3_card_challenge iu"
  obtain enc mac where d: "read_aes_key st he = Inr enc" "read_aes_key st hm = Inr mac" "length enc = length mac"
    "length hc = field_len (iu3_mode iu)" "length (iu3_card_challenge iu) = field_len (iu3_mode iu)"
    "get_slot (bs_sessions st) (unat h) = None"
    "get_slot (bs_sessions st1) (unat h) = Some (derived03 P enc mac (iu3_mode iu) ?ctx)"
    "st1 = st\<lparr>bs_sessions := bs_sessions st1\<rparr>" "state_ok st1"
    using scp03_derive_fresh [OF assms(1,2) der] by auto
  let ?k = "derived03 P enc mac (iu3_mode iu) ?ctx"
  have k: "slot3_ok ?k" "s3_mode ?k = iu3_mode iu" "\<not> s3_authed ?k"
    using get_session_ok [OF d(9,7)] by (simp_all add: derived03_def Let_def)
  have cg: "cryptogram03 P h hc (iu3_card_challenge iu) c st1 = (Inr (cryptogram_ref03 P ?k c ?ctx), st1)"
    "length (cryptogram_ref03 P ?k c ?ctx) = field_len (iu3_mode iu)" for c
    using cryptogram03_eq [OF assms(1) d(7) k(1)] d(4,5) k(2) by simp_all
  have hcg: "hcg = cryptogram_ref03 P ?k DC_HOST_CRYPTO ?ctx" "length hcg \<le> 16"
    using rest(5) cg [of DC_HOST_CRYPTO] field_len_le by (auto simp: scp03_host_cryptogram_def)
  have plain: "plain = ea_sent lev hcg" using rest(6) ea_plaintext03_eq [OF hcg(2)] by simp
  note parts = ea_sent_parts [OF hcg(2), of lev]
  have key: "read_aes_key st1 he = Inr enc" using d(1) by (subst d(8)) (simp add: read_aes_key_def)
  have seq: "case iu3_sequence_counter iu of None \<Rightarrow> True
      | Some seq \<Rightarrow> iu3_card_challenge iu = challenge_ref03 P enc (iu3_mode iu) seq aid"
    using rest(3) parse_iu_response03_ok [OF iu(1)] pseudo_challenge_eq [OF assms(1) d(9) _ assms(3) key]
    by (auto simp: iu_ok03_def SEQ_COUNTER_LEN_def split: option.splits)
  have sync: "synced03 P h st1 ?k" using assms(1) d(7,9) by (simp add: synced03_def)
  obtain k' where k': "card_receive03 P ?k ea = Some (sm_view (capdu_le plain) plain, k')" "synced03 P h st' k'"
    using ch03.send_received [OF sync rest(7)] by blast
  have "ready03 P h st' k'" using ch03.send_ready [OF sync rest(7) k'(1)] .
  then have au: "s3_authed k'" by (simp add: ready03_def)
  obtain k'' where k'': "wrap03 P ?k plain = Inr (ea, k'')" "4 \<le> length plain"
    using rest(7) d(7) by (auto simp: scp03_wrap_Inr)
  have "k' = k''" using card_receive03_wrap [OF assms(1) k(1) k''(2,1)] k'(1) by simp
  then have lev: "s3_level k' = lev"
    using wrap03_success(7) [OF assms(1) k(1) k''] k(3) parts(6) by (simp add: sent03_def plain)
  have view: "sm_view (capdu_le plain) plain = ((0x84, 0x82, lev, 0), hcg, [])"
    using parts by (simp add: sm_view_def plain)
  have "genuine03 P enc mac hc aid iu"
    using seq rest(1,2) cg(1) [of DC_CARD_CRYPTO] by (simp add: genuine03_def Let_def scp03_card_cryptogram_def)
  then show ?thesis
    using iu d(1,2,6) rest(4,8) k' au lev view hcg(1) by (auto simp: plain)
qed

section \<open>Which cards are accepted, and what a refusal leaves behind\<close>

lemma scp03_derive_eq:
  assumes "prims_ok P" "state_ok st" "read_aes_key st he = Inr enc" "read_aes_key st hm = Inr mac"
    and "length enc = length mac" "length hc = field_len mode" "length cc = field_len mode"
  shows "scp03_derive_session P he hm mode hc cc st =
    (case alloc_slot (derived03 P enc mac mode (hc @ cc)) (bs_sessions st) of
       None \<Rightarrow> (Inl (KeyGen (short_str ''session table full'')), st)
     | Some (i, ss) \<Rightarrow> (Inr (of_nat i), st\<lparr>bs_sessions := ss\<rparr>))"
proof -
  have len: "length (hc @ cc) \<le> 48" using assms(6,7) field_len_le [of mode] by simp
  have k: "kdf P key const l (hc @ cc) n = Inr (kdf_ref P key const l (hc @ cc) n)"
    if "aes_key_len key" for key const l n using kdf_eq [OF assms(1) that len] .
  have "derive_slot03 P st he hm mode (hc @ cc) = Inr (derived03 P enc mac mode (hc @ cc))"
    using k [OF read_aes_key_ok [OF assms(2,3)]] k [OF read_aes_key_ok [OF assms(2,4)]] assms(3-5)
    by (simp add: derive_slot03_def derived03_def Let_def limit_simps)
  then show ?thesis using assms(6,7) by (simp add: scp03_derive_session_def field_len_context)
qed

text \<open>\<open>begin03\<close> up to the derivation of the session.\<close>

lemma begin03_derive:
  assumes "parse_iu_response03 bs = Inr iu" "kvn = 0 \<or> iu3_kvn iu = kvn"
    and "prims_ok P" "state_ok st" "read_aes_key st he = Inr enc" "read_aes_key st hm = Inr mac"
    and "length enc = length mac" "length hc = field_len (iu3_mode iu)"
  defines "k \<equiv> derived03 P enc mac (iu3_mode iu) (hc @ iu3_card_challenge iu)"
  shows "alloc_slot k (bs_sessions st) = None \<Longrightarrow>
      begin03 (rustcrypto P fill) he hm kvn lvl hc aid bs st = (Inl (Backend (KeyGen (short_str ''session table full''))), st)"
    and "alloc_slot k (bs_sessions st) = Some (i, ss) \<Longrightarrow>
      iu3_card_cryptogram iu \<noteq> cryptogram_ref03 P k DC_CARD_CRYPTO (hc @ iu3_card_challenge iu) \<Longrightarrow>
      begin03 (rustcrypto P fill) he hm kvn lvl hc aid bs st = (Inl CardCryptogramFail, st\<lparr>bs_sessions := ss\<rparr>)"
proof -
  have cc: "length (iu3_card_challenge iu) = field_len (iu3_mode iu)"
    using parse_iu_response03_ok [OF assms(1)] by (simp add: iu_ok03_def)
  note d = scp03_derive_eq [OF assms(3-8) cc, folded k_def]
  have kv: "\<not> (kvn \<noteq> 0 \<and> iu3_kvn iu \<noteq> kvn)" using assms(2) by blast
  show "begin03 (rustcrypto P fill) he hm kvn lvl hc aid bs st = (Inl (Backend (KeyGen (short_str ''session table full''))), st)"
    if "alloc_slot k (bs_sessions st) = None"
    using assms(1) kv d that by (simp add: begin03_def bindP_def)
  show "begin03 (rustcrypto P fill) he hm kvn lvl hc aid bs st = (Inl CardCryptogramFail, st\<lparr>bs_sessions := ss\<rparr>)"
    if al: "alloc_slot k (bs_sessions st) = Some (i, ss)"
      and bad: "iu3_card_cryptogram iu \<noteq> cryptogram_ref03 P k DC_CARD_CRYPTO (hc @ iu3_card_challenge iu)"
  proof -
    have "scp03_derive_session P he hm (iu3_mode iu) hc (iu3_card_challenge iu) st = (Inr (of_nat i), st\<lparr>bs_sessions := ss\<rparr>)"
      using d al by simp
    from scp03_derive_fresh [OF assms(3,4) this] assms(5,6)
    have st1: "get_slot (bs_sessions (st\<lparr>bs_sessions := ss\<rparr>)) (unat (of_nat i :: u16)) = Some k" "state_ok (st\<lparr>bs_sessions := ss\<rparr>)"
      by (auto simp: k_def)
    have km: "s3_mode k = iu3_mode iu" by (simp add: k_def derived03_def Let_def)
    from cryptogram03_eq(1) [OF assms(3) st1(1) get_session_ok [OF st1(2,1)]]
    have "scp03_card_cryptogram P (of_nat i) hc (iu3_card_challenge iu) (st\<lparr>bs_sessions := ss\<rparr>) =
      (Inr (cryptogram_ref03 P k DC_CARD_CRYPTO (hc @ iu3_card_challenge iu)), st\<lparr>bs_sessions := ss\<rparr>)"
      using assms(8) cc km by (simp add: scp03_card_cryptogram_def)
    then show ?thesis using assms(1) kv d al bad by (simp add: begin03_def bindP_def)
  qed
qed

lemma read_aes_key_sessions [simp]: "read_aes_key (st\<lparr>bs_sessions := ss\<rparr>) h = read_aes_key st h"
  by (simp add: read_aes_key_def)

text \<open>An attempt to open: the arguments of \<open>begin03\<close>. It derives a session when the answer parses with the pinned
  key version and the keys and the host challenge fit its mode; the card then proves its keys, or not.\<close>

record attempt03 =
  at_enc :: key_handle
  at_mac :: key_handle
  at_kvn :: u8
  at_level :: u8
  at_host :: bytes
  at_aid :: bytes
  at_answer :: bytes

definition open_attempt03 :: "prims \<Rightarrow> 'r fill \<Rightarrow> attempt03 \<Rightarrow> 'r backend_state \<Rightarrow>
    (scll_error + scp03_state \<times> capdu) \<times> 'r backend_state" where
  "open_attempt03 P fill a = begin03 (rustcrypto P fill) (at_enc a) (at_mac a) (at_kvn a) (at_level a) (at_host a) (at_aid a) (at_answer a)"

definition deriving03 :: "'r backend_state \<Rightarrow> attempt03 \<Rightarrow> iu_response03 \<Rightarrow> bytes \<Rightarrow> bytes \<Rightarrow> bool" where
  "deriving03 st a iu enc mac \<longleftrightarrow> parse_iu_response03 (at_answer a) = Inr iu \<and> (at_kvn a = 0 \<or> iu3_kvn iu = at_kvn a)
     \<and> read_aes_key st (at_enc a) = Inr enc \<and> read_aes_key st (at_mac a) = Inr mac \<and> length enc = length mac
     \<and> length (at_host a) = field_len (iu3_mode iu)"

definition derives03 :: "'r backend_state \<Rightarrow> attempt03 \<Rightarrow> bool" where
  "derives03 st a \<longleftrightarrow> (\<exists>iu enc mac. deriving03 st a iu enc mac)"

definition proves03 :: "prims \<Rightarrow> 'r backend_state \<Rightarrow> attempt03 \<Rightarrow> bool" where
  "proves03 P st a \<longleftrightarrow> (\<exists>iu enc mac. deriving03 st a iu enc mac \<and> genuine03 P enc mac (at_host a) (at_aid a) iu
     \<and> is_ok (cap_security_level03 (iu3_i_param iu) (at_level a)))"

lemma attempt_idle:
  assumes "prims_ok P" "state_ok st" "\<not> derives03 st a"
  shows "\<exists>e. open_attempt03 P fill a st = (Inl e, st)"
proof (cases "parse_iu_response03 (at_answer a)")
  case (Inl e)
  then show ?thesis by (simp add: open_attempt03_def begin03_def bindP_def)
next
  case (Inr iu)
  let ?d = "scp03_derive_session P (at_enc a) (at_mac a) (iu3_mode iu) (at_host a) (iu3_card_challenge iu) st"
  show ?thesis
  proof (cases "at_kvn a \<noteq> 0 \<and> iu3_kvn iu \<noteq> at_kvn a")
    case True
    then show ?thesis using Inr by (simp add: open_attempt03_def begin03_def bindP_def throw_def)
  next
    case kv: False
    have "fst ?d \<noteq> Inr h" for h
    proof
      assume "fst ?d = Inr h"
      then have "?d = (Inr h, snd ?d)" by (metis prod.collapse)
      then have "derives03 st a" using Inr kv unfolding derives03_def deriving03_def scp03_derive_Inr [OF assms(1,2)] by blast
      with assms(3) show False ..
    qed
    then obtain e where e: "?d = (Inl e, st)"
      by (cases ?d; cases "fst ?d") (auto simp: scp03_derive_session_def split: sum.splits if_splits option.splits prod.splits)
    then show ?thesis using Inr kv by (auto simp: open_attempt03_def begin03_def bindP_def)
  qed
qed

lemma attempt_leaks:
  assumes "prims_ok P" "state_ok st" "length (at_aid a) \<le> 16" "derives03 st a" "\<not> proves03 P st a"
    and al: "alloc_slot k (bs_sessions st) \<noteq> None"
  shows "\<exists>e k i ss. open_attempt03 P fill a st = (Inl e, st\<lparr>bs_sessions := ss\<rparr>) \<and> alloc_slot k (bs_sessions st) = Some (i, ss)
    \<and> state_ok (st\<lparr>bs_sessions := ss\<rparr>)"
proof -
  from assms(4) obtain iu enc mac where d: "deriving03 st a iu enc mac" unfolding derives03_def by blast
  note r = d [unfolded deriving03_def]
  let ?ctx = "at_host a @ iu3_card_challenge iu" let ?k = "derived03 P enc mac (iu3_mode iu) ?ctx"
  have iu: "iu_ok03 iu" using r parse_iu_response03_ok by blast
  then have cc: "length (iu3_card_challenge iu) = field_len (iu3_mode iu)" by (simp add: iu_ok03_def)
  have len: "length (bs_sessions st) = MAX_SESSION_SLOTS" using assms(2) by (simp add: state_ok_def)
  have "alloc_slot ?k (bs_sessions st) \<noteq> None" using al unfolding slots.alloc_iff [OF len] .
  then obtain i ss where al: "alloc_slot ?k (bs_sessions st) = Some (i, ss)" by auto
  let ?st = "st\<lparr>bs_sessions := ss\<rparr>" let ?h = "of_nat i :: u16"
  have der: "scp03_derive_session P (at_enc a) (at_mac a) (iu3_mode iu) (at_host a) (iu3_card_challenge iu) st = (Inr ?h, ?st)"
    using scp03_derive_eq [OF assms(1,2), of "at_enc a" enc "at_mac a" mac "at_host a" "iu3_mode iu" "iu3_card_challenge iu"] r cc al by simp
  from scp03_derive_fresh [OF assms(1,2) der] r
  have st1: "get_slot (bs_sessions ?st) (unat ?h) = Some ?k" "state_ok ?st" by auto
  have km: "s3_mode ?k = iu3_mode iu" by (simp add: derived03_def Let_def)
  have cg: "scp03_card_cryptogram P ?h (at_host a) (iu3_card_challenge iu) ?st = (Inr (cryptogram_ref03 P ?k DC_CARD_CRYPTO ?ctx), ?st)"
    using cryptogram03_eq(1) [OF assms(1) st1(1) get_session_ok [OF st1(2,1)]] r cc km by (simp add: scp03_card_cryptogram_def)
  have seq: "scp03_pseudo_card_challenge P (at_enc a) (iu3_mode iu) sq (at_aid a) ?st
      = (Inr (challenge_ref03 P enc (iu3_mode iu) sq (at_aid a)), ?st)" if "iu3_sequence_counter iu = Some sq" for sq
    using pseudo_challenge_eq [OF assms(1) st1(2) _ assms(3), of sq "at_enc a" enc] r that iu
    by (auto simp: iu_ok03_def SEQ_COUNTER_LEN_def read_aes_key_def)
  have "\<not> (genuine03 P enc mac (at_host a) (at_aid a) iu \<and> is_ok (cap_security_level03 (iu3_i_param iu) (at_level a)))"
    using assms(5) d unfolding proves03_def by blast
  then have "\<exists>e. open_attempt03 P fill a st = (Inl e, ?st)"
    using r der cg seq
    by (cases "iu3_sequence_counter iu"; cases "cap_security_level03 (iu3_i_param iu) (at_level a)")
      (auto simp: open_attempt03_def begin03_def bindP_def thenP_def genuine03_def Let_def is_ok_def throw_def)
  then show ?thesis using al st1(2) by blast
qed

lemma attempt_full:
  assumes "prims_ok P" "state_ok st" "\<not> card (slots.live (bs_sessions st)) < MAX_SESSION_SLOTS"
  shows "\<exists>e. open_attempt03 P fill a st = (Inl e, st)"
    and "derives03 st a \<Longrightarrow> open_attempt03 P fill a st = (Inl (Backend (KeyGen ''session table full'')), st)"
proof -
  have len: "length (bs_sessions st) = MAX_SESSION_SLOTS" using assms(2) by (simp add: state_ok_def)
  have al: "alloc_slot k (bs_sessions st) = None" for k using slots.alloc_iff [OF len, of k] assms(3) by blast
  have full: "short_str ''session table full'' = ''session table full''" by (simp add: short_str_def limit_simps)
  show full: "open_attempt03 P fill a st = (Inl (Backend (KeyGen ''session table full'')), st)" if dv: "derives03 st a"
  proof -
    from dv obtain iu enc mac where "deriving03 st a iu enc mac" unfolding derives03_def by blast
    note d = this [unfolded deriving03_def]
    show ?thesis
      using begin03_derive(1) [of "at_answer a" iu "at_kvn a" P st "at_enc a" enc "at_mac a" mac "at_host a", OF _ _ assms(1,2) _ _ _ _ al]
        d full by (simp add: open_attempt03_def)
  qed
  then show "\<exists>e. open_attempt03 P fill a st = (Inl e, st)" using attempt_idle [OF assms(1,2)] by (cases "derives03 st a") auto
qed

lemma derives_sessions [simp]:
  "derives03 (st\<lparr>bs_sessions := ss\<rparr>) a = derives03 st a" "proves03 P (st\<lparr>bs_sessions := ss\<rparr>) a = proves03 P st a"
  by (simp_all add: derives03_def proves03_def deriving03_def)


primrec open_attempts03 :: "prims \<Rightarrow> 'r fill \<Rightarrow> attempt03 list \<Rightarrow> 'r backend_state \<Rightarrow>
    (scll_error + scp03_state \<times> capdu) list \<times> 'r backend_state" where
  "open_attempts03 P fill [] st = ([], st)"
| "open_attempts03 P fill (a # ats) st = (case open_attempt03 P fill a st of (r, st1) \<Rightarrow>
     (case open_attempts03 P fill ats st1 of (rs, st2) \<Rightarrow> (r # rs, st2)))"

definition slots_used :: "'r backend_state \<Rightarrow> nat" where
  "slots_used st = card (slots.live (bs_sessions st))"

lemma slots_used_le: "state_ok st \<Longrightarrow> slots_used st \<le> MAX_SESSION_SLOTS"
  unfolding slots_used_def by (rule slots.live_card_le) (simp add: state_ok_def)

lemma attempt_refused:
  assumes "prims_ok P" "state_ok st" "length (at_aid a) \<le> 16" "\<not> proves03 P st a"
  shows "\<exists>e ss. open_attempt03 P fill a st = (Inl e, st\<lparr>bs_sessions := ss\<rparr>) \<and> state_ok (st\<lparr>bs_sessions := ss\<rparr>)
    \<and> slots_used (st\<lparr>bs_sessions := ss\<rparr>) = min MAX_SESSION_SLOTS (slots_used st + (if derives03 st a then 1 else 0))"
proof (cases "derives03 st a \<and> slots_used st < MAX_SESSION_SLOTS")
  case True
  have len: "length (bs_sessions st) = MAX_SESSION_SLOTS" using assms(2) by (simp add: state_ok_def)
  have "alloc_slot undefined (bs_sessions st) \<noteq> None" unfolding slots.alloc_iff [OF len] using True by (simp add: slots_used_def)
  from attempt_leaks [OF assms(1-3) _ assms(4) this] True obtain e k i ss where
    r: "open_attempt03 P fill a st = (Inl e, st\<lparr>bs_sessions := ss\<rparr>)" "alloc_slot k (bs_sessions st) = Some (i, ss)"
      "state_ok (st\<lparr>bs_sessions := ss\<rparr>)" by blast
  then show ?thesis using slots.card_alloc [OF len r(2)] True by (auto simp: slots_used_def)
next
  case False
  have same: "st\<lparr>bs_sessions := bs_sessions st\<rparr> = st" by simp
  obtain e where "open_attempt03 P fill a st = (Inl e, st)"
    using False attempt_idle [OF assms(1,2)] attempt_full(1) [OF assms(1,2)] unfolding slots_used_def by (cases "derives03 st a") blast+
  moreover have "slots_used st = min MAX_SESSION_SLOTS (slots_used st + (if derives03 st a then 1 else 0))"
    using False slots_used_le [OF assms(2)] by auto
  ultimately show ?thesis using assms(2) same by metis
qed


text \<open>A concrete handshake: AES-128 keys in slots 0 and 1, mode S8, random challenges, and the answer of
  a card that holds the same keys.\<close>

definition demo_keys :: "unit backend_state" where
  "demo_keys = (backend_new ())\<lparr>bs_keys := Some \<lparr>ksl_kind = KindAes128, ksl_key = replicate 16 7\<rparr>
     # Some \<lparr>ksl_kind = KindAes128, ksl_key = replicate 16 9\<rparr> # replicate 14 None\<rparr>"

definition demo_hc :: bytes where "demo_hc = replicate 8 0x11"
definition demo_cc :: bytes where "demo_cc = replicate 8 0x22"
definition demo_fill :: "unit fill" where "demo_fill r n = (replicate n 0x11, r)"

definition demo_iu :: "bytes \<Rightarrow> bytes" where
  "demo_iu cg = replicate 10 0 @ [0x30, 0x03, 0x60] @ demo_cc @ cg"

definition demo_cg :: bytes where
  "demo_cg = cryptogram_ref03 toy_prims (derived03 toy_prims (replicate 16 7) (replicate 16 9) S8 (demo_hc @ demo_cc))
     DC_CARD_CRYPTO (demo_hc @ demo_cc)"

lemma demo_keys_ok: "state_ok demo_keys"
  by (auto simp: demo_keys_def state_ok_def backend_new_def get_slot_eq limit_simps key_ok_def nth_Cons' split: if_splits)

lemma demo_keys_read: "read_aes_key demo_keys 0 = Inr (replicate 16 7)" "read_aes_key demo_keys 1 = Inr (replicate 16 9)"
  by code_simp+

definition demo_attempt :: "bytes \<Rightarrow> attempt03" where
  "demo_attempt cg = \<lparr>at_enc = 0, at_mac = 1, at_kvn = 0, at_level = 0x33, at_host = demo_hc, at_aid = [], at_answer = demo_iu cg\<rparr>"


text \<open>C2: an SCP03 open that succeeds authenticated both sides and left them in step. When \<open>begin03\<close>
  succeeds, the card's answer parses, its key version is the pinned one, its cryptogram and (for
  a card with pseudo-random challenges) its challenge are the ones derived from the host's keys;
  the handle is a slot that was free; and the card's end, deriving the same session, accepts the
  EXTERNAL AUTHENTICATE: it sees the capped level and the host cryptogram of the session, and
  afterwards both ends are authenticated at that level with the same chaining value.\<close>

theorem scp03_handshake:
  assumes "prims_ok P" "state_ok st" "length aid \<le> 16"
    and "begin03 (rustcrypto P fill) he hm kvn lvl hc aid bs st = (Inr (s, ea), st')"
  shows "\<exists>iu enc mac k k'. parse_iu_response03 bs = Inr iu \<and> (kvn = 0 \<or> iu3_kvn iu = kvn)
    \<and> read_aes_key st he = Inr enc \<and> read_aes_key st hm = Inr mac \<and> genuine03 P enc mac hc aid iu
    \<and> cap_security_level03 (iu3_i_param iu) lvl = Inr (st3_security_level s)
    \<and> get_slot (bs_sessions st) (unat (st3_session s)) = None
    \<and> k = derived03 P enc mac (iu3_mode iu) (hc @ iu3_card_challenge iu)
    \<and> card_receive03 P k ea = Some (((0x84, 0x82, st3_security_level s, 0),
        cryptogram_ref03 P k DC_HOST_CRYPTO (hc @ iu3_card_challenge iu), []), k')
    \<and> synced03 P (st3_session s) st' k' \<and> s3_authed k' \<and> s3_level k' = st3_security_level s"
  using begin03_success [OF assms] by blast

lemma scp03_handshake_witness:
  "case begin03 (rustcrypto toy_prims demo_fill) 0 1 0 0x33 demo_hc [] (demo_iu demo_cg) demo_keys of
     (Inr (s, ea), st') \<Rightarrow> get_slot (bs_sessions demo_keys) (unat (st3_session s)) = None
   | _ \<Rightarrow> False"
proof -
  let ?r = "begin03 (rustcrypto toy_prims demo_fill) 0 1 0 0x33 demo_hc [] (demo_iu demo_cg) demo_keys"
  have "is_ok (fst ?r)" by code_simp
  then obtain s ea where "fst ?r = Inr (s, ea)" by (auto simp: is_ok_iff)
  then have r: "?r = (Inr (s, ea), snd ?r)" by (metis prod.collapse)
  have "length ([] :: bytes) \<le> 16" by simp
  from scp03_handshake [OF toy_prims_ok demo_keys_ok this r]
  have "get_slot (bs_sessions demo_keys) (unat (st3_session s)) = None" by blast
  then show ?thesis by (subst r) simp
qed

section \<open>An honest card\<close>

lemma begin03_derives:
  assumes "begin03 (rustcrypto P fill) he hm kvn lvl hc aid bs st = (Inr r, st')" "parse_iu_response03 bs = Inr iu"
  shows "\<exists>h st1. scp03_derive_session P he hm (iu3_mode iu) hc (iu3_card_challenge iu) st = (Inr h, st1)"
  using assms by (auto simp: begin03_def run_simps simp del: map_errP_apply split: if_splits)

lemma begin03_completes:
  assumes "prims_ok P" "state_ok st" "length aid \<le> 16" "parse_iu_response03 bs = Inr iu" "kvn = 0 \<or> iu3_kvn iu = kvn"
    and keys: "read_aes_key st he = Inr enc" "read_aes_key st hm = Inr mac" "length enc = length mac"
    and hc: "length hc = field_len (iu3_mode iu)" and gen: "genuine03 P enc mac hc aid iu"
    and lev: "cap_security_level03 (iu3_i_param iu) lvl = Inr lev"
    and free: "card (slots.live (bs_sessions st)) < MAX_SESSION_SLOTS"
  shows "is_ok (fst (begin03 (rustcrypto P fill) he hm kvn lvl hc aid bs st))"
proof -
  let ?ctx = "hc @ iu3_card_challenge iu" let ?k = "derived03 P enc mac (iu3_mode iu) ?ctx"
  have iu: "iu_ok03 iu" by (rule parse_iu_response03_ok [OF assms(4)])
  then have cc: "length (iu3_card_challenge iu) = field_len (iu3_mode iu)" by (simp add: iu_ok03_def)
  have "length (bs_sessions st) = MAX_SESSION_SLOTS" using assms(2) by (simp add: state_ok_def)
  then obtain i ss where al: "alloc_slot ?k (bs_sessions st) = Some (i, ss)"
    using slots.alloc_iff [of "bs_sessions st" MAX_SESSION_SLOTS ?k] free by auto
  let ?st = "st\<lparr>bs_sessions := ss\<rparr>" let ?h = "of_nat i :: u16"
  have der: "scp03_derive_session P he hm (iu3_mode iu) hc (iu3_card_challenge iu) st = (Inr ?h, ?st)"
    using scp03_derive_eq [OF assms(1,2) keys hc cc] al by simp
  from scp03_derive_fresh [OF assms(1,2) der] keys
  have st1: "get_slot (bs_sessions ?st) (unat ?h) = Some ?k" "state_ok ?st" by auto
  have k: "s3_mode ?k = iu3_mode iu" "\<not> s3_authed ?k" by (simp_all add: derived03_def Let_def)
  note ok = get_session_ok [OF st1(2,1)]
  have cg: "cryptogram03 P ?h hc (iu3_card_challenge iu) c ?st = (Inr (cryptogram_ref03 P ?k c ?ctx), ?st)"
    "length (cryptogram_ref03 P ?k c ?ctx) = field_len (iu3_mode iu)" for c
    using cryptogram03_eq [OF assms(1) st1(1) ok] hc cc k(1) by simp_all
  let ?hcg = "cryptogram_ref03 P ?k DC_HOST_CRYPTO ?ctx"
  have hl: "length ?hcg \<le> 16" using cg(2) field_len_le by simp
  note parts = ea_sent_parts [OF hl, of lev]
  have body: "body03 P ?k (apdu_data (ea_sent lev ?hcg)) = ?hcg" using k(2) by (simp add: body03_def parts)
  have "mac_len (s3_mode ?k) \<le> 16" by (simp add: mac_len_def field_len_le)
  then have "\<exists>w k'. wrap03 P ?k (ea_sent lev ?hcg) = Inr (w, k')"
    using wrap03_eq [OF assms(1) ok parts(7)] body hl k(2) parts by (simp add: EXTERNAL_AUTHENTICATE_def)
  then obtain w k' where "wrap03 P ?k (ea_sent lev ?hcg) = Inr (w, k')" by blast
  then have wrap: "scp03_wrap_command P ?h (ea_sent lev ?hcg) ?st = (Inr w, ?st\<lparr>bs_sessions := set_slot (unat ?h) k' (bs_sessions ?st)\<rparr>)"
    using st1(1) parts(7) by (simp add: scp03_wrap_Inr)
  have seq: "scp03_pseudo_card_challenge P he (iu3_mode iu) sq aid ?st = (Inr (iu3_card_challenge iu), ?st)"
    if "iu3_sequence_counter iu = Some sq" for sq
    using pseudo_challenge_eq [OF assms(1) st1(2) _ assms(3), of sq he enc "iu3_mode iu"] that iu gen keys(1)
    by (simp add: iu_ok03_def SEQ_COUNTER_LEN_def genuine03_def Let_def)
  have card: "cryptogram_ref03 P ?k DC_CARD_CRYPTO ?ctx = iu3_card_cryptogram iu" using gen by (simp add: genuine03_def Let_def)
  have kv: "\<not> (kvn \<noteq> 0 \<and> iu3_kvn iu \<noteq> kvn)" using assms(5) by blast
  show ?thesis
    using assms(4) kv lev wrap card
    by (cases "iu3_sequence_counter iu")
      (simp_all add: begin03_def bindP_def thenP_def der seq cg(1) scp03_card_cryptogram_def scp03_host_cryptogram_def
        ea_plaintext03_eq [OF hl] is_ok_def)
qed

text \<open>C3: exactly the honest cards are opened. With a well-formed backend state, \<open>begin03\<close> succeeds if
  and only if the card's answer parses with the pinned key version, the key handles name AES keys
  of equal length, the host challenge has the length of the card's mode, the answer proves that
  the card holds these keys, a security level is left after capping, and a session slot is free.\<close>

theorem scp03_opens_exactly:
  assumes "prims_ok P" "state_ok st" "length aid \<le> 16"
  shows "is_ok (fst (begin03 (rustcrypto P fill) he hm kvn lvl hc aid bs st)) \<longleftrightarrow>
    (\<exists>iu enc mac. parse_iu_response03 bs = Inr iu \<and> (kvn = 0 \<or> iu3_kvn iu = kvn)
      \<and> read_aes_key st he = Inr enc \<and> read_aes_key st hm = Inr mac \<and> length enc = length mac
      \<and> length hc = field_len (iu3_mode iu) \<and> genuine03 P enc mac hc aid iu
      \<and> is_ok (cap_security_level03 (iu3_i_param iu) lvl)
      \<and> card (slots.live (bs_sessions st)) < MAX_SESSION_SLOTS)" (is "?l \<longleftrightarrow> ?r")
proof
  assume ?r
  then show ?l using begin03_completes [OF assms] by (auto simp: is_ok_iff)
next
  assume ?l
  then obtain s ea st' where run: "begin03 (rustcrypto P fill) he hm kvn lvl hc aid bs st = (Inr (s, ea), st')"
    by (metis is_ok_iff prod.collapse)
  obtain iu enc mac where iu: "parse_iu_response03 bs = Inr iu" "kvn = 0 \<or> iu3_kvn iu = kvn"
    "read_aes_key st he = Inr enc" "read_aes_key st hm = Inr mac" "genuine03 P enc mac hc aid iu"
    "cap_security_level03 (iu3_i_param iu) lvl = Inr (st3_security_level s)"
    using begin03_success [OF assms run] by blast
  obtain h st1 where d: "scp03_derive_session P he hm (iu3_mode iu) hc (iu3_card_challenge iu) st = (Inr h, st1)"
    using begin03_derives [OF run iu(1)] by blast
  then obtain i ss k where "length enc = length mac" "length hc = field_len (iu3_mode iu)" "alloc_slot k (bs_sessions st) = Some (i, ss)"
    unfolding scp03_derive_Inr [OF assms(1,2)] using iu(3,4) by auto
  moreover have "length (bs_sessions st) = MAX_SESSION_SLOTS" using assms(2) by (simp add: state_ok_def)
  ultimately show ?r using iu slots.alloc_iff [of "bs_sessions st" MAX_SESSION_SLOTS k] by (auto simp: is_ok_iff)
qed

lemma scp03_opens_exactly_witness:
  "\<exists>iu enc mac. parse_iu_response03 (demo_iu demo_cg) = Inr iu \<and> genuine03 toy_prims enc mac demo_hc [] iu"
proof -
  have ok: "is_ok (fst (begin03 (rustcrypto toy_prims demo_fill) 0 1 0 0x33 demo_hc [] (demo_iu demo_cg) demo_keys))"
    by code_simp
  have "length ([] :: bytes) \<le> 16" by simp
  from scp03_opens_exactly [OF toy_prims_ok demo_keys_ok this] ok show ?thesis by blast
qed

end
