(* ===== verification/Scll_Discover.thy ===== *)
theory Scll_Discover
  imports Scll_Handshake Scll_Replay
begin

text \<open>
  \<open>workflow/discover.rs\<close>: what the card tells before authentication, collected in the \<open>CardInfo\<close> of
  \<open>model.rs\<close>. Nothing here uses the backend: the second component of the state is untouched.
\<close>

section \<open>The program\<close>

datatype discovery_warning =
    DwCardRecognitionDataMissing | DwKeyInformationTemplateMissing | DwCardCapabilityInfoMissing
  | DwUnknownLifecycleByte u8 | DwGetStatusParseFailed | DwOther string

record card_info =
  inf_isd_aid :: aid
  inf_atr_or_ats :: bytes
  inf_transport_protocol :: transport_protocol
  inf_scp_supported :: "scp_variant list"
  inf_scp_default :: scp_variant
  inf_isd_keysets :: "keyset list"
  inf_isd_key_template_format :: key_template_format
  inf_capabilities :: card_capabilities
  inf_card_recognition_data_raw :: bytes
  inf_iin :: "bytes option"
  inf_cin :: "bytes option"
  inf_card_image_number :: "bytes option"
  inf_jc_platform_version :: "(u8 \<times> u8 \<times> u8) option"
  inf_privilege_encoding :: priv_len
  inf_quirks_detected :: "string list"
  inf_discovery_warnings :: "discovery_warning list"

definition GD_TAG_CRD :: u16 where "GD_TAG_CRD = 0x0066"
definition GD_TAG_KIT :: u16 where "GD_TAG_KIT = 0x00E0"
definition GD_TAG_CCI :: u16 where "GD_TAG_CCI = 0x0067"
definition GD_TAG_IIN :: u16 where "GD_TAG_IIN = 0x0042"
definition GD_TAG_CIN :: u16 where "GD_TAG_CIN = 0x0045"
definition GD_TAG_CPLC :: u16 where "GD_TAG_CPLC = 0x9F7F"
definition FALLBACK_SCP :: scp_variant where "FALLBACK_SCP = Scp02 0x55"
definition CPLC_ICFAB_NXP :: u16 where "CPLC_ICFAB_NXP = 0x4790"
definition CPLC_OSID_JCOP_HI :: u8 where "CPLC_OSID_JCOP_HI = 0x47"

definition cplc_value :: "bytes \<Rightarrow> bytes" where
  "cplc_value data =
    (if 3 \<le> length data \<and> data ! 0 = 0x9F \<and> data ! 1 = 0x7F then
       (let len = unat (data ! 2) in
        if 3 + len \<le> length data then take len (drop 3 data) else data)
     else data)"

definition priv_len_from_cplc :: "bytes \<Rightarrow> priv_len" where
  "priv_len_from_cplc val =
    (if 6 \<le> length val \<and> u16_from_be (val ! 0) (val ! 1) = CPLC_ICFAB_NXP \<and> val ! 4 = CPLC_OSID_JCOP_HI
     then Jcop1Byte else Canonical)"

definition resolve_isd_aid :: "bytes option \<Rightarrow> bytes \<Rightarrow> scll_error + aid" where
  "resolve_isd_aid expected fci =
    (case expected of
       Some e \<Rightarrow> aid_new e
     | None \<Rightarrow> rbind (fci_df_name fci) (\<lambda>name. case name of Some n \<Rightarrow> aid_new n | None \<Rightarrow> Inl IsdAidNotFound))"

definition optional_get_data :: "'t transport \<Rightarrow> u16 \<Rightarrow> ('t, 'b, bytes option) workflow" where
  "optional_get_data T tag =
     bindP (liftR (map_err Build (get_data tag))) (\<lambda>capdu.
     bindP (transmit_plain T capdu) (\<lambda>(data, sw).
     if sw = SW_OK \<and> data \<noteq> [] then ret (Some data)
     else if sw = SW_OK \<or> sw = SW_REF_NOT_FOUND then ret None
     else throw (from_general_sw sw)))"

definition copy_opt :: "nat \<Rightarrow> bytes \<Rightarrow> bytes option" where
  "copy_opt n src = vec_extend n [] src"

definition transport_reset :: "'t transport \<Rightarrow> ('t, 'b, atr_ats) workflow" where
  "transport_reset T = on_fst (map_errP map_transport (t_reset T))"

text \<open>Step 3: the raw data, the advertised protocols and the warnings.\<close>

definition read_crd :: "bytes option \<Rightarrow> scll_error + (bytes \<times> scp_variant list \<times> discovery_warning list)" where
  "read_crd answer =
    (case answer of
       Some data \<Rightarrow>
         (let n = min (length data) GETDATA_RAW_MAX;
              raw = extend_ignore GETDATA_RAW_MAX [] (take n data) in
          rbind (map_err MalformedResponse (parse_card_recognition data)) (\<lambda>crd.
          let scp_supported = foldl (push_ignore MAX_SCP_VARIANTS) [] (cr_scp crd) in
          Inr (raw, scp_supported,
            if scp_supported = [] then push_ignore MAX_WARNINGS [] DwCardRecognitionDataMissing else [])))
     | None \<Rightarrow> Inr ([], [], push_ignore MAX_WARNINGS [] DwCardRecognitionDataMissing))"

definition discover_card :: "'t transport \<Rightarrow> bytes option \<Rightarrow> ('t, 'b, card_info) workflow" where
  "discover_card T expected_isd_aid =
     bindP (transport_reset T) (\<lambda>atr.
     let atr_or_ats = extend_ignore ATR_ATS_MAX [] (atr_bytes atr) in
     bindP (select_app T (case expected_isd_aid of Some a \<Rightarrow> a | None \<Rightarrow> [])) (\<lambda>fci.
     bindP (liftR (resolve_isd_aid expected_isd_aid fci)) (\<lambda>isd_aid.
     bindP (optional_get_data T GD_TAG_CRD) (\<lambda>crd_data.
     bindP (liftR (read_crd crd_data)) (\<lambda>(crd_raw, scp, warnings).
     let scp_supported = (if scp = [] then push_ignore MAX_SCP_VARIANTS scp FALLBACK_SCP else scp);
         scp_default = scp_supported ! 0 in
     bindP (optional_get_data T GD_TAG_KIT) (\<lambda>kit.
     bindP (liftR (map_err MalformedResponse (parse_key_information (case kit of Some d \<Rightarrow> d | None \<Rightarrow> [])))) (\<lambda>kinfo.
     let warnings = (if kit = None then push_ignore MAX_WARNINGS warnings DwKeyInformationTemplateMissing else warnings) in
     bindP (optional_get_data T GD_TAG_CCI) (\<lambda>cci.
     bindP (liftR (map_err MalformedResponse (parse_card_capabilities (case cci of Some d \<Rightarrow> d | None \<Rightarrow> [])))) (\<lambda>capabilities.
     let warnings = (if cci = None then push_ignore MAX_WARNINGS warnings DwCardCapabilityInfoMissing else warnings) in
     bindP (optional_get_data T GD_TAG_IIN) (\<lambda>iin.
     bindP (optional_get_data T GD_TAG_CIN) (\<lambda>cin.
     let iin = Option.bind iin (copy_opt IIN_MAX);
         cin = Option.bind cin (copy_opt CIN_MAX) in
     bindP (optional_get_data T GD_TAG_CPLC) (\<lambda>cplc.
     let privilege_encoding = (case cplc of Some data \<Rightarrow> priv_len_from_cplc (cplc_value data) | None \<Rightarrow> Canonical) in
     ret \<lparr>inf_isd_aid = isd_aid, inf_atr_or_ats = atr_or_ats, inf_transport_protocol = atr_protocol atr,
       inf_scp_supported = scp_supported, inf_scp_default = scp_default,
       inf_isd_keysets = ki_keysets kinfo, inf_isd_key_template_format = ki_format kinfo,
       inf_capabilities = capabilities, inf_card_recognition_data_raw = crd_raw,
       inf_iin = iin, inf_cin = cin, inf_card_image_number = cin, inf_jc_platform_version = None,
       inf_privilege_encoding = privilege_encoding, inf_quirks_detected = [],
       inf_discovery_warnings = warnings\<rparr>))))))))))))"

section \<open>What discovery reports\<close>

definition present :: "bytes option \<Rightarrow> bytes" where
  "present answer = (case answer of Some d \<Rightarrow> d | None \<Rightarrow> [])"

definition bounded :: "nat \<Rightarrow> bytes option \<Rightarrow> bytes option" where
  "bounded n answer = (case answer of Some d \<Rightarrow> (if length d \<le> n then Some d else None) | None \<Rightarrow> None)"

lemma crd_loop_length: "crd_loop entries scp = Inr scp' \<Longrightarrow> length scp \<le> MAX_SCP_VARIANTS \<Longrightarrow> length scp' \<le> MAX_SCP_VARIANTS"
proof (induction entries arbitrary: scp)
  case (Cons entry entries)
  then obtain ts where ts: "parse (tlv_value entry) = Inr ts" by (auto simp: rbind_eq_Inr)
  consider "crd_loop entries scp = Inr scp'" | v where "crd_loop entries (scp @ [v]) = Inr scp'" "length scp < MAX_SCP_VARIANTS"
    using Cons.prems(1) by (auto simp: ts split: option.split_asm prod.split_asm)
  then show ?case by cases (use Cons in auto)
qed simp

lemma parse_card_recognition_length: "parse_card_recognition data = Inr crd \<Longrightarrow> length (cr_scp crd) \<le> MAX_SCP_VARIANTS"
  by (auto simp: parse_card_recognition_def rbind_eq_Inr dest!: crd_loop_length split: if_splits option.splits)

lemma parse_empty: "parse_card_recognition [] = Inr \<lparr>cr_scp = []\<rparr>"
  by (simp add: parse_card_recognition_def)

lemma push_all: "length v + length xs \<le> n \<Longrightarrow> foldl (push_ignore n) v xs = v @ xs"
  by (induction xs arbitrary: v) (simp_all add: push_ignore_def vec_push_def)

lemma read_crd_eq:
  "read_crd answer = Inr r \<longleftrightarrow> (\<exists>crd. parse_card_recognition (present answer) = Inr crd
     \<and> r = (take GETDATA_RAW_MAX (present answer), cr_scp crd, if cr_scp crd = [] then [DwCardRecognitionDataMissing] else []))"
proof -
  have p: "push_ignore MAX_WARNINGS [] w = [w]" for w :: discovery_warning
    by (simp add: push_ignore_def vec_push_def limit_simps)
  have e: "extend_ignore GETDATA_RAW_MAX [] (take n d) = take n d" if "n \<le> GETDATA_RAW_MAX" for n d
    using that by (simp add: extend_ignore_def vec_extend_def min_le_iff_disj)
  have t: "take (min (length d) n) d = take n d" for d :: bytes and n by (simp add: min_def)
  have f: "foldl (push_ignore MAX_SCP_VARIANTS) [] (cr_scp crd) = cr_scp crd" if "parse_card_recognition d = Inr crd" for d crd
    using push_all [of "[]"] parse_card_recognition_length [OF that] by simp
  show ?thesis
  proof (cases answer)
    case None
    then show ?thesis by (auto simp: read_crd_def present_def parse_empty p)
  next
    case (Some d)
    then show ?thesis
      by (cases "parse_card_recognition d") (auto simp: read_crd_def present_def Let_def p e t f)
  qed
qed

text \<open>The CPLC of a JCOP chip of NXP: fabricator \<open>4790\<close>, and \<open>47\<close> as first octet of the operating system, with
  or without the object's tag and length in front. Only such a card takes privileges of one octet.\<close>

definition nxp_jcop :: "bytes \<Rightarrow> bool" where
  "nxp_jcop v = (\<exists>type hi lo rest. v = [0x47, 0x90, type, hi, 0x47, lo] @ rest)"

definition one_octet_card :: "bytes \<Rightarrow> bool" where
  "one_octet_card cplc \<longleftrightarrow> nxp_jcop cplc
     \<or> (\<exists>n v rest. cplc = [0x9F, 0x7F, n] @ v @ rest \<and> length v = unat n \<and> nxp_jcop v)"

lemma u16_from_be_parts: "ucast (drop_bit 8 (u16_from_be a b)) = a" "ucast (u16_from_be a b) = b"
  by (rule bit_word_eqI; simp add: u16_from_be_def bit_simps; fastforce dest: bit_imp_le_length)+

lemma u16_from_be_inject: "u16_from_be a b = u16_from_be c d \<longleftrightarrow> a = c \<and> b = d"
  by (metis u16_from_be_parts)

lemma priv_len_nxp: "priv_len_from_cplc v = (if nxp_jcop v then Jcop1Byte else Canonical)"
proof -
  have "nxp_jcop v \<longleftrightarrow> 6 \<le> length v \<and> v ! 0 = 0x47 \<and> v ! 1 = 0x90 \<and> v ! 4 = 0x47"
    by (auto simp: nxp_jcop_def Suc_le_length_iff numeral_eq_Suc)
  moreover have n: "CPLC_ICFAB_NXP = u16_from_be 0x47 0x90" by (simp add: CPLC_ICFAB_NXP_def u16_from_be_def)
  ultimately show ?thesis unfolding priv_len_from_cplc_def n u16_from_be_inject CPLC_OSID_JCOP_HI_def by auto
qed

lemma one_octet_card_eq:
  "priv_len_from_cplc (cplc_value d) = (if one_octet_card d then Jcop1Byte else Canonical)"
proof -
  have hd: "nxp_jcop d \<Longrightarrow> d ! 0 = 0x47" for d by (auto simp: nxp_jcop_def)
  have "(\<exists>n v rest. d = [0x9F, 0x7F, n] @ v @ rest \<and> length v = unat n \<and> P v) \<longleftrightarrow>
      3 \<le> length d \<and> d ! 0 = 0x9F \<and> d ! 1 = 0x7F \<and> 3 + unat (d ! 2) \<le> length d \<and> P (take (unat (d ! 2)) (drop 3 d))" for P
  proof
    assume "3 \<le> length d \<and> d ! 0 = 0x9F \<and> d ! 1 = 0x7F \<and> 3 + unat (d ! 2) \<le> length d \<and> P (take (unat (d ! 2)) (drop 3 d))"
    moreover from this obtain n t where "d = [0x9F, 0x7F, n] @ t" by (auto simp: Suc_le_length_iff numeral_eq_Suc)
    ultimately show "\<exists>n v rest. d = [0x9F, 0x7F, n] @ v @ rest \<and> length v = unat n \<and> P v"
      by (intro exI [of _ n] exI [of _ "take (unat n) t"] exI [of _ "drop (unat n) t"]) auto
  qed auto
  then show ?thesis unfolding one_octet_card_def priv_len_nxp cplc_value_def Let_def by (auto dest: hd)
qed

text \<open>The report over the answers to the six GET DATA commands.\<close>

definition discovered :: "atr_ats \<Rightarrow> aid \<Rightarrow> bytes option list \<Rightarrow> card_recognition \<Rightarrow> key_information \<Rightarrow> card_capabilities \<Rightarrow> card_info" where
  "discovered atr isd objs crd ki caps =
    (let scps = (if cr_scp crd = [] then [Scp02 0x55] else cr_scp crd) in
     \<lparr>inf_isd_aid = isd, inf_atr_or_ats = (if length (atr_bytes atr) \<le> 255 then atr_bytes atr else []),
       inf_transport_protocol = atr_protocol atr, inf_scp_supported = scps, inf_scp_default = hd scps,
       inf_isd_keysets = ki_keysets ki, inf_isd_key_template_format = ki_format ki, inf_capabilities = caps,
       inf_card_recognition_data_raw = take 256 (present (objs ! 0)),
       inf_iin = bounded 16 (objs ! 3), inf_cin = bounded 16 (objs ! 4), inf_card_image_number = bounded 16 (objs ! 4),
       inf_jc_platform_version = None,
       inf_privilege_encoding = (if one_octet_card (present (objs ! 5)) then Jcop1Byte else Canonical),
       inf_quirks_detected = [],
       inf_discovery_warnings = (if cr_scp crd = [] then [DwCardRecognitionDataMissing] else [])
         @ (if objs ! 1 = None then [DwKeyInformationTemplateMissing] else [])
         @ (if objs ! 2 = None then [DwCardCapabilityInfoMissing] else [])\<rparr>)"

lemma discover_card_Inr:
  "discover_card T expected s = (Inr info, s') \<longleftrightarrow>
    (\<exists>atr fci isd objs crd ki caps s1 s2.
       transport_reset T s = (Inr atr, s1) \<and> select_app T (present expected) s1 = (Inr fci, s2)
     \<and> resolve_isd_aid expected fci = Inr isd
     \<and> each (optional_get_data T) [0x0066, 0x00E0, 0x0067, 0x0042, 0x0045, 0x9F7F] s2 = (Inr objs, s')
     \<and> parse_card_recognition (present (objs ! 0)) = Inr crd
     \<and> parse_key_information (present (objs ! 1)) = Inr ki
     \<and> parse_card_capabilities (present (objs ! 2)) = Inr caps
     \<and> info = discovered atr isd objs crd ki caps)"
  (is "_ \<longleftrightarrow> ?rhs")
proof -
  have tags: "GD_TAG_CRD = 0x0066" "GD_TAG_KIT = 0x00E0" "GD_TAG_CCI = 0x0067" "GD_TAG_IIN = 0x0042"
    "GD_TAG_CIN = 0x0045" "GD_TAG_CPLC = 0x9F7F"
    by (simp_all add: GD_TAG_CRD_def GD_TAG_KIT_def GD_TAG_CCI_def GD_TAG_IIN_def GD_TAG_CIN_def GD_TAG_CPLC_def)
  have lift: "bindP (liftR (map_err h r)) k s0 = (Inr info, s') \<longleftrightarrow> (\<exists>x. r = Inr x \<and> k x s0 = (Inr info, s'))"
    for h :: "tlv_error \<Rightarrow> scll_error" and r k s0
    by (cases r) (simp_all add: bindP_def)
  have crd: "bindP (liftR (read_crd a)) k s0 = (Inr info, s') \<longleftrightarrow> (\<exists>crd. parse_card_recognition (present a) = Inr crd
      \<and> k (take GETDATA_RAW_MAX (present a), cr_scp crd, if cr_scp crd = [] then [DwCardRecognitionDataMissing] else []) s0 = (Inr info, s'))"
    for a k s0
    unfolding bindP_eq_Inr liftR_Inr read_crd_eq by blast
  have isd: "bindP (liftR (resolve_isd_aid expected fci)) k s0 = (Inr info, s') \<longleftrightarrow> (\<exists>isd. resolve_isd_aid expected fci = Inr isd
      \<and> k isd s0 = (Inr info, s'))" for fci k s0
    unfolding bindP_eq_Inr liftR_Inr by blast
  have last: "ret x s0 = (Inr info, s') \<longleftrightarrow> s0 = s' \<and> info = x" for x s0
    by auto
  have opt: "Option.bind a (copy_opt IIN_MAX) = bounded 16 a" "Option.bind a (copy_opt CIN_MAX) = bounded 16 a" for a
    by (cases a; simp add: copy_opt_def bounded_def vec_extend_def limit_simps)+
  have warn: "push_ignore MAX_WARNINGS [] w = [w]" "push_ignore MAX_WARNINGS [v] w = [v, w]" "push_ignore MAX_WARNINGS [u, v] w = [u, v, w]"
    for u v w :: discovery_warning
    by (simp_all add: push_ignore_def vec_push_def limit_simps)
  have first_scp: "push_ignore MAX_SCP_VARIANTS [] FALLBACK_SCP = [Scp02 0x55]"
    by (simp add: push_ignore_def vec_push_def limit_simps FALLBACK_SCP_def)
  have atr: "extend_ignore ATR_ATS_MAX [] x = (if length x \<le> 255 then x else [])" for x :: bytes
    by (simp add: extend_ignore_def vec_extend_def limit_simps)
  have absent: "\<not> one_octet_card []" by (simp add: one_octet_card_def nxp_jcop_def)
  have priv: "(case f of Some data \<Rightarrow> priv_len_from_cplc (cplc_value data) | None \<Rightarrow> Canonical)
      = (if one_octet_card (present f) then Jcop1Byte else Canonical)" for f
    by (simp add: present_def one_octet_card_eq absent split: option.split)
  have rep: "\<lparr>inf_isd_aid = i, inf_atr_or_ats = extend_ignore ATR_ATS_MAX [] (atr_bytes atr), inf_transport_protocol = atr_protocol atr,
      inf_scp_supported = (if cr_scp crd = [] then push_ignore MAX_SCP_VARIANTS (cr_scp crd) FALLBACK_SCP else cr_scp crd),
      inf_scp_default = (if cr_scp crd = [] then push_ignore MAX_SCP_VARIANTS (cr_scp crd) FALLBACK_SCP else cr_scp crd) ! 0,
      inf_isd_keysets = ki_keysets ki, inf_isd_key_template_format = ki_format ki, inf_capabilities = caps,
      inf_card_recognition_data_raw = take GETDATA_RAW_MAX (present a), inf_iin = Option.bind d (copy_opt IIN_MAX),
      inf_cin = Option.bind e (copy_opt CIN_MAX), inf_card_image_number = Option.bind e (copy_opt CIN_MAX),
      inf_jc_platform_version = None,
      inf_privilege_encoding = (case f of Some data \<Rightarrow> priv_len_from_cplc (cplc_value data) | None \<Rightarrow> Canonical),
      inf_quirks_detected = [], inf_discovery_warnings =
        (if c = None then push_ignore MAX_WARNINGS
           (if b = None then push_ignore MAX_WARNINGS (if cr_scp crd = [] then [DwCardRecognitionDataMissing] else []) DwKeyInformationTemplateMissing
            else if cr_scp crd = [] then [DwCardRecognitionDataMissing] else []) DwCardCapabilityInfoMissing
         else if b = None then push_ignore MAX_WARNINGS (if cr_scp crd = [] then [DwCardRecognitionDataMissing] else []) DwKeyInformationTemplateMissing
            else if cr_scp crd = [] then [DwCardRecognitionDataMissing] else [])\<rparr>
      = discovered atr i [a, b, c, d, e, f] crd ki caps" for i atr a b c d e f crd ki caps
    unfolding opt priv
    by (cases "cr_scp crd") (simp_all add: discovered_def warn first_scp atr GETDATA_RAW_MAX_def)
  have six: "each (optional_get_data T) [0x0066, 0x00E0, 0x0067, 0x0042, 0x0045, 0x9F7F] s2 = (Inr objs, s') \<longleftrightarrow>
      (\<exists>a s3 b s4 c s5 d s6 e s7 f. objs = [a, b, c, d, e, f]
        \<and> optional_get_data T 0x0066 s2 = (Inr a, s3) \<and> optional_get_data T 0x00E0 s3 = (Inr b, s4)
        \<and> optional_get_data T 0x0067 s4 = (Inr c, s5) \<and> optional_get_data T 0x0042 s5 = (Inr d, s6)
        \<and> optional_get_data T 0x0045 s6 = (Inr e, s7) \<and> optional_get_data T 0x9F7F s7 = (Inr f, s'))" for s2 objs
    unfolding each_Cons each_Nil by blast
  have run: "discover_card T expected s = (Inr info, s') \<longleftrightarrow>
    (\<exists>atr s1. transport_reset T s = (Inr atr, s1) \<and>
    (\<exists>fci s2. select_app T (present expected) s1 = (Inr fci, s2) \<and>
    (\<exists>isd. resolve_isd_aid expected fci = Inr isd \<and>
    (\<exists>a s3. optional_get_data T 0x0066 s2 = (Inr a, s3) \<and>
    (\<exists>crd. parse_card_recognition (present a) = Inr crd \<and>
    (\<exists>b s4. optional_get_data T 0x00E0 s3 = (Inr b, s4) \<and>
    (\<exists>ki. parse_key_information (present b) = Inr ki \<and>
    (\<exists>c s5. optional_get_data T 0x0067 s4 = (Inr c, s5) \<and>
    (\<exists>caps. parse_card_capabilities (present c) = Inr caps \<and>
    (\<exists>d s6. optional_get_data T 0x0042 s5 = (Inr d, s6) \<and>
    (\<exists>e s7. optional_get_data T 0x0045 s6 = (Inr e, s7) \<and>
    (\<exists>f s8. optional_get_data T 0x9F7F s7 = (Inr f, s8) \<and>
       s8 = s' \<and> info = discovered atr isd [a, b, c, d, e, f] crd ki caps))))))))))))"
    unfolding discover_card_def Let_def tags lift crd isd bindP_eq_Inr [of "transport_reset T"] bindP_eq_Inr [of "select_app T x" for x]
      bindP_eq_Inr [of "optional_get_data T x" for x] prod.case last present_def [symmetric] rep
    by (rule refl)
  show ?thesis
  proof
    assume "discover_card T expected s = (Inr info, s')"
    then obtain atr s1 fci s2 isd a s3 crd b s4 ki c s5 caps d s6 e s7 f where
      o: "optional_get_data T 0x0066 s2 = (Inr a, s3)" "optional_get_data T 0x00E0 s3 = (Inr b, s4)"
        "optional_get_data T 0x0067 s4 = (Inr c, s5)" "optional_get_data T 0x0042 s5 = (Inr d, s6)"
        "optional_get_data T 0x0045 s6 = (Inr e, s7)" "optional_get_data T 0x9F7F s7 = (Inr f, s')"
      and r: "transport_reset T s = (Inr atr, s1)" "select_app T (present expected) s1 = (Inr fci, s2)"
        "resolve_isd_aid expected fci = Inr isd" "parse_card_recognition (present a) = Inr crd"
        "parse_key_information (present b) = Inr ki" "parse_card_capabilities (present c) = Inr caps"
        "info = discovered atr isd [a, b, c, d, e, f] crd ki caps"
      unfolding run by blast
    have "each (optional_get_data T) [0x0066, 0x00E0, 0x0067, 0x0042, 0x0045, 0x9F7F] s2 = (Inr [a, b, c, d, e, f], s')"
      unfolding six using o by blast
    then show ?rhs using r
      by (intro exI [of _ atr] exI [of _ fci] exI [of _ isd] exI [of _ "[a, b, c, d, e, f]"] exI [of _ crd] exI [of _ ki]
          exI [of _ caps] exI [of _ s1] exI [of _ s2]) simp
  next
    assume ?rhs
    then obtain atr fci isd objs crd ki caps s1 s2 where r: "transport_reset T s = (Inr atr, s1)"
        "select_app T (present expected) s1 = (Inr fci, s2)" "resolve_isd_aid expected fci = Inr isd"
        "parse_card_recognition (present (objs ! 0)) = Inr crd" "parse_key_information (present (objs ! 1)) = Inr ki"
        "parse_card_capabilities (present (objs ! 2)) = Inr caps" "info = discovered atr isd objs crd ki caps"
      and e: "each (optional_get_data T) [0x0066, 0x00E0, 0x0067, 0x0042, 0x0045, 0x9F7F] s2 = (Inr objs, s')"
      by blast
    from e obtain a s3 b s4 c s5 d s6 e s7 f where objs: "objs = [a, b, c, d, e, f]" and
      o: "optional_get_data T 0x0066 s2 = (Inr a, s3)" "optional_get_data T 0x00E0 s3 = (Inr b, s4)"
        "optional_get_data T 0x0067 s4 = (Inr c, s5)" "optional_get_data T 0x0042 s5 = (Inr d, s6)"
        "optional_get_data T 0x0045 s6 = (Inr e, s7)" "optional_get_data T 0x9F7F s7 = (Inr f, s')"
      unfolding six by blast
    have "parse_card_recognition (present a) = Inr crd" "parse_key_information (present b) = Inr ki"
      "parse_card_capabilities (present c) = Inr caps" "info = discovered atr isd [a, b, c, d, e, f] crd ki caps"
      using r(4-7) by (simp_all add: objs)
    then show "discover_card T expected s = (Inr info, s')" unfolding run using r(1-3) o by blast
  qed
qed

text \<open>The exchanges of a discovery with the card behind the transport: a command and its response, and the
  reading of a data object, which is absent when the card says so (\<open>6A88\<close>) or returns no data.\<close>

definition exchanged :: "'t transport \<Rightarrow> bytes \<Rightarrow> 't \<times> 'b \<Rightarrow> bytes \<Rightarrow> 't \<times> 'b \<Rightarrow> bool" where
  "exchanged T c s r s' = (t_transmit T c (fst s) = (Inr r, fst s') \<and> snd s' = snd s)"

definition object_read :: "'t transport \<Rightarrow> u8 \<times> u8 \<Rightarrow> 't \<times> 'b \<Rightarrow> bytes option \<Rightarrow> 't \<times> 'b \<Rightarrow> bool" where
  "object_read T tag s x s' = (\<exists>d. length d \<le> 258 \<and>
     (exchanged T [0x80, 0xCA, fst tag, snd tag, 0x00] s (d @ [0x90, 0x00]) s' \<and> x = (if d = [] then None else Some d)
    \<or> exchanged T [0x80, 0xCA, fst tag, snd tag, 0x00] s (d @ [0x6A, 0x88]) s' \<and> x = None))"

primrec objects_read :: "'t transport \<Rightarrow> (u8 \<times> u8) list \<Rightarrow> 't \<times> 'b \<Rightarrow> bytes option list \<Rightarrow> 't \<times> 'b \<Rightarrow> bool" where
  "objects_read T [] s xs s' = (xs = [] \<and> s' = s)"
| "objects_read T (tag # tags) s xs s' =
     (\<exists>x ys s1. object_read T tag s x s1 \<and> objects_read T tags s1 ys s' \<and> xs = x # ys)"

lemma transmit_plain_exchanged:
  "transmit_plain T c s = (Inr (d, sw), s') \<longleftrightarrow>
     length d \<le> 258 \<and> (\<exists>a b. sw = u16_from_be a b \<and> exchanged T c s (d @ [a, b]) s')"
proof -
  have "split_sw r = Inr (d, sw) \<longleftrightarrow> length d \<le> 258 \<and> (\<exists>a b. sw = u16_from_be a b \<and> r = d @ [a, b])" for r
  proof
    assume "split_sw r = Inr (d, sw)"
    then have r: "2 \<le> length r" "length r \<le> 260" "d = take (length r - 2) r"
      "sw = u16_from_be (r ! (length r - 2)) (r ! (length r - 1))" by (auto simp: split_sw_Inr)
    define n where "n = length r - 2"
    have l: "length r = Suc (Suc n)" using r(1) by (simp add: n_def)
    then have "r = take n r @ [r ! n, r ! Suc n]"
      by (metis append.assoc append_Cons append_Nil lessI less_SucI order_refl take_Suc_conv_app_nth take_all)
    then show "length d \<le> 258 \<and> (\<exists>a b. sw = u16_from_be a b \<and> r = d @ [a, b])" using r l by auto
  qed (auto simp: split_sw_Inr nth_append)
  then show ?thesis
    by (cases s; cases s') (auto simp: transmit_plain_Inr exchanged_def)
qed

lemma sw_octets: "SW_OK = u16_from_be 0x90 0x00" "SW_REF_NOT_FOUND = u16_from_be 0x6A 0x88"
  by (simp_all add: SW_OK_def SW_REF_NOT_FOUND_def u16_from_be_def)

lemma sw_cases:
  "(\<exists>sw. (\<exists>a b. sw = u16_from_be a b \<and> E a b) \<and> (sw = u16_from_be c d \<and> P \<or> sw = u16_from_be e f \<and> Q))
     \<longleftrightarrow> E c d \<and> P \<or> E e f \<and> Q"
  by (auto simp: u16_from_be_inject)

lemma optional_get_data_read:
  "optional_get_data T (u16_from_be hi lo) s = (Inr x, s') \<longleftrightarrow> object_read T (hi, lo) s x s'"
proof -
  let ?c = "[0x80, 0xCA, hi, lo, 0x00]"
  have c: "get_data (u16_from_be hi lo) = Inr ?c" by (simp add: get_data_eq u16_from_be_parts short_apdu_def)
  have "SW_OK \<noteq> SW_REF_NOT_FOUND" by (simp add: sw_consts)
  then have k: "(case y of (d, sw) \<Rightarrow> if sw = SW_OK \<and> d \<noteq> [] then ret (Some d) else if sw = SW_OK \<or> sw = SW_REF_NOT_FOUND then ret None
      else throw (from_general_sw sw)) s1 = (Inr x, s') \<longleftrightarrow> s1 = s' \<and> (\<exists>d sw. y = (d, sw) \<and>
        (sw = SW_OK \<and> x = (if d = [] then None else Some d) \<or> sw = SW_REF_NOT_FOUND \<and> x = None))"
    for y and s1 :: "'a \<times> 'b" by (auto simp: ret_def throw_def split: prod.split)
  have "optional_get_data T (u16_from_be hi lo) s = (Inr x, s') \<longleftrightarrow>
      (\<exists>d sw. transmit_plain T ?c s = (Inr (d, sw), s') \<and>
        (sw = SW_OK \<and> x = (if d = [] then None else Some d) \<or> sw = SW_REF_NOT_FOUND \<and> x = None))"
    unfolding optional_get_data_def bindP_eq_Inr liftR_Inr map_err_eq_Inr c k sum.inject by blast
  also have "\<dots> \<longleftrightarrow> object_read T (hi, lo) s x s'"
    unfolding transmit_plain_exchanged object_read_def sw_octets fst_conv snd_conv
      sw_cases [where E = "\<lambda>a b. exchanged T ?c s (d @ [a, b]) s'" for d, symmetric] by blast
  finally show ?thesis .
qed

lemma each_objects_read:
  "each (optional_get_data T) (map (\<lambda>(hi, lo). u16_from_be hi lo) tags) s = (Inr xs, s') \<longleftrightarrow> objects_read T tags s xs s'"
proof (induction tags arbitrary: s xs)
  case (Cons tag tags)
  obtain hi lo where "tag = (hi, lo)" by (cases tag)
  then show ?case
    by (simp only: list.map split_conv each_Cons optional_get_data_read Cons.IH objects_read.simps)
qed (simp only: list.map each_Nil objects_read.simps)

lemma select_app_exchanged:
  "select_app T aid s = (Inr fci, s') \<longleftrightarrow> length aid \<le> 255 \<and> length fci \<le> 258
     \<and> exchanged T ([0x00, 0xA4, 0x04, 0x00] @ (if aid = [] then [] else of_nat (length aid) # aid) @ [0x00]) s (fci @ [0x90, 0x00]) s'"
  (is "_ \<longleftrightarrow> _ \<and> _ \<and> exchanged T ?c s _ s'")
proof (cases "length aid \<le> 255")
  case True
  then have c: "select_by_aid aid = Inr ?c" by (simp add: select_by_aid_eq short_apdu_def)
  have k: "(case y of (d, sw) \<Rightarrow> if sw = SW_OK then ret d else if sw = SW_FILE_NOT_FOUND then throw CardNotUsable
      else throw (from_general_sw sw)) s1 = (Inr fci, s') \<longleftrightarrow> y = (fci, SW_OK) \<and> s1 = s'" for y and s1 :: "'a \<times> 'b"
    by (auto simp: ret_def throw_def split: prod.split)
  have "select_app T aid s = (Inr fci, s') \<longleftrightarrow> transmit_plain T ?c s = (Inr (fci, SW_OK), s')"
    unfolding select_app_def bindP_eq_Inr liftR_Inr map_err_eq_Inr c k sum.inject by blast
  then show ?thesis using True unfolding transmit_plain_exchanged sw_octets by (auto simp: u16_from_be_inject)
qed (simp add: select_app_def select_by_aid_eq bindP_def)

text \<open>C26: discovery reads exactly this and reports exactly that. \<open>discover_card\<close> succeeds exactly when the
  transport resets the card; the card answers \<open>9000\<close> to the SELECT of the expected identifier, or of the
  default one; the six GET DATA commands for the recognition data, the key information template, the
  capabilities, the two issuer numbers and the CPLC follow in this order, each answered with \<open>9000\<close> or
  with \<open>6A88\<close> (absent), and with no other status word; the identifier of the issuer's domain is the expected
  one, or the one the answer to the SELECT names, of 5 to 16 octets; and the three templates decode. The report
  is then \<open>discovered\<close>: an absent object counts as the empty one and has its warning, a card without usable
  recognition data is taken for SCP02 with option \<open>55\<close>, and privileges have one octet exactly on a card with
  the CPLC of an NXP JCOP.\<close>

theorem discover_exact:
  "discover_card T expected s = (Inr info, s') \<longleftrightarrow>
    (\<exists>atr fci isd objs crd ki caps s1 s2.
       t_reset T (fst s) = (Inr atr, fst s1) \<and> snd s1 = snd s
     \<and> length (present expected) \<le> 255 \<and> length fci \<le> 258
     \<and> exchanged T ([0x00, 0xA4, 0x04, 0x00]
           @ (if present expected = [] then [] else of_nat (length (present expected)) # present expected) @ [0x00])
         s1 (fci @ [0x90, 0x00]) s2
     \<and> (case expected of Some e \<Rightarrow> isd = e | None \<Rightarrow> fci_df_name fci = Inr (Some isd)) \<and> 5 \<le> length isd \<and> length isd \<le> 16
     \<and> objects_read T [(0x00, 0x66), (0x00, 0xE0), (0x00, 0x67), (0x00, 0x42), (0x00, 0x45), (0x9F, 0x7F)] s2 objs s'
     \<and> parse_card_recognition (present (objs ! 0)) = Inr crd
     \<and> parse_key_information (present (objs ! 1)) = Inr ki
     \<and> parse_card_capabilities (present (objs ! 2)) = Inr caps
     \<and> info = discovered atr (Aid isd) objs crd ki caps)"
proof -
  have reset: "transport_reset T s = (Inr atr, s1) \<longleftrightarrow> t_reset T (fst s) = (Inr atr, fst s1) \<and> snd s1 = snd s" for atr s1
    by (cases s; cases s1) (simp only: transport_reset_def on_fst_eq map_errP_Inr fst_conv snd_conv, blast)
  have aid: "resolve_isd_aid expected fci = Inr a \<longleftrightarrow> (\<exists>isd. a = Aid isd
      \<and> (case expected of Some e \<Rightarrow> isd = e | None \<Rightarrow> fci_df_name fci = Inr (Some isd)) \<and> 5 \<le> length isd \<and> length isd \<le> 16)" for fci a
    by (auto simp: resolve_isd_aid_def rbind_eq_Inr split: option.splits)
  have "map (\<lambda>(hi, lo). u16_from_be hi lo) [(0x00, 0x66), (0x00, 0xE0), (0x00, 0x67), (0x00, 0x42), (0x00, 0x45), (0x9F, 0x7F)]
      = [0x0066, 0x00E0, 0x0067, 0x0042, 0x0045, 0x9F7F]" by (simp add: u16_from_be_def)
  note objs = each_objects_read [of T "[(0x00, 0x66), (0x00, 0xE0), (0x00, 0x67), (0x00, 0x42), (0x00, 0x45), (0x9F, 0x7F)]", unfolded this]
  show ?thesis unfolding discover_card_Inr reset select_app_exchanged aid objs by blast
qed

text \<open>The bounds of the fixed-capacity fields, and the relations between them.\<close>

definition card_info_ok :: "card_info \<Rightarrow> bool" where
  "card_info_ok info =
    (aid_ok (inf_isd_aid info) \<and> length (inf_atr_or_ats info) \<le> 255
     \<and> inf_scp_supported info \<noteq> [] \<and> length (inf_scp_supported info) \<le> 8
     \<and> inf_scp_default info = hd (inf_scp_supported info)
     \<and> length (inf_isd_keysets info) \<le> 16 \<and> distinct (map ks_kvn (inf_isd_keysets info))
     \<and> list_all (\<lambda>s. ks_keys s \<noteq> [] \<and> length (ks_keys s) \<le> 16) (inf_isd_keysets info)
     \<and> length (privileges_supported (inf_capabilities info)) \<le> 8 \<and> length (cci_raw (inf_capabilities info)) \<le> 256
     \<and> length (inf_card_recognition_data_raw info) \<le> 256
     \<and> pred_option (\<lambda>d. length d \<le> 16) (inf_iin info) \<and> pred_option (\<lambda>d. length d \<le> 16) (inf_cin info)
     \<and> inf_card_image_number info = inf_cin info \<and> length (inf_discovery_warnings info) \<le> 3)"

lemma parse_card_capabilities_ok:
  assumes "parse_card_capabilities d = Inr caps"
  shows "length (privileges_supported caps) \<le> 8 \<and> length (cci_raw caps) \<le> 256"
proof -
  let ?ok = "\<lambda>c. length (privileges_supported c) \<le> 8 \<and> length (cci_raw c) \<le> 256"
  define base where "base = \<lparr>max_logical_channels = 1, ciphers_supported = [], privileges_supported = [],
    memory_total_bytes = None, memory_free_bytes = None, cci_raw = take (min (length d) GETDATA_RAW_MAX) d\<rparr>"
  define channels where "channels v c = (case v of None \<Rightarrow> c
    | Some ch \<Rightarrow> (case first ch of None \<Rightarrow> c | Some n \<Rightarrow> c\<lparr>max_logical_channels := n\<rparr>))" for v and c :: card_capabilities
  define privs where "privs v c = (case v of None \<Rightarrow> c
    | Some p \<Rightarrow> c\<lparr>privileges_supported := take (min (length p) MAX_PRIVILEGE_BYTES) p\<rparr>)" for v and c :: card_capabilities
  have "?ok base" by (simp add: base_def limit_simps)
  moreover have "?ok c \<Longrightarrow> ?ok (channels v c)" for v c by (auto simp: channels_def split: option.splits)
  moreover have "?ok c \<Longrightarrow> ?ok (privs v c)" for v c by (auto simp: privs_def limit_simps split: option.splits)
  moreover have "caps = base \<or> (\<exists>u v. caps = privs u (channels v base))"
    using assms unfolding parse_card_capabilities_def Let_def base_def [symmetric] channels_def [symmetric] privs_def [symmetric]
    by (cases "d = []") (auto simp: rbind_eq_Inr)
  ultimately show ?thesis by blast
qed

lemma parse_key_information_ok:
  assumes "parse_key_information d = Inr ki"
  shows "length (ki_keysets ki) \<le> 16 \<and> distinct (map ks_kvn (ki_keysets ki))
    \<and> list_all (\<lambda>s. ks_keys s \<noteq> [] \<and> length (ks_keys s) \<le> 16) (ki_keysets ki)"
proof -
  from assms obtain entries where fit: "slots_fit (concat (map entry_slots entries))"
    and ki: "ki_keysets ki = group_slots (concat (map entry_slots entries))"
    unfolding parse_key_information_eq by (auto simp: Let_def split: if_splits)
  show ?thesis using group_slots_ok [OF fit] unfolding ki list_all_iff by (auto simp: limit_simps)
qed

text \<open>C25: the report is well-typed. Whatever the card answers, the fields of a discovered \<open>CardInfo\<close> are
  within their capacities, the issuer's identifier is valid, at least one protocol is listed and the
  default is the first, and the keysets are non-empty with distinct versions.\<close>

theorem discover_typed:
  assumes "discover_card T expected s = (Inr info, s')"
  shows "card_info_ok info"
proof -
  from assms obtain atr isd objs crd ki caps fci where
    r: "resolve_isd_aid expected fci = Inr isd" "parse_card_recognition (present (objs ! 0)) = Inr crd"
      "parse_key_information (present (objs ! 1)) = Inr ki" "parse_card_capabilities (present (objs ! 2)) = Inr caps"
      "info = discovered atr isd objs crd ki caps"
    unfolding discover_card_Inr by blast
  have "aid_ok isd" using r(1) by (auto simp: resolve_isd_aid_def rbind_eq_Inr aid_ok_def limit_simps split: option.splits)
  moreover have "pred_option (\<lambda>d. length d \<le> 16) (bounded 16 x)" for x
    by (simp add: bounded_def split: option.splits)
  moreover have "length (cr_scp crd) \<le> 8" using parse_card_recognition_length [OF r(2)] by (simp add: limit_simps)
  ultimately show ?thesis
    using parse_card_capabilities_ok [OF r(4)] parse_key_information_ok [OF r(3)]
    by (simp add: card_info_ok_def r(5) discovered_def Let_def)
qed

text \<open>A card with SCP03 recognition data and the CPLC of an NXP JCOP.\<close>

definition demo_discovery :: trace where
  "demo_discovery = [
     ([0x00, 0xA4, 0x04, 0x00, 0x00], [0x6F, 0x07, 0x84, 0x05, 0xA0, 0x00, 0x00, 0x00, 0x03, 0x90, 0x00]),
     ([0x80, 0xCA, 0x00, 0x66, 0x00],
        [0x66, 0x0E, 0x73, 0x0C, 0x64, 0x0A, 0x06, 0x08, 0x2A, 0x86, 0x48, 0x86, 0xFC, 0x6B, 0x03, 0x70, 0x90, 0x00]),
     ([0x80, 0xCA, 0x00, 0xE0, 0x00], [0x6A, 0x88]),
     ([0x80, 0xCA, 0x00, 0x67, 0x00], [0x6A, 0x88]),
     ([0x80, 0xCA, 0x00, 0x42, 0x00], [0x6A, 0x88]),
     ([0x80, 0xCA, 0x00, 0x45, 0x00], [0x90, 0x00]),
     ([0x80, 0xCA, 0x9F, 0x7F, 0x00], [0x9F, 0x7F, 0x06, 0x47, 0x90, 0x50, 0x40, 0x47, 0x00, 0x90, 0x00])]"

lemma discover_typed_witness:
  "\<exists>info s'. discover_card mock_dyn None (the (trace_mock demo_discovery), ()) = (Inr info, s')
    \<and> inf_scp_supported info = [Scp03 0x70] \<and> inf_privilege_encoding info = Jcop1Byte \<and> is_drained (fst s')
    \<and> card_info_ok info"
proof -
  have run: "(case discover_card mock_dyn None (the (trace_mock demo_discovery), ()) of
      (Inr info, s') \<Rightarrow> inf_scp_supported info = [Scp03 0x70] \<and> inf_privilege_encoding info = Jcop1Byte \<and> is_drained (fst s')
    | (Inl e, s') \<Rightarrow> False)" by code_simp
  then obtain info s' where "discover_card mock_dyn None (the (trace_mock demo_discovery), ()) = (Inr info, s')"
    "inf_scp_supported info = [Scp03 0x70]" "inf_privilege_encoding info = Jcop1Byte" "is_drained (fst s')"
    by (auto split: prod.splits sum.splits)
  then show ?thesis using discover_typed by blast
qed

end
