(* ===== verification/Scll_Manager.thy ===== *)
theory Scll_Manager
  imports Scll_Load Scll_Status Scll_Discover
begin

text \<open>
  \<open>scll/src/manager.rs\<close>: the \<open>CardManager\<close>, which owns the transport and the backend and keeps the
  open session between calls. Its methods are the workflows with the session supplied.

  The lemmas follow a manager through sequences of calls: what the calls on an open channel can
  change, what a dead or missing channel lets through, and what opening and closing do to the
  session tables of the software backend.
\<close>

section \<open>The program\<close>

record ('t, 'b) manager =
  m_transport :: 't
  m_backend :: 'b
  m_session :: "scp_session option"
  m_priv_len :: priv_len

type_synonym ('t, 'b, 'a) mgr_method = "(('t, 'b) manager, scll_error, 'a) prog"

definition manager_new :: "'t \<Rightarrow> 'b \<Rightarrow> ('t, 'b) manager" where
  "manager_new t b =
     \<lparr>m_transport = t, m_backend = b, m_session = None, m_priv_len = Canonical\<rparr>"

definition is_channel_open :: "('t, 'b) manager \<Rightarrow> bool" where
  "is_channel_open m = (m_session m \<noteq> None)"

definition close_channel :: "'b backend_ops \<Rightarrow> ('t, 'b) manager \<Rightarrow> ('t, 'b) manager" where
  "close_channel B m =
    (let b = (case m_session m of
          Some (Scp03S s) \<Rightarrow> b_scp03_close_session B (st3_session s) (m_backend m)
        | Some (Scp02S s) \<Rightarrow> b_scp02_close_session B (st2_session s) (m_backend m)
        | None \<Rightarrow> m_backend m) in
     m\<lparr>m_backend := b, m_session := None\<rparr>)"

definition into_parts :: "'b backend_ops \<Rightarrow> ('t, 'b) manager \<Rightarrow> 't \<times> 'b" where
  "into_parts B m = (let m = close_channel B m in (m_transport m, m_backend m))"

text \<open>A workflow on \<open>&mut self.transport\<close> and \<open>&self.backend\<close>.\<close>

definition on_parts :: "('t, 'b, 'a) workflow \<Rightarrow> ('t, 'b, 'a) mgr_method" where
  "on_parts w m = (case w (m_transport m, m_backend m) of
     (r, (t, b)) \<Rightarrow> (r, m\<lparr>m_transport := t, m_backend := b\<rparr>))"

text \<open>\<open>self.session.as_mut().ok_or(NoOpenChannel)?\<close> before a workflow; the workflows do not change the
  session's own fields.\<close>

definition in_session :: "(scp_session \<Rightarrow> ('t, 'b, 'a) workflow) \<Rightarrow> ('t, 'b, 'a) mgr_method" where
  "in_session w m = (case m_session m of
     None \<Rightarrow> (Inl NoOpenChannel, m)
   | Some session \<Rightarrow> on_parts (w session) m)"

definition mgr_probe :: "'t transport \<Rightarrow> transport_name \<Rightarrow> ('t, 'b, transport_name \<times> transport_caps) mgr_method" where
  "mgr_probe T name = on_parts (probe T name)"

definition mgr_discover :: "'t transport \<Rightarrow> bytes option \<Rightarrow> ('t, 'b, card_info) mgr_method" where
  "mgr_discover T expected_isd_aid =
     bindP (on_parts (discover_card T expected_isd_aid)) (\<lambda>info m.
       (Inr info, m\<lparr>m_priv_len := inf_privilege_encoding info\<rparr>))"

definition mgr_open_scp :: "'t transport \<Rightarrow> 'b backend_ops \<Rightarrow> open_scp_args \<Rightarrow> ('t, 'b, open_scp_report) mgr_method" where
  "mgr_open_scp T B args =
     bindP (on_parts (open_scp T B args)) (\<lambda>report m. (Inr report, m\<lparr>m_session := Some (osr_session report)\<rparr>))"

definition mgr_transmit :: "'t transport \<Rightarrow> 'b backend_ops \<Rightarrow> bytes \<Rightarrow> ('t, 'b, applet_transmit_report) mgr_method" where
  "mgr_transmit T B plaintext_capdu = in_session (\<lambda>session. transmit T B session plaintext_capdu)"

definition mgr_put_sd_keys :: "'t transport \<Rightarrow> 'b backend_ops \<Rightarrow> put_sd_keys_args \<Rightarrow> ('t, 'b, put_keys_report) mgr_method" where
  "mgr_put_sd_keys T B args = in_session (\<lambda>session. put_sd_keys T B session args)"

definition mgr_delete_sd_keyset :: "'t transport \<Rightarrow> 'b backend_ops \<Rightarrow> u8 \<Rightarrow> bytes \<Rightarrow> ('t, 'b, delete_key_report) mgr_method" where
  "mgr_delete_sd_keyset T B kvn target_sd_aid = in_session (\<lambda>session. delete_sd_keyset T B session kvn target_sd_aid)"

definition mgr_create_ssd :: "'t transport \<Rightarrow> 'b backend_ops \<Rightarrow> create_ssd_args \<Rightarrow> ('t, 'b, create_ssd_report) mgr_method" where
  "mgr_create_ssd T B args m = in_session (\<lambda>session. create_ssd T B session args (m_priv_len m)) m"

definition mgr_delete_ssd :: "'t transport \<Rightarrow> 'b backend_ops \<Rightarrow> bytes \<Rightarrow> delete_cascade \<Rightarrow> ('t, 'b, delete_object_report) mgr_method" where
  "mgr_delete_ssd T B ssd_aid cascade = in_session (\<lambda>session. delete_ssd T B session ssd_aid cascade)"

definition mgr_install_applet :: "'t transport \<Rightarrow> 'b backend_ops \<Rightarrow> install_applet_args \<Rightarrow> ('t, 'b, install_applet_report) mgr_method" where
  "mgr_install_applet T B args m = in_session (\<lambda>session. install_applet T B session args (m_priv_len m)) m"

definition mgr_delete_applet :: "'t transport \<Rightarrow> 'b backend_ops \<Rightarrow> delete_applet_args \<Rightarrow> ('t, 'b, delete_object_report) mgr_method" where
  "mgr_delete_applet T B args = in_session (\<lambda>session. delete_applet T B session args)"

definition mgr_get_card_status :: "'t transport \<Rightarrow> 'b backend_ops \<Rightarrow> bytes \<Rightarrow> ('t, 'b, get_card_status_report) mgr_method" where
  "mgr_get_card_status T B isd_aid = in_session (\<lambda>session. get_card_status T B session isd_aid)"

definition mgr_get_card_inventory :: "'t transport \<Rightarrow> 'b backend_ops \<Rightarrow> bytes \<Rightarrow> ('t, 'b, get_card_inventory_report) mgr_method" where
  "mgr_get_card_inventory T B isd_aid = in_session (\<lambda>session. get_card_inventory T B session isd_aid)"

definition mgr_set_card_status :: "'t transport \<Rightarrow> 'b backend_ops \<Rightarrow> set_card_status_args \<Rightarrow> ('t, 'b, set_card_status_report) mgr_method" where
  "mgr_set_card_status T B args = in_session (\<lambda>session. set_card_status T B session args)"

text \<open>\<open>load_package\<close> also works on the caller's decompression window.\<close>

definition mgr_load_package ::
    "'t transport \<Rightarrow> 'b backend_ops \<Rightarrow> 'd miniz \<Rightarrow> load_package_args \<Rightarrow>
     (('t, 'b) manager \<times> 'd inflate_ctx, scll_error, load_package_report) prog" where
  "mgr_load_package T B M args = (\<lambda>(m, infl). case m_session m of
     None \<Rightarrow> (Inl NoOpenChannel, (m, infl))
   | Some session \<Rightarrow>
      (case load_package T B session M args ((m_transport m, m_backend m), infl) of
         (r, ((t, b), infl')) \<Rightarrow> (r, (m\<lparr>m_transport := t, m_backend := b\<rparr>, infl'))))"

section \<open>What every workflow over a session keeps\<close>

text \<open>
  Every in-session workflow reaches the card through \<open>transmit_in_session\<close> and the backend through
  that, the encryption of new keys and their check values only. Whatever these keep, the workflow
  keeps.
\<close>

locale session_invariant =
  fixes T :: "'t transport" and B :: "'b backend_ops" and session :: scp_session and I :: "'t \<times> 'b \<Rightarrow> bool"
  assumes exchange: "keeps I (transmit_in_session T B session c)"
    and encrypt: "keeps I (encrypt_key B session dek new)"
    and kcv: "keeps I (backend (b_compute_kcv B h))"
begin

lemma transmit: "keeps I (transmit T B session c)"
  unfolding transmit_def by (intro keeps_intros exchange)

lemma put_sd_keys: "keeps I (put_sd_keys T B session args)"
  unfolding put_sd_keys_def Let_def by (intro keeps_intros exchange encrypt kcv)

lemma delete_sd_keyset: "keeps I (delete_sd_keyset T B session kvn aid)"
  unfolding delete_sd_keyset_def by (intro keeps_intros exchange)

lemma create_ssd: "keeps I (create_ssd T B session args pl)"
  unfolding create_ssd_def Let_def by (intro keeps_intros exchange)

lemma delete_ssd: "keeps I (delete_ssd T B session aid cascade)"
  unfolding delete_ssd_def Let_def by (intro keeps_intros exchange)

lemma install_applet: "keeps I (install_applet T B session args pl)"
  unfolding install_applet_def Let_def by (intro keeps_intros exchange)

lemma delete_applet: "keeps I (delete_applet T B session args)"
  unfolding delete_applet_def cascade_elf_def Let_def by (intro keeps_intros exchange)

lemma scope_loop: "keeps I (scope_loop n T B session p1 p2 buf good_len truncated)"
proof (induction n arbitrary: p2 buf good_len truncated)
  case (Suc n)
  show ?case unfolding scope_loop.simps Let_def by (intro keeps_intros exchange Suc.IH)
qed auto

lemma read_status_scope: "keeps I (read_status_scope T B session p1)"
  unfolding read_status_scope_def by (rule scope_loop)

lemma get_card_status: "keeps I (get_card_status T B session aid)"
  unfolding get_card_status_def Let_def by (intro keeps_intros read_status_scope)

lemma get_card_inventory: "keeps I (get_card_inventory T B session aid)"
  unfolding get_card_inventory_def collect_scope_def Let_def by (intro keeps_intros read_status_scope)

lemma run_plan: "keeps I (run_plan T B session args plan)"
  by (cases plan; simp only: run_plan.simps; intro keeps_intros exchange)

lemma set_card_status: "keeps I (set_card_status T B session args)"
  unfolding set_card_status_def current_state_def Let_def by (intro keeps_intros get_card_status run_plan)

lemma load_loop: "keeps (\<lambda>p. I (fst p)) (load_loop T B session M tot sent block_no blocks_sent lfdb)"
proof (induction "tot - sent" arbitrary: sent block_no blocks_sent lfdb rule: less_induct)
  case less
  show ?case
  proof (rule keepsI)
    fix p r p' assume i: "I (fst p)" and run: "load_loop T B session M tot sent block_no blocks_sent lfdb p = (r, p')"
    obtain s infl where p: "p = (s, infl)" by (cases p)
    obtain b lfdb' infl' where nb: "next_block M LOAD_BLOCK_DATA (lfdb, infl) = (b, (lfdb', infl'))"
      by (cases "next_block M LOAD_BLOCK_DATA (lfdb, infl)") auto
    show "I (fst p')"
    proof (cases "\<exists>out capdu. b = Inr out \<and> out \<noteq> [] \<and> load_block block_no (tot \<le> sent + length out) out = Inr capdu")
      case False
      then show ?thesis using run i by (auto simp: p load_loop.simps nb Let_def split: sum.splits if_splits)
    next
      case True
      then obtain out capdu where b: "b = Inr out" "out \<noteq> []" "load_block block_no (tot \<le> sent + length out) out = Inr capdu"
        by blast
      obtain x s1 where x: "transmit_in_session T B session capdu s = (x, s1)" by (meson surj_pair)
      have s1: "I s1" using keepsD [OF exchange _ x] i by (simp add: p)
      have less': "tot - (sent + length out) < tot - sent" if "\<not> tot \<le> sent + length out"
        using that b(2) by (cases out) auto
      show ?thesis
      proof (cases "\<exists>d. x = Inr (d, SW_OK) \<and> \<not> tot \<le> sent + length out")
        case True
        then obtain d where d: "x = Inr (d, SW_OK)" and more: "\<not> tot \<le> sent + length out" by blast
        have "load_block block_no False out = Inr capdu" using b(3) more by simp
        then have "load_loop T B session M tot (sent + length out) (block_no + 1) (blocks_sent + 1) lfdb' (s1, infl') = (r, p')"
          using run more by (simp add: p load_loop.simps [of T B session M tot sent] nb b(1,2) x d Let_def)
        then show ?thesis by (rule keepsD [OF less [OF less' [OF more]], rotated]) (simp add: s1)
      next
        case False
        then show ?thesis using run s1 by (auto simp: p load_loop.simps nb b x Let_def split: sum.splits if_splits prod.splits)
      qed
    qed
  qed
qed

lemma load_package: "keeps (\<lambda>p. I (fst p)) (load_package T B session M args)"
proof -
  have 1: "keeps (\<lambda>p. I (fst p)) (on_fst (transmit_in_session T B session c) :: (('t \<times> 'b) \<times> 'd inflate_ctx, scll_error, bytes \<times> u16) prog)" for c
    by (rule keeps_on_fst) (simp add: exchange)
  have 2: "keeps (\<lambda>p. I (fst p)) (on_snd m :: (('t \<times> 'b) \<times> 'd inflate_ctx, scll_error, cap_file) prog)" for m
    by (rule keeps_on_snd) (simp add: keeps_const)
  have 3: "keeps (\<lambda>p. I (fst p)) (\<lambda>(s, infl). load_loop T B session M tot 0 0 0 lfdb (s, infl_reset M infl))" for tot lfdb
  proof (rule keepsI)
    fix p r p' assume i: "I (fst p)" and run: "(\<lambda>(s, infl). load_loop T B session M tot 0 0 0 lfdb (s, infl_reset M infl)) p = (r, p')"
    then have "load_loop T B session M tot 0 0 0 lfdb (fst p, infl_reset M (snd p)) = (r, p')" by (simp add: case_prod_beta)
    then show "I (fst p')" by (rule keepsD [OF load_loop, rotated]) (simp add: i)
  qed
  show ?thesis
    unfolding load_package_def Let_def by (intro keeps_prims keeps_bindP keeps_cases 1 2 3)
qed

end

section \<open>Calls on an open channel\<close>

text \<open>The in-session methods, in any order and with any arguments; the decompression window is the
  caller's.\<close>

inductive channel_call ::
    "'t transport \<Rightarrow> 'b backend_ops \<Rightarrow> 'd miniz \<Rightarrow> ('t, 'b) manager \<times> 'd inflate_ctx \<Rightarrow> ('t, 'b) manager \<times> 'd inflate_ctx \<Rightarrow> bool"
  for T B M where
  CallTransmit: "mgr_transmit T B c m = (r1, m') \<Longrightarrow> channel_call T B M (m, i) (m', i)"
| CallPutSdKeys: "mgr_put_sd_keys T B pk m = (r2, m') \<Longrightarrow> channel_call T B M (m, i) (m', i)"
| CallDeleteKeyset: "mgr_delete_sd_keyset T B kvn aid m = (r3, m') \<Longrightarrow> channel_call T B M (m, i) (m', i)"
| CallCreateSsd: "mgr_create_ssd T B cs m = (r4, m') \<Longrightarrow> channel_call T B M (m, i) (m', i)"
| CallDeleteSsd: "mgr_delete_ssd T B aid dc m = (r5, m') \<Longrightarrow> channel_call T B M (m, i) (m', i)"
| CallInstall: "mgr_install_applet T B ia m = (r6, m') \<Longrightarrow> channel_call T B M (m, i) (m', i)"
| CallDelete: "mgr_delete_applet T B da m = (r7, m') \<Longrightarrow> channel_call T B M (m, i) (m', i)"
| CallGetStatus: "mgr_get_card_status T B aid m = (r8, m') \<Longrightarrow> channel_call T B M (m, i) (m', i)"
| CallInventory: "mgr_get_card_inventory T B aid m = (r9, m') \<Longrightarrow> channel_call T B M (m, i) (m', i)"
| CallSetStatus: "mgr_set_card_status T B ss m = (r10, m') \<Longrightarrow> channel_call T B M (m, i) (m', i)"
| CallLoad: "mgr_load_package T B M lp (m, i) = (r11, (m', i')) \<Longrightarrow> channel_call T B M (m, i) (m', i')"

definition parts :: "('t, 'b) manager \<Rightarrow> 't \<times> 'b" where
  "parts m = (m_transport m, m_backend m)"

definition keeps_session :: "('t \<times> 'b \<Rightarrow> bool) \<Rightarrow> ('t, 'b) manager \<Rightarrow> ('t, 'b) manager \<Rightarrow> bool" where
  "keeps_session I m m' = (m_session m' = m_session m \<and> m_priv_len m' = m_priv_len m
     \<and> (m_session m = None \<longrightarrow> m' = m) \<and> (I (parts m) \<longrightarrow> I (parts m')))"

lemma in_session_keeps:
  assumes "in_session w m = (r, m')" "\<And>s. m_session m = Some s \<Longrightarrow> keeps I (w s)"
  shows "keeps_session I m m'"
proof (cases "m_session m")
  case None
  then show ?thesis using assms(1) by (simp add: in_session_def keeps_session_def)
next
  case (Some s)
  obtain x t b where x: "w s (m_transport m, m_backend m) = (x, (t, b))" by (metis surj_pair)
  then have "m' = m\<lparr>m_transport := t, m_backend := b\<rparr>"
    using assms(1) Some by (simp add: in_session_def on_parts_def)
  moreover have "I (m_transport m, m_backend m) \<Longrightarrow> I (t, b)" using keepsD [OF assms(2) [OF Some] _ x] .
  ultimately show ?thesis using Some by (simp add: keeps_session_def parts_def)
qed

lemma load_keeps:
  assumes "\<And>s. m_session m = Some s \<Longrightarrow> keeps (\<lambda>p. I (fst p)) (load_package T B s M args)"
    and "mgr_load_package T B M args (m, i) = (r, (m', i'))"
  shows "keeps_session I m m'"
proof (cases "m_session m")
  case None
  then show ?thesis using assms(2) by (simp add: mgr_load_package_def keeps_session_def)
next
  case (Some s)
  obtain x t b j where x: "load_package T B s M args ((m_transport m, m_backend m), i) = (x, ((t, b), j))"
    by (metis surj_pair)
  then have "m' = m\<lparr>m_transport := t, m_backend := b\<rparr>"
    using assms(2) Some by (simp add: mgr_load_package_def)
  moreover have "I (m_transport m, m_backend m) \<Longrightarrow> I (t, b)" using keepsD [OF assms(1) [OF Some] _ x] by simp
  ultimately show ?thesis using Some by (simp add: keeps_session_def parts_def)
qed

lemma channel_call_keeps:
  assumes "channel_call T B M (m, i) (m', i')" and inv: "\<And>s. m_session m = Some s \<Longrightarrow> session_invariant T B s I"
  shows "keeps_session I m m'"
  using assms(1)
proof (cases rule: channel_call.cases)
  case CallLoad
  then show ?thesis by (intro load_keeps [OF session_invariant.load_package [OF inv]])
qed (simp only: mgr_transmit_def mgr_put_sd_keys_def mgr_delete_sd_keyset_def mgr_create_ssd_def
    mgr_delete_ssd_def mgr_install_applet_def mgr_delete_applet_def mgr_get_card_status_def
    mgr_get_card_inventory_def mgr_set_card_status_def,
    erule in_session_keeps,
    intro session_invariant.transmit session_invariant.put_sd_keys
      session_invariant.delete_sd_keyset session_invariant.create_ssd session_invariant.delete_ssd
      session_invariant.install_applet session_invariant.delete_applet session_invariant.get_card_status
      session_invariant.get_card_inventory session_invariant.set_card_status inv, assumption)+

lemma channel_calls_keep:
  assumes "(channel_call T B M)\<^sup>*\<^sup>* (m, i) (m', i')" and inv: "\<And>s. m_session m = Some s \<Longrightarrow> session_invariant T B s I"
  shows "keeps_session I m m'"
  using assms(1)
proof (induction "(m', i')" arbitrary: m' i' rule: rtranclp_induct)
  case base
  then show ?case by (simp add: keeps_session_def)
next
  case (step y)
  obtain m1 i1 where y: "y = (m1, i1)" by (cases y)
  have 1: "keeps_session I m m1" using step.hyps(3) [OF y] .
  have "keeps_session I m1 m'"
    by (rule channel_call_keeps [OF step.hyps(2) [unfolded y]]) (use 1 inv in \<open>simp add: keeps_session_def\<close>)
  then show ?case using 1 unfolding keeps_session_def by metis
qed

section \<open>On the software backend\<close>

primrec live :: "scp_session \<Rightarrow> 'r backend_state \<Rightarrow> bool" where
  "live (Scp03S s) b = (get_slot (bs_sessions b) (unat (st3_session s)) \<noteq> None)"
| "live (Scp02S s) b = (get_slot (bs_scp02_sessions b) (unat (st2_session s)) \<noteq> None)"

text \<open>Two tables that differ at one index only, where the second may have become empty.\<close>

definition same_but :: "nat \<Rightarrow> 'a option list \<Rightarrow> 'a option list \<Rightarrow> bool" where
  "same_but i ts ts' = (length ts' = length ts \<and> (\<forall>j. j \<noteq> i \<longrightarrow> get_slot ts' j = get_slot ts j)
     \<and> (get_slot ts i = None \<longrightarrow> get_slot ts' i = None))"

text \<open>What one session can do to the backend.\<close>

primrec isolated :: "scp_session \<Rightarrow> 'r backend_state \<Rightarrow> 'r backend_state \<Rightarrow> bool" where
  "isolated (Scp03S s) b b' = (bs_keys b' = bs_keys b \<and> bs_rng b' = bs_rng b
     \<and> bs_scp02_sessions b' = bs_scp02_sessions b \<and> same_but (unat (st3_session s)) (bs_sessions b) (bs_sessions b'))"
| "isolated (Scp02S s) b b' = (bs_keys b' = bs_keys b \<and> bs_rng b' = bs_rng b
     \<and> bs_sessions b' = bs_sessions b \<and> same_but (unat (st2_session s)) (bs_scp02_sessions b) (bs_scp02_sessions b'))"

lemma same_but_steps [simp, intro]:
  "same_but i ts ts"
  "same_but i ts ts' \<Longrightarrow> same_but i ts (set_slot i v ts')"
  "same_but i ts ts' \<Longrightarrow> same_but i ts (free_slot i ts')"
  by (auto simp: same_but_def set_get free_get)

lemma isolated_refl: "isolated s b b"
  by (cases s) auto

lemma isolated_wrap: "isolated s b0 b \<Longrightarrow> ses_wrap (rustcrypto P fill) s c b = (r, b') \<Longrightarrow> isolated s b0 b'"
  by (cases s; cases r) (auto simp: scp03_wrap_Inr scp02_wrap_Inr dest: scp03_wrap_Inl scp02_wrap_Inl)

lemma isolated_unwrap: "isolated s b0 b \<Longrightarrow> ses_unwrap (rustcrypto P fill) s c b = (r, b') \<Longrightarrow> isolated s b0 b'"
  by (cases s) (auto simp: scp03_unwrap_eq scp02_unwrap_eq scp03_close_session_def scp02_close_session_def
      split: option.splits sum.splits if_splits)

lemma keeps_transmit_in_session:
  assumes "\<And>t. keeps (\<lambda>b. I (t, b)) (ses_wrap B s c)" "\<And>r t. keeps (\<lambda>b. I (t, b)) (ses_unwrap B s r)"
    and "\<And>w b. keeps (\<lambda>t. I (t, b)) (t_transmit T w)"
  shows "keeps I (transmit_in_session T B s c)"
  unfolding transmit_in_session_def backend_def transmit_raw_def by (intro keeps_intros assms)

text \<open>Encrypting a key and computing a check value read the state only.\<close>

lemma keeps_readers:
  "keeps I (encrypt_key (rustcrypto P fill) s dek new)" "keeps I (backend (b_compute_kcv (rustcrypto P fill) h))"
  by (cases s; rule keepsI;
      auto simp: backend_def scp03_encrypt_put_key_payload_def scp02_encrypt_put_key_payload_for_session_def)
    (rule keepsI; auto simp: backend_def compute_kcv_def split: option.splits)

interpretation isolation: session_invariant T "rustcrypto P fill" s "\<lambda>(t, b). isolated s b0 b"
proof (unfold_locales, goal_cases)
  case (1 c)
  then show ?case
    by (rule keeps_transmit_in_session) (auto simp: keeps_const intro: keepsI dest: isolated_wrap isolated_unwrap)
qed (rule keeps_readers)+

lemma dead_wrap: "\<not> live s b \<Longrightarrow> \<exists>e. ses_wrap (rustcrypto P fill) s c b = (Inl e, b)"
  by (cases s) (auto simp: scp03_wrap_command_def scp02_wrap_command_def session_snapshot_def scp02_snapshot_def)

interpretation silence: session_invariant T "rustcrypto P fill" s "\<lambda>p. \<not> live s b0 \<and> p = (t0, b0)"
proof (unfold_locales, goal_cases)
  case (1 c)
  show ?case
  proof (rule keepsI)
    fix p r p' assume p: "\<not> live s b0 \<and> p = (t0, b0)" and run: "transmit_in_session T (rustcrypto P fill) s c p = (r, p')"
    obtain e where "ses_wrap (rustcrypto P fill) s c b0 = (Inl e, b0)" using dead_wrap p by blast
    then have "p' = (t0, b0)"
      using run p by (auto simp: transmit_in_session_def bindP_def backend_def)
    then show "\<not> live s b0 \<and> p' = (t0, b0)" using p by simp
  qed
qed (rule keeps_readers)+

lemma session_isolation_aux:
  assumes "(channel_call T (rustcrypto P fill) M)\<^sup>*\<^sup>* (m, i) (m', i')"
  shows "m_session m' = m_session m \<and> m_priv_len m' = m_priv_len m
    \<and> (case m_session m of None \<Rightarrow> m' = m | Some s \<Rightarrow> isolated s (m_backend m) (m_backend m'))"
proof (cases "m_session m")
  case None
  then show ?thesis using channel_calls_keep [OF assms, of "\<lambda>_. True"] by (simp add: keeps_session_def)
next
  case (Some s)
  have "keeps_session (\<lambda>(t, b). isolated s (m_backend m) b) m m'"
    by (rule channel_calls_keep [OF assms]) (use Some isolation.session_invariant_axioms in auto)
  then show ?thesis using Some isolated_refl [of s "m_backend m"] by (simp add: keeps_session_def parts_def)
qed

text \<open>C9: a channel touches its own session only. Whatever methods are called on a manager with an open
  channel, in whatever order and with whatever card, the manager keeps the same session and the
  same privilege encoding, and in the backend the keys, the generator, the other protocol's table
  and every other session slot are as they were; the own slot keeps its place, and once it is
  free it stays free. Without a channel nothing changes at all.\<close>

theorem session_isolation:
  assumes "(channel_call T (rustcrypto P fill) M)\<^sup>*\<^sup>* (m, i) (m', i')"
  shows "m_session m' = m_session m \<and> m_priv_len m' = m_priv_len m
    \<and> (case m_session m of None \<Rightarrow> m' = m | Some s \<Rightarrow> isolated s (m_backend m) (m_backend m'))"
  by (rule session_isolation_aux [OF assms])


section \<open>Opening and closing\<close>

primrec ses_close :: "scp_session \<Rightarrow> 'r backend_state \<Rightarrow> 'r backend_state" where
  "ses_close (Scp03S s) b = scp03_close_session (st3_session s) b"
| "ses_close (Scp02S s) b = scp02_close_session (st2_session s) b"

text \<open>The session is in a slot that was free before, and nothing else has happened.\<close>

definition claimed :: "scp_session \<Rightarrow> 'r backend_state \<Rightarrow> 'r backend_state \<Rightarrow> bool" where
  "claimed s b b' = (\<not> live s b \<and> live s b' \<and> ses_close s b' = b)"

lemma free_set: "free_slot i (set_slot i v t) = free_slot i t"
  by (simp add: free_slot_def set_slot_def get_slot_eq split: option.split)

lemma free_alloc: "alloc_slot v t = Some (i, t') \<Longrightarrow> free_slot i t' = t"
  by (auto simp: alloc_slot_def free_slot_def dest!: first_free_Some split: option.splits intro: list_update_same_conv [THEN iffD2])

lemma claimed_wrap: "claimed s b b1 \<Longrightarrow> ses_wrap (rustcrypto P fill) s c b1 = (Inr w, b') \<Longrightarrow> claimed s b b'"
  by (cases s) (auto simp: claimed_def scp03_wrap_Inr scp02_wrap_Inr scp03_close_session_def scp02_close_session_def
      free_set set_get)

lemma claimed_derive03:
  assumes "scp03_derive_session P he hm mode hc cc b = (Inr h, b')" "length (bs_sessions b) = MAX_SESSION_SLOTS" "st3_session s = h"
  shows "claimed (Scp03S s) b b'"
proof -
  obtain v i ss where a: "alloc_slot v (bs_sessions b) = Some (i, ss)" "h = of_nat i" "b' = b\<lparr>bs_sessions := ss\<rparr>"
    using assms(1) by (auto simp: scp03_derive_session_def split: if_splits sum.splits option.splits prod.splits)
  have "unat h = i" using alloc_get [OF a(1)] assms(2) by (simp add: a(2) limit_simps unat_of_nat)
  then show ?thesis using alloc_get [OF a(1)] free_alloc [OF a(1)] assms(3)
    by (simp add: claimed_def scp03_close_session_def a(3))
qed

lemma claimed_derive02:
  assumes "scp02_derive_session P he hm hx sq b = (Inr h, b')" "length (bs_scp02_sessions b) = MAX_SESSION_SLOTS" "st2_session s = h"
  shows "claimed (Scp02S s) b b'"
proof -
  obtain v i ss where a: "alloc_slot v (bs_scp02_sessions b) = Some (i, ss)" "h = of_nat i" "b' = b\<lparr>bs_scp02_sessions := ss\<rparr>"
    using assms(1) by (auto simp: scp02_derive_session_def split: if_splits sum.splits option.splits prod.splits)
  have "unat h = i" using alloc_get [OF a(1)] assms(2) by (simp add: a(2) limit_simps unat_of_nat)
  then show ?thesis using alloc_get [OF a(1)] free_alloc [OF a(1)] assms(3)
    by (simp add: claimed_def scp02_close_session_def a(3))
qed

lemma readers02:
  "scp02_card_cryptogram P h a b st = (r, st') \<longleftrightarrow> st' = st \<and> fst (scp02_card_cryptogram P h a b st) = r"
  "scp02_host_cryptogram P h a b st = (r, st') \<longleftrightarrow> st' = st \<and> fst (scp02_host_cryptogram P h a b st) = r"
  by (auto simp: scp02_card_cryptogram_def scp02_host_cryptogram_def scp02_cryptogram_def)

lemma begin03_claims:
  assumes "begin03 (rustcrypto P fill) he hm kvn lvl hc aid bs b = (Inr (s, ea), b')" "length (bs_sessions b) = MAX_SESSION_SLOTS"
  shows "claimed (Scp03S s) b b'"
proof -
  obtain mode cc h b1 plain where d: "scp03_derive_session P he hm mode hc cc b = (Inr h, b1)"
    and w: "scp03_wrap_command P h plain b1 = (Inr ea, b')" and h: "st3_session s = h"
    using assms(1) by (auto simp: begin03_def run_simps readers03 simp del: map_errP_apply split: if_splits option.splits)
  have "claimed (Scp03S s) b b1" by (rule claimed_derive03 [OF d assms(2) h])
  then show ?thesis by (rule claimed_wrap [where P = P and c = plain and w = ea]) (simp add: w h)
qed

lemma begin02_claims:
  assumes "begin02 (rustcrypto P fill) he hm hx i_par kvn lvl hc bs b = (Inr (s, ea), b')" "length (bs_scp02_sessions b) = MAX_SESSION_SLOTS"
  shows "claimed (Scp02S s) b b'"
proof -
  obtain sq h b1 plain where d: "scp02_derive_session P he hm hx sq b = (Inr h, b1)"
    and w: "scp02_wrap_command P h plain b1 = (Inr ea, b')" and h: "st2_session s = h"
    using assms(1) by (auto simp: begin02_def run_simps readers02 Let_def simp del: map_errP_apply split: if_splits)
  have "claimed (Scp02S s) b b1" by (rule claimed_derive02 [OF d assms(2) h])
  then show ?thesis by (rule claimed_wrap [where P = P and c = plain and w = ea]) (simp add: w h)
qed

text \<open>The tables have their full size.\<close>

definition tables_full_size :: "'r backend_state \<Rightarrow> bool" where
  "tables_full_size b = (length (bs_sessions b) = MAX_SESSION_SLOTS \<and> length (bs_scp02_sessions b) = MAX_SESSION_SLOTS)"

lemma random_eq: "random_bytes fill n b = (Inr hc, b') \<Longrightarrow> b' = b\<lparr>bs_rng := bs_rng b'\<rparr>"
  by (auto simp: random_bytes_def split: prod.splits)

lemma open_arm03_claims:
  assumes "open_arm03 T (rustcrypto P fill) args inv_aid i_par (t, b) = (Inr (s, x), (t', b'))" "tables_full_size b"
  shows "\<exists>rng. claimed s (b\<lparr>bs_rng := rng\<rparr>) b'"
proof -
  obtain hc b1 iu_data st ea where r: "random_bytes fill (field_len (from_i i_par)) b = (Inr hc, b1)"
    and be: "begin03 (rustcrypto P fill) (sdk_enc (osa_sd_keys args)) (sdk_mac (osa_sd_keys args)) (osa_kvn args)
      (osa_requested_level args) hc (as_bytes inv_aid) iu_data b1 = (Inr (st, ea), b')" and s: "s = Scp03S st"
    using assms(1)
    by (auto simp: open_arm03_def Let_def run_simps transmit_plain_Inr simp del: map_errP_apply split: if_splits prod.splits)
  have "claimed (Scp03S st) b1 b'"
    by (rule begin03_claims [OF be]) (subst random_eq [OF r], use assms(2) in \<open>simp add: tables_full_size_def\<close>)
  then show ?thesis unfolding s using random_eq [OF r] by metis
qed

lemma open_arm02_claims:
  assumes "open_arm02 T (rustcrypto P fill) args i_par (t, b) = (Inr (s, x), (t', b'))" "tables_full_size b"
  shows "\<exists>rng. claimed s (b\<lparr>bs_rng := rng\<rparr>) b'"
proof -
  obtain hc b1 iu_data st ea where r: "random_bytes fill 8 b = (Inr hc, b1)"
    and be: "begin02 (rustcrypto P fill) (sdk_enc (osa_sd_keys args)) (sdk_mac (osa_sd_keys args)) (sdk_dek (osa_sd_keys args))
      i_par (osa_kvn args) (osa_requested_level args) hc iu_data b1 = (Inr (st, ea), b')" and s: "s = Scp02S st"
    using assms(1)
    by (auto simp: open_arm02_def Let_def run_simps transmit_plain_Inr simp del: map_errP_apply split: if_splits prod.splits)
  have "claimed (Scp02S st) b1 b'"
    by (rule begin02_claims [OF be]) (subst random_eq [OF r], use assms(2) in \<open>simp add: tables_full_size_def\<close>)
  then show ?thesis unfolding s using random_eq [OF r] by metis
qed

lemma mgr_open_scp_claims:
  assumes "mgr_open_scp T (rustcrypto P fill) args m = (Inr report, m')" "tables_full_size (m_backend m)"
  shows "\<exists>s rng. m_session m' = Some s \<and> s = osr_session report \<and> m_priv_len m' = m_priv_len m
    \<and> claimed s ((m_backend m)\<lparr>bs_rng := rng\<rparr>) (m_backend m')"
proof -
  obtain t' b' where run: "open_scp T (rustcrypto P fill) args (m_transport m, m_backend m) = (Inr report, (t', b'))"
    and m': "m' = m\<lparr>m_transport := t', m_backend := b', m_session := Some (osr_session report)\<rparr>"
    using assms(1) by (auto simp: mgr_open_scp_def bindP_eq_Inr on_parts_def split: prod.splits)
  obtain v inv_aid x t1 where v: "(case v of
         Scp03 i_par \<Rightarrow> open_arm03 T (rustcrypto P fill) args inv_aid i_par
       | Scp02 i_par \<Rightarrow> open_arm02 T (rustcrypto P fill) args i_par) (t1, m_backend m) = (Inr (osr_session report, x), (t', b'))"
    using run by (auto simp: open_scp_def run_simps select_app_def transmit_plain_Inr Let_def simp del: map_errP_apply split: if_splits)
  have "\<exists>rng. claimed (osr_session report) ((m_backend m)\<lparr>bs_rng := rng\<rparr>) b'"
  proof (cases v)
    case (Scp02 i)
    then show ?thesis by (intro open_arm02_claims [OF _ assms(2)]) (use v in simp)
  next
    case (Scp03 i)
    then show ?thesis by (intro open_arm03_claims [OF _ assms(2)]) (use v in simp)
  qed
  then show ?thesis by (simp add: m')
qed

lemma same_but_free: "same_but i ts ts' \<Longrightarrow> free_slot i ts' = free_slot i ts"
  by (rule nth_equalityI) (auto simp: same_but_def free_slot_def get_slot_eq nth_list_update split: if_splits)

lemma isolated_close: "isolated s b b' \<Longrightarrow> ses_close s b' = ses_close s b"
  by (cases s) (auto simp: scp03_close_session_def scp02_close_session_def same_but_free)

lemma close_channel_rustcrypto:
  "close_channel (rustcrypto P fill) m =
     m\<lparr>m_backend := (case m_session m of None \<Rightarrow> m_backend m | Some s \<Rightarrow> ses_close s (m_backend m)), m_session := None\<rparr>"
  by (simp add: close_channel_def split: option.split scp_session.split)


text \<open>Opening again without closing leaves the old channel's slot taken after the new one is closed: the
  manager has dropped its handle.\<close>

lemma reopen_leaks_slot:
  assumes "tables_full_size (m_backend m)" "m_session m = Some s" "live s (m_backend m)"
    and "mgr_open_scp T (rustcrypto P fill) args m = (Inr report, m1)"
  shows "live s (m_backend (close_channel (rustcrypto P fill) m1)) \<and> m_session m1 \<noteq> Some s"
proof -
  obtain s' rng where s': "m_session m1 = Some s'" "claimed s' ((m_backend m)\<lparr>bs_rng := rng\<rparr>) (m_backend m1)"
    using mgr_open_scp_claims [OF assms(4,1)] by blast
  have same: "live x ((m_backend m)\<lparr>bs_rng := rng\<rparr>) \<longleftrightarrow> live x (m_backend m)" for x by (cases x) simp_all
  then show ?thesis using s' assms(3) by (auto simp: close_channel_rustcrypto claimed_def)
qed

section \<open>A concrete manager\<close>

text \<open>A card that gives a list of answers, then none; keys and handshake are the ones of
  \<open>Scll_Handshake\<close>.\<close>

definition answering :: "bytes list transport" where
  "answering = \<lparr>
     t_transmit = (\<lambda>c rs. case rs of [] \<Rightarrow> (Inl TeTimeout, []) | r # rs \<Rightarrow> (Inr r, rs)),
     t_capabilities = (\<lambda>rs. \<lparr>handles_t0_get_response = False, caps_protocol = T1, contactless = False\<rparr>),
     t_reset = ret \<lparr>atr_bytes = [], atr_protocol = T1\<rparr>,
     t_protocol = (\<lambda>rs. T1),
     t_is_connected = (\<lambda>rs. True)\<rparr>"

definition demo_args :: open_scp_args where
  "demo_args = \<lparr>osa_target_aid = [0xA0, 0, 0, 1, 0x51], osa_target_kind = SecurityDomainAid,
     osa_sd_keys = \<lparr>sdk_enc = 0, sdk_mac = 1, sdk_dek = 1\<rparr>, osa_advertised = [Scp03 0x60],
     osa_force_scp = None, osa_kvn = 0, osa_requested_level = 0x33\<rparr>"

definition demo_manager :: "bytes list \<Rightarrow> (bytes list, unit backend_state) manager" where
  "demo_manager answers = manager_new ([0x90, 0] # (demo_iu demo_cg @ [0x90, 0]) # answers) demo_keys"

definition demo_open :: "bytes list \<Rightarrow> (scll_error + open_scp_report) \<times> (bytes list, unit backend_state) manager" where
  "demo_open answers = mgr_open_scp answering (rustcrypto toy_prims demo_fill) demo_args (demo_manager answers)"

definition demo_select :: bytes where "demo_select = [0x00, 0xA4, 0x04, 0x00]"

lemma demo_tables: "tables_full_size (m_backend (demo_manager rs))"
  by (simp add: demo_manager_def manager_new_def tables_full_size_def demo_keys_def backend_new_def limit_simps)

lemma u16_saturating_code [code]: "u16_saturating n = (if int n < 65536 then of_nat n else - 1)"
  by (simp add: u16_saturating_def)

lemma demo_open_ok: "is_ok (fst (demo_open [[0x90, 0]]))"
  by code_simp

definition demo_transmit :: "(bytes list, unit backend_state) manager \<Rightarrow> (scll_error + applet_transmit_report) \<times> (bytes list, unit backend_state) manager" where
  "demo_transmit = mgr_transmit answering (rustcrypto toy_prims demo_fill) demo_select"

lemma demo_call:
  "(channel_call answering (rustcrypto toy_prims demo_fill) copying)\<^sup>*\<^sup>* (m, i) (snd (demo_transmit m), i)"
  by (rule r_into_rtranclp) (rule CallTransmit [where c = demo_select], unfold demo_transmit_def, rule prod.collapse [symmetric])

lemma session_isolation_witness:
  "m_session (snd (demo_transmit (snd (demo_open [[0x90, 0]])))) = m_session (snd (demo_open [[0x90, 0]]))"
  using session_isolation [OF demo_call [of "snd (demo_open [[0x90, 0]])" "inflate_new copying"]] by blast

text \<open>An answer without a valid R-MAC closes the channel.\<close>

definition demo_tampered :: "bytes list \<Rightarrow> (bytes list, unit backend_state) manager" where
  "demo_tampered rs = snd (demo_transmit (snd (demo_open ([0x90, 0] # [7, 0x90, 0] # rs))))"

definition demo_state :: scp03_state where
  "demo_state = \<lparr>st3_session = 0, st3_i_param = 0x60, st3_security_level = 0x33, st3_kvn = 0x30\<rparr>"

lemma demo_tampered_dead:
  "m_session (demo_tampered [[0x90, 0]]) = Some (Scp03S demo_state) \<and> \<not> live (Scp03S demo_state) (m_backend (demo_tampered [[0x90, 0]]))"
  by code_simp



text \<open>The manager keeps the handle of a channel that was torn down. When the next open is refused by the
  card after the host has authenticated its side, the backend has given the same slot to the
  refused session: the manager then shows an open channel, and commands go out over the session
  the card refused.\<close>

lemma refused_reopen_revives:
  "let m = demo_tampered [[0x90, 0], demo_iu demo_cg @ [0x90, 0], [0x69, 0x82], [0x90, 0]];
       (r, m') = mgr_open_scp answering (rustcrypto toy_prims demo_fill) demo_args m
   in \<not> live (Scp03S demo_state) (m_backend m) \<and> r = Inl (ExternalAuthFail 0x6982)
      \<and> m_session m' = Some (Scp03S demo_state) \<and> live (Scp03S demo_state) (m_backend m')
      \<and> m_transport m' = [[0x90, 0]] \<and> m_transport (snd (demo_transmit m')) = []"
  by code_simp

end
