(* ===== verification/Scll_Bounds.thy ===== *)
theory Scll_Bounds
  imports Scll_Manager
begin

text \<open>
  How many commands the workflows send. No card, transport or CAP file, however hostile, keeps the
  host in a workflow: every method of the manager returns after a number of exchanges that is
  fixed by the program's own limits.

  \<open>counted T\<close> is the transport \<open>T\<close> with a counter of its \<open>transmit\<close> calls; \<open>costs\<close> bounds what a
  program adds to a counter, and composes along the program.
\<close>

section \<open>Counting\<close>

definition costs :: "('s \<Rightarrow> nat) \<Rightarrow> nat \<Rightarrow> ('s, 'e, 'a) prog \<Rightarrow> bool" where
  "costs c n m = (\<forall>s r s'. m s = (r, s') \<longrightarrow> c s' \<le> c s + n)"

lemma costsI: "(\<And>s r s'. m s = (r, s') \<Longrightarrow> c s' \<le> c s + n) \<Longrightarrow> costs c n m"
  by (simp add: costs_def)

lemma costsD: "costs c n m \<Longrightarrow> m s = (r, s') \<Longrightarrow> c s' \<le> c s + n"
  by (simp add: costs_def)

lemma costs_le: "costs c n m \<Longrightarrow> n \<le> k \<Longrightarrow> costs c k m"
  by (fastforce simp: costs_def)

lemma costs_prims: "costs c 0 (ret x)" "costs c 0 (throw e)" "costs c 0 (liftR r)"
  by (auto simp: costs_def)

lemma costs_bindP: "costs c a m \<Longrightarrow> (\<And>x. costs c b (f x)) \<Longrightarrow> costs c (a + b) (bindP m f)"
proof (rule costsI)
  fix s r s' assume m: "costs c a m" and f: "\<And>x. costs c b (f x)" and run: "bindP m f s = (r, s')"
  obtain r1 s1 where ms: "m s = (r1, s1)" by (cases "m s")
  have s1: "c s1 \<le> c s + a" using costsD [OF m ms] .
  show "c s' \<le> c s + (a + b)"
  proof (cases r1)
    case (Inl e) then show ?thesis using run ms s1 by (simp add: bindP_def)
  next
    case (Inr x)
    then have "f x s1 = (r, s')" using run ms by (simp add: bindP_def)
    then show ?thesis using costsD [OF f] s1 by fastforce
  qed
qed

lemma costs_map_errP: "costs c n m \<Longrightarrow> costs c n (map_errP h m)"
  by (auto simp: costs_def split: prod.splits)

lemma costs_cases:
  "costs c a m \<Longrightarrow> costs c b n \<Longrightarrow> costs c (max a b) (if p then m else n)"
  "(\<And>x y. costs c a (f x y)) \<Longrightarrow> costs c a (case q of (x, y) \<Rightarrow> f x y)"
  "costs c a m \<Longrightarrow> (\<And>x. costs c b (g x)) \<Longrightarrow> costs c (max a b) (case v of None \<Rightarrow> m | Some x \<Rightarrow> g x)"
  by (auto simp: costs_def le_max_iff_disj split: prod.split option.split) (metis add.commute max.coboundedI1 max.coboundedI2 nat_add_max_right)+

lemmas costs_intros = costs_prims costs_bindP costs_map_errP costs_cases

definition counted :: "'t transport \<Rightarrow> ('t \<times> nat) transport" where
  "counted T = \<lparr>
     t_transmit = (\<lambda>c (t, n). case t_transmit T c t of (r, t') \<Rightarrow> (r, (t', Suc n))),
     t_capabilities = (\<lambda>(t, n). t_capabilities T t),
     t_reset = (\<lambda>(t, n). case t_reset T t of (r, t') \<Rightarrow> (r, (t', n))),
     t_protocol = (\<lambda>(t, n). t_protocol T t),
     t_is_connected = (\<lambda>(t, n). t_is_connected T t)\<rparr>"

definition sent :: "('t \<times> nat) \<times> 'b \<Rightarrow> nat" where
  "sent s = snd (fst s)"

lemma costs_transmit_raw: "costs sent 1 (transmit_raw (counted T) c)"
  by (rule costsI) (auto simp: transmit_raw_def counted_def sent_def split: prod.splits)

lemma costs_backend: "costs sent 0 (backend m)"
  by (rule costsI) (auto simp: backend_def sent_def split: prod.splits)

lemma costs_on_snd: "costs sent 0 (on_snd m)"
  by (rule costsI) (auto simp: sent_def split: prod.splits)

lemma costs_reset: "costs sent 0 (transport_reset (counted T))"
  by (rule costsI) (auto simp: transport_reset_def counted_def sent_def split: prod.splits)

lemmas costs_steps = costs_transmit_raw costs_backend costs_on_snd costs_reset

lemma costs_transmit_in_session: "costs sent 1 (transmit_in_session (counted T) B s c)"
  unfolding transmit_in_session_def by (rule costs_le, (rule costs_intros costs_steps)+, simp)

lemma costs_transmit_plain: "costs sent 1 (transmit_plain (counted T) c)"
  unfolding transmit_plain_def by (rule costs_le, (rule costs_intros costs_steps)+, simp)

lemma costs_encrypt_key: "costs sent 0 (encrypt_key B s dek new)"
  by (cases s; simp only: encrypt_key.simps; rule costs_backend)

lemmas costs_exchange = costs_transmit_in_session costs_transmit_plain costs_encrypt_key

section \<open>The workflows\<close>

lemma costs_select_app: "costs sent 1 (select_app (counted T) aid)"
  unfolding select_app_def by (rule costs_le, (rule costs_intros costs_exchange)+, simp)

lemma costs_optional_get_data: "costs sent 1 (optional_get_data (counted T) tag)"
  unfolding optional_get_data_def by (rule costs_le, (rule costs_intros costs_exchange)+, simp)

lemma costs_discover: "costs sent 7 (discover_card (counted T) expected)"
  unfolding discover_card_def Let_def
  by (rule costs_le, (rule costs_intros costs_steps costs_select_app costs_optional_get_data)+, simp)

lemma costs_arms:
  "costs sent 2 (open_arm03 (counted T) B args inv_aid i_par)" "costs sent 2 (open_arm02 (counted T) B args i_par)"
  unfolding open_arm03_def open_arm02_def Let_def
  by (rule costs_le, (rule costs_intros costs_steps costs_exchange)+, simp)+

lemma costs_open_scp: "costs sent 3 (open_scp (counted T) B args)"
proof -
  have arm: "costs sent 2 (case v of Scp03 i_par \<Rightarrow> open_arm03 (counted T) B args inv_aid i_par
      | Scp02 i_par \<Rightarrow> open_arm02 (counted T) B args i_par)" for v inv_aid
    by (cases v) (simp_all add: costs_arms)
  show ?thesis unfolding open_scp_def Let_def
    by (rule costs_le, (rule costs_intros costs_select_app arm)+, simp)
qed

lemma costs_one_exchange:
  "costs sent 1 (transmit (counted T) B s c)"
  "costs sent 1 (put_sd_keys (counted T) B s pk)"
  "costs sent 1 (delete_sd_keyset (counted T) B s kvn aid)"
  "costs sent 1 (create_ssd (counted T) B s cs pl)"
  "costs sent 1 (delete_ssd (counted T) B s aid dc)"
  "costs sent 1 (install_applet (counted T) B s ia pl)"
  unfolding transmit_def put_sd_keys_def delete_sd_keyset_def create_ssd_def delete_ssd_def install_applet_def Let_def
  by (rule costs_le, (rule costs_intros costs_steps costs_exchange)+, simp)+

lemma costs_delete_applet: "costs sent 2 (delete_applet (counted T) B s args)"
  unfolding delete_applet_def cascade_elf_def Let_def
  by (rule costs_le, (rule costs_intros costs_exchange)+, simp)

lemma costs_scope_loop: "costs sent n (scope_loop n (counted T) B s p1 p2 buf g t)"
proof (induction n arbitrary: p2 buf g t)
  case 0
  show ?case unfolding scope_loop.simps by (rule costs_prims)
next
  case (Suc n)
  show ?case unfolding scope_loop.simps Let_def
    by (rule costs_le, (rule costs_intros costs_exchange Suc.IH)+, simp)
qed

lemma costs_read_status_scope: "costs sent MAX_STATUS_PAGES (read_status_scope (counted T) B s p1)"
  unfolding read_status_scope_def by (rule costs_scope_loop)

lemma costs_get_card_status: "costs sent MAX_STATUS_PAGES (get_card_status (counted T) B s aid)"
  unfolding get_card_status_def Let_def
  by (rule costs_le, (rule costs_intros costs_read_status_scope)+, simp)

lemma costs_get_card_inventory: "costs sent (3 * MAX_STATUS_PAGES) (get_card_inventory (counted T) B s aid)"
  unfolding get_card_inventory_def collect_scope_def Let_def
  by (rule costs_le, (rule costs_intros costs_read_status_scope)+, simp)

lemma costs_set_card_status: "costs sent (MAX_STATUS_PAGES + 1) (set_card_status (counted T) B s args)"
proof -
  have plan: "costs sent 1 (run_plan (counted T) B s args plan)" for plan
    by (cases plan; simp only: run_plan.simps; rule costs_le, (rule costs_intros costs_exchange)+; simp)
  show ?thesis unfolding set_card_status_def current_state_def Let_def
    by (rule costs_le, (rule costs_intros costs_get_card_status plan)+, simp)
qed

lemma costs_on_fst: "costs c n m \<Longrightarrow> costs (\<lambda>p. c (fst p)) n (on_fst m)"
  by (auto simp: costs_def split: prod.splits)

text \<open>Every block of a load is at least one octet, so that the announced length bounds the number of
  LOAD commands, whatever the decompressor does.\<close>

lemma costs_load_loop:
  "costs (\<lambda>p. sent (fst p)) (max 1 (tot - sofar)) (load_loop (counted T) B s M tot sofar block_no blocks lfdb)"
proof (induction "tot - sofar" arbitrary: "sofar" block_no blocks lfdb rule: less_induct)
  case less
  show ?case
  proof (rule costsI)
    fix p r p' assume run: "load_loop (counted T) B s M tot sofar block_no blocks lfdb p = (r, p')"
    obtain s0 infl where p: "p = (s0, infl)" by (cases p)
    obtain b lfdb' infl' where nb: "next_block M LOAD_BLOCK_DATA (lfdb, infl) = (b, (lfdb', infl'))"
      by (cases "next_block M LOAD_BLOCK_DATA (lfdb, infl)") auto
    show "sent (fst p') \<le> sent (fst p) + max 1 (tot - sofar)"
    proof (cases "\<exists>out capdu. b = Inr out \<and> out \<noteq> [] \<and> load_block block_no (tot \<le> sofar + length out) out = Inr capdu")
      case False
      then show ?thesis using run by (auto simp: p load_loop.simps nb Let_def split: sum.splits if_splits)
    next
      case True
      then obtain out capdu where b: "b = Inr out" "out \<noteq> []" "load_block block_no (tot \<le> sofar + length out) out = Inr capdu"
        by blast
      obtain x s1 where x: "transmit_in_session (counted T) B s capdu s0 = (x, s1)" by (meson surj_pair)
      have s1: "sent s1 \<le> sent s0 + 1" using costsD [OF costs_transmit_in_session x] .
      have l: "0 < length out" using b(2) by simp
      show ?thesis
      proof (cases "\<exists>d. x = Inr (d, SW_OK) \<and> \<not> tot \<le> sofar + length out")
        case True
        then obtain d where d: "x = Inr (d, SW_OK)" and more: "\<not> tot \<le> sofar + length out" by blast
        have "load_block block_no False out = Inr capdu" using b(3) more by simp
        then have next_run: "load_loop (counted T) B s M tot (sofar + length out) (block_no + 1) (blocks + 1) lfdb' (s1, infl') = (r, p')"
          using run more by (simp add: p load_loop.simps [of "counted T" B s M tot "sofar"] nb b(1,2) x d Let_def)
        have "tot - (sofar + length out) < tot - sofar" using more l by linarith
        from costsD [OF less [OF this] next_run]
        have "sent (fst p') \<le> sent s1 + max 1 (tot - (sofar + length out))" by simp
        moreover have "1 \<le> tot - (sofar + length out)" using more by linarith
        ultimately show ?thesis using s1 l more unfolding p fst_conv by linarith
      next
        case False
        then have "sent (fst p') = sent s1"
          using run by (auto simp: p load_loop.simps nb b x Let_def split: sum.splits if_splits prod.splits)
        then show ?thesis using s1 by (simp add: p)
      qed
    qed
  qed
qed

lemma costs_load_package:
  "costs (\<lambda>p. sent (fst p)) (1 + MAX_LOAD_BYTES) (load_package (counted T) B s M args)"
proof -
  have loop: "costs (\<lambda>p. sent (fst p)) (max 1 tot) (\<lambda>(s', infl). load_loop (counted T) B s M tot 0 0 0 lfdb (s', infl_reset M infl))" for tot lfdb
    using costs_load_loop [of tot 0 T B s M 0 0 lfdb] by (force simp: costs_def)
  have parse: "costs (\<lambda>p. sent (fst p)) 0 (on_snd m)" for m :: "('d inflate_ctx, scll_error, cap_file) prog"
    by (auto simp: costs_def split: prod.splits)
  have rest: "costs (\<lambda>p. sent (fst p)) (1 + MAX_LOAD_BYTES) (if lfdb_len (cap_lfdb cap) > MAX_LOAD_BYTES then throw LoadTooLarge else m)"
    if "costs (\<lambda>p. sent (fst p)) (1 + max 1 (lfdb_len (cap_lfdb cap))) m" for cap and m :: "((('t \<times> nat) \<times> 'b) \<times> 'd inflate_ctx, scll_error, load_package_report) prog"
  proof (cases "lfdb_len (cap_lfdb cap) > MAX_LOAD_BYTES")
    case True
    then show ?thesis by (simp only: if_True) (rule costs_le [OF costs_prims(2)], simp)
  next
    case False
    have "1 \<le> MAX_LOAD_BYTES" by (simp add: MAX_LOAD_BYTES_def limit_simps LOAD_BLOCK_DATA_def)
    then show ?thesis using False that by (auto intro: costs_le)
  qed
  show ?thesis
    unfolding load_package_def Let_def
    by (rule costs_le, (rule costs_bindP parse)+, rule rest, rule costs_le,
        (rule costs_intros costs_on_fst costs_transmit_in_session loop)+, simp_all)
qed

section \<open>The manager\<close>

definition exchanges :: "('t \<times> nat, 'b) manager \<Rightarrow> nat" where
  "exchanges m = snd (m_transport m)"

lemma costs_on_parts: "costs sent n w \<Longrightarrow> costs exchanges n (on_parts w)"
proof (rule costsI)
  fix m r m' assume c: "costs sent n w" and run: "on_parts w m = (r, m')"
  obtain x t b where x: "w (m_transport m, m_backend m) = (x, (t, b))" by (metis surj_pair)
  then show "exchanges m' \<le> exchanges m + n"
    using run costsD [OF c x] by (auto simp: on_parts_def exchanges_def sent_def)
qed

lemma costs_in_session: "(\<And>s. costs sent n (w s)) \<Longrightarrow> costs exchanges n (in_session w)"
  using costs_on_parts by (fastforce simp: costs_def in_session_def split: option.splits)

lemma costs_with_priv_len:
  "costs exchanges 1 (mgr_create_ssd (counted T) B cs)" "costs exchanges 1 (mgr_install_applet (counted T) B ia)"
  unfolding mgr_create_ssd_def mgr_install_applet_def
  by (rule costsI,
      erule costsD [OF costs_in_session, rotated], rule costs_one_exchange)+

lemma costs_set_field: "costs exchanges 0 (\<lambda>m. (r, m\<lparr>m_priv_len := p\<rparr>))" "costs exchanges 0 (\<lambda>m. (r, m\<lparr>m_session := v\<rparr>))"
  by (auto simp: costs_def exchanges_def)

lemma costs_probe: "costs sent 0 (probe (counted T) name)"
  by (rule costsI) (auto simp: probe_def split: if_splits)

lemma costs_mgr_load:
  "costs (\<lambda>p. exchanges (fst p)) (1 + MAX_LOAD_BYTES) (mgr_load_package (counted T) B M args)"
proof (rule costsI)
  fix p r p' assume run: "mgr_load_package (counted T) B M args p = (r, p')"
  obtain m infl where p: "p = (m, infl)" by (cases p)
  show "exchanges (fst p') \<le> exchanges (fst p) + (1 + MAX_LOAD_BYTES)"
  proof (cases "m_session m")
    case None
    then show ?thesis using run by (auto simp: p mgr_load_package_def)
  next
    case (Some s)
    obtain x t b j where x: "load_package (counted T) B s M args ((m_transport m, m_backend m), infl) = (x, ((t, b), j))"
      by (metis surj_pair)
    then show ?thesis using run Some costsD [OF costs_load_package x]
      by (auto simp: p mgr_load_package_def exchanges_def sent_def)
  qed
qed

text \<open>C16: every method of the manager ends after a bounded number of exchanges. Whatever the card, the
  transport, the backend and the decompressor answer, a call sends at most this many commands:
  none to probe, 7 to discover, 3 to open, one for the single-command methods, 2 to delete an
  applet, the page limit for each registry scope, one more to set the state, and for a load one
  more than the announced length can be.\<close>

theorem exchanges_bounded:
  "costs exchanges 0 (mgr_probe (counted T) name)
   \<and> costs exchanges 7 (mgr_discover (counted T) expected)
   \<and> costs exchanges 3 (mgr_open_scp (counted T) B oargs)
   \<and> costs exchanges 1 (mgr_transmit (counted T) B c)
   \<and> costs exchanges 1 (mgr_put_sd_keys (counted T) B pk)
   \<and> costs exchanges 1 (mgr_delete_sd_keyset (counted T) B kvn aid)
   \<and> costs exchanges 1 (mgr_create_ssd (counted T) B cs)
   \<and> costs exchanges 1 (mgr_delete_ssd (counted T) B aid dc)
   \<and> costs exchanges 1 (mgr_install_applet (counted T) B ia)
   \<and> costs exchanges 2 (mgr_delete_applet (counted T) B da)
   \<and> costs exchanges MAX_STATUS_PAGES (mgr_get_card_status (counted T) B aid)
   \<and> costs exchanges (3 * MAX_STATUS_PAGES) (mgr_get_card_inventory (counted T) B aid)
   \<and> costs exchanges (MAX_STATUS_PAGES + 1) (mgr_set_card_status (counted T) B ss)
   \<and> costs (\<lambda>p. exchanges (fst p)) (1 + MAX_LOAD_BYTES) (mgr_load_package (counted T) B M lp)"
  unfolding mgr_probe_def mgr_discover_def mgr_open_scp_def mgr_transmit_def mgr_put_sd_keys_def
    mgr_delete_sd_keyset_def mgr_delete_ssd_def
    mgr_delete_applet_def mgr_get_card_status_def mgr_get_card_inventory_def mgr_set_card_status_def
  by (intro conjI costs_on_parts costs_in_session costs_with_priv_len costs_probe costs_one_exchange costs_delete_applet
      costs_get_card_status costs_get_card_inventory costs_set_card_status costs_mgr_load
      costs_bindP [OF costs_on_parts [OF costs_discover] costs_set_field(1), unfolded add_0_right]
      costs_bindP [OF costs_on_parts [OF costs_open_scp] costs_set_field(2), unfolded add_0_right])

end
