(* ===== verification/Scll_Compose.thy ===== *)
theory Scll_Compose
  imports Scll_Manager
begin

text \<open>
  Workflows over a secure channel. The workflows are written once, over any transport and backend;
  here each of them is run twice, over an SCP03 channel (the software backend on the host's side, a
  card that unwraps and wraps on the other) and over a plain connection to the same card
  application. What succeeds over the channel succeeds with the same report in the plain run: the
  theorems on what a workflow sends and reports carry over to a real channel.
\<close>

section \<open>Simulation of programs\<close>

definition sim :: "('s \<Rightarrow> 't \<Rightarrow> bool) \<Rightarrow> ('s, 'e, 'a) prog \<Rightarrow> ('t, 'e, 'a) prog \<Rightarrow> bool" where
  "sim R m n = (\<forall>s t x s'. R s t \<longrightarrow> m s = (Inr x, s') \<longrightarrow> (\<exists>t'. n t = (Inr x, t') \<and> R s' t'))"

lemma simI: "(\<And>s t x s'. R s t \<Longrightarrow> m s = (Inr x, s') \<Longrightarrow> \<exists>t'. n t = (Inr x, t') \<and> R s' t') \<Longrightarrow> sim R m n"
  by (simp add: sim_def)

lemma simD: "sim R m n \<Longrightarrow> R s t \<Longrightarrow> m s = (Inr x, s') \<Longrightarrow> \<exists>t'. n t = (Inr x, t') \<and> R s' t'"
  by (simp add: sim_def)

lemma sim_prims: "sim R (ret x) (ret x)" "sim R (throw e) n" "sim R (liftR r) (liftR r)"
  by (auto simp: sim_def ret_def throw_def liftR_def)

lemma sim_bindP: "sim R m n \<Longrightarrow> (\<And>x. sim R (f x) (g x)) \<Longrightarrow> sim R (bindP m f) (bindP n g)"
proof (rule simI)
  fix s t y s' assume m: "sim R m n" and f: "\<And>x. sim R (f x) (g x)" and r: "R s t" and run: "bindP m f s = (Inr y, s')"
  obtain x s1 where x: "m s = (Inr x, s1)" "f x s1 = (Inr y, s')" using run unfolding bindP_eq_Inr by blast
  obtain t1 where t1: "n t = (Inr x, t1)" "R s1 t1" using simD [OF m r x(1)] by blast
  obtain t' where "g x t1 = (Inr y, t')" "R s' t'" using simD [OF f t1(2) x(2)] by blast
  then show "\<exists>t'. bindP n g t = (Inr y, t') \<and> R s' t'" using t1(1) unfolding bindP_eq_Inr by blast
qed

lemma sim_thenP: "sim R m n \<Longrightarrow> sim R m' n' \<Longrightarrow> sim R (thenP m m') (thenP n n')"
  unfolding thenP_def by (rule sim_bindP)

lemma sim_map_errP: "sim R m n \<Longrightarrow> sim R (map_errP h m) (map_errP h' n)"
  by (fastforce simp: sim_def split: prod.splits sum.splits)

lemma sim_cases:
  "sim R m n \<Longrightarrow> sim R m' n' \<Longrightarrow> sim R (if c then m else m') (if c then n else n')"
  "(\<And>a b. sim R (f a b) (g a b)) \<Longrightarrow> sim R (case p of (a, b) \<Rightarrow> f a b) (case p of (a, b) \<Rightarrow> g a b)"
  "sim R m n \<Longrightarrow> (\<And>x. sim R (f' x) (g' x)) \<Longrightarrow>
     sim R (case v of None \<Rightarrow> m | Some x \<Rightarrow> f' x) (case v of None \<Rightarrow> n | Some x \<Rightarrow> g' x)"
  by (auto split: prod.split option.split)

lemma sim_each: "(\<And>x. sim R (f x) (g x)) \<Longrightarrow> sim R (each f xs) (each g xs)"
  unfolding each_def by (induction xs) (auto intro: sim_bindP sim_prims)

lemmas sim_intros = sim_prims sim_bindP sim_thenP sim_map_errP sim_cases sim_each

text \<open>Every workflow over a session, over \<open>T\<close> and \<open>B\<close> on one side and \<open>T'\<close> and \<open>B'\<close> on the other. The
  workflow that loads a package also has the state of the decompressor.\<close>

definition workflows_agree ::
    "'t transport \<Rightarrow> 'b backend_ops \<Rightarrow> 'u transport \<Rightarrow> 'c backend_ops \<Rightarrow> scp_session \<Rightarrow> 'd miniz \<Rightarrow>
     ('t \<times> 'b \<Rightarrow> 'u \<times> 'c \<Rightarrow> bool) \<Rightarrow> bool" where
  "workflows_agree T B T' B' ses M R =
    ((\<forall>c. sim R (transmit T B ses c) (transmit T' B' ses c))
    \<and> (\<forall>args. sim R (put_sd_keys T B ses args) (put_sd_keys T' B' ses args))
    \<and> (\<forall>kvn aid. sim R (delete_sd_keyset T B ses kvn aid) (delete_sd_keyset T' B' ses kvn aid))
    \<and> (\<forall>args pl. sim R (create_ssd T B ses args pl) (create_ssd T' B' ses args pl))
    \<and> (\<forall>aid cascade. sim R (delete_ssd T B ses aid cascade) (delete_ssd T' B' ses aid cascade))
    \<and> (\<forall>args pl. sim R (install_applet T B ses args pl) (install_applet T' B' ses args pl))
    \<and> (\<forall>args. sim R (delete_applet T B ses args) (delete_applet T' B' ses args))
    \<and> (\<forall>aid. sim R (get_card_status T B ses aid) (get_card_status T' B' ses aid))
    \<and> (\<forall>aid. sim R (get_card_inventory T B ses aid) (get_card_inventory T' B' ses aid))
    \<and> (\<forall>args. sim R (set_card_status T B ses args) (set_card_status T' B' ses args))
    \<and> (\<forall>args. sim (\<lambda>p q. R (fst p) (fst q) \<and> snd p = snd q) (load_package T B ses M args) (load_package T' B' ses M args)))"

section \<open>The workflows under a simulation\<close>

locale session_simulation =
  fixes T :: "'t transport" and B :: "'b backend_ops" and T' :: "'u transport" and B' :: "'c backend_ops"
    and session :: scp_session and R :: "'t \<times> 'b \<Rightarrow> 'u \<times> 'c \<Rightarrow> bool"
  assumes exchange: "sim R (transmit_in_session T B session c) (transmit_in_session T' B' session c)"
    and encrypt: "sim R (encrypt_key B session dek new) (encrypt_key B' session dek new)"
    and kcv: "sim R (backend (b_compute_kcv B h)) (backend (b_compute_kcv B' h))"
begin

lemma transmit: "sim R (transmit T B session c) (transmit T' B' session c)"
  unfolding transmit_def by (intro sim_intros exchange)

lemma put_sd_keys: "sim R (put_sd_keys T B session args) (put_sd_keys T' B' session args)"
  unfolding put_sd_keys_def Let_def by (intro sim_intros exchange encrypt kcv)

lemma delete_sd_keyset: "sim R (delete_sd_keyset T B session kvn aid) (delete_sd_keyset T' B' session kvn aid)"
  unfolding delete_sd_keyset_def by (intro sim_intros exchange)

lemma create_ssd: "sim R (create_ssd T B session args pl) (create_ssd T' B' session args pl)"
  unfolding create_ssd_def Let_def by (intro sim_intros exchange)

lemma delete_ssd: "sim R (delete_ssd T B session aid cascade) (delete_ssd T' B' session aid cascade)"
  unfolding delete_ssd_def Let_def by (intro sim_intros exchange)

lemma install_applet: "sim R (install_applet T B session args pl) (install_applet T' B' session args pl)"
  unfolding install_applet_def Let_def by (intro sim_intros exchange)

lemma delete_applet: "sim R (delete_applet T B session args) (delete_applet T' B' session args)"
  unfolding delete_applet_def cascade_elf_def Let_def by (intro sim_intros exchange)

lemma scope_loop: "sim R (scope_loop n T B session p1 p2 buf good_len truncated) (scope_loop n T' B' session p1 p2 buf good_len truncated)"
proof (induction n arbitrary: p2 buf good_len truncated)
  case (Suc n)
  show ?case unfolding scope_loop.simps Let_def by (intro sim_intros exchange Suc.IH)
qed (simp only: scope_loop.simps sim_prims)

lemma read_status_scope: "sim R (read_status_scope T B session p1) (read_status_scope T' B' session p1)"
  unfolding read_status_scope_def by (rule scope_loop)

lemma get_card_status: "sim R (get_card_status T B session aid) (get_card_status T' B' session aid)"
  unfolding get_card_status_def Let_def by (intro sim_intros read_status_scope)

lemma get_card_inventory: "sim R (get_card_inventory T B session aid) (get_card_inventory T' B' session aid)"
  unfolding get_card_inventory_def collect_scope_def Let_def by (intro sim_intros read_status_scope)

lemma run_plan: "sim R (run_plan T B session args plan) (run_plan T' B' session args plan)"
  by (cases plan; simp only: run_plan.simps; intro sim_intros exchange)

lemma set_card_status: "sim R (set_card_status T B session args) (set_card_status T' B' session args)"
  unfolding set_card_status_def current_state_def Let_def by (intro sim_intros get_card_status run_plan)

definition RI :: "('t \<times> 'b) \<times> 'd inflate_ctx \<Rightarrow> ('u \<times> 'c) \<times> 'd inflate_ctx \<Rightarrow> bool" where
  "RI p q = (R (fst p) (fst q) \<and> snd p = snd q)"

lemma on_fst_sim: "sim R m n \<Longrightarrow> sim RI (on_fst m) (on_fst n)"
proof (rule simI)
  fix p q x p' assume m: "sim R m n" and r: "RI p q" and run: "on_fst m p = (Inr x, p')"
  obtain s d where p: "p = (s, d)" by (cases p)
  then obtain t where q: "q = (t, d)" "R s t" using r by (cases q) (simp add: RI_def)
  obtain s' where s': "m s = (Inr x, s')" "p' = (s', d)" using run by (auto simp: p split: prod.splits)
  then show "\<exists>q'. on_fst n q = (Inr x, q') \<and> RI p' q'" using simD [OF m q(2) s'(1)] by (auto simp: q(1) RI_def)
qed

lemma on_snd_sim: "sim RI (on_snd m) (on_snd m)"
  by (fastforce simp: sim_def RI_def split: prod.splits)

lemma load_loop: "sim RI (load_loop T B session M tot sent block_no blocks lfdb) (load_loop T' B' session M tot sent block_no blocks lfdb)"
proof (induction "tot - sent" arbitrary: sent block_no blocks lfdb rule: less_induct)
  case less
  show ?case
  proof (rule simI)
    fix p q r p' assume rel: "RI p q" and run: "load_loop T B session M tot sent block_no blocks lfdb p = (Inr r, p')"
    obtain s infl where p: "p = (s, infl)" by (cases p)
    then obtain t where q: "q = (t, infl)" "R s t" using rel by (cases q) (simp add: RI_def)
    obtain b lfdb' infl' where nb: "next_block M LOAD_BLOCK_DATA (lfdb, infl) = (b, (lfdb', infl'))"
      by (cases "next_block M LOAD_BLOCK_DATA (lfdb, infl)") auto
    obtain out where b: "b = Inr out" using run by (cases b) (simp_all add: p load_loop.simps nb)
    let ?last = "tot \<le> sent + length out"
    show "\<exists>q'. load_loop T' B' session M tot sent block_no blocks lfdb q = (Inr r, q') \<and> RI p' q'"
    proof (cases "out = []")
      case True
      then show ?thesis using run q(2) by (auto simp: p q(1) load_loop.simps nb b RI_def)
    next
      case False
      obtain capdu where c: "load_block block_no ?last out = Inr capdu"
        using run False by (cases "load_block block_no ?last out") (simp_all add: p load_loop.simps nb b Let_def)
      obtain x s1 where x: "transmit_in_session T B session capdu s = (x, s1)" by (meson surj_pair)
      obtain d where d: "x = Inr (d, SW_OK)"
        using run False by (cases x) (auto simp: p load_loop.simps nb b c x Let_def split: prod.splits if_splits)
      obtain t1 where t1: "transmit_in_session T' B' session capdu t = (Inr (d, SW_OK), t1)" "R s1 t1"
        using simD [OF exchange q(2)] x d by blast
      show ?thesis
      proof (cases ?last)
        case True
        then show ?thesis using run False t1 c by (auto simp: p q(1) load_loop.simps nb b x d Let_def RI_def)
      next
        case more: False
        have "tot - (sent + length out) < tot - sent" using more False by (cases out) auto
        moreover have "load_loop T B session M tot (sent + length out) (block_no + 1) (blocks + 1) lfdb' (s1, infl') = (Inr r, p')"
          using run False more c by (simp add: p load_loop.simps [of T B session M tot sent] nb b x d Let_def)
        moreover have "RI (s1, infl') (t1, infl')" using t1(2) by (simp add: RI_def)
        ultimately obtain q' where "load_loop T' B' session M tot (sent + length out) (block_no + 1) (blocks + 1) lfdb' (t1, infl') = (Inr r, q')" "RI p' q'"
          using simD [OF less] by blast
        then show ?thesis using False more c t1(1)
          by (simp add: q(1) load_loop.simps [of T' B' session M tot sent] nb b Let_def)
      qed
    qed
  qed
qed

lemma load_package: "sim RI (load_package T B session M args) (load_package T' B' session M args)"
proof -
  have loop: "sim RI (\<lambda>(s, infl). load_loop T B session M tot 0 0 0 lfdb (s, infl_reset M infl))
      (\<lambda>(s, infl). load_loop T' B' session M tot 0 0 0 lfdb (s, infl_reset M infl))" for tot lfdb
  proof (rule simI)
    fix p q x p' assume r: "RI p q" and run: "(\<lambda>(s, infl). load_loop T B session M tot 0 0 0 lfdb (s, infl_reset M infl)) p = (Inr x, p')"
    then have "RI (fst p, infl_reset M (snd p)) (fst q, infl_reset M (snd q))" by (simp add: RI_def)
    from simD [OF load_loop [of M tot 0 0 0 lfdb] this] run
    show "\<exists>q'. (\<lambda>(s, infl). load_loop T' B' session M tot 0 0 0 lfdb (s, infl_reset M infl)) q = (Inr x, q') \<and> RI p' q'"
      by (simp add: case_prod_beta)
  qed
  show ?thesis
    unfolding load_package_def Let_def by (intro sim_intros on_snd_sim on_fst_sim [OF exchange] loop)
qed

lemma agree: "workflows_agree T B T' B' session M R"
  unfolding workflows_agree_def RI_def [symmetric, abs_def]
  by (intro conjI allI transmit put_sd_keys delete_sd_keyset create_ssd delete_ssd install_applet delete_applet
      get_card_status get_card_inventory set_card_status load_package)

end

section \<open>A card behind a channel, and the same card in plain\<close>

text \<open>A card: its end of the channel, and its application. The application sees the view of a command
  and answers; an answer that cannot be protected is not sent.\<close>

definition secured_card ::
    "('k \<Rightarrow> bytes \<Rightarrow> ('v \<times> 'k) option) \<Rightarrow> ('k \<Rightarrow> bytes \<Rightarrow> bytes \<times> 'k) \<Rightarrow> ('v \<Rightarrow> 'a \<Rightarrow> bytes \<times> 'a) \<Rightarrow> ('k \<times> 'a) transport" where
  "secured_card receive respond app = \<lparr>
     t_transmit = (\<lambda>w (k, a). case receive k w of
         None \<Rightarrow> (Inr [0x69, 0x82], (k, a))
       | Some (v, k) \<Rightarrow> (case app v a of (d, a) \<Rightarrow>
           if answer_fits d then (case respond k d of (r, k) \<Rightarrow> (Inr r, (k, a))) else (Inl TeProtocolError, (k, a)))),
     t_capabilities = (\<lambda>_. \<lparr>handles_t0_get_response = False, caps_protocol = T1, contactless = False\<rparr>),
     t_reset = ret \<lparr>atr_bytes = [], atr_protocol = T1\<rparr>,
     t_protocol = (\<lambda>_. T1),
     t_is_connected = (\<lambda>_. True)\<rparr>"

definition plain_card :: "(bytes \<Rightarrow> 'v) \<Rightarrow> ('v \<Rightarrow> 'a \<Rightarrow> bytes \<times> 'a) \<Rightarrow> 'a transport" where
  "plain_card view app = \<lparr>
     t_transmit = (\<lambda>c a. case app (view c) a of (d, a) \<Rightarrow> (Inr d, a)),
     t_capabilities = (\<lambda>_. \<lparr>handles_t0_get_response = False, caps_protocol = T1, contactless = False\<rparr>),
     t_reset = ret \<lparr>atr_bytes = [], atr_protocol = T1\<rparr>,
     t_protocol = (\<lambda>_. T1),
     t_is_connected = (\<lambda>_. True)\<rparr>"

text \<open>The software backend without protection of commands and answers.\<close>

definition plain_ops :: "prims \<Rightarrow> 'r fill \<Rightarrow> 'r backend_state backend_ops" where
  "plain_ops P fill = (rustcrypto P fill)\<lparr>
     b_scp03_wrap_command := (\<lambda>h c. ret c), b_scp03_unwrap_response := (\<lambda>h r. ret r),
     b_scp02_wrap_command := (\<lambda>h c. ret c), b_scp02_unwrap_response := (\<lambda>h r. ret r)\<rparr>"

text \<open>A session of a backend \<open>B\<close> over a channel with the laws of \<open>duplex_channel\<close>, and a backend \<open>B'\<close> that
  passes commands and answers through. \<open>keep\<close> relates what the operations on keys read; it survives
  an exchange. Such a channel simulates single exchanges, hence every workflow.\<close>

locale session_channel = duplex_channel synced wrap receive view ready respond unwrap answer_fits
  for synced :: "'b \<Rightarrow> 'k \<Rightarrow> bool" and wrap :: "bytes \<Rightarrow> 'b \<Rightarrow> (backend_error + bytes) \<times> 'b"
    and receive :: "'k \<Rightarrow> bytes \<Rightarrow> ('v \<times> 'k) option" and view :: "bytes \<Rightarrow> 'v"
    and ready :: "'b \<Rightarrow> 'k \<Rightarrow> bool" and respond :: "'k \<Rightarrow> bytes \<Rightarrow> bytes \<times> 'k"
    and unwrap :: "bytes \<Rightarrow> 'b \<Rightarrow> (backend_error + bytes) \<times> 'b" +
  fixes B :: "'b backend_ops" and B' :: "'b backend_ops" and session :: scp_session
    and keep :: "'b \<Rightarrow> 'b \<Rightarrow> bool" and app :: "'v \<Rightarrow> 'a \<Rightarrow> bytes \<times> 'a"
  assumes wrapping: "ses_wrap B session = wrap" "ses_unwrap B session = unwrap"
    and passing: "ses_wrap B' session = ret" "ses_unwrap B' session = ret"
    and wrap_keeps: "keep b b0 \<Longrightarrow> wrap c b = (Inr w, b') \<Longrightarrow> keep b' b0"
    and unwrap_keeps: "keep b b0 \<Longrightarrow> unwrap r b = (Inr d, b') \<Longrightarrow> keep b' b0"
    and encrypt_reads: "keep b b0 \<Longrightarrow> encrypt_op B session dek new b = (Inr x, b') \<Longrightarrow>
      b' = b \<and> encrypt_op B' session dek new b0 = (Inr x, b0)"
    and kcv_reads: "keep b b0 \<Longrightarrow> b_compute_kcv B hk b = (Inr x, b') \<Longrightarrow> b' = b \<and> b_compute_kcv B' hk b0 = (Inr x, b0)"
begin

definition over :: "('k \<times> 'a) \<times> 'b \<Rightarrow> 'a \<times> 'b \<Rightarrow> bool" where
  "over s t = (synced (snd s) (fst (fst s)) \<and> snd (fst s) = fst t \<and> keep (snd s) (snd t))"

lemma exchange_over:
  "sim over (transmit_in_session (secured_card receive respond app) B session c)
    (transmit_in_session (plain_card view app) B' session c)"
proof (rule simI)
  fix s t x s'
  assume rel: "over s t" and run: "transmit_in_session (secured_card receive respond app) B session c s = (Inr x, s')"
  obtain k a b where s: "s = ((k, a), b)" by (metis surj_pair)
  obtain b0 where t: "t = (a, b0)" "synced b k" "keep b b0" using rel by (cases t) (auto simp: over_def s)
  note defs = transmit_in_session_def wrapping transmit_raw_def secured_card_def bindP_def backend_def liftR_def s
  obtain w b1 where w: "wrap c b = (Inr w, b1)" using run by (auto simp: defs split: sum.splits prod.splits)
  obtain k1 where k1: "receive k w = Some (view c, k1)" using send_received [OF t(2) w] by blast
  obtain d a1 where d: "app (view c) a = (d, a1)" by (cases "app (view c) a")
  obtain r k2 where r: "respond k1 d = (r, k2)" by (cases "respond k1 d")
  have fits: "answer_fits d" using run by (auto simp: defs w k1 d split: if_splits)
  obtain b2 where b2: "unwrap r b1 = (Inr d, b2)" "ready b2 k2"
    using respond_accepted [OF send_ready [OF t(2) w k1] fits r] by blast
  have x: "split_sw d = Inr x" "s' = ((k2, a1), b2)" using run fits by (auto simp: defs w k1 d r b2(1) split: sum.splits)
  have "over s' (a1, b0)"
    using ready_synced [OF b2(2)] unwrap_keeps [OF wrap_keeps [OF t(3) w] b2(1)] by (simp add: over_def x(2))
  moreover have "transmit_in_session (plain_card view app) B' session c t = (Inr x, (a1, b0))"
    using x(1) d by (simp add: transmit_in_session_def t(1) passing plain_card_def transmit_raw_def bindP_def backend_def ret_def liftR_def)
  ultimately show "\<exists>t'. transmit_in_session (plain_card view app) B' session c t = (Inr x, t') \<and> over s' t'" by blast
qed

lemma reader_over:
  assumes "\<And>b b0 x b'. keep b b0 \<Longrightarrow> m b = (Inr x, b') \<Longrightarrow> b' = b \<and> m' b0 = (Inr x, b0)"
  shows "sim over (backend m) (backend m')"
  using assms by (fastforce simp: sim_def over_def backend_def split: prod.splits sum.splits)

lemma encrypt_over: "sim over (encrypt_key B session dek new) (encrypt_key B' session dek new)"
  unfolding encrypt_key_eq by (rule reader_over) (rule encrypt_reads)

end

sublocale session_channel < session_simulation "secured_card receive respond app" B "plain_card view app" B' session over
  by unfold_locales (rule exchange_over, rule encrypt_over, rule reader_over, rule kcv_reads)

section \<open>Both protocols\<close>

abbreviation card03 :: "prims \<Rightarrow> (command_view \<Rightarrow> 'a \<Rightarrow> bytes \<times> 'a) \<Rightarrow> (scp03_session_slot \<times> 'a) transport" where
  "card03 P app \<equiv> secured_card (card_receive03 P) (\<lambda>k d. (card_respond03 P k d, k)) app"

abbreviation plain03 :: "(command_view \<Rightarrow> 'a \<Rightarrow> bytes \<times> 'a) \<Rightarrow> 'a transport" where
  "plain03 app \<equiv> plain_card (\<lambda>c. sm_view (capdu_le c) c) app"

abbreviation card02 :: "prims \<Rightarrow> (bytes \<Rightarrow> bytes \<Rightarrow> bytes \<Rightarrow> bytes) \<Rightarrow> (command_view \<Rightarrow> 'a \<Rightarrow> bytes \<times> 'a) \<Rightarrow>
    (scp02_session_slot \<times> 'a) transport" where
  "card02 P dec app \<equiv> secured_card (card_receive02 P dec) (card_respond02 P) app"

abbreviation plain02 :: "(command_view \<Rightarrow> 'a \<Rightarrow> bytes \<times> 'a) \<Rightarrow> 'a transport" where
  "plain02 app \<equiv> plain_card (sm_view []) app"

text \<open>Both ends of the channel agree, the application is in the same state, and so is what the backend
  encrypts keys with: the static keys, and for SCP02 the data encryption key of the session.\<close>

definition over03 :: "prims \<Rightarrow> u16 \<Rightarrow> (scp03_session_slot \<times> 'a) \<times> 'r backend_state \<Rightarrow> 'a \<times> 'r backend_state \<Rightarrow> bool" where
  "over03 P h s t = (synced03 P h (snd s) (fst (fst s)) \<and> snd (fst s) = fst t \<and> bs_keys (snd s) = bs_keys (snd t))"

definition same_dek02 :: "u16 \<Rightarrow> 'r backend_state \<Rightarrow> 'r backend_state \<Rightarrow> bool" where
  "same_dek02 h b b0 = (bs_keys b = bs_keys b0
     \<and> map_option s2_dek (get_slot (bs_scp02_sessions b) (unat h)) = map_option s2_dek (get_slot (bs_scp02_sessions b0) (unat h)))"

definition over02 :: "prims \<Rightarrow> (bytes \<Rightarrow> bytes \<Rightarrow> bytes \<Rightarrow> bytes) \<Rightarrow> u16 \<Rightarrow>
    (scp02_session_slot \<times> 'a) \<times> 'r backend_state \<Rightarrow> 'a \<times> 'r backend_state \<Rightarrow> bool" where
  "over02 P dec h s t = (synced02 P dec h (snd s) (fst (fst s)) \<and> snd (fst s) = fst t \<and> same_dek02 h (snd s) (snd t))"

lemma keys_kept03:
  "scp03_wrap_command P h c b = (r, b') \<Longrightarrow> bs_keys b' = bs_keys b"
  "scp03_unwrap_response P h c b = (r, b') \<Longrightarrow> bs_keys b' = bs_keys b"
  by (cases r; auto simp: scp03_wrap_Inr dest: scp03_wrap_Inl)
    (auto simp: scp03_unwrap_eq scp03_close_session_def split: option.splits sum.splits if_splits)

lemma wrap02_dek: "wrap02 P s c = Inr (w, s') \<Longrightarrow> s2_dek s' = s2_dek s"
  by (auto simp: wrap02_def commit02_def Let_def split: if_splits sum.splits prod.splits)

lemma dek_kept02:
  "same_dek02 h b b0 \<Longrightarrow> scp02_wrap_command P h c b = (Inr w, b') \<Longrightarrow> same_dek02 h b' b0"
  "same_dek02 h b b0 \<Longrightarrow> scp02_unwrap_response P h r b = (Inr d, b') \<Longrightarrow> same_dek02 h b' b0"
  by (auto simp: same_dek02_def scp02_wrap_Inr set_get dest: wrap02_dek)
    (auto simp: same_dek02_def scp02_unwrap_eq set_get split: option.splits sum.splits)

lemma read_keys_cong:
  assumes "bs_keys b = bs_keys b'"
  shows "read_aes_key b h = read_aes_key b' h" "read_tdes_key b h = read_tdes_key b' h"
    "fst (compute_kcv P hk b) = fst (compute_kcv P hk b')"
  using assms by (simp_all add: read_aes_key_def read_tdes_key_def compute_kcv_def split: option.split)

lemma readers_pure:
  "snd (compute_kcv P hk b) = b"
  by (simp add: compute_kcv_def split: option.split)

interpretation channel03: session_channel "synced03 P (st3_session st)" "scp03_wrap_command P (st3_session st)"
  "card_receive03 P" "\<lambda>c. sm_view (capdu_le c) c" "ready03 P (st3_session st)" "\<lambda>k d. (card_respond03 P k d, k)"
  "scp03_unwrap_response P (st3_session st)" "rustcrypto P fill" "plain_ops P fill" "Scp03S st"
  "\<lambda>b b0. bs_keys b = bs_keys b0" app
  for P :: prims and fill :: "'r fill" and st :: scp03_state and app :: "command_view \<Rightarrow> 'a \<Rightarrow> bytes \<times> 'a"
proof (unfold_locales, goal_cases)
  case (7 b b0 dek new x b')
  then show ?case using read_keys_cong(1) [OF 7(1)] by (simp add: plain_ops_def scp03_encrypt_put_key_payload_def)
next
  case (8 b b0 hk x b')
  then show ?case using read_keys_cong(3) [OF 8(1)] readers_pure by (auto simp: plain_ops_def prod_eq_iff)
qed (auto simp: plain_ops_def dest: keys_kept03)

interpretation channel02: session_channel "synced02 P dec (st2_session st)" "scp02_wrap_command P (st2_session st)"
  "card_receive02 P dec" "sm_view []" "ready02 P dec (st2_session st)" "card_respond02 P"
  "scp02_unwrap_response P (st2_session st)" "rustcrypto P fill" "plain_ops P fill" "Scp02S st"
  "same_dek02 (st2_session st)" app
  for P :: prims and dec and fill :: "'r fill" and st :: scp02_state and app :: "command_view \<Rightarrow> 'a \<Rightarrow> bytes \<times> 'a"
proof (unfold_locales, goal_cases)
  case (5 b b0 c w b')
  then show ?case by (rule dek_kept02)
next
  case (6 b b0 r d b')
  then show ?case by (rule dek_kept02)
next
  case (7 b b0 dek new x b')
  then have k: "bs_keys b = bs_keys b0" by (simp add: same_dek02_def)
  show ?case using 7 read_keys_cong(2) [OF k]
    by (cases "get_slot (bs_scp02_sessions b0) (unat (st2_session st))"; auto simp: plain_ops_def same_dek02_def scp02_encrypt_put_key_payload_for_session_def split: option.splits)
next
  case (8 b b0 hk x b')
  then have k: "bs_keys b = bs_keys b0" by (simp add: same_dek02_def)
  show ?case using 8(2) read_keys_cong(3) [OF k] readers_pure by (auto simp: plain_ops_def prod_eq_iff)
qed (auto simp: plain_ops_def)

text \<open>C7: every workflow over a secure channel does to the card what it does in plain. When the two ends
  of the channel agree, whatever the card's application is, a workflow that succeeds over an SCP03
  or SCP02 channel succeeds with the same report when it is run without protection against the
  application itself; the application ends in the same state, and the two ends agree again.\<close>

theorem workflows_over_channel:
  "workflows_agree (card03 P app) (rustcrypto P fill) (plain03 app) (plain_ops P fill) (Scp03S s3) M (over03 P (st3_session s3))
    \<and> workflows_agree (card02 P dec app) (rustcrypto P fill) (plain02 app) (plain_ops P fill) (Scp02S s2) M (over02 P dec (st2_session s2))"
  unfolding over03_def [abs_def] over02_def [abs_def]
  using channel03.agree [of P app fill s3 M] channel02.agree [of P dec app fill s2 M]
  unfolding channel03.over_def [abs_def] channel02.over_def [abs_def] by blast

text \<open>The relations hold on states, and runs succeed: an exchange with a small application.\<close>

definition demo_app :: "command_view \<Rightarrow> unit \<Rightarrow> bytes \<times> unit" where
  "demo_app v a = ([0x07, 0x90, 0x00], ())"

lemma channel_run_example03:
  "over03 toy_prims 0 ((demo_slot03, ()), demo_state03) ((), demo_state03)"
  "is_ok (fst (transmit (card03 toy_prims demo_app) (rustcrypto toy_prims demo_fill) (Scp03S demo_state) [0x80, 0xF2, 0, 0]
     ((demo_slot03, ()), demo_state03)))"
  using demo_state03_ok toy_prims_ok by (simp add: over03_def synced03_def) code_simp

definition demo_session02 :: scp02_state where
  "demo_session02 = \<lparr>st2_session = 0, st2_i_param = 0x15, st2_security_level = 0x13, st2_kvn = 1\<rparr>"

lemma channel_run_example02:
  "over02 toy_prims toy_xor 0 ((demo_slot02, ()), demo_state02) ((), demo_state02)"
  "is_ok (fst (transmit (card02 toy_prims toy_xor demo_app) (rustcrypto toy_prims demo_fill) (Scp02S demo_session02)
     [0x80, 0xF2, 0, 0] ((demo_slot02, ()), demo_state02)))"
  using demo_state02_ok toy_prims_ok by (simp add: over02_def synced02_def same_dek02_def) code_simp

end
