(* ===== verification/Scll_Handshake02.thy ===== *)
theory Scll_Handshake02
  imports Scll_Handshake
begin

text \<open>
  The SCP02 handshake of \<open>scll-core/src/scp/scp02.rs\<close> (\<open>begin02\<close>) on the software backend: which
  cards it accepts, and that the card's end of the channel then agrees with the host's.
\<close>

section \<open>Derivation in closed form\<close>

definition derive_ref02 :: "prims \<Rightarrow> bytes \<Rightarrow> bytes \<Rightarrow> bytes \<Rightarrow> bytes" where
  "derive_ref02 P base const sq =
     p_tdes_cbc_enc P base (replicate 8 0) ([const ! 0, const ! 1, sq ! 0, sq ! 1] @ replicate 12 0)"

definition derived02 :: "prims \<Rightarrow> bytes \<Rightarrow> bytes \<Rightarrow> bytes \<Rightarrow> bytes \<Rightarrow> scp02_session_slot" where
  "derived02 P enc mac dek sq = \<lparr>s2_enc = derive_ref02 P enc DC2_S_ENC sq, s2_mac = derive_ref02 P mac DC2_S_MAC sq,
     s2_rmac = derive_ref02 P mac DC2_S_RMAC sq, s2_dek = derive_ref02 P dek DC2_S_DEK sq, s2_icv = replicate 8 0,
     s2_icv_valid = False, s2_ricv = replicate 8 0, s2_rmac_buf = [], s2_level = 0, s2_authed = False\<rparr>"

definition cryptogram_ref02 :: "prims \<Rightarrow> scp02_session_slot \<Rightarrow> bytes \<Rightarrow> bytes \<Rightarrow> bytes" where
  "cryptogram_ref02 P s a b = tdes_mac_ref P (s2_enc s) (replicate 8 0) (a @ b)"

definition card_part02 :: "iu_response02 \<Rightarrow> bytes" where
  "card_part02 iu = iu2_seq_counter iu @ iu2_card_challenge iu"

text \<open>What the card has to send for a host that holds the keys.\<close>

definition genuine02 :: "prims \<Rightarrow> bytes \<Rightarrow> bytes \<Rightarrow> bytes \<Rightarrow> bytes \<Rightarrow> iu_response02 \<Rightarrow> bool" where
  "genuine02 P enc mac dek hc iu =
    (iu2_card_cryptogram iu = cryptogram_ref02 P (derived02 P enc mac dek (iu2_seq_counter iu)) hc (card_part02 iu))"

lemma derive_one_eq:
  assumes "prims_ok P" "length base = 16"
  shows "derive_one P base const sq = Inr (derive_ref02 P base const sq)" "length (derive_ref02 P base const sq) = 16"
  using prims_okD(6) [OF assms, of "replicate 8 0" "[const ! 0, const ! 1, sq ! 0, sq ! 1] @ replicate 12 0"] assms(2)
  by (simp_all add: derive_one_def derive_ref02_def tdes_cbc_encrypt_def DES_BLOCK_def SCP02_KEY_LEN_def Let_def)

lemma read_tdes_key_length: "read_tdes_key st h = Inr k \<Longrightarrow> length k = 16"
  by (auto simp: read_tdes_key_def SCP02_KEY_LEN_def split: if_splits)

lemma derived02_ok:
  assumes "prims_ok P" "length enc = 16" "length mac = 16" "length dek = 16"
  shows "slot2_ok (derived02 P enc mac dek sq)"
  using derive_one_eq(2) [OF assms(1)] assms(2-4) by (simp add: slot2_ok_def derived02_def)

lemma derive_slot02_Inr:
  assumes "prims_ok P"
  shows "derive_slot02 P st he hm hx sq = Inr slot \<longleftrightarrow>
    (\<exists>enc mac dek. read_tdes_key st he = Inr enc \<and> read_tdes_key st hm = Inr mac \<and> read_tdes_key st hx = Inr dek
      \<and> slot = derived02 P enc mac dek sq)"
  using derive_one_eq(1) [OF assms] read_tdes_key_length [of st he] read_tdes_key_length [of st hm] read_tdes_key_length [of st hx]
  by (cases "read_tdes_key st he"; cases "read_tdes_key st hm"; cases "read_tdes_key st hx")
    (auto simp: derive_slot02_def derived02_def)

lemma scp02_derive_Inr:
  assumes "prims_ok P" "state_ok st"
  shows "scp02_derive_session P he hm hx sq st = (Inr h, st') \<longleftrightarrow>
    (\<exists>enc mac dek i ss. read_tdes_key st he = Inr enc \<and> read_tdes_key st hm = Inr mac \<and> read_tdes_key st hx = Inr dek
       \<and> alloc_slot (derived02 P enc mac dek sq) (bs_scp02_sessions st) = Some (i, ss)
       \<and> h = of_nat i \<and> st' = st\<lparr>bs_scp02_sessions := ss\<rparr>)"
proof (cases "derive_slot02 P st he hm hx sq")
  case (Inl e)
  then show ?thesis using derive_slot02_Inr [OF assms(1), of st he hm hx sq]
    by (auto simp: scp02_derive_session_def)
next
  case (Inr slot)
  then show ?thesis using derive_slot02_Inr [OF assms(1), of st he hm hx sq slot]
    by (auto simp: scp02_derive_session_def split: option.splits)
qed

lemma derived_slot02:
  assumes "prims_ok P" "state_ok st" "read_tdes_key st he = Inr enc" "read_tdes_key st hm = Inr mac" "read_tdes_key st hx = Inr dek"
    and al: "alloc_slot (derived02 P enc mac dek sq) (bs_scp02_sessions st) = Some (i, ss)"
  defines "st1 \<equiv> st\<lparr>bs_scp02_sessions := ss\<rparr>"
  shows "get_slot (bs_scp02_sessions st1) (unat (of_nat i :: u16)) = Some (derived02 P enc mac dek sq)" "state_ok st1"
    and "get_slot (bs_scp02_sessions st) (unat (of_nat i :: u16)) = None"
proof -
  note a = alloc_get [OF al]
  have i: "i < 16" using a assms(2) by (simp add: state_ok_def limit_simps)
  then have u: "unat (of_nat i :: u16) = i" by (simp add: unat_of_nat)
  have "slot2_ok (derived02 P enc mac dek sq)" using derived02_ok [OF assms(1)] assms(3-5) read_tdes_key_length by blast
  then show "state_ok st1" using assms(2) a by (auto simp: state_ok_def st1_def)
  show "get_slot (bs_scp02_sessions st1) (unat (of_nat i :: u16)) = Some (derived02 P enc mac dek sq)"
    "get_slot (bs_scp02_sessions st) (unat (of_nat i :: u16)) = None"
    using a by (simp_all add: u st1_def)
qed

lemma cryptogram02_eq:
  assumes "prims_ok P" "get_slot (bs_scp02_sessions st) (unat h) = Some s" "slot2_ok s" "length a + length b \<le> 16"
  shows "scp02_cryptogram P h a b st = (Inr (cryptogram_ref02 P s a b), st)" "length (cryptogram_ref02 P s a b) = 8"
  using tdes_mac_eq [OF assms(1) slot2_okD(1) [OF assms(3)], of "replicate 8 0" "a @ b" "replicate 24 0"] assms(2,4)
  by (simp_all add: scp02_cryptogram_def scp02_snapshot_def cryptogram_ref02_def DES_BLOCK_def)

lemma ea_plaintext02_eq: "length hcg = 8 \<Longrightarrow> ea_plaintext02 level hcg = Inr (ea_sent level hcg)"
  by (simp add: ea_plaintext02_def apdu_of_def thenP_def bindP_def extend_apdu_def
      push_def vec_extend_def limit_simps ea_sent_def INS_EXTERNAL_AUTHENTICATE_def)

lemma parse_iu02_lengths:
  "parse_iu_response02 bs = Inr iu \<Longrightarrow> length (card_part02 iu) = 8"
  by (auto simp: parse_iu_response02_iff card_part02_def)

section \<open>Which cards are opened\<close>

text \<open>The run of \<open>begin02\<close> after a derivation that succeeded.\<close>

lemma begin02_run:
  assumes "prims_ok P" "state_ok st" "length hc = 8" "parse_iu_response02 bs = Inr iu" "kvn = 0 \<or> iu2_kvn iu = kvn"
    and keys: "read_tdes_key st he = Inr enc" "read_tdes_key st hm = Inr mac" "read_tdes_key st hx = Inr dek"
    and al: "alloc_slot (derived02 P enc mac dek (iu2_seq_counter iu)) (bs_scp02_sessions st) = Some (i, ss)"
  defines "k \<equiv> derived02 P enc mac dek (iu2_seq_counter iu)" and "st1 \<equiv> st\<lparr>bs_scp02_sessions := ss\<rparr>"
  shows "begin02 (rustcrypto P fill) he hm hx i_par kvn lvl hc bs st =
    (if \<not> genuine02 P enc mac dek hc iu then (Inl CardCryptogramFail, st1)
     else case cap_security_level02 i_par lvl of Inl e \<Rightarrow> (Inl e, st1)
     | Inr lev \<Rightarrow>
        (case scp02_wrap_command P (of_nat i) (ea_sent lev (cryptogram_ref02 P k (card_part02 iu) hc)) st1 of
           (Inl e, st2) \<Rightarrow> (Inl (Backend e), st2)
         | (Inr ea, st2) \<Rightarrow> (Inr (\<lparr>st2_session = of_nat i, st2_i_param = i_par, st2_security_level = lev,
             st2_kvn = iu2_kvn iu\<rparr>, ea), st2)))"
proof -
  note d = derived_slot02 [OF assms(1,2) keys al, folded k_def st1_def]
  note ok = get_session02_ok [OF d(2,1)]
  have der: "scp02_derive_session P he hm hx (iu2_seq_counter iu) st = (Inr (of_nat i), st1)"
    using keys al unfolding scp02_derive_Inr [OF assms(1,2)] by (auto simp: st1_def)
  have l: "length hc + length (card_part02 iu) \<le> 16" "length (card_part02 iu) + length hc \<le> 16"
    using parse_iu02_lengths [OF assms(4)] assms(3) by simp_all
  note cc = cryptogram02_eq(1) [OF assms(1) d(1) ok l(1)] and ch = cryptogram02_eq [OF assms(1) d(1) ok l(2)]
  have kv: "\<not> (kvn \<noteq> 0 \<and> iu2_kvn iu \<noteq> kvn)" using assms(5) by blast
  show ?thesis
    using assms(4) kv
    by (auto simp: begin02_def bindP_def der cc ch(1) scp02_card_cryptogram_def scp02_host_cryptogram_def Let_def
        card_part02_def [symmetric] genuine02_def k_def [symmetric] ea_plaintext02_eq [OF ch(2)] split: sum.split prod.split)
qed

lemma ea_wraps02:
  assumes "prims_ok P" "slot2_ok k" "\<not> s2_authed k" "length hcg = 8"
  shows "\<exists>w k'. wrap02 P k (ea_sent lev hcg) = Inr (w, k') \<and> s2_authed k' \<and> s2_level k' = lev"
proof -
  have hl: "length hcg \<le> 16" using assms(4) by simp
  note parts = ea_sent_parts [OF hl, of lev]
  have "body_ref02 P k hcg = hcg" using assms(3) by (simp add: body_ref02_def)
  then show ?thesis
    using wrap02_eq [OF assms(1,2) parts(7)] parts assms(3,4)
    by (simp add: EXTERNAL_AUTHENTICATE2_def commit02_def Let_def)
qed

lemma begin02_derives:
  assumes "begin02 (rustcrypto P fill) he hm hx i_par kvn lvl hc bs st = (Inr r, st')"
  shows "\<exists>iu h st1. parse_iu_response02 bs = Inr iu \<and> (kvn = 0 \<or> iu2_kvn iu = kvn)
    \<and> scp02_derive_session P he hm hx (iu2_seq_counter iu) st = (Inr h, st1)"
  using assms by (auto simp: begin02_def run_simps Let_def simp del: map_errP_apply split: if_splits)

text \<open>The conditions of a successful open, with the answer and the keys they are about.\<close>

definition openable02 ::
    "prims \<Rightarrow> 'r backend_state \<Rightarrow> key_handle \<Rightarrow> key_handle \<Rightarrow> key_handle \<Rightarrow> u8 \<Rightarrow> u8 \<Rightarrow> u8 \<Rightarrow> bytes \<Rightarrow> bytes \<Rightarrow>
     iu_response02 \<Rightarrow> bytes \<Rightarrow> bytes \<Rightarrow> bytes \<Rightarrow> bool" where
  "openable02 P st he hm hx i_par kvn lvl hc bs iu enc mac dek =
    (parse_iu_response02 bs = Inr iu \<and> (kvn = 0 \<or> iu2_kvn iu = kvn)
     \<and> read_tdes_key st he = Inr enc \<and> read_tdes_key st hm = Inr mac \<and> read_tdes_key st hx = Inr dek
     \<and> genuine02 P enc mac dek hc iu \<and> is_ok (cap_security_level02 i_par lvl)
     \<and> card (slots.live (bs_scp02_sessions st)) < MAX_SESSION_SLOTS)"

lemma free_slot02:
  "state_ok st \<Longrightarrow> card (slots.live (bs_scp02_sessions st)) < MAX_SESSION_SLOTS \<longleftrightarrow> (\<exists>i ss. alloc_slot k (bs_scp02_sessions st) = Some (i, ss))"
  using slots.alloc_iff [of "bs_scp02_sessions st" MAX_SESSION_SLOTS k] by (auto simp: state_ok_def)

lemma openable02_runs:
  assumes "prims_ok P" "tdes_inverse P dec" "state_ok st" "length hc = 8"
    and o: "openable02 P st he hm hx i_par kvn lvl hc bs iu enc mac dek"
  defines "k \<equiv> derived02 P enc mac dek (iu2_seq_counter iu)"
  shows "\<exists>s ea st' k'. begin02 (rustcrypto P fill) he hm hx i_par kvn lvl hc bs st = (Inr (s, ea), st')
    \<and> cap_security_level02 i_par lvl = Inr (st2_security_level s)
    \<and> get_slot (bs_scp02_sessions st) (unat (st2_session s)) = None
    \<and> card_receive02 P dec k ea = Some (((0x84, 0x82, st2_security_level s, 0), cryptogram_ref02 P k (card_part02 iu) hc, []), k')
    \<and> synced02 P dec (st2_session s) st' k' \<and> s2_authed k' \<and> s2_level k' = st2_security_level s"
proof -
  have c: "parse_iu_response02 bs = Inr iu" "kvn = 0 \<or> iu2_kvn iu = kvn" "read_tdes_key st he = Inr enc"
    "read_tdes_key st hm = Inr mac" "read_tdes_key st hx = Inr dek" "genuine02 P enc mac dek hc iu"
    using o by (auto simp: openable02_def)
  obtain lev where lev: "cap_security_level02 i_par lvl = Inr lev" using o by (auto simp: openable02_def is_ok_iff)
  obtain i ss where al: "alloc_slot k (bs_scp02_sessions st) = Some (i, ss)"
    using o free_slot02 [OF assms(3)] unfolding openable02_def by blast
  let ?st1 = "st\<lparr>bs_scp02_sessions := ss\<rparr>" let ?h = "of_nat i :: u16" let ?hcg = "cryptogram_ref02 P k (card_part02 iu) hc"
  note d = derived_slot02 [OF assms(1,3) c(3-5) al [unfolded k_def], folded k_def]
  note ok = get_session02_ok [OF d(2,1)]
  have hl: "length ?hcg = 8"
    using cryptogram02_eq(2) [OF assms(1) d(1) ok] parse_iu02_lengths [OF c(1)] assms(4) by simp
  then have hl16: "length ?hcg \<le> 16" by simp
  note ep = ea_sent_parts [OF hl16, of lev]
  have na: "\<not> s2_authed k" by (simp add: k_def derived02_def)
  obtain w k' where w: "wrap02 P k (ea_sent lev ?hcg) = Inr (w, k')" "s2_authed k'" "s2_level k' = lev"
    using ea_wraps02 [OF assms(1) ok na hl, of lev] by blast
  let ?st2 = "?st1\<lparr>bs_scp02_sessions := set_slot (unat ?h) k' (bs_scp02_sessions ?st1)\<rparr>"
  have wrap: "scp02_wrap_command P ?h (ea_sent lev ?hcg) ?st1 = (Inr w, ?st2)"
    using d(1) w(1) ep(7) by (simp add: scp02_wrap_Inr)
  have sync: "synced02 P dec ?h ?st1 k" using assms(1,2) d by (simp add: synced02_def)
  have rec: "card_receive02 P dec k w = Some (sm_view [] (ea_sent lev ?hcg), k')"
    by (rule card_receive02_wrap [OF assms(1,2) ok ep(7) w(1)])
  moreover have "synced02 P dec ?h ?st2 k'" using ch02.send_received [OF sync wrap] rec by simp
  moreover have "sm_view [] (ea_sent lev ?hcg) = ((0x84, 0x82, lev, 0), ?hcg, [])" using ep by (simp add: sm_view_def)
  moreover have "begin02 (rustcrypto P fill) he hm hx i_par kvn lvl hc bs st =
      (Inr (\<lparr>st2_session = ?h, st2_i_param = i_par, st2_security_level = lev, st2_kvn = iu2_kvn iu\<rparr>, w), ?st2)"
    using begin02_run [OF assms(1,3,4) c(1-5) al [unfolded k_def], of fill i_par lvl] c(6) lev wrap by (simp add: k_def)
  ultimately show ?thesis using lev d(3) w(2,3) by auto
qed

lemma begin02_openable:
  assumes "prims_ok P" "state_ok st" "length hc = 8" "begin02 (rustcrypto P fill) he hm hx i_par kvn lvl hc bs st = (Inr r, st')"
  shows "\<exists>iu enc mac dek. openable02 P st he hm hx i_par kvn lvl hc bs iu enc mac dek"
proof -
  obtain iu h st1 where iu: "parse_iu_response02 bs = Inr iu" "kvn = 0 \<or> iu2_kvn iu = kvn"
    "scp02_derive_session P he hm hx (iu2_seq_counter iu) st = (Inr h, st1)"
    using begin02_derives [OF assms(4)] by blast
  obtain enc mac dek i ss where k: "read_tdes_key st he = Inr enc" "read_tdes_key st hm = Inr mac" "read_tdes_key st hx = Inr dek"
    "alloc_slot (derived02 P enc mac dek (iu2_seq_counter iu)) (bs_scp02_sessions st) = Some (i, ss)"
    using iu(3) unfolding scp02_derive_Inr [OF assms(1,2)] by blast
  have "genuine02 P enc mac dek hc iu" "is_ok (cap_security_level02 i_par lvl)"
    using assms(4) unfolding begin02_run [OF assms(1-3) iu(1,2) k] by (auto split: if_splits sum.splits)
  then show ?thesis using iu(1,2) k free_slot02 [OF assms(2)] unfolding openable02_def by blast
qed

text \<open>C4: exactly the honest SCP02 cards are opened, and opening leaves both ends in step. With a
  well-formed backend state, \<open>begin02\<close> fails when the conditions are not met: the card's answer
  parses with the pinned key version, the handles name double-length keys, the cryptogram proves
  that the card holds them, a security level is left after capping and a slot is free. Otherwise
  it succeeds: the handle names a slot that was free, and the card, deriving the same session,
  accepts the EXTERNAL AUTHENTICATE with the level and the host cryptogram; both ends are
  authenticated at that level and agree.\<close>

theorem scp02_handshake:
  assumes "prims_ok P" "tdes_inverse P dec" "state_ok st" "length hc = 8"
  shows "case begin02 (rustcrypto P fill) he hm hx i_par kvn lvl hc bs st of
      (Inl e, st') \<Rightarrow> (\<nexists>iu enc mac dek. openable02 P st he hm hx i_par kvn lvl hc bs iu enc mac dek)
    | (Inr (s, ea), st') \<Rightarrow> (\<exists>iu enc mac dek k k'. openable02 P st he hm hx i_par kvn lvl hc bs iu enc mac dek
        \<and> cap_security_level02 i_par lvl = Inr (st2_security_level s)
        \<and> get_slot (bs_scp02_sessions st) (unat (st2_session s)) = None
        \<and> k = derived02 P enc mac dek (iu2_seq_counter iu)
        \<and> card_receive02 P dec k ea = Some (((0x84, 0x82, st2_security_level s, 0),
            cryptogram_ref02 P k (card_part02 iu) hc, []), k')
        \<and> synced02 P dec (st2_session s) st' k' \<and> s2_authed k' \<and> s2_level k' = st2_security_level s)"
proof (cases "\<exists>iu enc mac dek. openable02 P st he hm hx i_par kvn lvl hc bs iu enc mac dek")
  case True
  then obtain iu enc mac dek where o: "openable02 P st he hm hx i_par kvn lvl hc bs iu enc mac dek" by blast
  obtain s ea st' k' where run: "begin02 (rustcrypto P fill) he hm hx i_par kvn lvl hc bs st = (Inr (s, ea), st')"
    and post: "cap_security_level02 i_par lvl = Inr (st2_security_level s)"
      "get_slot (bs_scp02_sessions st) (unat (st2_session s)) = None"
      "card_receive02 P dec (derived02 P enc mac dek (iu2_seq_counter iu)) ea = Some (((0x84, 0x82, st2_security_level s, 0),
        cryptogram_ref02 P (derived02 P enc mac dek (iu2_seq_counter iu)) (card_part02 iu) hc, []), k')"
      "synced02 P dec (st2_session s) st' k'" "s2_authed k'" "s2_level k' = st2_security_level s"
    using openable02_runs [OF assms o, of fill] by blast
  show ?thesis unfolding run prod.case sum.case using o post by blast
next
  case False
  obtain r st' where run: "begin02 (rustcrypto P fill) he hm hx i_par kvn lvl hc bs st = (r, st')" by (meson surj_pair)
  show ?thesis
  proof (cases r)
    case (Inl e)
    then show ?thesis using False run by simp
  next
    case (Inr x)
    then show ?thesis using begin02_openable [OF assms(1,3,4)] run False by blast
  qed
qed

text \<open>A concrete handshake: double-length keys in slots 0 to 2.\<close>

definition demo_keys02 :: "unit backend_state" where
  "demo_keys02 = (backend_new ())\<lparr>bs_keys := map (\<lambda>n. Some \<lparr>ksl_kind = TripleDesDouble, ksl_key = replicate 16 n\<rparr>) [7, 9, 11]
     @ replicate 13 None\<rparr>"

definition demo_slot_derived :: scp02_session_slot where
  "demo_slot_derived = derived02 toy_prims (replicate 16 7) (replicate 16 9) (replicate 16 11) [0, 5]"

definition demo_iu02 :: bytes where
  "demo_iu02 = replicate 10 0 @ [0x20, 0x02] @ [0, 5] @ replicate 6 0x22
     @ cryptogram_ref02 toy_prims demo_slot_derived (replicate 8 0x11) ([0, 5] @ replicate 6 0x22)"

lemma demo_keys02_ok: "state_ok demo_keys02"
  by (auto simp: demo_keys02_def state_ok_def backend_new_def get_slot_eq limit_simps key_ok_def nth_Cons' split: if_splits)

lemma scp02_handshake_witness:
  "case begin02 (rustcrypto toy_prims demo_fill) 0 1 2 0x55 0 0x13 (replicate 8 0x11) demo_iu02 demo_keys02 of
     (Inr (s, ea), st') \<Rightarrow> st2_security_level s = 0x13 \<and> state_ok st'
   | _ \<Rightarrow> False"
proof -
  let ?r = "begin02 (rustcrypto toy_prims demo_fill) 0 1 2 0x55 0 0x13 (replicate 8 0x11) demo_iu02 demo_keys02"
  have "is_ok (fst ?r)" by code_simp
  then obtain s ea st' where r: "?r = (Inr (s, ea), st')" by (metis is_ok_iff prod.collapse)
  have len: "length (replicate 8 (0x11 :: u8)) = 8" by simp
  have cap: "cap_security_level02 0x55 0x13 = Inr (0x13 :: u8)" by code_simp
  from scp02_handshake [OF toy_prims_ok demo_state02_ok(3) demo_keys02_ok len,
      where fill = demo_fill and he = 0 and hm = 1 and hx = 2 and i_par = "0x55" and kvn = 0 and lvl = "0x13"
        and bs = demo_iu02]
  have "st2_security_level s = 0x13 \<and> state_ok st'"
    unfolding r prod.case sum.case cap by (auto simp: synced02_def)
  then show ?thesis unfolding r by simp
qed

end
