(* ===== verification/Scll_Fuzz.thy ===== *)
theory Scll_Fuzz
  imports Scll_Handshake Scll_Handshake02 Scll_Load
begin

text \<open>
  The fuzz targets of \<open>fuzz/fuzz_targets\<close> that drive the software backend, as programs over its
  state: an assertion or \<open>unwrap\<close> that fails is a panic, an early \<open>return\<close> gives the input up. What
  the fuzzer samples is proved here for every input, together with which inputs reach the
  assertions at all.
\<close>

datatype fuzz_stop = Returned | Panicked

type_synonym ('r, 'a) fuzz = "('r backend_state, fuzz_stop, 'a) prog"

definition unwrapF :: "('s, 'e, 'a) prog \<Rightarrow> ('s, fuzz_stop, 'a) prog" where
  "unwrapF = map_errP (\<lambda>_. Panicked)"

definition or_return :: "('s, 'e, 'a) prog \<Rightarrow> ('s, fuzz_stop, 'a) prog" where
  "or_return = map_errP (\<lambda>_. Returned)"

definition assertF :: "bool \<Rightarrow> ('s, fuzz_stop, unit) prog" where
  "assertF b = (if b then ret () else throw Panicked)"

text \<open>The result of a call as a value, for a \<open>match\<close> on several of them.\<close>

definition attempt :: "('s, 'e, 'a) prog \<Rightarrow> ('s, fuzz_stop, 'e + 'a) prog" where
  "attempt m = (\<lambda>s. case m s of (r, s') \<Rightarrow> (Inr r, s'))"

text \<open>\<open>if let Ok(x) = m\<close>: the body runs when \<open>m\<close> succeeds.\<close>

definition if_ok :: "('s, 'e, 'a) prog \<Rightarrow> ('a \<Rightarrow> ('s, fuzz_stop, unit) prog) \<Rightarrow> ('s, fuzz_stop, unit) prog" where
  "if_ok m f = (\<lambda>s. case m s of (Inl e, s') \<Rightarrow> (Inr (), s') | (Inr x, s') \<Rightarrow> f x s')"

definition FUZZ_KEY :: bytes where
  "FUZZ_KEY = [0x40, 0x41, 0x42, 0x43, 0x44, 0x45, 0x46, 0x47, 0x48, 0x49, 0x4A, 0x4B, 0x4C, 0x4D, 0x4E, 0x4F]"
definition FUZZ_HOST :: bytes where "FUZZ_HOST = [0, 1, 2, 3, 4, 5, 6, 7]"
definition FUZZ_CARD :: bytes where "FUZZ_CARD = [8, 9, 10, 11, 12, 13, 14, 15]"

section \<open>\<open>rapdu_unwrap.rs\<close>\<close>

text \<open>A fresh session, authenticated at the full level, gets the fuzzer's octets as an answer.\<close>

definition is_err :: "('s, 'e, 'a) prog \<Rightarrow> ('s, fuzz_stop, bool) prog" where
  "is_err m = (\<lambda>s. case m s of (r, s') \<Rightarrow> (Inr (\<not> is_ok r), s'))"

definition rapdu_unwrap :: "prims \<Rightarrow> bytes \<Rightarrow> ('r, unit) fuzz" where
  "rapdu_unwrap P data =
     bindP (unwrapF (import_key KindAes128 FUZZ_KEY)) (\<lambda>enc.
     bindP (unwrapF (import_key KindAes128 FUZZ_KEY)) (\<lambda>mac.
     bindP (unwrapF (scp03_derive_session P enc mac S8 FUZZ_HOST FUZZ_CARD)) (\<lambda>session.
     bindP (unwrapF (scp03_host_cryptogram P session FUZZ_HOST FUZZ_CARD)) (\<lambda>host_crypto.
     let ea = [0x84, 0x82, 0x33, 0x00, 0x08] @ host_crypto in
     bindP (unwrapF (scp03_wrap_command P session ea)) (\<lambda>_.
     bindP (is_err (scp03_unwrap_response P session data)) (\<lambda>failed.
     if failed then
       bindP (is_err (scp03_wrap_command P session [0x80, 0xCA, 0x00, 0x66])) (\<lambda>probe_failed.
       assertF probe_failed)
     else ret ()))))))"

section \<open>\<open>scp_wrap_roundtrip.rs\<close>\<close>

record fuzz_wrap_input =
  fw_scp02 :: bool
  fw_s16 :: bool
  fw_level_sel :: u8
  fw_host :: bytes
  fw_card :: bytes
  fw_seq :: bytes
  fw_body :: bytes

text \<open>The arrays of the input have fixed sizes.\<close>

definition fuzz_wrap_wf :: "fuzz_wrap_input \<Rightarrow> bool" where
  "fuzz_wrap_wf i = (length (fw_host i) = 8 \<and> length (fw_card i) = 8 \<and> length (fw_seq i) = 2)"

definition fuzz_levels :: "u8 list" where
  "fuzz_levels = [0x00, 0x01, 0x03, 0x13, 0x33]"

definition wrap_roundtrip :: "prims \<Rightarrow> fuzz_wrap_input \<Rightarrow> ('r, unit) fuzz" where
  "wrap_roundtrip P input =
    (let body = take 200 (fw_body input); capdu = [0x80, 0xCA, 0x00, 0x66] @ body in
     if fw_scp02 input then
       bindP (unwrapF (import_key TripleDesDouble FUZZ_KEY)) (\<lambda>enc.
       bindP (unwrapF (import_key TripleDesDouble FUZZ_KEY)) (\<lambda>mac.
       bindP (unwrapF (import_key TripleDesDouble FUZZ_KEY)) (\<lambda>dek.
       bindP (or_return (scp02_derive_session P enc mac dek (fw_seq input))) (\<lambda>sess.
       bindP (or_return (scp02_wrap_command P sess capdu)) (\<lambda>wrapped.
       assertF (length wrapped \<ge> length capdu))))))
     else
       (let mode = (if fw_s16 input then S16 else S8) in
       bindP (unwrapF (import_key KindAes128 FUZZ_KEY)) (\<lambda>enc.
       bindP (unwrapF (import_key KindAes128 FUZZ_KEY)) (\<lambda>mac.
       bindP (or_return (scp03_derive_session P enc mac mode (fw_host input) (fw_card input))) (\<lambda>sess.
       let level = fuzz_levels ! (unat (fw_level_sel input) mod length fuzz_levels) in
       bindP (or_return (scp03_host_cryptogram P sess (fw_host input) (fw_card input))) (\<lambda>host_crypto.
       let ea = [0x84, 0x82, level, 0x00, of_nat (length host_crypto)] @ host_crypto in
       bindP (or_return (scp03_wrap_command P sess ea)) (\<lambda>_.
       bindP (or_return (scp03_wrap_command P sess capdu)) (\<lambda>wrapped.
       assertF (length wrapped \<ge> length capdu)))))))))"

section \<open>\<open>scp03_kdf_props.rs\<close>\<close>

record fuzz_kdf_input =
  fk_kind_sel :: u8
  fk_s16 :: bool
  fk_host :: bytes
  fk_card :: bytes
  fk_key_material :: bytes

definition fuzz_kdf_wf :: "fuzz_kdf_input \<Rightarrow> bool" where
  "fuzz_kdf_wf i = (length (fk_host i) = 8 \<and> length (fk_card i) = 8)"

definition kdf_props :: "prims \<Rightarrow> fuzz_kdf_input \<Rightarrow> ('r, unit) fuzz" where
  "kdf_props P input =
    (let sel = unat (fk_kind_sel input) mod 3;
         (kind, klen) = (if sel = 0 then (KindAes128, 16) else if sel = 1 then (KindAes192, 24) else (KindAes256, 32)) in
     if length (fk_key_material input) < klen then throw Returned
     else
       let key = take klen (fk_key_material input); mode = (if fk_s16 input then S16 else S8);
           expect_len = (if fk_s16 input then 16 else 8); host = fk_host input; card = fk_card input in
       bindP (or_return (import_key kind key)) (\<lambda>enc.
       bindP (or_return (import_key kind key)) (\<lambda>mac.
       bindP (attempt (scp03_derive_session P enc mac mode host card)) (\<lambda>d1.
       bindP (attempt (scp03_derive_session P enc mac mode host card)) (\<lambda>d2.
       bindP (or_return (liftR (rbind d1 (\<lambda>s1. rbind d2 (\<lambda>s2. Inr (s1, s2)))))) (\<lambda>(s1, s2).
       bindP (attempt (scp03_host_cryptogram P s1 host card)) (\<lambda>h1.
       bindP (attempt (scp03_host_cryptogram P s2 host card)) (\<lambda>h2.
       bindP (attempt (scp03_card_cryptogram P s1 host card)) (\<lambda>c1.
       bindP (or_return (liftR (rbind h1 (\<lambda>a. rbind h2 (\<lambda>b. rbind c1 (\<lambda>c. Inr (a, b, c))))))) (\<lambda>(host1, host2, card1).
       thenP (assertF (host1 = host2))
       (thenP (assertF (length host1 = expect_len))
       (thenP (assertF (length card1 = expect_len))
       (thenP (assertF (host1 \<noteq> card1))
       (let host_alt = host[0 := host ! 0 XOR 0x01] in
        if_ok (scp03_derive_session P enc mac mode host_alt card) (\<lambda>s3.
        if_ok (scp03_host_cryptogram P s3 host_alt card) (\<lambda>host3.
        assertF (host1 \<noteq> host3)))))))))))))))))"

section \<open>What the targets establish\<close>

definition keyed :: "key_kind \<Rightarrow> bytes \<Rightarrow> nat \<Rightarrow> 'r \<Rightarrow> 'r backend_state" where
  "keyed kind k n rng = (backend_new rng)\<lparr>bs_keys := replicate n (Some \<lparr>ksl_kind = kind, ksl_key = k\<rparr>) @ replicate (16 - n) None\<rparr>"

lemma first_free_replicate: "first_free (replicate n (Some x) @ replicate (Suc m) None) = Some n"
  by (induction n) simp_all

lemma import_keyed:
  assumes "length k = clear_len kind" "n < 16"
  shows "import_key kind k (keyed kind k n rng) = (Inr (of_nat n), keyed kind k (Suc n) rng)"
proof -
  let ?y = "Some \<lparr>ksl_kind = kind, ksl_key = k\<rparr>"
  have ff: "first_free (replicate n ?y @ replicate (16 - n) None) = Some n"
    using first_free_replicate [of n _ "15 - n"] assms(2) by (simp add: Suc_diff_le [symmetric] del: replicate_Suc)
  have upd: "(replicate n ?y @ replicate (16 - n) None)[n := ?y] = replicate (Suc n) ?y @ replicate (16 - Suc n) None"
    using assms(2) by (intro nth_equalityI) (auto simp: nth_append nth_list_update simp del: replicate_Suc)
  have "key_len kind = Some (length k)" using assms(1) by (cases kind) (simp_all add: key_len_def)
  then show ?thesis by (simp add: import_key_def store_key_def keyed_def alloc_slot_def ff upd del: replicate_Suc)
qed

lemma keyed_0: "keyed kind k 0 rng = backend_new rng"
  by (simp add: keyed_def backend_new_def limit_simps)

lemma keyed_ok:
  assumes "length k = clear_len kind" "n \<le> 16"
  shows "state_ok (keyed kind k n rng)"
    and "kind \<noteq> TripleDesDouble \<Longrightarrow> i < n \<Longrightarrow> read_aes_key (keyed kind k n rng) (of_nat i) = Inr k"
proof -
  show "state_ok (keyed kind k n rng)"
    using assms by (auto simp: state_ok_def keyed_def backend_new_def limit_simps get_slot_eq nth_append key_ok_def split: if_splits)
  assume k: "kind \<noteq> TripleDesDouble" and i: "i < n"
  then have "unat (of_nat i :: u16) = i" using assms(2) by (simp add: unat_of_nat)
  then show "read_aes_key (keyed kind k n rng) (of_nat i) = Inr k"
    using k i assms by (simp add: read_aes_key_def keyed_def get_slot_eq nth_append ok_or_def)
qed


lemma run_steps [prog_simps]:
  "m st = (Inr x, st') \<Longrightarrow> bindP (unwrapF m) f st = f x st'"
  "m st = (Inr x, st') \<Longrightarrow> bindP (or_return m) f st = f x st'"
  "m st = (Inl e, st') \<Longrightarrow> bindP (or_return m) f st = (Inl Returned, st')"
  "m st = (r, st') \<Longrightarrow> bindP (attempt m) g st = g r st'"
  by (simp_all add: unwrapF_def or_return_def attempt_def bindP_def)

lemma run_lifted [prog_simps]:
  "bindP (or_return (liftR (Inr x))) f = f x"
  "bindP (or_return (liftR (Inl e))) f = throw Returned"
  by (auto simp: or_return_def bindP_def fun_eq_iff)

lemma import_two:
  assumes "length k = clear_len kind"
  shows "bindP (unwrapF (import_key kind k)) (\<lambda>h0. bindP (unwrapF (import_key kind k)) (f h0)) (backend_new rng)
      = f 0 1 (keyed kind k 2 rng)"
    and "bindP (or_return (import_key kind k)) (\<lambda>h0. bindP (or_return (import_key kind k)) (f h0)) (backend_new rng)
      = f 0 1 (keyed kind k 2 rng)"
  using import_keyed [OF assms, of 0 rng] import_keyed [OF assms, of 1 rng]
  by (simp_all add: keyed_0 run_steps numeral_2_eq_2)

text \<open>A session derived on the keyed state: it is in slot 0, not authenticated.\<close>

definition with_session :: "'r backend_state \<Rightarrow> scp03_session_slot list \<Rightarrow> 'r backend_state" where
  "with_session st ss = st\<lparr>bs_sessions := map Some ss @ replicate (16 - length ss) None\<rparr>"

lemma derive_keyed:
  fixes rng :: 'r
  assumes "prims_ok P" "length k = clear_len kind" "kind \<noteq> TripleDesDouble" "length hc = 8" "length cc = 8"
  defines "st \<equiv> keyed kind k 2 rng"
  shows "scp03_derive_session P 0 1 S8 hc cc st = (Inr 0, with_session st [derived03 P k k S8 (hc @ cc)])"
    and "scp03_derive_session P 0 1 S16 hc cc st = (Inl (crypto_err ''challenge length does not match mode''), st)"
    and "slot3_ok (derived03 P k k m (hc @ cc))"
proof -
  have ok: "state_ok st" unfolding st_def by (rule keyed_ok(1) [OF assms(2)]) simp
  have r: "read_aes_key st 0 = Inr k" "read_aes_key st 1 = Inr k"
    using keyed_ok(2) [OF assms(2), of 2 0 rng] keyed_ok(2) [OF assms(2), of 2 1 rng] assms(3) by (simp_all add: st_def)
  have al: "alloc_slot x (bs_sessions st) = Some (0, Some x # replicate 15 None)" for x
    by (simp add: st_def keyed_def backend_new_def limit_simps alloc_slot_def eval_nat_numeral)
  show "scp03_derive_session P 0 1 S8 hc cc st = (Inr 0, with_session st [derived03 P k k S8 (hc @ cc)])"
    using scp03_derive_eq [OF assms(1) ok r refl, of hc S8 cc] assms(4,5) by (simp add: al with_session_def field_len.simps)
  show "scp03_derive_session P 0 1 S16 hc cc st = (Inl (crypto_err ''challenge length does not match mode''), st)"
    using assms(4) by (simp add: scp03_derive_session_def field_len.simps)
  show "slot3_ok (derived03 P k k m (hc @ cc))" using derived03_ok [OF assms(1)] read_aes_key_ok [OF ok r(1)] by simp
qed

lemma with_session_get [simp]:
  "get_slot (bs_sessions (with_session st (s # ss))) 0 = Some s"
  by (simp add: with_session_def get_slot_eq)

lemma with_session_set [simp]:
  "with_session st (s # ss)\<lparr>bs_sessions := set_slot 0 s' (bs_sessions (with_session st (s # ss)))\<rparr> = with_session st (s' # ss)"
  by (simp add: with_session_def set_slot_def get_slot_eq)

text \<open>The first wrap carries EXTERNAL AUTHENTICATE and leaves the session authenticated.\<close>

lemma wrap_ea:
  assumes "prims_ok P" "slot3_ok s" "\<not> s3_authed s" "s3_mode s = S8" "length hcg = 8"
  shows "\<exists>w s'. scp03_wrap_command P 0 (ea_sent lvl hcg) (with_session st [s]) = (Inr w, with_session st [s'])
    \<and> s3_authed s' \<and> slot3_ok s' \<and> s3_mode s' = S8"
proof -
  note ea = ea_sent_parts [of hcg lvl]
  have body: "body03 P s hcg = hcg" using assms(3) by (simp add: body03_def)
  define w where "w = wrap03 P s (ea_sent lvl hcg)"
  have "\<exists>x s'. w = Inr (x, s') \<and> s' = sent03 s (tag03 P s (head03 (ea_sent lvl hcg) 16) hcg) lvl"
    using assms(3-5) ea unfolding w_def
    by (subst wrap03_eq [OF assms(1,2)]) (simp_all add: body mac_len_def field_len.simps EXTERNAL_AUTHENTICATE_def)
  then obtain x s' where x: "w = Inr (x, s')" "s' = sent03 s (tag03 P s (head03 (ea_sent lvl hcg) 16) hcg) lvl" by blast
  have "slot3_ok s'" using wrap03_success(8) [OF assms(1,2), of "ea_sent lvl hcg" x s'] x(1) ea assms(5) by (simp add: w_def)
  moreover have "s3_authed s'" "s3_mode s' = S8" using x(2) assms(4) by (simp_all add: sent03_def)
  moreover have "scp03_wrap_command P 0 (ea_sent lvl hcg) (with_session st [s]) = (Inr x, with_session st [s'])"
    using x(1) ea assms(5) by (simp add: scp03_wrap_Inr w_def)
  ultimately show ?thesis by blast
qed


lemma wrap_grows:
  assumes "prims_ok P" "slot3_ok s" "wrap03 P s c = Inr (w, s')" "4 \<le> length c"
  shows "length c \<le> length w"
proof -
  note ws = wrap03_success [OF assms(1,2,3,4)]
  have "length (apdu_data c) \<le> length (body03 P s (apdu_data c))" 
    using body03_length [OF assms(1,2), of "apdu_data c"] by (metis le_add1 order_refl)
  moreover have "length c \<le> 5 + length (apdu_data c) + length (capdu_le c)"
    using ws(1) by (auto simp: apdu_framed_def apdu_data_def capdu_le_def Let_def)
  ultimately show ?thesis unfolding ws(5) by (simp add: head03_def)
qed

text \<open>A handle without a session wraps nothing.\<close>

lemma wrap_dead: "get_slot (bs_sessions st) (unat h) = None \<Longrightarrow> \<exists>e. scp03_wrap_command P h c st = (Inl e, st)"
  by (auto simp: scp03_wrap_command_def session_snapshot_def ok_or_def)

lemma rapdu_unwrap_passes:
  assumes "prims_ok P"
  shows "fst (rapdu_unwrap P data (backend_new rng)) = Inr ()"
proof -
  let ?st = "keyed KindAes128 FUZZ_KEY 2 rng" and ?s = "derived03 P FUZZ_KEY FUZZ_KEY S8 (FUZZ_HOST @ FUZZ_CARD)"
  have len: "length FUZZ_KEY = clear_len KindAes128" "length FUZZ_HOST = 8" "length FUZZ_CARD = 8"
    by (simp_all add: FUZZ_KEY_def FUZZ_HOST_def FUZZ_CARD_def)
  have ne: "KindAes128 \<noteq> TripleDesDouble" by simp
  note d = derive_keyed [OF assms len(1) ne len(2,3)]
  have s: "slot3_ok ?s" "\<not> s3_authed ?s" "s3_mode ?s = S8" using d(3) by (simp_all add: derived03_def Let_def)
  obtain hcg where hcg: "scp03_host_cryptogram P 0 FUZZ_HOST FUZZ_CARD (with_session ?st [?s]) = (Inr hcg, with_session ?st [?s])"
      "length hcg = 8"
    using cryptogram03_eq [OF assms, of "with_session ?st [?s]" 0 ?s FUZZ_HOST FUZZ_CARD DC_HOST_CRYPTO] s len
    by (simp add: scp03_host_cryptogram_def)
  obtain w s' where w: "scp03_wrap_command P 0 (ea_sent 0x33 hcg) (with_session ?st [?s]) = (Inr w, with_session ?st [s'])"
    using wrap_ea [OF assms s hcg(2)] by blast
  have ea: "0x84 # 0x82 # 0x33 # 0x00 # 0x08 # hcg = ea_sent 0x33 hcg" by (simp add: ea_sent_def hcg(2))
  have run: "rapdu_unwrap P data (backend_new rng) =
      bindP (is_err (scp03_unwrap_response P 0 data)) (\<lambda>failed.
        if failed then bindP (is_err (scp03_wrap_command P 0 [0x80, 0xCA, 0x00, 0x66])) assertF else ret ()) (with_session ?st [s'])"
    by (simp add: rapdu_unwrap_def import_two(1) [OF len(1)] run_steps(1) d(1) hcg(1) ea w)
  obtain r st' where u: "scp03_unwrap_response P 0 data (with_session ?st [s']) = (r, st')" by (meson surj_pair)
  show ?thesis
  proof (cases r)
    case (Inl e)
    then have "st' = scp03_close_session 0 (with_session ?st [s'])"
      using u by (auto simp: scp03_unwrap_eq split: sum.splits)
    then have "get_slot (bs_sessions st') (unat 0) = None" by (simp add: scp03_close_session_def free_get)
    then obtain e' where "scp03_wrap_command P 0 [0x80, 0xCA, 0x00, 0x66] st' = (Inl e', st')" using wrap_dead by blast
    with Inl show ?thesis
      unfolding run by (simp add: bindP_def is_err_def u is_ok_def assertF_def)
  qed (simp add: run bindP_def is_err_def u is_ok_def)
qed

text \<open>The SCP02 branch gives up on every input: the first wrap of an SCP02 session has to be EXTERNAL
  AUTHENTICATE, and the command built has another instruction. The S16 branch gives up on every
  input: the challenges have 8 octets.\<close>

lemma unauthenticated_wrap02:
  "\<not> s2_authed s \<Longrightarrow> c ! 1 \<noteq> EXTERNAL_AUTHENTICATE2 \<Longrightarrow> \<exists>e. wrap02 P s c = Inl e"
  by (cases "data02 c") (simp_all add: wrap02_def Let_def)

lemma wrap_roundtrip_scp02:
  assumes "prims_ok P" "fw_scp02 input"
  shows "fst (wrap_roundtrip P input (backend_new rng)) = Inl Returned"
proof -
  let ?c = "[0x80, 0xCA, 0x00, 0x66] @ take 200 (fw_body input)"
  have len: "length FUZZ_KEY = clear_len TripleDesDouble" by (simp add: FUZZ_KEY_def)
  note i = import_keyed [OF len, of 0 rng] import_keyed [OF len, of 1 rng] import_keyed [OF len, of 2 rng]
  let ?st = "keyed TripleDesDouble FUZZ_KEY 3 rng"
  have ok: "state_ok ?st" by (rule keyed_ok(1) [OF len]) simp
  have run: "wrap_roundtrip P input (backend_new rng) =
      bindP (or_return (scp02_derive_session P 0 1 2 (fw_seq input))) (\<lambda>sess.
       bindP (or_return (scp02_wrap_command P sess ?c)) (\<lambda>wrapped. assertF (length wrapped \<ge> length ?c))) ?st"
    using i assms(2) by (simp add: wrap_roundtrip_def keyed_0 run_steps Let_def eval_nat_numeral)
  obtain r st' where d: "scp02_derive_session P 0 1 2 (fw_seq input) ?st = (r, st')" by (meson surj_pair)
  show ?thesis
  proof (cases r)
    case (Inl e)
    then show ?thesis unfolding run using d by (simp add: run_steps)
  next
    case (Inr h)
    then obtain enc mac dek i ss where s: "read_tdes_key ?st 0 = Inr enc" "read_tdes_key ?st 1 = Inr mac" "read_tdes_key ?st 2 = Inr dek"
        "alloc_slot (derived02 P enc mac dek (fw_seq input)) (bs_scp02_sessions ?st) = Some (i, ss)"
        "h = of_nat i" "st' = ?st\<lparr>bs_scp02_sessions := ss\<rparr>"
      using d scp02_derive_Inr [OF assms(1) ok] by blast
    have g: "get_slot (bs_scp02_sessions st') (unat h) = Some (derived02 P enc mac dek (fw_seq input))"
      using derived_slot02(1) [OF assms(1) ok s(1-4)] s(5,6) by simp
    obtain e where "wrap02 P (derived02 P enc mac dek (fw_seq input)) ?c = Inl e"
      using unauthenticated_wrap02 [of "derived02 P enc mac dek (fw_seq input)" ?c P]
      by (auto simp: derived02_def EXTERNAL_AUTHENTICATE2_def)
    then have "scp02_wrap_command P h ?c st' = (Inl e, st')"
      by (simp add: scp02_wrap_command_def scp02_snapshot_def g ok_or_def)
    then show ?thesis unfolding run using d Inr by (simp add: run_steps)
  qed
qed


lemma wrap_roundtrip_scp03:
  assumes "prims_ok P" "fuzz_wrap_wf input" "\<not> fw_scp02 input"
  shows "fst (wrap_roundtrip P input (backend_new rng)) \<noteq> Inl Panicked"
    and "fw_s16 input \<Longrightarrow> fst (wrap_roundtrip P input (backend_new rng)) = Inl Returned"
proof -
  let ?st = "keyed KindAes128 FUZZ_KEY 2 rng" and ?h = "fw_host input" and ?c = "fw_card input"
  let ?s = "derived03 P FUZZ_KEY FUZZ_KEY S8 (?h @ ?c)" and ?cmd = "[0x80, 0xCA, 0x00, 0x66] @ take 200 (fw_body input)"
  have len: "length FUZZ_KEY = clear_len KindAes128" "length ?h = 8" "length ?c = 8"
    using assms(2) by (simp_all add: FUZZ_KEY_def fuzz_wrap_wf_def)
  have ne: "KindAes128 \<noteq> TripleDesDouble" by simp
  note d = derive_keyed [OF assms(1) len(1) ne len(2,3)]
  show s16: "fst (wrap_roundtrip P input (backend_new rng)) = Inl Returned" if "fw_s16 input"
    using that assms(3) by (simp add: wrap_roundtrip_def import_two(1) [OF len(1)] run_steps(3) d(2) Let_def)
  have s: "slot3_ok ?s" "\<not> s3_authed ?s" "s3_mode ?s = S8" using d(3) by (simp_all add: derived03_def Let_def)
  obtain hcg where hcg: "scp03_host_cryptogram P 0 ?h ?c (with_session ?st [?s]) = (Inr hcg, with_session ?st [?s])"
      "length hcg = 8"
    using cryptogram03_eq [OF assms(1), of "with_session ?st [?s]" 0 ?s ?h ?c DC_HOST_CRYPTO] s len
    by (simp add: scp03_host_cryptogram_def)
  let ?lvl = "fuzz_levels ! (unat (fw_level_sel input) mod length fuzz_levels)"
  obtain w s' where w: "scp03_wrap_command P 0 (ea_sent ?lvl hcg) (with_session ?st [?s]) = (Inr w, with_session ?st [s'])" "slot3_ok s'"
    using wrap_ea [OF assms(1) s hcg(2)] by blast
  have ea: "0x84 # 0x82 # ?lvl # 0x00 # of_nat (length hcg) # hcg = ea_sent ?lvl hcg" by (simp add: ea_sent_def)
  show "fst (wrap_roundtrip P input (backend_new rng)) \<noteq> Inl Panicked"
  proof (cases "fw_s16 input")
    case False
    have run: "wrap_roundtrip P input (backend_new rng) =
        bindP (or_return (scp03_wrap_command P 0 ?cmd)) (\<lambda>wrapped. assertF (length wrapped \<ge> length ?cmd)) (with_session ?st [s'])"
      using assms(3) False by (simp add: wrap_roundtrip_def import_two(1) [OF len(1)] run_steps(2) d(1) hcg(1) ea w Let_def del: length_append)
    obtain r st' where u: "scp03_wrap_command P 0 ?cmd (with_session ?st [s']) = (r, st')" by (meson surj_pair)
    show ?thesis
    proof (cases r)
      case (Inl e)
      then show ?thesis unfolding run using u by (simp add: run_steps)
    next
      case (Inr x)
      then have "\<exists>s''. wrap03 P s' ?cmd = Inr (x, s'')" "4 \<le> length ?cmd" using u by (auto simp: scp03_wrap_Inr)
      then have "length ?cmd \<le> length x" using wrap_grows [OF assms(1) w(2)] by blast
      then show ?thesis unfolding run using u Inr by (simp add: run_steps assertF_def)
    qed
  qed (use s16 in simp)
qed

text \<open>Derivations after the first, and the cryptograms of any of the sessions.\<close>

lemma first_free_map: "first_free (map Some ss @ None # ys) = Some (length ss)"
  by (induction ss) simp_all

lemma with_session_nth: "i < length ss \<Longrightarrow> i < 16 \<Longrightarrow> get_slot (bs_sessions (with_session st ss)) (unat (of_nat i :: u16)) = Some (ss ! i)"
  by (simp add: with_session_def get_slot_eq nth_append unat_of_nat)

lemma derive_more:
  fixes rng :: 'r
  assumes "prims_ok P" "length k = clear_len kind" "kind \<noteq> TripleDesDouble" "length hc = 8" "length cc = 8"
    and "list_all slot3_ok ss" "length ss < 16"
  defines "st \<equiv> keyed kind k 2 rng"
  shows "scp03_derive_session P 0 1 S8 hc cc (with_session st ss) =
    (Inr (of_nat (length ss)), with_session st (ss @ [derived03 P k k S8 (hc @ cc)]))"
proof -
  have 0: "state_ok st" unfolding st_def by (rule keyed_ok(1) [OF assms(2)]) simp
  then have ok: "state_ok (with_session st ss)"
    using assms(6,7) by (auto simp: state_ok_def with_session_def get_slot_eq nth_append limit_simps list_all_length split: if_splits)
  have r: "read_aes_key (with_session st ss) 0 = Inr k" "read_aes_key (with_session st ss) 1 = Inr k"
    using keyed_ok(2) [OF assms(2), of 2 0 rng] keyed_ok(2) [OF assms(2), of 2 1 rng] assms(3)
    by (simp_all add: st_def with_session_def)
  obtain m where m: "16 - length ss = Suc m" "16 - Suc (length ss) = m" using assms(7) by (metis Suc_diff_Suc)
  have "alloc_slot x (bs_sessions (with_session st ss)) = Some (length ss, bs_sessions (with_session st (ss @ [x])))" for x
    using m by (simp add: alloc_slot_def with_session_def first_free_map list_update_append)
  then show ?thesis
    using scp03_derive_eq [OF assms(1) ok r refl, of hc S8 cc] assms(4,5) by (simp add: with_session_def)
qed

lemma cryptograms_of:
  assumes "prims_ok P" "slot3_ok (ss ! i)" "i < length ss" "i < 16" "s3_mode (ss ! i) = S8" "length hc = 8" "length cc = 8"
  shows "scp03_host_cryptogram P (of_nat i) hc cc (with_session st ss) =
      (Inr (cryptogram_ref03 P (ss ! i) DC_HOST_CRYPTO (hc @ cc)), with_session st ss)"
    and "scp03_card_cryptogram P (of_nat i) hc cc (with_session st ss) =
      (Inr (cryptogram_ref03 P (ss ! i) DC_CARD_CRYPTO (hc @ cc)), with_session st ss)"
    and "length (cryptogram_ref03 P (ss ! i) const (hc @ cc)) = 8"
  using cryptogram03_eq [OF assms(1) with_session_nth [OF assms(3,4), of st] assms(2), of hc cc] assms(5-7)
  by (simp_all add: scp03_host_cryptogram_def scp03_card_cryptogram_def)

text \<open>The key derivation target stops at the assertions on determinism and lengths for no input; the two
  that compare different cryptograms fail exactly on a collision of the derivation function.\<close>

definition kdf_key :: "fuzz_kdf_input \<Rightarrow> bytes" where
  "kdf_key i = take (if unat (fk_kind_sel i) mod 3 = 0 then 16 else if unat (fk_kind_sel i) mod 3 = 1 then 24 else 32) (fk_key_material i)"

definition kdf_cryptogram :: "prims \<Rightarrow> fuzz_kdf_input \<Rightarrow> u8 \<Rightarrow> bytes \<Rightarrow> bytes" where
  "kdf_cryptogram P i const host = (let ctx = host @ fk_card i in
     cryptogram_ref03 P (derived03 P (kdf_key i) (kdf_key i) S8 ctx) const ctx)"

definition kdf_collides :: "prims \<Rightarrow> fuzz_kdf_input \<Rightarrow> bool" where
  "kdf_collides P i = (kdf_cryptogram P i DC_HOST_CRYPTO (fk_host i) = kdf_cryptogram P i DC_CARD_CRYPTO (fk_host i)
     \<or> kdf_cryptogram P i DC_HOST_CRYPTO (fk_host i) = kdf_cryptogram P i DC_HOST_CRYPTO ((fk_host i)[0 := fk_host i ! 0 XOR 0x01]))"

lemma kdf_props_run:
  fixes rng :: 'r
  assumes "prims_ok P" "length k = clear_len kind" "kind \<noteq> TripleDesDouble" "length h = 8" "length c = 8"
  defines "st \<equiv> keyed kind k 2 rng" and "h' \<equiv> h[0 := h ! 0 XOR 0x01]"
    and "cg \<equiv> \<lambda>const hc. cryptogram_ref03 P (derived03 P k k S8 (hc @ c)) const (hc @ c)"
  shows "scp03_derive_session P 0 1 S8 h c st = (Inr 0, with_session st [derived03 P k k S8 (h @ c)])"
    and "scp03_derive_session P 0 1 S8 h c (with_session st [derived03 P k k S8 (h @ c)])
      = (Inr 1, with_session st [derived03 P k k S8 (h @ c), derived03 P k k S8 (h @ c)])"
    and "scp03_derive_session P 0 1 S8 h' c (with_session st [derived03 P k k S8 (h @ c), derived03 P k k S8 (h @ c)])
      = (Inr 2, with_session st [derived03 P k k S8 (h @ c), derived03 P k k S8 (h @ c), derived03 P k k S8 (h' @ c)])"
    and "scp03_host_cryptogram P 0 h c (with_session st [derived03 P k k S8 (h @ c), derived03 P k k S8 (h @ c)])
      = (Inr (cg DC_HOST_CRYPTO h), with_session st [derived03 P k k S8 (h @ c), derived03 P k k S8 (h @ c)])"
    and "scp03_host_cryptogram P 1 h c (with_session st [derived03 P k k S8 (h @ c), derived03 P k k S8 (h @ c)])
      = (Inr (cg DC_HOST_CRYPTO h), with_session st [derived03 P k k S8 (h @ c), derived03 P k k S8 (h @ c)])"
    and "scp03_card_cryptogram P 0 h c (with_session st [derived03 P k k S8 (h @ c), derived03 P k k S8 (h @ c)])
      = (Inr (cg DC_CARD_CRYPTO h), with_session st [derived03 P k k S8 (h @ c), derived03 P k k S8 (h @ c)])"
    and "scp03_host_cryptogram P 2 h' c (with_session st [derived03 P k k S8 (h @ c), derived03 P k k S8 (h @ c), derived03 P k k S8 (h' @ c)])
      = (Inr (cg DC_HOST_CRYPTO h'), with_session st [derived03 P k k S8 (h @ c), derived03 P k k S8 (h @ c), derived03 P k k S8 (h' @ c)])"
    and "length (cg const h) = 8"
proof -
  let ?s = "derived03 P k k S8 (h @ c)" and ?s' = "derived03 P k k S8 (h' @ c)"
  have h': "length h' = 8" using assms(4) by (simp add: h'_def)
  have ok: "slot3_ok ?s" "slot3_ok ?s'" "s3_mode ?s = S8" "s3_mode ?s' = S8"
    using derive_keyed(3) [OF assms(1-3) _ assms(5)] assms(4) h' by (simp_all add: derived03_def Let_def)
  note d = derive_more [OF assms(1-3) _ assms(5), where rng = rng, folded st_def]
  show "scp03_derive_session P 0 1 S8 h c st = (Inr 0, with_session st [?s])"
    using derive_keyed(1) [OF assms(1-5)] by (simp add: st_def)
  show "scp03_derive_session P 0 1 S8 h c (with_session st [?s]) = (Inr 1, with_session st [?s, ?s])"
    using d [of h "[?s]"] assms(4) ok by simp
  show "scp03_derive_session P 0 1 S8 h' c (with_session st [?s, ?s]) = (Inr 2, with_session st [?s, ?s, ?s'])"
    using d [of h' "[?s, ?s]"] h' ok by simp
  show "scp03_host_cryptogram P 0 h c (with_session st [?s, ?s]) = (Inr (cg DC_HOST_CRYPTO h), with_session st [?s, ?s])"
    "scp03_host_cryptogram P 1 h c (with_session st [?s, ?s]) = (Inr (cg DC_HOST_CRYPTO h), with_session st [?s, ?s])"
    "scp03_card_cryptogram P 0 h c (with_session st [?s, ?s]) = (Inr (cg DC_CARD_CRYPTO h), with_session st [?s, ?s])"
    "length (cg const h) = 8"
    using cryptograms_of [OF assms(1), of "[?s, ?s]" 0 h c] cryptograms_of [OF assms(1), of "[?s, ?s]" 1 h c] ok assms(4,5)
    by (simp_all add: cg_def)
  show "scp03_host_cryptogram P 2 h' c (with_session st [?s, ?s, ?s']) = (Inr (cg DC_HOST_CRYPTO h'), with_session st [?s, ?s, ?s'])"
    using cryptograms_of(1) [OF assms(1), of "[?s, ?s, ?s']" 2 h' c] ok h' assms(5) by (simp add: cg_def)
qed

lemma assert_steps:
  "thenP (assertF b) m st = (if b then m st else (Inl Panicked, st))"
  "assertF b st = (if b then (Inr (), st) else (Inl Panicked, st))"
  by (simp_all add: assertF_def thenP_def bindP_def)

lemma if_ok_step: "m st = (Inr x, st') \<Longrightarrow> if_ok m f st = f x st'"
  by (simp add: if_ok_def)

lemma kdf_props_outcome:
  assumes "prims_ok P" "fuzz_kdf_wf input"
  shows "fst (kdf_props P input (backend_new rng)) = Inl Panicked \<longrightarrow> \<not> fk_s16 input \<and> kdf_collides P input"
proof -
  let ?sel = "unat (fk_kind_sel input) mod 3" and ?h = "fk_host input" and ?c = "fk_card input" and ?k = "kdf_key input"
  let ?h' = "?h[0 := ?h ! 0 XOR 0x01]"
  define kind where "kind = (if ?sel = 0 then KindAes128 else if ?sel = 1 then KindAes192 else KindAes256)"
  have kl: "(if ?sel = 0 then (KindAes128, 16) else if ?sel = 1 then (KindAes192, 24) else (KindAes256, 32)) = (kind, clear_len kind)"
    by (simp add: kind_def)
  have k: "?k = take (clear_len kind) (fk_key_material input)" by (simp add: kdf_key_def kind_def)
  have len: "length ?h = 8" "length ?c = 8" using assms(2) by (simp_all add: fuzz_kdf_wf_def)
  have ne: "kind \<noteq> TripleDesDouble" by (simp add: kind_def)
  note start = kdf_props_def Let_def kl prod.case k [symmetric]
  show ?thesis
  proof (cases "length (fk_key_material input) < clear_len kind")
    case True
    then show ?thesis by (simp add: start)
  next
    case False
    then have lk: "length ?k = clear_len kind" by (simp add: k)
    note run = kdf_props_run [OF assms(1) lk ne len]
    show ?thesis
    proof (cases "fk_s16 input")
      case True
      then show ?thesis
        using False by (simp add: start import_two(2) [OF lk] run_steps(4) run_lifted derive_keyed(2) [OF assms(1) lk ne len])
    next
      case s8: False
      have "fst (kdf_props P input (backend_new rng)) = (if kdf_collides P input then Inl Panicked else Inr ())"
        using False s8 by (simp add: start import_two(2) [OF lk] run_steps(4) run_lifted run assert_steps if_ok_step
            kdf_collides_def kdf_cryptogram_def)
      then show ?thesis using s8 by simp
    qed
  qed
qed

text \<open>C10: what the fuzz targets assert holds for every input. On a fresh backend \<open>rapdu_unwrap\<close> reaches its
  end for every answer: nothing panics, and after a refused answer the session is dead.
  \<open>scp_wrap_roundtrip\<close> never panics, and gives every SCP02 input and every S16 input up before its
  assertion. \<open>scp03_kdf_props\<close> stops at an assertion only where the key derivation gives two
  cryptograms of different purpose or challenge the same value, and never in mode S16.\<close>

theorem fuzz_targets_hold:
  assumes "prims_ok P" "fuzz_wrap_wf input" "fuzz_kdf_wf kinput"
  shows "fst (rapdu_unwrap P data (backend_new rng)) = Inr ()
    \<and> fst (wrap_roundtrip P input (backend_new rng)) \<noteq> Inl Panicked
    \<and> (fw_scp02 input \<or> fw_s16 input \<longrightarrow> fst (wrap_roundtrip P input (backend_new rng)) = Inl Returned)
    \<and> (fst (kdf_props P kinput (backend_new rng)) = Inl Panicked \<longrightarrow> \<not> fk_s16 kinput \<and> kdf_collides P kinput)"
  using kdf_props_outcome [OF assms(1,3)]
  by (cases "fw_scp02 input")
    (simp_all add: rapdu_unwrap_passes [OF assms(1)] wrap_roundtrip_scp02 [OF assms(1)] wrap_roundtrip_scp03 [OF assms(1,2)])

text \<open>Inputs that reach the assertions: one passes, and with primitives that collide the derivation target
  does stop.\<close>

definition demo_fuzz_input :: fuzz_wrap_input where
  "demo_fuzz_input = \<lparr>fw_scp02 = False, fw_s16 = False, fw_level_sel = 3, fw_host = replicate 8 1, fw_card = replicate 8 2,
     fw_seq = [0, 0], fw_body = [2, 7, 8]\<rparr>"

definition demo_kdf_input :: fuzz_kdf_input where
  "demo_kdf_input = \<lparr>fk_kind_sel = 0, fk_s16 = False, fk_host = replicate 8 1, fk_card = replicate 8 2,
     fk_key_material = replicate 20 5\<rparr>"

lemma fuzz_targets_hold_witness:
  "fst (rapdu_unwrap toy_prims [1, 2, 0x90, 0x00] (backend_new ())) = Inr ()
    \<and> fst (wrap_roundtrip toy_prims demo_fuzz_input (backend_new ())) \<noteq> Inl Panicked"
proof -
  have "fuzz_wrap_wf demo_fuzz_input" "fuzz_kdf_wf demo_kdf_input"
    by (simp_all add: fuzz_wrap_wf_def demo_fuzz_input_def fuzz_kdf_wf_def demo_kdf_input_def)
  from fuzz_targets_hold [OF toy_prims_ok this, of "[1, 2, 0x90, 0x00]" "()"] show ?thesis by blast
qed

lemma fuzz_assertions_reached:
  "fst (wrap_roundtrip toy_prims demo_fuzz_input (backend_new ())) = Inr ()"
  "fst (kdf_props toy_prims demo_kdf_input (backend_new ())) \<noteq> Inl Returned"
  by code_simp+

section \<open>The CAP parser target\<close>

text \<open>\<open>cap_parser.rs\<close>: a file that parses is drained in blocks of 240 octets, with a guard against endless
  streams. The result shows the blocks and why the loop ended.\<close>

datatype drain_end = Drained | BlockError cap_error | GuardHit

primrec drain :: "'d miniz \<Rightarrow> nat \<Rightarrow> lfdb \<times> 'd inflate_ctx \<Rightarrow> bytes list \<times> drain_end" where
  "drain M 0 s = (case next_block M 240 s of
     (Inl e, s') \<Rightarrow> ([], BlockError e)
   | (Inr out, s') \<Rightarrow> if out = [] then ([], Drained) else ([out], GuardHit))"
| "drain M (Suc n) s = (case next_block M 240 s of
     (Inl e, s') \<Rightarrow> ([], BlockError e)
   | (Inr out, s') \<Rightarrow> if out = [] then ([], Drained)
       else (case drain M n s' of (bs, e) \<Rightarrow> (out # bs, e)))"

definition cap_parser :: "'d miniz \<Rightarrow> bytes \<Rightarrow> (bytes list \<times> drain_end) option" where
  "cap_parser M data = (case parse_cap M data (inflate_new M) of
     (Inl e, infl) \<Rightarrow> None
   | (Inr cap, infl) \<Rightarrow> Some (drain M 100000 (cap_lfdb cap, infl)))"

lemma drain_all:
  assumes "lfdb_ok M cs l infl" "length (lfdb_rest cs l) \<le> 240 * n"
  shows "\<exists>bs. drain M n (l, infl) = (bs, Drained) \<and> concat bs = lfdb_rest cs l \<and> (\<forall>b \<in> set bs. 0 < length b \<and> length b \<le> 240)"
  using assms
proof (induction n arbitrary: l infl)
  case 0
  then show ?case using next_block_ok [OF 0(1), of 240] by auto
next
  case (Suc n)
  from next_block_ok [OF Suc.prems(1), of 240] obtain l' infl' where
    nb: "next_block M 240 (l, infl) = (Inr (take 240 (lfdb_rest cs l)), (l', infl'))" and ok': "lfdb_ok M cs l' infl'"
    and rest: "lfdb_rest cs l' = drop 240 (lfdb_rest cs l)" by blast
  show ?case
  proof (cases "lfdb_rest cs l = []")
    case True
    then show ?thesis using nb by simp
  next
    case False
    have "length (lfdb_rest cs l') \<le> 240 * n" using Suc.prems(2) rest by simp
    from Suc.IH [OF ok' this] obtain bs where bs: "drain M n (l', infl') = (bs, Drained)" "concat bs = lfdb_rest cs l'"
      "\<forall>b \<in> set bs. 0 < length b \<and> length b \<le> 240" by blast
    have "drain M (Suc n) (l, infl) = (take 240 (lfdb_rest cs l) # bs, Drained)" using nb False bs(1) by simp
    moreover have "concat (take 240 (lfdb_rest cs l) # bs) = lfdb_rest cs l" by (simp add: bs(2) rest)
    ultimately show ?thesis using bs(3) False by (intro exI [of _ "take 240 (lfdb_rest cs l) # bs"]) auto
  qed
qed

text \<open>A file whose components have the declared sizes is drained to its end before the guard, up to 24
  million octets, without an error, and what comes out is the Load File Data Block.\<close>

lemma cap_parser_drains:
  assumes "parse_cap M data (inflate_new M) = (Inr cap, infl)" "cap_contents M (cf_zip cap) (cf_locs cap) cs"
    "length (ic_window infl) = INFLATE_WINDOW" "lfdb_len (cap_lfdb cap) \<le> 24000000"
  shows "\<exists>bs. cap_parser M data = Some (bs, Drained) \<and> concat bs = load_stream cs \<and> (\<forall>b \<in> set bs. 0 < length b \<and> length b \<le> 240)"
proof -
  note st = lfdb_start [OF assms(2,3)]
  have "length (lfdb_rest cs (cap_lfdb cap)) \<le> 240 * 100000" using assms(4) st(3) by simp
  from drain_all [OF st(1) this] show ?thesis by (auto simp: cap_parser_def assms(1) st(2) load_stream_def)
qed

end
