(* ===== verification/Scll_Examples.thy ===== *)
theory Scll_Examples
  imports Scll_Manager
begin

text \<open>
  The logic of \<open>examples/src/lib.rs\<close>, shared by the example programs: the configuration from the
  environment, hexadecimal text, the choice of protocol, key kind and security level, and the
  opening of a channel with the card's original keys under several key versions. Printing is left
  out; the environment and the file system are parameters.
\<close>

section \<open>Text\<close>

text \<open>A \<open>str\<close> is the list of its code points; its length is that of its UTF-8 encoding. Slices are taken
  at octet offsets and panic inside a character.\<close>

type_synonym ustr = "nat list"

definition ustr :: "string \<Rightarrow> ustr" where
  "ustr s = map of_char s"

definition utf8_len :: "nat \<Rightarrow> nat" where
  "utf8_len c = (if c < 0x80 then 1 else if c < 0x800 then 2 else if c < 0x10000 then 3 else 4)"

definition str_len :: "ustr \<Rightarrow> nat" where
  "str_len s = sum_list (map utf8_len s)"

definition is_whitespace :: "nat \<Rightarrow> bool" where
  "is_whitespace c = (9 \<le> c \<and> c \<le> 13 \<or> c = 0x20 \<or> c = 0x85 \<or> c = 0xA0 \<or> c = 0x1680 \<or> 0x2000 \<le> c \<and> c \<le> 0x200A
     \<or> c = 0x2028 \<or> c = 0x2029 \<or> c = 0x202F \<or> c = 0x205F \<or> c = 0x3000)"

definition digit16 :: "nat \<Rightarrow> nat option" where
  "digit16 c = (if 0x30 \<le> c \<and> c \<le> 0x39 then Some (c - 0x30)
     else if 0x41 \<le> c \<and> c \<le> 0x46 then Some (c - 0x37)
     else if 0x61 \<le> c \<and> c \<le> 0x66 then Some (c - 0x57) else None)"

text \<open>\<open>u8::from_str_radix(s, 16)\<close> of the standard library: an optional plus sign, then digits; the value
  has to fit.\<close>

fun radix16_loop :: "nat \<Rightarrow> ustr \<Rightarrow> u8 option" where
  "radix16_loop acc [] = Some (of_nat acc)"
| "radix16_loop acc (c # cs) = (case digit16 c of None \<Rightarrow> None
     | Some d \<Rightarrow> if acc * 16 + d > 255 then None else radix16_loop (acc * 16 + d) cs)"

definition from_str_radix16 :: "ustr \<Rightarrow> u8 option" where
  "from_str_radix16 s = (case s of [] \<Rightarrow> None
     | c # cs \<Rightarrow> if c = 0x2B then (if cs = [] then None else radix16_loop 0 cs) else radix16_loop 0 s)"

datatype config_error =
    RequiredUnset string | InvalidU8 ustr | OddHex ustr | InvalidHex ustr
  | UnknownTransport ustr | ConnectionUnset string | BothSet | NoneSet
  | KeyLengthInvalid nat | KeysDiffer string | CapUnreadable ustr | CapInvalid ustr | NoApplet
  | DemoVersion u8 | SlicePanic

definition parse_u8 :: "ustr \<Rightarrow> config_error + u8" where
  "parse_u8 s =
    (let s = (if take 2 s = ustr ''0x'' \<or> take 2 s = ustr ''0X'' then drop 2 s else s) in
     case from_str_radix16 s of None \<Rightarrow> Inl (InvalidU8 s) | Some v \<Rightarrow> Inr v)"

definition hex_char :: "nat \<Rightarrow> nat" where
  "hex_char d = (if d < 10 then 0x30 + d else 0x37 + d)"

definition ex_to_hex :: "bytes \<Rightarrow> ustr" where
  "ex_to_hex bs = concat (map (\<lambda>b. [hex_char (unat b div 16), hex_char (unat b mod 16)]) bs)"

text \<open>The pairs of octets at even offsets: two characters of one octet, or one of two; a character that
  straddles the end of a pair panics.\<close>

fun hex_slices :: "ustr \<Rightarrow> ustr \<Rightarrow> config_error + bytes" where
  "hex_slices s [] = Inr []"
| "hex_slices s (a # rest) =
    (if utf8_len a = 2 then Inl (InvalidHex s)
     else if utf8_len a > 2 then Inl SlicePanic
     else (case rest of
        [] \<Rightarrow> Inl SlicePanic
      | b # rest' \<Rightarrow>
         (if utf8_len b \<noteq> 1 then Inl SlicePanic
          else (case from_str_radix16 [a, b] of
             None \<Rightarrow> Inl (InvalidHex s)
           | Some v \<Rightarrow> rbind (hex_slices s rest') (\<lambda>vs. Inr (v # vs))))))"

definition from_hex :: "ustr \<Rightarrow> config_error + bytes" where
  "from_hex s =
    (let s = filter (\<lambda>c. \<not> is_whitespace c) s in
     if str_len s mod 2 \<noteq> 0 then Inl (OddHex s) else hex_slices s s)"

section \<open>Configuration\<close>

type_synonym environment = "string \<Rightarrow> ustr option"

definition env_opt :: "environment \<Rightarrow> string \<Rightarrow> ustr option" where
  "env_opt env name = (case env name of Some s \<Rightarrow> if s = [] then None else Some s | None \<Rightarrow> None)"

definition env_req :: "environment \<Rightarrow> string \<Rightarrow> config_error + ustr" where
  "env_req env name = ok_or (RequiredUnset name) (env_opt env name)"

datatype endpoint = EPcsc ustr | EJcsim ustr

primrec key_prefix :: "endpoint \<Rightarrow> string" where
  "key_prefix (EPcsc r) = ''SCLL_PCSC_KEY''"
| "key_prefix (EJcsim a) = ''SCLL_JCSIM_KEY''"

definition select_endpoint :: "environment \<Rightarrow> config_error + endpoint" where
  "select_endpoint env =
    (let pcsc = env_opt env ''SCLL_PCSC''; jcsim = env_opt env ''SCLL_JCSIM_ADDR'' in
     case env_opt env ''SCLL_TRANSPORT'' of
       Some t \<Rightarrow>
        if t = ustr ''pcsc'' then ok_or (ConnectionUnset ''SCLL_PCSC'') (map_option EPcsc pcsc)
        else if t = ustr ''jcsim'' then ok_or (ConnectionUnset ''SCLL_JCSIM_ADDR'') (map_option EJcsim jcsim)
        else Inl (UnknownTransport t)
     | None \<Rightarrow>
        (case (pcsc, jcsim) of
           (Some r, None) \<Rightarrow> Inr (EPcsc r)
         | (None, Some a) \<Rightarrow> Inr (EJcsim a)
         | (Some _, Some _) \<Rightarrow> Inl BothSet
         | (None, None) \<Rightarrow> Inl NoneSet))"

record config =
  cfg_endpoint :: endpoint
  cfg_isd_enc :: bytes
  cfg_isd_mac :: bytes
  cfg_isd_dek :: bytes
  cfg_isd_kvn :: u8
  cfg_keep :: bool

definition config_from_env :: "environment \<Rightarrow> config_error + config" where
  "config_from_env env =
     rbind (select_endpoint env) (\<lambda>endpoint.
     let prefix = key_prefix endpoint in
     rbind (rbind (env_req env (prefix @ ''_ENC'')) from_hex) (\<lambda>isd_enc.
     rbind (rbind (env_req env (prefix @ ''_MAC'')) from_hex) (\<lambda>isd_mac.
     rbind (rbind (env_req env (prefix @ ''_DEK'')) from_hex) (\<lambda>isd_dek.
     let len = length isd_enc in
     if \<not> (len = 16 \<or> len = 24 \<or> len = 32) then Inl (KeyLengthInvalid len)
     else if length isd_mac \<noteq> len \<or> length isd_dek \<noteq> len then Inl (KeysDiffer prefix)
     else
       rbind (case env_opt env ''SCLL_ISD_KVN'' of Some s \<Rightarrow> parse_u8 s | None \<Rightarrow> Inr 0x00) (\<lambda>isd_kvn.
       let keep = (env_opt env ''SCLL_KEEP'' = Some (ustr ''1'')) in
       Inr \<lparr>cfg_endpoint = endpoint, cfg_isd_enc = isd_enc, cfg_isd_mac = isd_mac, cfg_isd_dek = isd_dek,
         cfg_isd_kvn = isd_kvn, cfg_keep = keep\<rparr>)))))"

record cap_config =
  cap_bytes :: bytes
  cap_package_aid :: bytes
  cap_module_aid :: bytes
  cap_applet_aid :: bytes

definition cap_config_from_env :: "environment \<Rightarrow> (ustr \<Rightarrow> bytes option) \<Rightarrow> 'd miniz \<Rightarrow> config_error + cap_config" where
  "cap_config_from_env env read_file M =
     rbind (env_req env ''SCLL_CAP'') (\<lambda>cap_path.
     rbind (ok_or (CapUnreadable cap_path) (read_file cap_path)) (\<lambda>bs.
     rbind (map_err (\<lambda>_. CapInvalid cap_path) (fst (parse_cap M bs (inflate_new M)))) (\<lambda>capf.
     let package_aid = as_bytes (cf_package_aid capf) in
     rbind (case cc_applets (cf_components capf) of [] \<Rightarrow> Inl NoApplet | a # _ \<Rightarrow> Inr (as_bytes (ae_class_aid a))) (\<lambda>module_aid.
     rbind (case env_opt env ''SCLL_APPLET_AID'' of Some s \<Rightarrow> from_hex s | None \<Rightarrow> Inr module_aid) (\<lambda>applet_aid.
     Inr \<lparr>cap_bytes = bs, cap_package_aid = package_aid, cap_module_aid = module_aid, cap_applet_aid = applet_aid\<rparr>)))))"

section \<open>Security levels, protocol and key kind\<close>

datatype channel_role = RoleIsd | RoleIsdKeyOps | RoleSsd | RoleSsdPutKey

fun security_level :: "endpoint \<Rightarrow> channel_role \<Rightarrow> u8" where
  "security_level (EJcsim _) RoleIsd = 0x03"
| "security_level (EPcsc _) RoleIsd = 0x33"
| "security_level _ RoleIsdKeyOps = 0x03"
| "security_level (EJcsim _) RoleSsd = 0x01"
| "security_level (EPcsc _) RoleSsd = 0x33"
| "security_level (EJcsim _) RoleSsdPutKey = 0x01"
| "security_level (EPcsc _) RoleSsdPutKey = 0x03"

definition is_scp03 :: "scp_variant \<Rightarrow> bool" where
  "is_scp03 v = (case v of Scp03 _ \<Rightarrow> True | Scp02 _ \<Rightarrow> False)"

definition pick_scp :: "card_info \<Rightarrow> scll_error + scp_variant" where
  "pick_scp info = (case find is_scp03 (inf_scp_supported info) of
     Some v \<Rightarrow> Inr v
   | None \<Rightarrow> (case inf_scp_supported info of v # _ \<Rightarrow> Inr v | [] \<Rightarrow> Inl ScpProtocolUnsupported))"

text \<open>\<open>None\<close> is a panic.\<close>

fun key_kind_for :: "scp_variant \<Rightarrow> nat \<Rightarrow> key_kind option" where
  "key_kind_for (Scp03 _) len = (if len = 16 then Some KindAes128 else if len = 24 then Some KindAes192
     else if len = 32 then Some KindAes256 else None)"
| "key_kind_for (Scp02 _) len = (if len = 16 then Some TripleDesDouble else None)"

record key_triple =
  tr_enc :: key_handle
  tr_mac :: key_handle
  tr_dek :: key_handle

definition triple_keys :: "key_triple \<Rightarrow> sd_keys" where
  "triple_keys k = \<lparr>sdk_enc = tr_enc k, sdk_mac = tr_mac k, sdk_dek = tr_dek k\<rparr>"

definition new_keyset_of :: "key_triple \<Rightarrow> key_kind \<Rightarrow> new_keyset" where
  "new_keyset_of k kind = \<lparr>nk_enc = tr_enc k, nk_mac = tr_mac k, nk_dek = tr_dek k, nk_kind = kind\<rparr>"

definition triple_new_keyset :: "key_triple \<Rightarrow> new_keyset" where
  "triple_new_keyset k = new_keyset_of k KindAes128"

section \<open>Opening a channel\<close>

definition HELLO_CAPDU :: bytes where
  "HELLO_CAPDU = [0x80, 0xF0, 0x00, 0x00, 0x05, 0x48, 0x65, 0x6C, 0x6C, 0x6F]"
definition KVN_1 :: u8 where "KVN_1 = 0x30"
definition KVN_2 :: u8 where "KVN_2 = 0x31"
definition ISD_KVN_1 :: u8 where "ISD_KVN_1 = 0x32"
definition ISD_KVN_2 :: u8 where "ISD_KVN_2 = 0x33"
definition JCSIM_FACTORY_KVN :: u8 where "JCSIM_FACTORY_KVN = 0x30"

definition ex_open ::
    "'t transport \<Rightarrow> 'b backend_ops \<Rightarrow> bytes \<Rightarrow> scp_target_kind \<Rightarrow> sd_keys \<Rightarrow> scp_variant list \<Rightarrow> scp_variant \<Rightarrow> u8 \<Rightarrow> u8 \<Rightarrow>
     ('t, 'b, open_scp_report) mgr_method" where
  "ex_open T B target_aid kind keys advertised scp kvn level =
     mgr_open_scp T B \<lparr>osa_target_aid = target_aid, osa_target_kind = kind, osa_sd_keys = keys, osa_advertised = advertised,
       osa_force_scp = Some scp, osa_kvn = kvn, osa_requested_level = level\<rparr>"

definition push_new :: "u8 list \<Rightarrow> u8 \<Rightarrow> u8 list" where
  "push_new xs k = (if k \<in> set xs then xs else xs @ [k])"

definition kvn_candidates :: "u8 \<Rightarrow> u8 list \<Rightarrow> u8 option \<Rightarrow> u8 list" where
  "kvn_candidates cfg_kvn reported_kvns known_original_kvn =
    (let candidates = (case known_original_kvn of Some k \<Rightarrow> [k] | None \<Rightarrow> []);
         candidates = push_new candidates cfg_kvn;
         candidates = foldl (\<lambda>cs k. if k \<noteq> ISD_KVN_1 \<and> k \<noteq> ISD_KVN_2 then push_new cs k else cs) candidates reported_kvns;
         candidates = (if cfg_kvn = 0x00 then push_new candidates JCSIM_FACTORY_KVN else candidates);
         candidates = filter (\<lambda>k. k \<le> 0x7F) candidates in
     push_new candidates 0x00)"

primrec open_first :: "(u8 \<Rightarrow> ('s, scll_error, 'a) prog) \<Rightarrow> u8 list \<Rightarrow> scll_error option \<Rightarrow> ('s, scll_error, 'a) prog" where
  "open_first attempt [] refused = throw (case refused of Some e \<Rightarrow> e | None \<Rightarrow> KeyNotFound)"
| "open_first attempt (kvn # kvns) refused = (\<lambda>s. case attempt kvn s of
     (Inr p, s') \<Rightarrow> (Inr p, s')
   | (Inl e, s') \<Rightarrow> open_first attempt kvns (Some e) s')"

definition open_isd_original ::
    "'t transport \<Rightarrow> 'b backend_ops \<Rightarrow> bytes \<Rightarrow> key_triple \<Rightarrow> scp_variant list \<Rightarrow> scp_variant \<Rightarrow> u8 \<Rightarrow> u8 list \<Rightarrow> u8 option \<Rightarrow> u8 \<Rightarrow>
     ('t, 'b, open_scp_report) mgr_method" where
  "open_isd_original T B isd_aid isd advertised scp cfg_kvn reported_kvns known_original_kvn level =
     open_first (\<lambda>kvn. ex_open T B isd_aid SecurityDomainAid (triple_keys isd) advertised scp kvn level)
       (kvn_candidates cfg_kvn reported_kvns known_original_kvn) None"

section \<open>The tracing transport\<close>

text \<open>The decorator of the transport: its lines are the effect on standard error.\<close>

datatype trace_line = TraceCommand nat bytes | TraceResponse nat bytes | TraceError nat transport_error

record 't tracing =
  tt_inner :: 't
  tt_enabled :: bool
  tt_seq :: u32
  tt_lines :: "trace_line list"

definition tracing_new :: "environment \<Rightarrow> 't \<Rightarrow> 't tracing" where
  "tracing_new env inner = \<lparr>tt_inner = inner, tt_enabled = (env_opt env ''SCLL_APDU_TRACE'' = Some (ustr ''1'')), tt_seq = 0, tt_lines = []\<rparr>"

definition on_inner :: "('t, 'e, 'a) prog \<Rightarrow> ('t tracing, 'e, 'a) prog" where
  "on_inner m t = (case m (tt_inner t) of (r, i) \<Rightarrow> (r, t\<lparr>tt_inner := i\<rparr>))"

definition trace_push :: "trace_line \<Rightarrow> 't tracing \<Rightarrow> 't tracing" where
  "trace_push l t = (if tt_enabled t then t\<lparr>tt_lines := tt_lines t @ [l]\<rparr> else t)"

definition tracing_transmit :: "'t transport \<Rightarrow> bytes \<Rightarrow> ('t tracing, transport_error, bytes) prog" where
  "tracing_transmit T capdu t =
    (let t = t\<lparr>tt_seq := tt_seq t + 1\<rparr>; n = unat (tt_seq t); t = trace_push (TraceCommand n capdu) t in
     case on_inner (t_transmit T capdu) t of (result, t) \<Rightarrow>
       (result, trace_push (case result of Inr r \<Rightarrow> TraceResponse n r | Inl e \<Rightarrow> TraceError n e) t))"

definition tracing_transport :: "'t transport \<Rightarrow> 't tracing transport" where
  "tracing_transport T = \<lparr>t_transmit = tracing_transmit T,
     t_capabilities = (\<lambda>t. t_capabilities T (tt_inner t)), t_reset = on_inner (t_reset T),
     t_protocol = (\<lambda>t. t_protocol T (tt_inner t)), t_is_connected = (\<lambda>t. t_is_connected T (tt_inner t))\<rparr>"

section \<open>Properties\<close>

lemma hex_char_read: "a < 16 \<Longrightarrow> b < 16 \<Longrightarrow> from_str_radix16 [hex_char a, hex_char b] = Some (of_nat (a * 16 + b))"
  by (simp add: from_str_radix16_def hex_char_def digit16_def)

lemma hex_char_plain: "d < 16 \<Longrightarrow> utf8_len (hex_char d) = 1 \<and> \<not> is_whitespace (hex_char d)"
  by (simp add: hex_char_def utf8_len_def is_whitespace_def)

lemma nibbles: "unat (b :: u8) div 16 < 16" "unat b mod 16 < 16" "of_nat (unat b div 16 * 16 + unat b mod 16) = b"
  using unat_u8_lt [of b] by (simp_all add: less_mult_imp_div_less)

lemma hex_slices_to_hex: "hex_slices s (ex_to_hex bs) = Inr bs"
proof (induction bs)
  case (Cons b bs)
  then show ?case
    using hex_char_plain [OF nibbles(1) [of b]] hex_char_plain [OF nibbles(2) [of b]] hex_char_read [OF nibbles(1,2), of b b]
    by (simp add: ex_to_hex_def nibbles(3) del: div_mult_mod_eq of_nat_add)
qed (simp add: ex_to_hex_def)

text \<open>What is written in hexadecimal is read back.\<close>

lemma from_hex_to_hex: "from_hex (ex_to_hex bs) = Inr bs"
proof -
  have ws: "filter (\<lambda>c. \<not> is_whitespace c) (ex_to_hex bs) = ex_to_hex bs"
    using hex_char_plain nibbles by (auto simp: ex_to_hex_def filter_id_conv)
  have "str_len (ex_to_hex bs) = 2 * length bs"
    using hex_char_plain nibbles by (induction bs) (simp_all add: ex_to_hex_def str_len_def)
  then show ?thesis by (simp add: from_hex_def ws hex_slices_to_hex)
qed

text \<open>The reader is more liberal than its comment says, and panics on some text.\<close>

lemma from_hex_oddities:
  "from_hex (ustr ''+1'') = Inr [1]"
  "from_hex [0x61, 0xE9, 0x62] = Inl SlicePanic"
  "parse_u8 (ustr ''0x+7f'') = Inr 0x7F"
  by (simp_all add: from_hex_def ustr_def is_whitespace_def str_len_def utf8_len_def from_str_radix16_def digit16_def parse_u8_def)

lemma config_from_env_ok:
  "config_from_env env = Inr cfg \<Longrightarrow> length (cfg_isd_enc cfg) \<in> {16, 24, 32}
     \<and> length (cfg_isd_mac cfg) = length (cfg_isd_enc cfg) \<and> length (cfg_isd_dek cfg) = length (cfg_isd_enc cfg)"
  by (auto simp: config_from_env_def Let_def rbind_eq_Inr split: if_splits)

text \<open>A configuration that was accepted fails an assertion on a card that offers only SCP02, unless its
  keys have 16 octets.\<close>

lemma key_kind_for_total: "length k \<in> {16, 24, 32} \<Longrightarrow> key_kind_for scp (length k) = None \<longleftrightarrow> \<not> is_scp03 scp \<and> length k \<noteq> 16"
  by (cases scp) (auto simp: is_scp03_def)

lemma key_kind_for_len: "key_kind_for scp n = Some kind \<Longrightarrow> clear_len kind = n"
  by (cases scp) (auto split: if_splits)

lemma pick_scp_prefers:
  "pick_scp info = Inr v \<Longrightarrow> v \<in> set (inf_scp_supported info) \<and> ((\<exists>u \<in> set (inf_scp_supported info). is_scp03 u) \<longrightarrow> is_scp03 v)"
  by (auto simp: pick_scp_def find_Some_iff find_None_iff split: option.splits list.splits)

lemma push_new_simps [simp]:
  "set (push_new xs k) = insert k (set xs)" "distinct (push_new xs k) = distinct xs"
  by (auto simp: push_new_def)

lemma push_reported:
  "set (foldl (\<lambda>cs k. if P k then push_new cs k else cs) xs ks) = set xs \<union> {k \<in> set ks. P k}"
  "distinct (foldl (\<lambda>cs k. if P k then push_new cs k else cs) xs ks) = distinct xs"
  by (induction ks arbitrary: xs) auto

text \<open>The key versions tried: each once, all of them addressable, \<open>0x00\<close> among them; the versions of the
  demonstration only when they were configured or confirmed.\<close>

lemma kvn_candidates_set:
  "set (kvn_candidates cfg reported known) = {k. k \<le> 0x7F \<and> (k = 0 \<or> k = cfg \<or> known = Some k
     \<or> k \<in> set reported \<and> k \<noteq> ISD_KVN_1 \<and> k \<noteq> ISD_KVN_2 \<or> cfg = 0 \<and> k = JCSIM_FACTORY_KVN)}"
  "distinct (kvn_candidates cfg reported known)"
  by (auto simp: kvn_candidates_def Let_def push_reported JCSIM_FACTORY_KVN_def split: option.splits)

lemma open_first_opened:
  "open_first f ks err s = (Inr p, s') \<Longrightarrow> \<exists>k s1. k \<in> set ks \<and> f k s1 = (Inr p, s')"
proof (induction ks arbitrary: err s)
  case (Cons k ks)
  obtain r s1 where r: "f k s = (r, s1)" by (meson surj_pair)
  show ?case
  proof (cases r)
    case (Inl e)
    then have "open_first f ks (Some e) s1 = (Inr p, s')" using Cons.prems r by simp
    from Cons.IH [OF this] show ?thesis by auto
  next
    case (Inr x)
    then have "f k s = (Inr p, s')" using Cons.prems r by simp
    then show ?thesis by auto
  qed
qed simp

lemma keeps_open_first: "(\<And>k. k \<in> set ks \<Longrightarrow> keeps I (f k)) \<Longrightarrow> keeps I (open_first f ks err)"
proof (induction ks arbitrary: err)
  case (Cons k ks)
  then have k: "keeps I (f k)" "\<And>e. keeps I (open_first f ks e)" by auto
  show ?case
  proof (rule keepsI)
    fix s r s' assume s: "I s" and run: "open_first f (k # ks) err s = (r, s')"
    obtain r1 s1 where r1: "f k s = (r1, s1)" by (meson surj_pair)
    have "I s1" by (rule keepsD [OF k(1) s r1])
    then show "I s'" using run r1 keepsD [OF k(2)] by (cases r1) simp_all
  qed
qed simp

text \<open>Nothing is lost by tracing: the card behind the decorator and its answers are the same.\<close>

lemma tracing_transparent:
  assumes "t_transmit T capdu (tt_inner t) = (r, i)"
  defines "n \<equiv> unat (tt_seq t + 1)"
  shows "t_transmit (tracing_transport T) capdu t = (r, t\<lparr>tt_inner := i, tt_seq := tt_seq t + 1,
    tt_lines := tt_lines t @ (if tt_enabled t then
      [TraceCommand n capdu, case r of Inr d \<Rightarrow> TraceResponse n d | Inl e \<Rightarrow> TraceError n e] else [])\<rparr>)"
proof -
  obtain a b c d where t: "t = \<lparr>tt_inner = a, tt_enabled = b, tt_seq = c, tt_lines = d\<rparr>" by (cases t)
  show ?thesis using assms(1)
    by (cases b) (simp_all add: n_def t tracing_transport_def tracing_transmit_def on_inner_def trace_push_def Let_def split: sum.split)
qed

end
