(* ===== verification/Scll_Demo.thy ===== *)
theory Scll_Demo
  imports Scll_Examples Scll_Compose
begin

text \<open>
  What the two lifecycle programs of \<open>examples/src/bin\<close> share: the control flow around the calls of the
  card manager, the fixed key sets and their import, and the rules for "this program makes these
  calls only, and the keys it has imported stay where they are".
\<close>

section \<open>Calls and keys\<close>

text \<open>\<open>match\<close> on the result of a call, and \<open>let _ =\<close>.\<close>

definition matchP :: "('s, 'e, 'a) prog \<Rightarrow> ('a \<Rightarrow> ('s, 'f, 'c) prog) \<Rightarrow> ('e \<Rightarrow> ('s, 'f, 'c) prog) \<Rightarrow> ('s, 'f, 'c) prog" where
  "matchP m f g = (\<lambda>s. case m s of (Inr x, s') \<Rightarrow> f x s' | (Inl e, s') \<Rightarrow> g e s')"

definition ignoreP :: "('s, 'e, 'a) prog \<Rightarrow> ('s, 'f, unit) prog" where
  "ignoreP m = matchP m (\<lambda>_. ret ()) (\<lambda>_. ret ())"

definition closeP :: "'b backend_ops \<Rightarrow> ('t, 'b, unit) mgr_method" where
  "closeP B m = (Inr (), close_channel B m)"

definition load_fresh ::
    "'t transport \<Rightarrow> 'b backend_ops \<Rightarrow> 'd miniz \<Rightarrow> load_package_args \<Rightarrow> ('t, 'b, load_package_report) mgr_method" where
  "load_fresh T B M args = (\<lambda>m. case mgr_load_package T B M args (m, inflate_new M) of (r, (m', _)) \<Rightarrow> (r, m'))"

definition KS1_ENC :: bytes where "KS1_ENC = replicate 16 0x40"
definition KS1_MAC :: bytes where "KS1_MAC = replicate 16 0x41"
definition KS1_DEK :: bytes where "KS1_DEK = replicate 16 0x42"
definition KS2_ENC :: bytes where "KS2_ENC = replicate 16 0x50"
definition KS2_MAC :: bytes where "KS2_MAC = replicate 16 0x51"
definition KS2_DEK :: bytes where "KS2_DEK = replicate 16 0x52"
definition KS1_ENC_256 :: bytes where "KS1_ENC_256 = replicate 32 0x40"
definition KS1_MAC_256 :: bytes where "KS1_MAC_256 = replicate 32 0x41"
definition KS1_DEK_256 :: bytes where "KS1_DEK_256 = replicate 32 0x42"
definition KS2_ENC_256 :: bytes where "KS2_ENC_256 = replicate 32 0x50"
definition KS2_MAC_256 :: bytes where "KS2_MAC_256 = replicate 32 0x51"
definition KS2_DEK_256 :: bytes where "KS2_DEK_256 = replicate 32 0x52"

text \<open>A key length that the protocol cannot use is a panic.\<close>

datatype demo_stop = Failed scll_error | Panic

text \<open>\<open>b.import_key(..)?\<close>, once and for the three keys of a set.\<close>

definition import_on :: "key_kind \<Rightarrow> bytes \<Rightarrow> ('t, 'r backend_state, key_handle) mgr_method" where
  "import_on kind bs m = (case import_key kind bs (m_backend m) of (r, b) \<Rightarrow> (map_err Backend r, m\<lparr>m_backend := b\<rparr>))"

definition import_triple :: "key_kind \<Rightarrow> bytes \<Rightarrow> bytes \<Rightarrow> bytes \<Rightarrow> ('t, 'r backend_state, key_triple) mgr_method" where
  "import_triple kind enc mac dek =
     bindP (import_on kind enc) (\<lambda>e. bindP (import_on kind mac) (\<lambda>m. bindP (import_on kind dek) (\<lambda>d.
     ret \<lparr>tr_enc = e, tr_mac = m, tr_dek = d\<rparr>)))"

section \<open>Programs that make certain calls only\<close>

text \<open>From every state with \<open>K\<close> the program makes steps of \<open>R\<close> only, and leaves \<open>K\<close> as it was.\<close>

definition calls :: "('s \<Rightarrow> 's \<Rightarrow> bool) \<Rightarrow> ('s \<Rightarrow> bool) \<Rightarrow> ('s, 'e, 'a) prog \<Rightarrow> bool" where
  "calls R K p = (\<forall>s r s'. K s \<longrightarrow> p s = (r, s') \<longrightarrow> R\<^sup>*\<^sup>* s s' \<and> K s')"

lemma callsI: "(\<And>s r s'. K s \<Longrightarrow> p s = (r, s') \<Longrightarrow> R\<^sup>*\<^sup>* s s' \<and> K s') \<Longrightarrow> calls R K p"
  unfolding calls_def by blast

lemma callsD: "calls R K p \<Longrightarrow> K s \<Longrightarrow> p s = (r, s') \<Longrightarrow> R\<^sup>*\<^sup>* s s' \<and> K s'"
  unfolding calls_def by blast

lemma calls_step: "(\<And>s r s'. K s \<Longrightarrow> p s = (r, s') \<Longrightarrow> R s s' \<and> K s') \<Longrightarrow> calls R K p"
  unfolding calls_def by blast

text \<open>What the state after a success is known to satisfy, in addition, is at the disposal of the rest.\<close>

lemma calls_bind_post:
  assumes p: "calls R K p" and post: "\<And>s x s'. K s \<Longrightarrow> p s = (Inr x, s') \<Longrightarrow> K' x s'"
    and f: "\<And>x s r s'. K' x s \<Longrightarrow> f x s = (r, s') \<Longrightarrow> R\<^sup>*\<^sup>* s s' \<and> K s'"
  shows "calls R K (bindP p f)"
proof (rule callsI)
  fix s r s' assume s: "K s" and run: "bindP p f s = (r, s')"
  obtain r1 s1 where r1: "p s = (r1, s1)" by (meson surj_pair)
  note 1 = callsD [OF p s r1]
  show "R\<^sup>*\<^sup>* s s' \<and> K s'"
  proof (cases r1)
    case (Inl e)
    then show ?thesis using run r1 1 by (simp add: bindP_def)
  next
    case (Inr x)
    then have "f x s1 = (r, s')" using run r1 by (simp add: bindP_def)
    moreover have "K' x s1" using post s r1 Inr by blast
    ultimately show ?thesis using f 1 by (blast intro: rtranclp_trans)
  qed
qed

lemma calls_bind_fact:
  assumes "calls R K p" "\<And>s x s'. p s = (Inr x, s') \<Longrightarrow> F x" "\<And>x. F x \<Longrightarrow> calls R K (f x)"
  shows "calls R K (bindP p f)"
proof (rule calls_bind_post [OF assms(1), where K' = "\<lambda>x s. F x \<and> K s"])
  show "F x \<and> K s'" if "K s" "p s = (Inr x, s')" for s x s'
    using assms(2) [OF that(2)] callsD [OF assms(1) that] by simp
qed (use callsD [OF assms(3)] in blast)

lemma calls_bindP:
  assumes "calls R K p" "\<And>x. calls R K (f x)"
  shows "calls R K (bindP p f)"
  by (rule calls_bind_fact [OF assms(1), where F = "\<lambda>_. True"]) (rule TrueI, rule assms(2))

lemma calls_combine:
  "calls R K (ret x)"
  "calls R K (throw e)"
  "calls R K (liftR w)"
  "calls R K p \<Longrightarrow> (\<And>x. calls R K (f x)) \<Longrightarrow> calls R K (bindP p f)"
  "calls R K q \<Longrightarrow> calls R K q' \<Longrightarrow> calls R K (thenP q q')"
  "calls R K u \<Longrightarrow> (\<And>x. calls R K (g x)) \<Longrightarrow> (\<And>e. calls R K (h e)) \<Longrightarrow> calls R K (matchP u g h)"
  "calls R K v \<Longrightarrow> calls R K v' \<Longrightarrow> calls R K (if c then v else v')"
  "calls R K a \<Longrightarrow> calls R K (map_errP j a)"
proof -
  show "calls R K (thenP q q')" if "calls R K q" "calls R K q'"
    unfolding thenP_def by (rule calls_bindP [OF that])
  show "calls R K (bindP p f)" if "calls R K p" "\<And>x. calls R K (f x)"
    by (rule calls_bindP [OF that])
  show "calls R K (matchP u g h)" if u: "calls R K u" and g: "\<And>x. calls R K (g x)" and h: "\<And>e. calls R K (h e)"
  proof (rule callsI)
    fix s r s' assume s: "K s" and run: "matchP u g h s = (r, s')"
    obtain r1 s1 where r1: "u s = (r1, s1)" by (meson surj_pair)
    note 1 = callsD [OF u s r1]
    have "R\<^sup>*\<^sup>* s1 s' \<and> K s'"
    proof (cases r1)
      case (Inl e)
      then have "h e s1 = (r, s')" using run r1 by (simp add: matchP_def)
      then show ?thesis using callsD [OF h] 1 by blast
    next
      case (Inr x)
      then have "g x s1 = (r, s')" using run r1 by (simp add: matchP_def)
      then show ?thesis using callsD [OF g] 1 by blast
    qed
    then show "R\<^sup>*\<^sup>* s s' \<and> K s'" using 1 by (auto intro: rtranclp_trans)
  qed
  show "calls R K (map_errP j a)" if "calls R K a"
    using that unfolding calls_def by (auto split: prod.splits)
  show "calls R K (if c then v else v')" if "calls R K v" "calls R K v'"
    using that by simp
qed (simp_all add: calls_def)

lemma calls_open_first: "(\<And>k. calls R K (f k)) \<Longrightarrow> calls R K (open_first f ks err)"
proof (induction ks arbitrary: err)
  case (Cons k ks)
  have "open_first f (k # ks) err = matchP (f k) ret (\<lambda>e. open_first f ks (Some e))"
    by (rule ext) (simp add: matchP_def split: prod.split sum.split)
  then show ?case using Cons by (simp add: calls_combine)
qed (simp add: calls_combine)

lemma closeP_closed: "closeP B m = (r, m') \<Longrightarrow> m_session m' = None"
  by (auto simp: closeP_def close_channel_def Let_def)

lemma thenP_last: "thenP p q s = (Inr x, s') \<Longrightarrow> \<exists>s1. q s1 = (Inr x, s')"
  by (auto simp: thenP_eq_Inr)

section \<open>The keys\<close>

text \<open>Until the keys are there, no channel is opened, and the backend only gains keys.\<close>

lemma transport_only:
  "keeps (\<lambda>p. snd p = b) (transmit_plain T c)"
  "keeps (\<lambda>p. snd p = b) (transport_reset T)"
  by (rule keepsI; auto simp: transmit_plain_def transmit_raw_def transport_reset_def bindP_def liftR_def split: prod.splits sum.splits)+

lemma discover_card_backend: "keeps (\<lambda>p. snd p = b) (discover_card T x)"
  unfolding discover_card_def Let_def optional_get_data_def select_app_def by (intro keeps_intros transport_only)

lemma before_keys:
  "mgr_probe T n m = (r1, m1) \<Longrightarrow> m_session m1 = m_session m \<and> m_backend m1 = m_backend m"
  "mgr_discover T x m = (r2, m2) \<Longrightarrow> m_session m2 = m_session m \<and> m_backend m2 = m_backend m"
proof -
  show "m_session m1 = m_session m \<and> m_backend m1 = m_backend m" if "mgr_probe T n m = (r1, m1)"
    using that by (auto simp: mgr_probe_def on_parts_def probe_def split: if_splits)
  obtain r t b where d: "discover_card T x (m_transport m, m_backend m) = (r, (t, b))" by (metis surj_pair)
  have "b = m_backend m" using keepsD [OF discover_card_backend [of "m_backend m"] _ d] by simp
  then show "m_session m2 = m_session m \<and> m_backend m2 = m_backend m" if "mgr_discover T x m = (r2, m2)"
    using that d by (cases r) (auto simp: mgr_discover_def bindP_def on_parts_def)
qed

definition key_at :: "'r backend_state \<Rightarrow> key_handle \<Rightarrow> key_kind \<Rightarrow> bytes \<Rightarrow> bool" where
  "key_at b h kind k = (get_slot (bs_keys b) (unat h) = Some \<lparr>ksl_kind = kind, ksl_key = k\<rparr>)"

definition triple_at :: "'r backend_state \<Rightarrow> key_triple \<Rightarrow> key_kind \<Rightarrow> bytes \<Rightarrow> bytes \<Rightarrow> bytes \<Rightarrow> bool" where
  "triple_at b tr kind e m d = (key_at b (tr_enc tr) kind e \<and> key_at b (tr_mac tr) kind m \<and> key_at b (tr_dek tr) kind d)"

definition keys_kept :: "'r backend_state \<Rightarrow> 'r backend_state \<Rightarrow> bool" where
  "keys_kept b b' = (length (bs_keys b') = length (bs_keys b) \<and> (\<forall>h kind k. key_at b h kind k \<longrightarrow> key_at b' h kind k))"

definition more_keys :: "('t, 'r backend_state) manager \<Rightarrow> ('t, 'r backend_state) manager \<Rightarrow> bool" where
  "more_keys m m' = (m_session m' = m_session m \<and> keys_kept (m_backend m) (m_backend m'))"

lemma more_keys_trans: "more_keys m m' \<Longrightarrow> more_keys m' m'' \<Longrightarrow> more_keys m m''"
  by (simp add: more_keys_def keys_kept_def)

lemma import_on_key:
  assumes "length (bs_keys (m_backend m)) \<le> 65536" "import_on kind k m = (r, m')"
  shows "more_keys m m'" "r = Inr h \<Longrightarrow> key_at (m_backend m') h kind k"
proof -
  have "(\<exists>e. r = Inl e \<and> m' = m) \<or> (\<exists>i ks. r = Inr (of_nat i) \<and> m' = m\<lparr>m_backend := m_backend m\<lparr>bs_keys := ks\<rparr>\<rparr>
      \<and> alloc_slot \<lparr>ksl_kind = kind, ksl_key = k\<rparr> (bs_keys (m_backend m)) = Some (i, ks))"
    using assms(2) by (auto simp: import_on_def import_key_def store_key_def split: option.splits if_splits)
  then consider e where "r = Inl e" "m' = m"
    | i ks where "r = Inr (of_nat i)" "m' = m\<lparr>m_backend := m_backend m\<lparr>bs_keys := ks\<rparr>\<rparr>"
      "alloc_slot \<lparr>ksl_kind = kind, ksl_key = k\<rparr> (bs_keys (m_backend m)) = Some (i, ks)" by blast
  then have "more_keys m m' \<and> (r = Inr h \<longrightarrow> key_at (m_backend m') h kind k)"
  proof cases
    case 1
    then show ?thesis by (simp add: more_keys_def keys_kept_def)
  next
    case 2
    note a = alloc_get [OF 2(3)]
    have "unat (of_nat i :: u16) = i" using a assms(1) by (simp add: unat_of_nat)
    then show ?thesis using a 2(1,2) by (auto simp: more_keys_def keys_kept_def key_at_def)
  qed
  then show "more_keys m m'" "r = Inr h \<Longrightarrow> key_at (m_backend m') h kind k" by blast+
qed

lemma import_triple_keys:
  assumes "length (bs_keys (m_backend m)) \<le> 65536" "import_triple kind a b c m = (r, m')"
  shows "more_keys m m'" "r = Inr tr \<Longrightarrow> triple_at (m_backend m') tr kind a b c"
proof -
  obtain r1 m1 where 1: "import_on kind a m = (r1, m1)" by (meson surj_pair)
  note k1 = import_on_key [OF assms(1) 1]
  obtain r2 m2 where 2: "import_on kind b m1 = (r2, m2)" by (meson surj_pair)
  have l1: "length (bs_keys (m_backend m1)) \<le> 65536" using k1(1) assms(1) by (simp add: more_keys_def keys_kept_def)
  note k2 = import_on_key [OF l1 2]
  obtain r3 m3 where 3: "import_on kind c m2 = (r3, m3)" by (meson surj_pair)
  have l2: "length (bs_keys (m_backend m2)) \<le> 65536" using k2(1) l1 by (simp add: more_keys_def keys_kept_def)
  note k3 = import_on_key [OF l2 3]
  show "more_keys m m'"
    using assms(2) 1 2 3 k1(1) k2(1) k3(1)
    by (cases r1; cases r2; cases r3) (auto simp: import_triple_def bindP_def intro: more_keys_trans)
  show "triple_at (m_backend m') tr kind a b c" if "r = Inr tr"
    using assms(2) 1 2 3 k1(2) k2 k3 that
    by (cases r1; cases r2; cases r3) (auto simp: import_triple_def bindP_def triple_at_def more_keys_def keys_kept_def)
qed

lemma bindP_cases:
  assumes "bindP (map_errP h p) f s = (r, s')"
  obtains (stop) e where "p s = (Inl e, s')" "r = Inl (h e)"
    | (go) x s1 where "p s = (Inr x, s1)" "f x s1 = (r, s')"
  using assms by (auto simp: bindP_def split: prod.splits sum.splits)

lemma triple_at_more: "triple_at (m_backend m) tr kind a b c \<Longrightarrow> more_keys m m' \<Longrightarrow> triple_at (m_backend m') tr kind a b c"
  by (simp add: triple_at_def more_keys_def keys_kept_def)

text \<open>Opening a channel leaves the keys alone, whatever comes of it.\<close>

lemma wrap02_keys: "scp02_wrap_command P h c b = (r, b') \<Longrightarrow> bs_keys b' = bs_keys b"
  by (cases r) (auto simp: scp02_wrap_Inr dest: scp02_wrap_Inl)

lemma begin_keys:
  "keeps (\<lambda>b. bs_keys b = ks) (begin03 (rustcrypto P fill) he hm kvn lvl hc aid iu)"
  "keeps (\<lambda>b. bs_keys b = ks) (begin02 (rustcrypto P fill) he hm hx i kvn lvl hc iu)"
proof -
  have 1: "keeps (\<lambda>b. bs_keys b = ks) (scp03_derive_session P a1 a2 mode c1 c2)"
    "keeps (\<lambda>b. bs_keys b = ks) (scp03_card_cryptogram P h c1 c2)" "keeps (\<lambda>b. bs_keys b = ks) (scp03_host_cryptogram P h c1 c2)"
    "keeps (\<lambda>b. bs_keys b = ks) (scp03_pseudo_card_challenge P a1 mode c1 c2)"
    "keeps (\<lambda>b. bs_keys b = ks) (scp03_wrap_command P h cmd)" for a1 a2 mode c1 c2 h cmd
    by (rule keepsI, auto simp: scp03_derive_session_def readers03 split: if_splits sum.splits option.splits prod.splits dest: keys_kept03)+
  have 2: "keeps (\<lambda>b. bs_keys b = ks) (scp02_derive_session P a1 a2 a3 sq)"
    "keeps (\<lambda>b. bs_keys b = ks) (scp02_card_cryptogram P h c1 c2)" "keeps (\<lambda>b. bs_keys b = ks) (scp02_host_cryptogram P h c1 c2)"
    "keeps (\<lambda>b. bs_keys b = ks) (scp02_wrap_command P h cmd)" for a1 a2 a3 sq h c1 c2 cmd
    by (rule keepsI, auto simp: scp02_derive_session_def readers02 split: if_splits sum.splits option.splits prod.splits dest: wrap02_keys)+
  show "keeps (\<lambda>b. bs_keys b = ks) (begin03 (rustcrypto P fill) he hm kvn lvl hc aid iu)"
    unfolding begin03_def by (intro keeps_intros) (simp_all add: 1)
  show "keeps (\<lambda>b. bs_keys b = ks) (begin02 (rustcrypto P fill) he hm hx i kvn lvl hc iu)"
    unfolding begin02_def Let_def by (intro keeps_intros) (simp_all add: 2)
qed

lemma open_scp_keys: "keeps (\<lambda>p. bs_keys (snd p) = ks) (open_scp T (rustcrypto P fill) args)"
proof -
  have t: "keeps (\<lambda>p. bs_keys (snd p) = ks) (transmit_plain T c)" for c
    by (rule keepsI) (metis keepsD [OF transport_only(1)])
  have r: "keeps (\<lambda>b. bs_keys b = ks) (random_bytes fill n)" for n
    by (rule keepsI) (auto simp: random_bytes_def split: prod.splits)
  have arms: "keeps (\<lambda>p. bs_keys (snd p) = ks) (open_arm03 T (rustcrypto P fill) args aid i)"
    "keeps (\<lambda>p. bs_keys (snd p) = ks) (open_arm02 T (rustcrypto P fill) args i)" for aid i
    unfolding open_arm03_def open_arm02_def backend_def Let_def
    by (intro keeps_intros t; simp add: r begin_keys)+
  have "keeps (\<lambda>p. bs_keys (snd p) = ks) (case v of Scp03 i \<Rightarrow> open_arm03 T (rustcrypto P fill) args aid i
      | Scp02 i \<Rightarrow> open_arm02 T (rustcrypto P fill) args i)" for v aid
    by (cases v) (simp_all add: arms)
  then show ?thesis
    unfolding open_scp_def select_app_def Let_def by (intro keeps_intros t) simp
qed

lemma keys_same: "bs_keys b' = bs_keys b \<Longrightarrow> keys_kept b b'"
  by (simp add: keys_kept_def key_at_def)

lemma mgr_open_scp_keys:
  assumes "mgr_open_scp T (rustcrypto P fill) args m = (r, m')"
  shows "keys_kept (m_backend m) (m_backend m')"
proof -
  obtain r0 t b where o: "open_scp T (rustcrypto P fill) args (m_transport m, m_backend m) = (r0, (t, b))" by (metis surj_pair)
  have "bs_keys b = bs_keys (m_backend m)" using keepsD [OF open_scp_keys _ o] by simp
  then show ?thesis using assms o
    by (cases r0) (auto simp: mgr_open_scp_def bindP_def on_parts_def intro: keys_same)
qed

lemma channel_call_keys:
  assumes "channel_call T (rustcrypto P fill) M (m, i) (m', i')"
  shows "keys_kept (m_backend m) (m_backend m')"
proof -
  note s = session_isolation_aux [OF r_into_rtranclp [where r = "channel_call T (rustcrypto P fill) M", OF assms]]
  show ?thesis
  proof (cases "m_session m")
    case (Some ses)
    then have "bs_keys (m_backend m') = bs_keys (m_backend m)" using s by (cases ses) auto
    then show ?thesis by (rule keys_same)
  qed (use s in \<open>simp add: keys_same\<close>)
qed

lemma close_channel_keys: "keys_kept (m_backend m) (m_backend (close_channel (rustcrypto P fill) m))"
  by (rule keys_same) (simp add: close_channel_def scp03_close_session_def scp02_close_session_def Let_def
      split: option.split scp_session.split)

lemma load_fresh_call: "load_fresh T B M a m = (r, m') \<Longrightarrow> \<exists>i'. channel_call T B M (m, inflate_new M) (m', i')"
  by (auto simp: load_fresh_def split: prod.splits intro: CallLoad)

section \<open>Clients of the card manager\<close>

type_synonym key_values = "bytes \<times> bytes \<times> bytes"

definition isd_values :: "config \<Rightarrow> key_values" where
  "isd_values cfg = (cfg_isd_enc cfg, cfg_isd_mac cfg, cfg_isd_dek cfg)"

definition import_isd :: "key_kind \<Rightarrow> config \<Rightarrow> ('t, 'r backend_state, key_triple) mgr_method" where
  "import_isd kind cfg = import_triple kind (cfg_isd_enc cfg) (cfg_isd_mac cfg) (cfg_isd_dek cfg)"

text \<open>The handles name these keys in the backend.\<close>

definition named :: "'r backend_state \<Rightarrow> key_triple \<Rightarrow> key_values \<Rightarrow> bool" where
  "named b t v = (\<exists>kind. triple_at b t kind (fst v) (fst (snd v)) (snd (snd v)))"

text \<open>What is known of the backend: its size, and the key sets imported so far.\<close>

definition holds :: "(key_triple \<times> key_values) list \<Rightarrow> ('t, 'r backend_state) manager \<Rightarrow> bool" where
  "holds tvs m = (length (bs_keys (m_backend m)) \<le> 65536 \<and> (\<forall>(t, v) \<in> set tvs. named (m_backend m) t v))"

lemma holds_kept: "holds tvs m \<Longrightarrow> keys_kept (m_backend m) (m_backend m') \<Longrightarrow> holds tvs m'"
  by (fastforce simp: holds_def keys_kept_def named_def triple_at_def)

lemma keys_kept_trans: "keys_kept b b' \<Longrightarrow> keys_kept b' b'' \<Longrightarrow> keys_kept b b''"
  by (simp add: keys_kept_def)

text \<open>A client whose steps keep the keys, and who may import the key sets it owns, uses the handles of an
  import in all that follows.\<close>

locale key_client =
  fixes step :: "('t, 'r backend_state) manager \<Rightarrow> ('t, 'r backend_state) manager \<Rightarrow> bool" and owned :: "key_values set"
  assumes keeps_keys: "step m m' \<Longrightarrow> length (bs_keys (m_backend m)) \<le> 65536 \<Longrightarrow> keys_kept (m_backend m) (m_backend m')"
    and may_import: "v \<in> owned \<Longrightarrow> k \<in> {fst v, fst (snd v), snd (snd v)} \<Longrightarrow> import_on kind k m = (r, m') \<Longrightarrow> step m m'"
begin

lemma only_step:
  assumes "\<And>m r m'. holds tvs m \<Longrightarrow> p m = (r, m') \<Longrightarrow> step m m'"
  shows "calls step (holds tvs) p"
proof (rule calls_step)
  fix m r m' assume K: "holds tvs m" and run: "p m = (r, m')"
  note 1 = assms [OF K run]
  have "keys_kept (m_backend m) (m_backend m')" by (rule keeps_keys [OF 1]) (use K in \<open>simp add: holds_def\<close>)
  then show "step m m' \<and> holds tvs m'" using 1 holds_kept [OF K] by blast
qed

lemma steps_keys:
  assumes "step\<^sup>*\<^sup>* m m'" "length (bs_keys (m_backend m)) \<le> 65536"
  shows "keys_kept (m_backend m) (m_backend m')"
  using assms(1)
proof (induction rule: rtranclp_induct)
  case base
  then show ?case by (simp add: keys_same)
next
  case (step m1 m2)
  have "length (bs_keys (m_backend m1)) \<le> 65536" using step.IH assms(2) by (simp add: keys_kept_def)
  from keys_kept_trans [OF step.IH keeps_keys [OF step.hyps(2) this]] show ?case .
qed

lemma only_import_on: "v \<in> owned \<Longrightarrow> k \<in> {fst v, fst (snd v), snd (snd v)} \<Longrightarrow> calls step (holds tvs) (import_on kind k)"
  by (rule only_step) (rule may_import)

text \<open>An import adds its key set to what is known.\<close>

lemma only_import:
  assumes v: "(a, b, c) \<in> owned" and f: "\<And>t. calls step (holds ((t, (a, b, c)) # tvs)) (f t)"
  shows "calls step (holds tvs) (bindP (map_errP h (import_triple kind a b c)) f)"
proof (rule calls_bind_post [where K' = "\<lambda>t. holds ((t, (a, b, c)) # tvs)"])
  show "calls step (holds tvs) (map_errP h (import_triple kind a b c))"
    unfolding import_triple_def by (intro calls_combine only_import_on [OF v]) simp_all
next
  fix m t m' assume K: "holds tvs m" and run: "map_errP h (import_triple kind a b c) m = (Inr t, m')"
  have r: "import_triple kind a b c m = (Inr t, m')" using run by (auto split: prod.splits sum.splits)
  have len: "length (bs_keys (m_backend m)) \<le> 65536" using K by (simp add: holds_def)
  note k = import_triple_keys [OF len r]
  have "holds tvs m'" using K k(1) by (auto simp: more_keys_def intro: holds_kept)
  then show "holds ((t, (a, b, c)) # tvs) m'" using k(2) [OF refl] by (auto simp: holds_def named_def)
next
  fix t m r m' assume K: "holds ((t, (a, b, c)) # tvs) m" and run: "f t m = (r, m')"
  from callsD [OF f K run] show "step\<^sup>*\<^sup>* m m' \<and> holds tvs m'" by (simp add: holds_def)
qed

lemma only_import_isd:
  assumes "isd_values cfg \<in> owned" "\<And>t. calls step (holds ((t, isd_values cfg) # tvs)) (f t)"
  shows "calls step (holds tvs) (bindP (map_errP h (import_isd kind cfg)) f)"
  unfolding import_isd_def
  by (rule only_import) (use assms in \<open>simp_all add: isd_values_def\<close>)

text \<open>A step that needs a property of the state its predecessor has left.\<close>

lemma only_after:
  assumes p: "calls step (holds tvs) p" and post: "\<And>m x m'. holds tvs m \<Longrightarrow> p m = (Inr x, m') \<Longrightarrow> Q x m'"
    and q: "\<And>x m r m'. holds tvs m \<Longrightarrow> Q x m \<Longrightarrow> f x m = (r, m') \<Longrightarrow> step m m'"
  shows "calls step (holds tvs) (bindP p f)"
proof (rule calls_bind_post [OF p, where K' = "\<lambda>x m. holds tvs m \<and> Q x m"])
  fix m x m' assume "holds tvs m" "p m = (Inr x, m')"
  then show "holds tvs m' \<and> Q x m'" using callsD [OF p] post by blast
next
  fix x m r m' assume K: "holds tvs m \<and> Q x m" and run: "f x m = (r, m')"
  have s: "step m m'" using q K run by blast
  then have "keys_kept (m_backend m) (m_backend m')" by (rule keeps_keys) (use K in \<open>simp add: holds_def\<close>)
  then show "step\<^sup>*\<^sup>* m m' \<and> holds tvs m'" using s K holds_kept by blast
qed

end

text \<open>What the single calls do to the keys.\<close>

lemma manager_call_keys:
  "mgr_probe T n m = (r1, m1) \<Longrightarrow> keys_kept (m_backend m) (m_backend m1)"
  "mgr_discover T x m = (r2, m2) \<Longrightarrow> keys_kept (m_backend m) (m_backend m2)"
  "closeP (rustcrypto P fill) m = (r3, m3) \<Longrightarrow> keys_kept (m_backend m) (m_backend m3)"
  "mgr_get_card_status T (rustcrypto P fill) aid m = (r4, m4) \<Longrightarrow> keys_kept (m_backend m) (m_backend m4)"
  "mgr_get_card_inventory T (rustcrypto P fill) aid m = (r5, m5) \<Longrightarrow> keys_kept (m_backend m) (m_backend m5)"
  "mgr_set_card_status T (rustcrypto P fill) a m = (r6, m6) \<Longrightarrow> keys_kept (m_backend m) (m_backend m6)"
proof -
  show "mgr_get_card_status T (rustcrypto P fill) aid m = (r4, m4) \<Longrightarrow> keys_kept (m_backend m) (m_backend m4)"
    "mgr_get_card_inventory T (rustcrypto P fill) aid m = (r5, m5) \<Longrightarrow> keys_kept (m_backend m) (m_backend m5)"
    "mgr_set_card_status T (rustcrypto P fill) a m = (r6, m6) \<Longrightarrow> keys_kept (m_backend m) (m_backend m6)"
    by (rule channel_call_keys [where M = "undefined :: unit miniz"], erule channel_call.intros)+
qed (auto simp: closeP_def keys_same close_channel_keys dest: before_keys)

text \<open>A configuration of the demonstrations.\<close>

definition demo_config :: config where
  "demo_config = \<lparr>cfg_endpoint = EJcsim [], cfg_isd_enc = replicate 16 1, cfg_isd_mac = replicate 16 2, cfg_isd_dek = replicate 16 3,
     cfg_isd_kvn = 0, cfg_keep = False\<rparr>"

definition demo_cap_config :: cap_config where
  "demo_cap_config = \<lparr>cap_bytes = [], cap_package_aid = [0xA0, 0, 0, 0, 1], cap_module_aid = [0xA0, 0, 0, 0, 1, 1],
     cap_applet_aid = [0xA0, 0, 0, 0, 1, 1]\<rparr>"

end
