(* ===== verification/Scll_IsdDemo.thy ===== *)
theory Scll_IsdDemo
  imports Scll_Demo
begin

text \<open>
  \<open>examples/src/bin/isd-lifecycle.rs\<close>: an applet and two keysets are put on a card, used and removed
  again, with a recovery that runs before, after and on failure. The program is a sequence of calls
  of the card manager; the relation \<open>demo_step\<close> lists the calls it may make.
\<close>

section \<open>The program\<close>

record demo_env =
  de_isd_aid :: bytes
  de_reported_kvns :: "u8 list"
  de_adv :: "scp_variant list"
  de_scp :: scp_variant
  de_isd_kind :: key_kind
  de_demo_kind :: key_kind
  de_isd :: key_triple
  de_ks1 :: key_triple
  de_ks2 :: key_triple
  de_isd_kvn :: u8
  de_isd_level :: u8
  de_keyops_level :: u8
  de_applet_level :: u8

definition delete_applet_best_effort :: "'t transport \<Rightarrow> 'b backend_ops \<Rightarrow> cap_config \<Rightarrow> ('t, 'b, unit) mgr_method" where
  "delete_applet_best_effort T B cap =
     matchP (mgr_delete_applet T B \<lparr>daa_instance_aid = cap_applet_aid cap, daa_elf_aid = Some (cap_package_aid cap),
         daa_cascade_elf = Always\<rparr>)
       (\<lambda>_. ret ()) (\<lambda>_. ret ())"

definition delete_keyset_tolerant :: "'t transport \<Rightarrow> 'b backend_ops \<Rightarrow> demo_env \<Rightarrow> u8 \<Rightarrow> ('t, 'b, unit) mgr_method" where
  "delete_keyset_tolerant T B env kvn =
     matchP (mgr_delete_sd_keyset T B kvn (de_isd_aid env))
       (\<lambda>_. ret ()) (\<lambda>e. if e = KeyNotFound then ret () else throw e)"

definition restore_version :: "demo_env \<Rightarrow> u8 option \<Rightarrow> u8" where
  "restore_version env known_original_kvn =
    (let preferred = (case known_original_kvn of Some k \<Rightarrow> k
        | None \<Rightarrow> (case find (\<lambda>k. k \<noteq> ISD_KVN_1 \<and> k \<noteq> ISD_KVN_2) (de_reported_kvns env) of Some k \<Rightarrow> k
          | None \<Rightarrow> if de_isd_kvn env \<noteq> 0 then de_isd_kvn env else JCSIM_FACTORY_KVN)) in
     if 0x01 \<le> preferred \<and> preferred \<le> 0x7F then preferred else JCSIM_FACTORY_KVN)"

text \<open>The body of the loop over the demonstration keysets, once one of them has opened a channel.\<close>

definition restore_with ::
    "'t transport \<Rightarrow> 'b backend_ops \<Rightarrow> demo_env \<Rightarrow> cap_config \<Rightarrow> u8 option \<Rightarrow> u8 \<Rightarrow> key_triple \<Rightarrow> ('t, 'b, u8) mgr_method" where
  "restore_with T B env cap known_original_kvn kvn keys =
     thenP (delete_applet_best_effort T B cap)
     (thenP (delete_keyset_tolerant T B env (if kvn = ISD_KVN_1 then ISD_KVN_2 else ISD_KVN_1))
     (let restore_kvn = restore_version env known_original_kvn in
      thenP (mgr_put_sd_keys T B \<lparr>psk_dek = tr_dek keys, psk_new_keys = new_keyset_of (de_isd env) (de_isd_kind env),
        psk_new_kvn = restore_kvn, psk_target_sd_aid = de_isd_aid env\<rparr>)
      (thenP (closeP B)
      (bindP (ex_open T B (de_isd_aid env) SecurityDomainAid (triple_keys (de_isd env)) (de_adv env) (de_scp env)
        restore_kvn (de_keyops_level env)) (\<lambda>p.
       thenP (delete_keyset_tolerant T B env ISD_KVN_1)
       (thenP (delete_keyset_tolerant T B env ISD_KVN_2)
       (thenP (closeP B)
       (ret (osr_kvn_effective p)))))))))"

primrec restore_loop ::
    "'t transport \<Rightarrow> 'b backend_ops \<Rightarrow> demo_env \<Rightarrow> cap_config \<Rightarrow> u8 option \<Rightarrow> scll_error \<Rightarrow> (u8 \<times> key_triple) list \<Rightarrow> ('t, 'b, u8) mgr_method" where
  "restore_loop T B env cap known_original_kvn cause [] = throw cause"
| "restore_loop T B env cap known_original_kvn cause (c # cs) =
     matchP (ex_open T B (de_isd_aid env) SecurityDomainAid (triple_keys (snd c)) (de_adv env) (de_scp env) (fst c)
         (de_keyops_level env))
       (\<lambda>_. restore_with T B env cap known_original_kvn (fst c) (snd c))
       (\<lambda>_. restore_loop T B env cap known_original_kvn cause cs)"

definition cleanup ::
    "'t transport \<Rightarrow> 'b backend_ops \<Rightarrow> demo_env \<Rightarrow> cap_config \<Rightarrow> u8 option \<Rightarrow> ('t, 'b, u8) mgr_method" where
  "cleanup T B env cap known_original_kvn =
     thenP (closeP B)
     (matchP (open_isd_original T B (de_isd_aid env) (de_isd env) (de_adv env) (de_scp env) (de_isd_kvn env)
         (de_reported_kvns env) known_original_kvn (de_keyops_level env))
       (\<lambda>p. if osr_kvn_effective p = ISD_KVN_1 \<or> osr_kvn_effective p = ISD_KVN_2 then throw CannotDeleteActiveKeyset
         else
           thenP (delete_applet_best_effort T B cap)
           (thenP (delete_keyset_tolerant T B env ISD_KVN_1)
           (thenP (delete_keyset_tolerant T B env ISD_KVN_2)
           (thenP (closeP B)
           (ret (osr_kvn_effective p))))))
       (\<lambda>cause. restore_loop T B env cap known_original_kvn cause
         [(ISD_KVN_2, de_ks2 env), (ISD_KVN_1, de_ks1 env)]))"

definition isd_flow ::
    "'t transport \<Rightarrow> 'b backend_ops \<Rightarrow> 'd miniz \<Rightarrow> demo_env \<Rightarrow> cap_config \<Rightarrow> u8 \<Rightarrow> ('t, 'b, unit) mgr_method" where
  "isd_flow T B M env cap original_sel =
    (let isd_open = (\<lambda>keys kvn level. ex_open T B (de_isd_aid env) SecurityDomainAid (triple_keys keys) (de_adv env) (de_scp env) kvn level);
         applet_open = (\<lambda>keys kvn. ex_open T B (cap_applet_aid cap) ApplicationAid (triple_keys keys) (de_adv env) (de_scp env) kvn
           (de_applet_level env));
         put = (\<lambda>dek keys kvn. mgr_put_sd_keys T B \<lparr>psk_dek = dek, psk_new_keys = new_keyset_of keys (de_demo_kind env),
           psk_new_kvn = kvn, psk_target_sd_aid = de_isd_aid env\<rparr>) in
     thenP (isd_open (de_isd env) original_sel (de_isd_level env))
     (thenP (load_fresh T B M \<lparr>lpa_target_sd_aid = de_isd_aid env, lpa_cap_zip = cap_bytes cap, lpa_lfdb_hash = []\<rparr>)
     (thenP (mgr_install_applet T B \<lparr>iaa_parent_sd_aid = de_isd_aid env, iaa_package_aid = cap_package_aid cap,
       iaa_module_aid = cap_module_aid cap, iaa_instance_aid = cap_applet_aid cap, iaa_privileges = (0x00, 0x00, 0x00),
       iaa_system_install_params = [], iaa_applet_install_params = []\<rparr>)
     (thenP (closeP B)
     (thenP (isd_open (de_isd env) original_sel (de_keyops_level env))
     (thenP (put (tr_dek (de_isd env)) (de_ks1 env) ISD_KVN_1)
     (thenP (closeP B)
     (thenP (applet_open (de_ks1 env) ISD_KVN_1)
     (thenP (mgr_transmit T B HELLO_CAPDU)
     (thenP (closeP B)
     (thenP (isd_open (de_ks1 env) ISD_KVN_1 (de_keyops_level env))
     (thenP (put (tr_dek (de_ks1 env)) (de_ks2 env) ISD_KVN_2)
     (thenP (closeP B)
     (thenP (applet_open (de_ks2 env) ISD_KVN_2)
     (thenP (mgr_transmit T B HELLO_CAPDU)
     (thenP (closeP B)
     (ret ())))))))))))))))))"

definition isd_main ::
    "'t transport \<Rightarrow> 'b backend_ops \<Rightarrow> 'd miniz \<Rightarrow> demo_env \<Rightarrow> cap_config \<Rightarrow> bool \<Rightarrow> ('t, 'b, unit) mgr_method" where
  "isd_main T B M env cap keep =
     bindP (cleanup T B env cap None) (\<lambda>original_kvn.
     let original_sel = (if original_kvn \<le> 0x7F then original_kvn else 0x00) in
     matchP (isd_flow T B M env cap original_sel)
       (\<lambda>_. if keep then ret () else bindP (cleanup T B env cap (Some original_kvn)) (\<lambda>_. ret ()))
       (\<lambda>e. if keep then throw e
         else matchP (cleanup T B env cap (Some original_kvn)) (\<lambda>_. throw e) (\<lambda>_. throw e)))"

record isd_options =
  io_aes256 :: bool
  io_applet_level :: "u8 option"

definition isd_config ::
    "environment \<Rightarrow> (ustr \<Rightarrow> bytes option) \<Rightarrow> 'd miniz \<Rightarrow> config_error + (config \<times> cap_config \<times> isd_options)" where
  "isd_config env read_file M =
     rbind (config_from_env env) (\<lambda>cfg.
     if cfg_isd_kvn cfg = ISD_KVN_1 \<or> cfg_isd_kvn cfg = ISD_KVN_2 then Inl (DemoVersion (cfg_isd_kvn cfg))
     else
       rbind (cap_config_from_env env read_file M) (\<lambda>cap.
       rbind (case env_opt env ''SCLL_APPLET_LEVEL'' of Some s \<Rightarrow> rbind (parse_u8 s) (\<lambda>l. Inr (Some l)) | None \<Rightarrow> Inr None) (\<lambda>applet_level.
       Inr (cfg, cap, \<lparr>io_aes256 = (env_opt env ''SCLL_ISD_AES256'' = Some (ustr ''1'')), io_applet_level = applet_level\<rparr>))))"

definition demo_values :: "bool \<Rightarrow> (bytes \<times> bytes \<times> bytes) \<times> (bytes \<times> bytes \<times> bytes)" where
  "demo_values aes256 = (if aes256 then ((KS1_ENC_256, KS1_MAC_256, KS1_DEK_256), (KS2_ENC_256, KS2_MAC_256, KS2_DEK_256))
     else ((KS1_ENC, KS1_MAC, KS1_DEK), (KS2_ENC, KS2_MAC, KS2_DEK)))"

text \<open>The protocol and the two kinds of keys, before any key is imported.\<close>

definition isd_choose :: "config \<Rightarrow> isd_options \<Rightarrow> card_info \<Rightarrow> demo_stop + (scp_variant \<times> key_kind \<times> key_kind)" where
  "isd_choose cfg opts info =
     rbind (map_err Failed (pick_scp info)) (\<lambda>scp.
     if io_aes256 opts \<and> \<not> is_scp03 scp then Inl (Failed ScpProtocolUnsupported)
     else
       rbind (ok_or Panic (key_kind_for scp (length (cfg_isd_enc cfg)))) (\<lambda>isd_kind.
       rbind (if io_aes256 opts then Inr KindAes256 else ok_or Panic (key_kind_for scp 16)) (\<lambda>demo_kind.
       Inr (scp, isd_kind, demo_kind))))"

definition isd_env ::
    "config \<Rightarrow> isd_options \<Rightarrow> card_info \<Rightarrow> scp_variant \<times> key_kind \<times> key_kind \<Rightarrow> key_triple \<Rightarrow> key_triple \<Rightarrow> key_triple \<Rightarrow> demo_env" where
  "isd_env cfg opts info chosen isd ks1 ks2 =
    (let (scp, isd_kind, demo_kind) = chosen; isd_level = security_level (cfg_endpoint cfg) RoleIsd in
     \<lparr>de_isd_aid = as_bytes (inf_isd_aid info), de_reported_kvns = map ks_kvn (inf_isd_keysets info),
      de_adv = inf_scp_supported info, de_scp = scp, de_isd_kind = isd_kind, de_demo_kind = demo_kind,
      de_isd = isd, de_ks1 = ks1, de_ks2 = ks2, de_isd_kvn = cfg_isd_kvn cfg, de_isd_level = isd_level,
      de_keyops_level = security_level (cfg_endpoint cfg) RoleIsdKeyOps,
      de_applet_level = (case io_applet_level opts of Some l \<Rightarrow> l | None \<Rightarrow> isd_level)\<rparr>)"

definition isd_run ::
    "'t transport \<Rightarrow> 'r backend_state backend_ops \<Rightarrow> 'd miniz \<Rightarrow> config \<Rightarrow> cap_config \<Rightarrow> isd_options \<Rightarrow>
     (('t, 'r backend_state) manager, demo_stop, unit) prog" where
  "isd_run T B M cfg cap opts =
     bindP (map_errP Failed (mgr_probe T (case cfg_endpoint cfg of EPcsc _ \<Rightarrow> Pcsc | EJcsim _ \<Rightarrow> Jcsim))) (\<lambda>_.
     bindP (map_errP Failed (mgr_discover T None)) (\<lambda>info.
     bindP (liftR (isd_choose cfg opts info)) (\<lambda>chosen.
     let isd_kind = fst (snd chosen); demo_kind = snd (snd chosen);
         ((k1e, k1m, k1d), (k2e, k2m, k2d)) = demo_values (io_aes256 opts) in
     bindP (map_errP Failed (import_triple isd_kind (cfg_isd_enc cfg) (cfg_isd_mac cfg) (cfg_isd_dek cfg))) (\<lambda>isd.
     bindP (map_errP Failed (import_triple demo_kind k1e k1m k1d)) (\<lambda>ks1.
     bindP (map_errP Failed (import_triple demo_kind k2e k2m k2d)) (\<lambda>ks2.
     map_errP Failed (isd_main T B M (isd_env cfg opts info chosen isd ks1 ks2) cap (cfg_keep cfg))))))))"

section \<open>The calls it may make\<close>

definition demo_versions :: "u8 set" where
  "demo_versions = {ISD_KVN_1, ISD_KVN_2}"

text \<open>The key sets the program deletes are those of the versions it owns. What it puts under these versions
  are its own key sets; under another version it only ever puts the card's original keys, at a
  version that PUT KEY can create.\<close>

inductive demo_step ::
    "'t transport \<Rightarrow> 'b backend_ops \<Rightarrow> 'd miniz \<Rightarrow> demo_env \<Rightarrow> cap_config \<Rightarrow> ('t, 'b) manager \<Rightarrow> ('t, 'b) manager \<Rightarrow> bool"
  for T B M env cap where
  StepClose: "demo_step T B M env cap m (close_channel B m)"
| StepOpen: "osa_sd_keys a \<in> triple_keys ` {de_isd env, de_ks1 env, de_ks2 env} \<Longrightarrow> osa_target_aid a \<in> {de_isd_aid env, cap_applet_aid cap} \<Longrightarrow>
    mgr_open_scp T B a m = (r1, m') \<Longrightarrow> demo_step T B M env cap m m'"
| StepDeleteKeyset: "kvn \<in> demo_versions \<Longrightarrow> mgr_delete_sd_keyset T B kvn (de_isd_aid env) m = (r2, m') \<Longrightarrow>
    demo_step T B M env cap m m'"
| StepPutDemo: "psk_new_kvn a \<in> demo_versions \<Longrightarrow> keys \<in> {de_ks1 env, de_ks2 env} \<Longrightarrow>
    psk_new_keys a = new_keyset_of keys (de_demo_kind env) \<Longrightarrow> mgr_put_sd_keys T B a m = (r3, m') \<Longrightarrow> demo_step T B M env cap m m'"
| StepRestore: "psk_new_kvn a \<notin> demo_versions \<Longrightarrow> 0x01 \<le> psk_new_kvn a \<Longrightarrow> psk_new_kvn a \<le> 0x7F \<Longrightarrow>
    psk_new_keys a = new_keyset_of (de_isd env) (de_isd_kind env) \<Longrightarrow> mgr_put_sd_keys T B a m = (r4, m') \<Longrightarrow> demo_step T B M env cap m m'"
| StepDeleteApplet: "daa_instance_aid a = cap_applet_aid cap \<Longrightarrow> daa_elf_aid a = Some (cap_package_aid cap) \<Longrightarrow>
    mgr_delete_applet T B a m = (r5, m') \<Longrightarrow> demo_step T B M env cap m m'"
| StepLoad: "load_fresh T B M a m = (r6, m') \<Longrightarrow> demo_step T B M env cap m m'"
| StepInstall: "iaa_instance_aid a = cap_applet_aid cap \<Longrightarrow> mgr_install_applet T B a m = (r7, m') \<Longrightarrow> demo_step T B M env cap m m'"
| StepHello: "mgr_transmit T B HELLO_CAPDU m = (r8, m') \<Longrightarrow> demo_step T B M env cap m m'"

text \<open>A program that makes such calls only.\<close>

abbreviation demo_only ::
    "'t transport \<Rightarrow> 'b backend_ops \<Rightarrow> 'd miniz \<Rightarrow> demo_env \<Rightarrow> cap_config \<Rightarrow> ('t, 'b, 'a) mgr_method \<Rightarrow> bool" where
  "demo_only T B M env cap \<equiv> calls (demo_step T B M env cap) (\<lambda>_. True)"

lemma demo_only_step:
  assumes "\<And>m r m'. p m = (r, m') \<Longrightarrow> demo_step T B M env cap m m'"
  shows "demo_only T B M env cap p"
  by (rule calls_step) (simp add: assms)

lemma demo_only_calls:
  "demo_only T B M env cap (closeP B)"
  "keys \<in> {de_isd env, de_ks1 env, de_ks2 env} \<Longrightarrow> aid \<in> {de_isd_aid env, cap_applet_aid cap} \<Longrightarrow>
     demo_only T B M env cap (ex_open T B aid k (triple_keys keys) adv scp kvn lvl)"
  "demo_only T B M env cap (delete_applet_best_effort T B cap)"
  "kvn \<in> demo_versions \<Longrightarrow> demo_only T B M env cap (delete_keyset_tolerant T B env kvn)"
  "demo_only T B M env cap (load_fresh T B M a)"
  "demo_only T B M env cap (mgr_transmit T B HELLO_CAPDU)"
  "iaa_instance_aid i = cap_applet_aid cap \<Longrightarrow> demo_only T B M env cap (mgr_install_applet T B i)"
proof -
  show "demo_only T B M env cap (closeP B)" by (rule demo_only_step) (auto simp: closeP_def intro: StepClose)
  show "demo_only T B M env cap (ex_open T B aid k (triple_keys keys) adv scp kvn lvl)"
    if "keys \<in> {de_isd env, de_ks1 env, de_ks2 env}" "aid \<in> {de_isd_aid env, cap_applet_aid cap}"
    by (rule demo_only_step) (use that in \<open>auto simp: ex_open_def intro!: StepOpen\<close>)
  show "demo_only T B M env cap (delete_applet_best_effort T B cap)"
    unfolding delete_applet_best_effort_def
    by (intro calls_combine demo_only_step) (erule StepDeleteApplet [rotated 2]; simp)
  show "demo_only T B M env cap (delete_keyset_tolerant T B env kvn)" if "kvn \<in> demo_versions"
    unfolding delete_keyset_tolerant_def
    by (intro calls_combine demo_only_step) (use that in \<open>auto intro: StepDeleteKeyset\<close>)
  show "demo_only T B M env cap (load_fresh T B M a)" by (rule demo_only_step) (rule StepLoad)
  show "demo_only T B M env cap (mgr_transmit T B HELLO_CAPDU)" by (rule demo_only_step) (rule StepHello)
  show "demo_only T B M env cap (mgr_install_applet T B i)" if "iaa_instance_aid i = cap_applet_aid cap"
    by (rule demo_only_step) (rule StepInstall [OF that])
qed

lemma demo_only_open_original:
  "demo_only T B M env cap (open_isd_original T B (de_isd_aid env) (de_isd env) adv scp cfg reported known lvl)"
proof -
  have "demo_only T B M env cap (ex_open T B (de_isd_aid env) SecurityDomainAid (triple_keys (de_isd env)) adv scp kvn lvl)" for kvn
    by (rule demo_only_calls(2)) simp_all
  then show ?thesis unfolding open_isd_original_def by (rule calls_open_first)
qed

lemma restore_version_ok:
  assumes "de_isd_kvn env \<notin> demo_versions" "known \<noteq> Some ISD_KVN_1" "known \<noteq> Some ISD_KVN_2"
  shows "restore_version env known \<notin> demo_versions" "0x01 \<le> restore_version env known" "restore_version env known \<le> 0x7F"
proof -
  define pre where "pre = (case known of Some k \<Rightarrow> k
    | None \<Rightarrow> (case find (\<lambda>k. k \<noteq> ISD_KVN_1 \<and> k \<noteq> ISD_KVN_2) (de_reported_kvns env) of Some k \<Rightarrow> k
      | None \<Rightarrow> if de_isd_kvn env \<noteq> 0 then de_isd_kvn env else JCSIM_FACTORY_KVN))"
  have f: "JCSIM_FACTORY_KVN \<notin> demo_versions" "0x01 \<le> JCSIM_FACTORY_KVN" "JCSIM_FACTORY_KVN \<le> 0x7F"
    by (simp_all add: demo_versions_def ISD_KVN_1_def ISD_KVN_2_def JCSIM_FACTORY_KVN_def)
  have "pre \<notin> demo_versions"
  proof (cases known)
    case None
    show ?thesis
    proof (cases "find (\<lambda>k. k \<noteq> ISD_KVN_1 \<and> k \<noteq> ISD_KVN_2) (de_reported_kvns env)")
      case (Some k)
      then have "k \<noteq> ISD_KVN_1" "k \<noteq> ISD_KVN_2" by (auto simp: find_Some_iff)
      then show ?thesis using None Some by (simp add: pre_def demo_versions_def)
    qed (use None assms(1) f(1) in \<open>simp add: pre_def\<close>)
  qed (use assms in \<open>simp add: pre_def demo_versions_def\<close>)
  moreover have "restore_version env known = (if 0x01 \<le> pre \<and> pre \<le> 0x7F then pre else JCSIM_FACTORY_KVN)"
    by (simp add: restore_version_def pre_def Let_def)
  ultimately show "restore_version env known \<notin> demo_versions" "0x01 \<le> restore_version env known" "restore_version env known \<le> 0x7F"
    using f by simp_all
qed

lemma demo_only_restore:
  assumes "de_isd_kvn env \<notin> demo_versions" "known \<noteq> Some ISD_KVN_1" "known \<noteq> Some ISD_KVN_2"
  shows "demo_only T B M env cap (restore_with T B env cap known kvn keys)"
proof -
  have put: "demo_only T B M env cap (mgr_put_sd_keys T B \<lparr>psk_dek = tr_dek keys, psk_new_keys = new_keyset_of (de_isd env) (de_isd_kind env),
      psk_new_kvn = restore_version env known, psk_target_sd_aid = de_isd_aid env\<rparr>)"
    by (rule demo_only_step, rule StepRestore) (use restore_version_ok [OF assms] in simp_all)
  show ?thesis
    unfolding restore_with_def Let_def
    by (intro calls_combine demo_only_calls put) (simp_all add: demo_versions_def)
qed

lemma demo_only_restore_loop:
  assumes "de_isd_kvn env \<notin> demo_versions" "known \<noteq> Some ISD_KVN_1" "known \<noteq> Some ISD_KVN_2"
    and "snd ` set cs \<subseteq> {de_ks1 env, de_ks2 env}"
  shows "demo_only T B M env cap (restore_loop T B env cap known cause cs)"
  using assms(4)
proof (induction cs)
  case (Cons c cs)
  then have k: "snd c \<in> {de_isd env, de_ks1 env, de_ks2 env}" "snd ` set cs \<subseteq> {de_ks1 env, de_ks2 env}" by auto
  show ?case unfolding restore_loop.simps
    by (intro calls_combine demo_only_calls demo_only_restore [OF assms(1-3)] Cons.IH k) simp
qed (simp add: calls_combine)

lemma demo_only_cleanup:
  assumes "de_isd_kvn env \<notin> demo_versions" "known \<noteq> Some ISD_KVN_1" "known \<noteq> Some ISD_KVN_2"
  shows "demo_only T B M env cap (cleanup T B env cap known)"
  unfolding cleanup_def
  by (intro calls_combine demo_only_calls demo_only_open_original demo_only_restore_loop [OF assms])
    (auto simp: demo_versions_def)

lemma demo_only_flow: "demo_only T B M env cap (isd_flow T B M env cap sel)"
proof -
  have put: "demo_only T B M env cap (mgr_put_sd_keys T B \<lparr>psk_dek = d, psk_new_keys = new_keyset_of keys (de_demo_kind env),
      psk_new_kvn = kvn, psk_target_sd_aid = aid\<rparr>)" if "kvn \<in> demo_versions" "keys \<in> {de_ks1 env, de_ks2 env}" for d keys kvn aid
    by (rule demo_only_step, rule StepPutDemo) (use that in simp_all)
  show ?thesis
    unfolding isd_flow_def Let_def
    by (intro calls_combine demo_only_calls put) (simp_all add: demo_versions_def)
qed

text \<open>What \<open>cleanup\<close> returns: a key version that is not the program's, with no channel left open.\<close>

text \<open>A channel that was asked for under a key version is open under that version.\<close>

lemma begin_pins:
  "begin03 B he hm kvn lvl hc aid bs s = (Inr x, s') \<Longrightarrow> kvn \<noteq> 0 \<Longrightarrow> parse_iu_response03 bs = Inr iu3 \<Longrightarrow> iu3_kvn iu3 = kvn"
  "begin02 B he hm hx i kvn lvl hc bs s = (Inr y, s') \<Longrightarrow> kvn \<noteq> 0 \<Longrightarrow> parse_iu_response02 bs = Inr iu2 \<Longrightarrow> iu2_kvn iu2 = kvn"
  by (auto simp: begin03_def begin02_def split: if_splits)

lemma open_arms_pin:
  "open_arm03 T B args aid i s = (Inr (ses, kvn, i', lvl), s') \<Longrightarrow> osa_kvn args \<noteq> 0 \<Longrightarrow> kvn = osa_kvn args"
  "open_arm02 T B args i s = (Inr (ses, kvn, i', lvl), s') \<Longrightarrow> osa_kvn args \<noteq> 0 \<Longrightarrow> kvn = osa_kvn args"
  by (auto simp: open_arm03_def open_arm02_def Let_def bindP_eq_Inr on_snd_def split: if_splits prod.splits dest!: begin_pins)

lemma open_scp_pins:
  assumes "open_scp T B args s = (Inr rep, s')" "osa_kvn args \<noteq> 0"
  shows "osr_kvn_effective rep = osa_kvn args"
proof -
  obtain v fci a s3 ses k i l s4 where
      run: "(case v of Scp03 i \<Rightarrow> open_arm03 T B args (invoker_aid_of fci a) i | Scp02 i \<Rightarrow> open_arm02 T B args i) s3 = (Inr (ses, k, i, l), s4)"
      and "osr_kvn_effective rep = k"
    using assms(1) by (fastforce simp: open_scp_def Let_def bindP_eq_Inr split: prod.splits)
  with assms(2) show ?thesis by (cases v) (auto dest: open_arms_pin)
qed

lemma ex_open_pins:
  "ex_open T B aid k keys adv scp kvn lvl m = (Inr rep, m') \<Longrightarrow> kvn \<noteq> 0 \<Longrightarrow> osr_kvn_effective rep = kvn"
  by (auto simp: ex_open_def mgr_open_scp_def bindP_eq_Inr on_parts_def split: prod.splits dest: open_scp_pins)

lemma restore_with_result:
  assumes "de_isd_kvn env \<notin> demo_versions" "known \<noteq> Some ISD_KVN_1" "known \<noteq> Some ISD_KVN_2"
    and "restore_with T B env cap known kvn keys m = (Inr k, m')"
  shows "k \<notin> demo_versions \<and> m_session m' = None"
proof -
  note v = restore_version_ok [OF assms(1-3)]
  from v(2) have "restore_version env known \<noteq> 0" by auto
  with v(1) assms(4) show ?thesis
    unfolding restore_with_def Let_def
    by (auto simp: thenP_eq_Inr bindP_eq_Inr dest: ex_open_pins closeP_closed)
qed

lemma restore_loop_result:
  assumes "de_isd_kvn env \<notin> demo_versions" "known \<noteq> Some ISD_KVN_1" "known \<noteq> Some ISD_KVN_2"
  shows "restore_loop T B env cap known cause cs m = (Inr k, m') \<Longrightarrow> k \<notin> demo_versions \<and> m_session m' = None"
proof (induction cs arbitrary: m)
  case (Cons c cs)
  obtain r m1 where o: "ex_open T B (de_isd_aid env) SecurityDomainAid (triple_keys (snd c)) (de_adv env) (de_scp env) (fst c)
      (de_keyops_level env) m = (r, m1)" by (meson surj_pair)
  show ?case
  proof (cases r)
    case (Inl e)
    then have "restore_loop T B env cap known cause cs m1 = (Inr k, m')" using Cons.prems o by (simp add: matchP_def)
    then show ?thesis by (rule Cons.IH)
  next
    case (Inr p)
    then have "restore_with T B env cap known (fst c) (snd c) m1 = (Inr k, m')" using Cons.prems o by (simp add: matchP_def)
    then show ?thesis by (rule restore_with_result [OF assms])
  qed
qed simp

lemma cleanup_result:
  assumes "de_isd_kvn env \<notin> demo_versions" "known \<noteq> Some ISD_KVN_1" "known \<noteq> Some ISD_KVN_2"
    and "cleanup T B env cap known m = (Inr k, m')"
  shows "k \<notin> demo_versions \<and> m_session m' = None"
proof -
  obtain m1 where run: "matchP (open_isd_original T B (de_isd_aid env) (de_isd env) (de_adv env) (de_scp env) (de_isd_kvn env)
         (de_reported_kvns env) known (de_keyops_level env))
       (\<lambda>p. if osr_kvn_effective p = ISD_KVN_1 \<or> osr_kvn_effective p = ISD_KVN_2 then throw CannotDeleteActiveKeyset
         else
           thenP (delete_applet_best_effort T B cap)
           (thenP (delete_keyset_tolerant T B env ISD_KVN_1)
           (thenP (delete_keyset_tolerant T B env ISD_KVN_2)
           (thenP (closeP B)
           (ret (osr_kvn_effective p))))))
       (\<lambda>cause. restore_loop T B env cap known cause
         [(ISD_KVN_2, de_ks2 env), (ISD_KVN_1, de_ks1 env)]) m1 = (Inr k, m')"
    using assms(4) unfolding cleanup_def thenP_eq_Inr by blast
  obtain r m2 where r: "open_isd_original T B (de_isd_aid env) (de_isd env) (de_adv env) (de_scp env) (de_isd_kvn env)
         (de_reported_kvns env) known (de_keyops_level env) m1 = (r, m2)" by (meson surj_pair)
  show ?thesis
  proof (cases r)
    case (Inl e)
    then have "restore_loop T B env cap known e [(ISD_KVN_2, de_ks2 env), (ISD_KVN_1, de_ks1 env)] m2 = (Inr k, m')"
      using run r by (simp add: matchP_def)
    then show ?thesis by (rule restore_loop_result [OF assms(1-3)])
  next
    case (Inr p)
    then show ?thesis
      using run r by (auto simp: matchP_def thenP_eq_Inr demo_versions_def split: if_splits dest: closeP_closed)
  qed
qed

section \<open>The whole run\<close>

lemma isd_main_calls:
  assumes "de_isd_kvn env \<notin> demo_versions"
  shows "demo_only T B M env cap (isd_main T B M env cap keep)"
  unfolding isd_main_def Let_def
proof (rule calls_bind_fact [where F = "\<lambda>k. k \<notin> demo_versions"])
  show "demo_only T B M env cap (cleanup T B env cap None)" by (rule demo_only_cleanup [OF assms]) simp_all
  show "k \<notin> demo_versions" if "cleanup T B env cap None m = (Inr k, m')" for m k m'
    using cleanup_result [OF assms _ _ that] by simp
  show "demo_only T B M env cap (matchP (isd_flow T B M env cap (if k \<le> 0x7F then k else 0))
       (\<lambda>_. if keep then ret () else bindP (cleanup T B env cap (Some k)) (\<lambda>_. ret ()))
       (\<lambda>e. if keep then throw e else matchP (cleanup T B env cap (Some k)) (\<lambda>_. throw e) (\<lambda>_. throw e)))"
    if "k \<notin> demo_versions" for k
  proof -
    have "Some k \<noteq> Some ISD_KVN_1" "Some k \<noteq> Some ISD_KVN_2" using that by (auto simp: demo_versions_def)
    then show ?thesis by (intro calls_combine demo_only_flow demo_only_cleanup [OF assms])
  qed
qed

lemma isd_main_closed:
  assumes "de_isd_kvn env \<notin> demo_versions" "isd_main T B M env cap False m = (Inr (), m')"
  shows "m_session m' = None"
proof -
  obtain k m1 where c: "cleanup T B env cap None m = (Inr k, m1)"
    and rest: "matchP (isd_flow T B M env cap (if k \<le> 0x7F then k else 0))
       (\<lambda>_. bindP (cleanup T B env cap (Some k)) (\<lambda>_. ret ()))
       (\<lambda>e. matchP (cleanup T B env cap (Some k)) (\<lambda>_. throw e) (\<lambda>_. throw e)) m1 = (Inr (), m')"
    using assms(2) by (auto simp: isd_main_def bindP_eq_Inr Let_def)
  have "k \<notin> demo_versions" using cleanup_result [OF assms(1) _ _ c] by simp
  then have k: "Some k \<noteq> Some ISD_KVN_1" "Some k \<noteq> Some ISD_KVN_2" by (auto simp: demo_versions_def)
  obtain k' m2 where "cleanup T B env cap (Some k) m2 = (Inr k', m')"
    using rest by (auto simp: matchP_def bindP_eq_Inr split: prod.splits sum.splits)
  from cleanup_result [OF assms(1) k this] show ?thesis by simp
qed

lemma isd_config_guard:
  "isd_config env read_file M = Inr (cfg, cap, opts) \<Longrightarrow> cfg_isd_kvn cfg \<notin> demo_versions"
  by (auto simp: isd_config_def rbind_eq_Inr demo_versions_def split: if_splits)

text \<open>The environment of a run: it has the key version of the configuration, and its handles name the
  configured keys and the two fixed key sets.\<close>

definition env_of_run :: "config \<Rightarrow> isd_options \<Rightarrow> 'r backend_state \<Rightarrow> demo_env \<Rightarrow> bool" where
  "env_of_run cfg opts b env = (case demo_values (io_aes256 opts) of ((k1e, k1m, k1d), (k2e, k2m, k2d)) \<Rightarrow>
     de_isd_kvn env = cfg_isd_kvn cfg
     \<and> triple_at b (de_isd env) (de_isd_kind env) (cfg_isd_enc cfg) (cfg_isd_mac cfg) (cfg_isd_dek cfg)
     \<and> triple_at b (de_ks1 env) (de_demo_kind env) k1e k1m k1d
     \<and> triple_at b (de_ks2 env) (de_demo_kind env) k2e k2m k2d)"

lemma isd_run_parts:
  assumes run: "isd_run T B M cfg cap opts m = (r, m')" and len: "length (bs_keys (m_backend m)) \<le> 65536"
  shows "(\<exists>e. r = Inl e) \<and> m_session m' = m_session m
    \<or> (\<exists>env m1 r1. m_session m1 = m_session m \<and> env_of_run cfg opts (m_backend m1) env
         \<and> isd_main T B M env cap (cfg_keep cfg) m1 = (r1, m') \<and> r = map_err Failed r1)"
  using run unfolding isd_run_def
proof (cases rule: bindP_cases)
  case stop
  then show ?thesis using before_keys(1) [OF stop(1)] by simp
next
  case (go x m1)
  note m1 = before_keys(1) [OF go(1)]
  from go(2) show ?thesis
  proof (cases rule: bindP_cases)
    case stop
    then show ?thesis using m1 before_keys(2) [OF stop(1)] by simp
  next
    case (go info m2)
    note m2 = before_keys(2) [OF go(1)]
    have l2: "length (bs_keys (m_backend m2)) \<le> 65536" and s2: "m_session m2 = m_session m" using m1 m2 len by simp_all
    obtain k1e k1m k1d k2e k2m k2d where v: "demo_values (io_aes256 opts) = ((k1e, k1m, k1d), (k2e, k2m, k2d))"
      by (metis surj_pair)
    show ?thesis
    proof (cases "isd_choose cfg opts info")
      case (Inl e)
      then show ?thesis using go(2) s2 by auto
    next
      case (Inr chosen)
      obtain scp ik dk where ch: "chosen = (scp, ik, dk)" by (metis surj_pair)
      from go(2) have "bindP (map_errP Failed (import_triple ik (cfg_isd_enc cfg) (cfg_isd_mac cfg) (cfg_isd_dek cfg))) (\<lambda>isd.
           bindP (map_errP Failed (import_triple dk k1e k1m k1d)) (\<lambda>ks1.
           bindP (map_errP Failed (import_triple dk k2e k2m k2d)) (\<lambda>ks2.
           map_errP Failed (isd_main T B M (isd_env cfg opts info chosen isd ks1 ks2) cap (cfg_keep cfg))))) m2 = (r, m')"
        by (simp add: Inr v ch)
      then show ?thesis
      proof (cases rule: bindP_cases)
        case stop
        then show ?thesis using import_triple_keys(1) [OF l2 stop(1)] s2 by (simp add: more_keys_def keys_kept_def)
      next
        case (go isd m3)
        note k3 = import_triple_keys [OF l2 go(1)]
        have l3: "length (bs_keys (m_backend m3)) \<le> 65536" using k3(1) l2 by (simp add: more_keys_def keys_kept_def)
        from go(2) show ?thesis
        proof (cases rule: bindP_cases)
          case stop
          then show ?thesis using import_triple_keys(1) [OF l3 stop(1)] k3(1) s2 by (simp add: more_keys_def keys_kept_def)
        next
          case (go ks1 m4)
          note k4 = import_triple_keys [OF l3 go(1)]
          have l4: "length (bs_keys (m_backend m4)) \<le> 65536" using k4(1) l3 by (simp add: more_keys_def keys_kept_def)
          from go(2) show ?thesis
          proof (cases rule: bindP_cases)
            case stop
            then show ?thesis using import_triple_keys(1) [OF l4 stop(1)] k3(1) k4(1) s2 by (simp add: more_keys_def keys_kept_def)
          next
            case (go ks2 m5)
            note k5 = import_triple_keys [OF l4 go(1)]
            let ?env = "isd_env cfg opts info chosen isd ks1 ks2"
            have "env_of_run cfg opts (m_backend m5) ?env"
              using triple_at_more [OF triple_at_more [OF k3(2) [OF refl] k4(1)] k5(1)] triple_at_more [OF k4(2) [OF refl] k5(1)]
                k5(2) [OF refl] by (simp add: env_of_run_def v isd_env_def ch Let_def)
            moreover have "m_session m5 = m_session m" using k3(1) k4(1) k5(1) s2 by (simp add: more_keys_def keys_kept_def)
            moreover obtain r1 where "isd_main T B M ?env cap (cfg_keep cfg) m5 = (r1, m')" "r = map_err Failed r1"
              using go(2) by (auto split: prod.splits)
            ultimately show ?thesis by blast
          qed
        qed
      qed
    qed
  qed
qed


text \<open>A run against a card that is discovered and then refuses every channel: it imports the nine keys and
  gives up in the recovery.\<close>

definition demo_isd_run :: "(demo_stop + unit) \<times> (bytes list, unit backend_state) manager" where
  "demo_isd_run = isd_run answering (rustcrypto toy_prims demo_fill) copying demo_config demo_cap_config
     \<lparr>io_aes256 = False, io_applet_level = None\<rparr> (manager_new (map snd demo_discovery) (backend_new ()))"


end
