(* ===== verification/Scll_SsdDemo.thy ===== *)
theory Scll_SsdDemo
  imports Scll_Demo
begin

text \<open>
  \<open>examples/src/bin/ssd-lifecycle.rs\<close>: a supplementary security domain is created, gets two key sets of
  its own and an applet, and is removed again; a failed run is cleaned up by discovering the card
  anew. The relation \<open>ssd_step\<close> lists the calls the program may make.
\<close>

section \<open>The program\<close>

definition DEFAULT_SSD_AID :: bytes where "DEFAULT_SSD_AID = [0xA0, 0x00, 0x00, 0x01, 0x51, 0x00, 0x00, 0x0F]"
definition SD_PKG_NEW :: bytes where "SD_PKG_NEW = [0xA0, 0x00, 0x00, 0x00, 0x03, 0x53, 0x50]"
definition SD_MOD_NEW :: bytes where "SD_MOD_NEW = [0xA0, 0x00, 0x00, 0x00, 0x03, 0x53, 0x50, 0x41]"
definition SD_PKG_GP :: bytes where "SD_PKG_GP = [0xA0, 0x00, 0x00, 0x01, 0x51, 0x53, 0x50]"
definition SD_MOD_GP :: bytes where "SD_MOD_GP = [0xA0, 0x00, 0x00, 0x01, 0x51, 0x53, 0x50, 0x41]"

definition ssd_config ::
    "environment \<Rightarrow> (ustr \<Rightarrow> bytes option) \<Rightarrow> 'd miniz \<Rightarrow> config_error + (config \<times> cap_config \<times> bytes)" where
  "ssd_config env read_file M =
     rbind (config_from_env env) (\<lambda>cfg.
     rbind (cap_config_from_env env read_file M) (\<lambda>cap.
     rbind (case env_opt env ''SCLL_SSD_AID'' of Some s \<Rightarrow> from_hex s | None \<Rightarrow> Inr DEFAULT_SSD_AID) (\<lambda>ssd_aid.
     Inr (cfg, cap, ssd_aid))))"

definition delete_cap ::
    "'t transport \<Rightarrow> 'b backend_ops \<Rightarrow> cap_config \<Rightarrow> delete_cascade \<Rightarrow> ('t, 'b, delete_object_report) mgr_method" where
  "delete_cap T B cap cascade = mgr_delete_applet T B
     \<lparr>daa_instance_aid = cap_applet_aid cap, daa_elf_aid = Some (cap_package_aid cap), daa_cascade_elf = cascade\<rparr>"

text \<open>What a run knows after discovery and the import of the keys.\<close>

record ssd_env =
  se_isd_aid :: bytes
  se_adv :: "scp_variant list"
  se_scp :: scp_variant
  se_reported_kvns :: "u8 list"
  se_isd :: key_triple
  se_ks1 :: key_triple
  se_ks2 :: key_triple

definition ssd_install_params :: "scp_variant \<Rightarrow> bytes" where
  "ssd_install_params scp =
    (let (scp_id, i_param) = (case scp of Scp03 i \<Rightarrow> (0x03, i) | Scp02 i \<Rightarrow> (0x02, i)) in
     [0xC9, 0x08, 0x81, 0x02, scp_id, i_param, 0x82, 0x02, 0x20, 0x20])"

definition sd_package :: "card_inventory \<Rightarrow> bytes \<times> bytes" where
  "sd_package inventory =
    (let has_new_sd_pkg = list_ex (\<lambda>e. as_bytes (elfe_aid e) = SD_PKG_NEW) (inv_elfs inventory) in
     if has_new_sd_pkg then (SD_PKG_NEW, SD_MOD_NEW) else (SD_PKG_GP, SD_MOD_GP))"

definition put_ssd_keys ::
    "'t transport \<Rightarrow> 'b backend_ops \<Rightarrow> bytes \<Rightarrow> key_handle \<Rightarrow> key_triple \<Rightarrow> u8 \<Rightarrow> ('t, 'b, put_keys_report) mgr_method" where
  "put_ssd_keys T B ssd_aid dek new_keys new_kvn = mgr_put_sd_keys T B
     \<lparr>psk_dek = dek, psk_new_keys = triple_new_keyset new_keys, psk_new_kvn = new_kvn, psk_target_sd_aid = ssd_aid\<rparr>"

text \<open>Steps 3 to 5: the domain is created over the channel of the issuer's domain, and gets its first key
  set over a channel of its own.\<close>

definition ssd_provision ::
    "'t transport \<Rightarrow> 'b backend_ops \<Rightarrow> config \<Rightarrow> cap_config \<Rightarrow> bytes \<Rightarrow> ssd_env \<Rightarrow> ('t, 'b, u8) mgr_method" where
  "ssd_provision T B cfg cap ssd_aid env =
     bindP (open_isd_original T B (se_isd_aid env) (se_isd env) (se_adv env) (se_scp env) (cfg_isd_kvn cfg)
       (se_reported_kvns env) None (security_level (cfg_endpoint cfg) RoleIsd)) (\<lambda>p.
     let original_kvn = osr_kvn_effective p;
         original_sel = (if original_kvn \<le> 0x7F then original_kvn else 0x00) in
     bindP (mgr_get_card_inventory T B (se_isd_aid env)) (\<lambda>inv.
     let (sd_pkg, sd_mod) = sd_package (gci_inventory inv) in
     thenP (ignoreP (delete_cap T B cap Always))
     (thenP (ignoreP (mgr_delete_ssd T B ssd_aid Never))
     (thenP (mgr_create_ssd T B \<lparr>csa_parent_sd_aid = se_isd_aid env, csa_ssd_aid = ssd_aid, csa_elf_aid = sd_pkg,
       csa_module_aid = sd_mod, csa_privileges = (0x80, 0x00, 0x00), csa_install_params = ssd_install_params (se_scp env)\<rparr>)
     (thenP (closeP B)
     (thenP (thenP (open_isd_original T B ssd_aid (se_isd env) (se_adv env) (se_scp env) (cfg_isd_kvn cfg) [] (Some original_kvn)
         (security_level (cfg_endpoint cfg) RoleSsdPutKey))
       (put_ssd_keys T B ssd_aid (tr_dek (se_isd env)) (se_ks1 env) KVN_1))
     (thenP (closeP B)
     (ret original_sel))))))))"

definition open_isd ::
    "'t transport \<Rightarrow> 'b backend_ops \<Rightarrow> config \<Rightarrow> ssd_env \<Rightarrow> u8 \<Rightarrow> ('t, 'b, open_scp_report) mgr_method" where
  "open_isd T B cfg env original_sel = ex_open T B (se_isd_aid env) SecurityDomainAid (triple_keys (se_isd env))
     (se_adv env) (se_scp env) original_sel (security_level (cfg_endpoint cfg) RoleIsd)"

definition open_applet ::
    "'t transport \<Rightarrow> 'b backend_ops \<Rightarrow> config \<Rightarrow> cap_config \<Rightarrow> ssd_env \<Rightarrow> key_triple \<Rightarrow> u8 \<Rightarrow> ('t, 'b, open_scp_report) mgr_method" where
  "open_applet T B cfg cap env keys kvn = ex_open T B (cap_applet_aid cap) ApplicationAid (triple_keys keys)
     (se_adv env) (se_scp env) kvn (security_level (cfg_endpoint cfg) RoleSsd)"

text \<open>Steps 6 to 10: the package goes into the domain, the applet is installed and greeted under the first
  key set, the second key set is added under the first, and the applet is greeted under the second.\<close>

definition ssd_use ::
    "'t transport \<Rightarrow> 'b backend_ops \<Rightarrow> 'd miniz \<Rightarrow> config \<Rightarrow> cap_config \<Rightarrow> bytes \<Rightarrow> ssd_env \<Rightarrow> u8 \<Rightarrow> ('t, 'b, unit) mgr_method" where
  "ssd_use T B M cfg cap ssd_aid env original_sel =
     thenP (open_isd T B cfg env original_sel)
     (thenP (load_fresh T B M \<lparr>lpa_target_sd_aid = ssd_aid, lpa_cap_zip = cap_bytes cap, lpa_lfdb_hash = []\<rparr>)
     (thenP (mgr_install_applet T B \<lparr>iaa_parent_sd_aid = ssd_aid, iaa_package_aid = cap_package_aid cap,
       iaa_module_aid = cap_module_aid cap, iaa_instance_aid = cap_applet_aid cap, iaa_privileges = (0x00, 0x00, 0x00),
       iaa_system_install_params = [], iaa_applet_install_params = []\<rparr>)
     (thenP (closeP B)
     (thenP (open_applet T B cfg cap env (se_ks1 env) KVN_1)
     (thenP (mgr_transmit T B HELLO_CAPDU)
     (thenP (closeP B)
     (thenP (thenP (ex_open T B ssd_aid SecurityDomainAid (triple_keys (se_ks1 env)) (se_adv env) (se_scp env) KVN_1
         (security_level (cfg_endpoint cfg) RoleSsdPutKey))
       (put_ssd_keys T B ssd_aid (tr_dek (se_ks1 env)) (se_ks2 env) KVN_2))
     (thenP (closeP B)
     (thenP (open_applet T B cfg cap env (se_ks2 env) KVN_2)
     (thenP (mgr_transmit T B HELLO_CAPDU)
     (closeP B)))))))))))"

text \<open>Steps 11 and 12.\<close>

definition ssd_teardown ::
    "'t transport \<Rightarrow> 'b backend_ops \<Rightarrow> config \<Rightarrow> cap_config \<Rightarrow> bytes \<Rightarrow> ssd_env \<Rightarrow> u8 \<Rightarrow> ('t, 'b, unit) mgr_method" where
  "ssd_teardown T B cfg cap ssd_aid env original_sel =
     thenP (open_isd T B cfg env original_sel)
     (thenP (delete_cap T B cap IfLastInstance)
     (thenP (mgr_delete_ssd T B ssd_aid OnlyIfEmpty)
     (closeP B)))"

definition ssd_choose :: "config \<Rightarrow> card_info \<Rightarrow> demo_stop + (scp_variant \<times> key_kind \<times> key_kind)" where
  "ssd_choose cfg info =
     rbind (map_err Failed (pick_scp info)) (\<lambda>scp.
     rbind (ok_or Panic (key_kind_for scp (length (cfg_isd_enc cfg)))) (\<lambda>isd_kind.
     rbind (ok_or Panic (key_kind_for scp 16)) (\<lambda>ssd_kind.
     Inr (scp, isd_kind, ssd_kind))))"

definition ssd_flow ::
    "'t transport \<Rightarrow> 'r backend_state backend_ops \<Rightarrow> 'd miniz \<Rightarrow> config \<Rightarrow> cap_config \<Rightarrow> bytes \<Rightarrow>
     (('t, 'r backend_state) manager, demo_stop, unit) prog" where
  "ssd_flow T B M cfg cap ssd_aid =
     bindP (map_errP Failed (mgr_probe T (case cfg_endpoint cfg of EPcsc _ \<Rightarrow> Pcsc | EJcsim _ \<Rightarrow> Jcsim))) (\<lambda>_.
     bindP (map_errP Failed (mgr_discover T None)) (\<lambda>info.
     bindP (liftR (ssd_choose cfg info)) (\<lambda>chosen.
     bindP (map_errP Failed (import_isd (fst (snd chosen)) cfg)) (\<lambda>isd.
     bindP (map_errP Failed (import_triple (snd (snd chosen)) KS1_ENC KS1_MAC KS1_DEK)) (\<lambda>ks1.
     bindP (map_errP Failed (import_triple (snd (snd chosen)) KS2_ENC KS2_MAC KS2_DEK)) (\<lambda>ks2.
     let env = \<lparr>se_isd_aid = as_bytes (inf_isd_aid info), se_adv = inf_scp_supported info, se_scp = fst chosen,
       se_reported_kvns = map ks_kvn (inf_isd_keysets info), se_isd = isd, se_ks1 = ks1, se_ks2 = ks2\<rparr> in
     map_errP Failed
      (bindP (ssd_provision T B cfg cap ssd_aid env) (\<lambda>original_sel.
       thenP (ssd_use T B M cfg cap ssd_aid env original_sel)
       (if cfg_keep cfg then ret ()
        else ssd_teardown T B cfg cap ssd_aid env original_sel)))))))))"

definition emergency_cleanup ::
    "'t transport \<Rightarrow> 'r backend_state backend_ops \<Rightarrow> config \<Rightarrow> cap_config \<Rightarrow> bytes \<Rightarrow>
     (('t, 'r backend_state) manager, demo_stop, unit) prog" where
  "emergency_cleanup T B cfg cap ssd_aid =
     thenP (map_errP Failed (closeP B))
     (bindP (map_errP Failed (mgr_discover T None)) (\<lambda>info.
     bindP (liftR (map_err Failed (pick_scp info))) (\<lambda>scp.
     bindP (liftR (ok_or Panic (key_kind_for scp (length (cfg_isd_enc cfg))))) (\<lambda>kind.
     bindP (map_errP Failed (import_isd kind cfg)) (\<lambda>isd.
     map_errP Failed
      (thenP (open_isd_original T B (as_bytes (inf_isd_aid info)) isd (inf_scp_supported info) scp (cfg_isd_kvn cfg)
        (map ks_kvn (inf_isd_keysets info)) None (security_level (cfg_endpoint cfg) RoleIsd))
      (thenP (ignoreP (delete_cap T B cap Always))
      (thenP (ignoreP (mgr_delete_ssd T B ssd_aid Never))
      (closeP B)))))))))"

text \<open>A panic unwinds through the run.\<close>

definition ssd_run ::
    "'t transport \<Rightarrow> 'r backend_state backend_ops \<Rightarrow> 'd miniz \<Rightarrow> config \<Rightarrow> cap_config \<Rightarrow> bytes \<Rightarrow>
     (('t, 'r backend_state) manager, demo_stop, unit) prog" where
  "ssd_run T B M cfg cap ssd_aid =
     matchP (ssd_flow T B M cfg cap ssd_aid) (\<lambda>_. ret ())
      (\<lambda>e. if e = Panic \<or> cfg_keep cfg then throw e
           else matchP (emergency_cleanup T B cfg cap ssd_aid) (\<lambda>_. throw e)
             (\<lambda>c. if c = Panic then throw Panic else throw e))"

section \<open>The calls it may make\<close>

definition ks1_values :: key_values where "ks1_values = (KS1_ENC, KS1_MAC, KS1_DEK)"
definition ks2_values :: key_values where "ks2_values = (KS2_ENC, KS2_MAC, KS2_DEK)"

text \<open>The issuer's keys are never written and no key set is deleted: PUT KEY goes only over a channel that
  has just been opened on the new domain, and carries one of the two fixed key sets under its own
  version. The domain is created with the one privilege of being a security domain, and deleted
  without cascade.\<close>

inductive ssd_step ::
    "'t transport \<Rightarrow> 'r backend_state backend_ops \<Rightarrow> 'd miniz \<Rightarrow> config \<Rightarrow> cap_config \<Rightarrow> bytes \<Rightarrow>
     ('t, 'r backend_state) manager \<Rightarrow> ('t, 'r backend_state) manager \<Rightarrow> bool"
  for T B M cfg cap ssd_aid where
  SsdProbe: "mgr_probe T n m = (r1, m') \<Longrightarrow> ssd_step T B M cfg cap ssd_aid m m'"
| SsdDiscover: "mgr_discover T None m = (r2, m') \<Longrightarrow> ssd_step T B M cfg cap ssd_aid m m'"
| SsdImport: "v \<in> {isd_values cfg, ks1_values, ks2_values} \<Longrightarrow> k \<in> {fst v, fst (snd v), snd (snd v)} \<Longrightarrow>
    import_on kind k m = (r3, m') \<Longrightarrow> ssd_step T B M cfg cap ssd_aid m m'"
| SsdClose: "ssd_step T B M cfg cap ssd_aid m (close_channel B m)"
| SsdOpen: "named (m_backend m) t v \<Longrightarrow> osa_sd_keys a = triple_keys t \<Longrightarrow>
    v = isd_values cfg \<or> v \<in> {ks1_values, ks2_values} \<and> osa_target_aid a \<in> {ssd_aid, cap_applet_aid cap} \<Longrightarrow>
    mgr_open_scp T B a m = (r4, m') \<Longrightarrow> ssd_step T B M cfg cap ssd_aid m m'"
| SsdPut: "mgr_open_scp T B a m0 = (Inr report, m) \<Longrightarrow> osa_target_aid a = ssd_aid \<Longrightarrow>
    (psk_new_kvn pk, v) \<in> {(KVN_1, ks1_values), (KVN_2, ks2_values)} \<Longrightarrow> named (m_backend m) t v \<Longrightarrow>
    psk_new_keys pk = triple_new_keyset t \<Longrightarrow> mgr_put_sd_keys T B pk m = (r5, m') \<Longrightarrow> ssd_step T B M cfg cap ssd_aid m m'"
| SsdInventory: "mgr_get_card_inventory T B aid m = (r6, m') \<Longrightarrow> ssd_step T B M cfg cap ssd_aid m m'"
| SsdCreate: "csa_ssd_aid c = ssd_aid \<Longrightarrow> csa_privileges c = (0x80, 0x00, 0x00) \<Longrightarrow> mgr_create_ssd T B c m = (r7, m') \<Longrightarrow>
    ssd_step T B M cfg cap ssd_aid m m'"
| SsdDeleteDomain: "cascade \<noteq> Always \<Longrightarrow> mgr_delete_ssd T B ssd_aid cascade m = (r8, m') \<Longrightarrow> ssd_step T B M cfg cap ssd_aid m m'"
| SsdDeleteCap: "delete_cap T B cap cascade m = (r9, m') \<Longrightarrow> ssd_step T B M cfg cap ssd_aid m m'"
| SsdLoad: "lpa_target_sd_aid l = ssd_aid \<Longrightarrow> lpa_cap_zip l = cap_bytes cap \<Longrightarrow> load_fresh T B M l m = (r10, m') \<Longrightarrow>
    ssd_step T B M cfg cap ssd_aid m m'"
| SsdInstall: "iaa_instance_aid i = cap_applet_aid cap \<Longrightarrow> iaa_privileges i = (0x00, 0x00, 0x00) \<Longrightarrow>
    mgr_install_applet T B i m = (r11, m') \<Longrightarrow> ssd_step T B M cfg cap ssd_aid m m'"
| SsdHello: "mgr_transmit T B HELLO_CAPDU m = (r12, m') \<Longrightarrow> ssd_step T B M cfg cap ssd_aid m m'"

text \<open>No call takes a key away.\<close>

lemma ssd_step_keys:
  assumes "ssd_step T (rustcrypto P fill) M cfg cap ssd_aid m m'" "length (bs_keys (m_backend m)) \<le> 65536"
  shows "keys_kept (m_backend m) (m_backend m')"
proof -
  have call: "channel_call T (rustcrypto P fill) M (m, inflate_new M) (m', i) \<Longrightarrow> ?thesis" for i
    by (rule channel_call_keys)
  from assms(1) show ?thesis
  proof (cases rule: ssd_step.cases)
    case (SsdImport v k kind r)
    then show ?thesis using import_on_key(1) [OF assms(2)] by (auto simp: more_keys_def)
  next
    case (SsdOpen t v a r)
    then show ?thesis by (auto intro: mgr_open_scp_keys)
  next
    case (SsdLoad l r)
    then show ?thesis using load_fresh_call call by blast
  qed (use call in \<open>auto simp: delete_cap_def close_channel_keys keys_same dest: before_keys intro: channel_call.intros\<close>)
qed

interpretation ssd: key_client "ssd_step T (rustcrypto P fill) M cfg cap ssd_aid" "{isd_values cfg, ks1_values, ks2_values}"
  by unfold_locales (blast intro: ssd_step_keys SsdImport)+

section \<open>The program makes these calls only\<close>

abbreviation ssd_only ::
    "'t transport \<Rightarrow> prims \<Rightarrow> 'r fill \<Rightarrow> 'd miniz \<Rightarrow> config \<Rightarrow> cap_config \<Rightarrow> bytes \<Rightarrow> (key_triple \<times> key_values) list \<Rightarrow>
     (('t, 'r backend_state) manager, 'e, 'a) prog \<Rightarrow> bool" where
  "ssd_only T P fill M cfg cap ssd_aid tvs \<equiv> calls (ssd_step T (rustcrypto P fill) M cfg cap ssd_aid) (holds tvs)"

lemma ssd_only_calls:
  "ssd_only T P fill M cfg cap ssd_aid tvs (mgr_probe T n)"
  "ssd_only T P fill M cfg cap ssd_aid tvs (mgr_discover T None)"
  "ssd_only T P fill M cfg cap ssd_aid tvs (closeP (rustcrypto P fill))"
  "ssd_only T P fill M cfg cap ssd_aid tvs (mgr_get_card_inventory T (rustcrypto P fill) aid)"
  "csa_ssd_aid c = ssd_aid \<Longrightarrow> csa_privileges c = (0x80, 0x00, 0x00) \<Longrightarrow>
     ssd_only T P fill M cfg cap ssd_aid tvs (mgr_create_ssd T (rustcrypto P fill) c)"
  "cascade \<noteq> Always \<Longrightarrow> ssd_only T P fill M cfg cap ssd_aid tvs (mgr_delete_ssd T (rustcrypto P fill) ssd_aid cascade)"
  "ssd_only T P fill M cfg cap ssd_aid tvs (delete_cap T (rustcrypto P fill) cap dc)"
  "lpa_target_sd_aid l = ssd_aid \<Longrightarrow> lpa_cap_zip l = cap_bytes cap \<Longrightarrow>
     ssd_only T P fill M cfg cap ssd_aid tvs (load_fresh T (rustcrypto P fill) M l)"
  "iaa_instance_aid i = cap_applet_aid cap \<Longrightarrow> iaa_privileges i = (0x00, 0x00, 0x00) \<Longrightarrow>
     ssd_only T P fill M cfg cap ssd_aid tvs (mgr_install_applet T (rustcrypto P fill) i)"
  "ssd_only T P fill M cfg cap ssd_aid tvs (mgr_transmit T (rustcrypto P fill) HELLO_CAPDU)"
  by (rule ssd.only_step, auto simp: closeP_def intro: ssd_step.intros)+

lemma ssd_only_open:
  assumes "(t, v) \<in> set tvs" "v = isd_values cfg \<or> v \<in> {ks1_values, ks2_values} \<and> aid \<in> {ssd_aid, cap_applet_aid cap}"
  shows "ssd_only T P fill M cfg cap ssd_aid tvs (ex_open T (rustcrypto P fill) aid kind (triple_keys t) adv scp kvn lvl)"
proof (rule ssd.only_step)
  fix m r m' assume "holds tvs m" "ex_open T (rustcrypto P fill) aid kind (triple_keys t) adv scp kvn lvl m = (r, m')"
  then show "ssd_step T (rustcrypto P fill) M cfg cap ssd_aid m m'"
    using assms by (intro SsdOpen [where t = t and v = v]) (auto simp: holds_def ex_open_def)
qed

lemma ssd_only_open_original:
  "(t, isd_values cfg) \<in> set tvs \<Longrightarrow>
     ssd_only T P fill M cfg cap ssd_aid tvs (open_isd_original T (rustcrypto P fill) aid t adv scp kvn reported known lvl)"
  unfolding open_isd_original_def by (rule calls_open_first) (rule ssd_only_open, auto)

text \<open>PUT KEY follows the successful opening of a channel on the domain.\<close>

definition opened_on :: "'t transport \<Rightarrow> 'b backend_ops \<Rightarrow> bytes \<Rightarrow> ('t, 'b) manager \<Rightarrow> bool" where
  "opened_on T B aid m = (\<exists>a m0 report. mgr_open_scp T B a m0 = (Inr report, m) \<and> osa_target_aid a = aid)"

lemma ex_open_opened: "ex_open T B aid k keys adv scp kvn lvl m = (Inr r, m') \<Longrightarrow> opened_on T B aid m'"
  by (force simp: ex_open_def opened_on_def)

lemma open_isd_original_opened: "open_isd_original T B aid t adv scp kvn reported known lvl m = (Inr r, m') \<Longrightarrow> opened_on T B aid m'"
  unfolding open_isd_original_def by (drule open_first_opened) (blast intro: ex_open_opened)

lemma ssd_only_put:
  assumes open_only: "ssd_only T P fill M cfg cap ssd_aid tvs p"
    and opened: "\<And>m x m'. p m = (Inr x, m') \<Longrightarrow> opened_on T (rustcrypto P fill) ssd_aid m'"
    and t: "(t, v) \<in> set tvs" and v: "(kvn, v) \<in> {(KVN_1, ks1_values), (KVN_2, ks2_values)}"
  shows "ssd_only T P fill M cfg cap ssd_aid tvs (thenP p (put_ssd_keys T (rustcrypto P fill) ssd_aid dek t kvn))"
  unfolding thenP_def
proof (rule ssd.only_after [OF open_only, where Q = "\<lambda>_. opened_on T (rustcrypto P fill) ssd_aid"])
  fix m r m' assume K: "holds tvs m" "opened_on T (rustcrypto P fill) ssd_aid m"
    and run: "put_ssd_keys T (rustcrypto P fill) ssd_aid dek t kvn m = (r, m')"
  obtain a m0 report where o: "mgr_open_scp T (rustcrypto P fill) a m0 = (Inr report, m)" "osa_target_aid a = ssd_aid"
    using K unfolding opened_on_def by blast
  show "ssd_step T (rustcrypto P fill) M cfg cap ssd_aid m m'"
    by (rule SsdPut [OF o, of _ v t]) (use K t v run in \<open>auto simp: holds_def put_ssd_keys_def\<close>)
qed (rule opened)

text \<open>The three parts of the script, then the whole.\<close>

lemma ssd_only_provision:
  assumes "(se_isd env, isd_values cfg) \<in> set tvs" "(se_ks1 env, ks1_values) \<in> set tvs"
  shows "ssd_only T P fill M cfg cap ssd_aid tvs (ssd_provision T (rustcrypto P fill) cfg cap ssd_aid env)"
proof -
  have p: "ssd_only T P fill M cfg cap ssd_aid tvs (thenP (open_isd_original T (rustcrypto P fill) ssd_aid (se_isd env) (se_adv env)
      (se_scp env) kvn [] known lvl) (put_ssd_keys T (rustcrypto P fill) ssd_aid dek (se_ks1 env) KVN_1))" for kvn known lvl dek
    by (rule ssd_only_put [OF ssd_only_open_original [OF assms(1)] open_isd_original_opened assms(2)]) simp_all
  show ?thesis
    unfolding ssd_provision_def ignoreP_def Let_def case_prod_beta
    by (intro calls_combine ssd_only_calls ssd_only_open_original [OF assms(1)] p) simp_all
qed

lemma ssd_only_use:
  assumes "(se_isd env, isd_values cfg) \<in> set tvs" "(se_ks1 env, ks1_values) \<in> set tvs" "(se_ks2 env, ks2_values) \<in> set tvs"
  shows "ssd_only T P fill M cfg cap ssd_aid tvs (ssd_use T (rustcrypto P fill) M cfg cap ssd_aid env sel)"
proof -
  have o: "ssd_only T P fill M cfg cap ssd_aid tvs (open_isd T (rustcrypto P fill) cfg env sel)"
    "ssd_only T P fill M cfg cap ssd_aid tvs (open_applet T (rustcrypto P fill) cfg cap env (se_ks1 env) KVN_1)"
    "ssd_only T P fill M cfg cap ssd_aid tvs (open_applet T (rustcrypto P fill) cfg cap env (se_ks2 env) KVN_2)"
    unfolding open_isd_def open_applet_def
    by (rule ssd_only_open [OF assms(1)], simp, rule ssd_only_open [OF assms(2)], simp, rule ssd_only_open [OF assms(3)], simp)
  have p: "ssd_only T P fill M cfg cap ssd_aid tvs (thenP (ex_open T (rustcrypto P fill) ssd_aid SecurityDomainAid (triple_keys (se_ks1 env)) (se_adv env)
      (se_scp env) KVN_1 lvl) (put_ssd_keys T (rustcrypto P fill) ssd_aid dek (se_ks2 env) KVN_2))" for lvl dek
    by (rule ssd_only_put [OF ssd_only_open [OF assms(2)] ex_open_opened assms(3)]) simp_all
  show ?thesis
    unfolding ssd_use_def by (intro calls_combine ssd_only_calls o p) simp_all
qed

lemma ssd_only_teardown:
  assumes "(se_isd env, isd_values cfg) \<in> set tvs"
  shows "ssd_only T P fill M cfg cap ssd_aid tvs (ssd_teardown T (rustcrypto P fill) cfg cap ssd_aid env sel)"
  unfolding ssd_teardown_def open_isd_def
  by (intro calls_combine ssd_only_calls ssd_only_open [OF assms]) simp_all

lemma values_known: "isd_values cfg = (cfg_isd_enc cfg, cfg_isd_mac cfg, cfg_isd_dek cfg)" "ks1_values = (KS1_ENC, KS1_MAC, KS1_DEK)"
  "ks2_values = (KS2_ENC, KS2_MAC, KS2_DEK)"
  by (simp_all add: isd_values_def ks1_values_def ks2_values_def)

lemma ssd_only_flow: "ssd_only T P fill M cfg cap ssd_aid tvs (ssd_flow T (rustcrypto P fill) M cfg cap ssd_aid)"
  unfolding ssd_flow_def Let_def
  by (intro calls_combine ssd_only_calls ssd.only_import_isd ssd.only_import ssd_only_provision ssd_only_use ssd_only_teardown)
    (simp_all add: values_known)

lemma ssd_only_cleanup: "ssd_only T P fill M cfg cap ssd_aid tvs (emergency_cleanup T (rustcrypto P fill) cfg cap ssd_aid)"
  unfolding emergency_cleanup_def ignoreP_def
  by (intro calls_combine ssd_only_calls ssd.only_import_isd ssd.only_import ssd_only_open_original) (simp_all add: values_known)

lemma ssd_only_run: "ssd_only T P fill M cfg cap ssd_aid tvs (ssd_run T (rustcrypto P fill) M cfg cap ssd_aid)"
  unfolding ssd_run_def by (intro calls_combine ssd_only_flow ssd_only_cleanup)

section \<open>How a run ends\<close>

lemma ssd_parts_closed:
  "ssd_use T B M cfg cap ssd_aid env sel m = (Inr x, m') \<Longrightarrow> m_session m' = None"
  "ssd_teardown T B cfg cap ssd_aid env sel m = (Inr x, m') \<Longrightarrow> m_session m' = None"
  by (auto simp: ssd_use_def ssd_teardown_def thenP_eq_Inr dest: closeP_closed)

lemma ssd_flow_closed: "ssd_flow T B M cfg cap ssd_aid m = (Inr x, m') \<Longrightarrow> m_session m' = None"
  by (auto simp: ssd_flow_def bindP_eq_Inr thenP_eq_Inr Let_def map_errP_Inr simp del: map_errP_apply
      split: if_splits dest: ssd_parts_closed)

lemma emergency_cleanup_closed: "emergency_cleanup T B cfg cap ssd_aid m = (Inr x, m') \<Longrightarrow> m_session m' = None"
  by (auto simp: emergency_cleanup_def bindP_eq_Inr thenP_eq_Inr map_errP_Inr simp del: map_errP_apply dest: closeP_closed)

text \<open>The recovery does not change the outcome.\<close>

lemma ssd_run_outcome:
  assumes "ssd_flow T B M cfg cap ssd_aid m = (r, m1)" "ssd_run T B M cfg cap ssd_aid m = (r', m')"
  shows "(r' = r \<or> r' = Inl Panic) \<and> (r' = Inr () \<longrightarrow> m' = m1)
    \<and> (cfg_keep cfg \<longrightarrow> m' = m1)
    \<and> (r \<noteq> r' \<longrightarrow> fst (emergency_cleanup T B cfg cap ssd_aid m1) = Inl Panic)"
proof (cases r)
  case (Inr x)
  then show ?thesis using assms by (simp add: ssd_run_def matchP_def)
next
  case (Inl e)
  obtain c m2 where c: "emergency_cleanup T B cfg cap ssd_aid m1 = (c, m2)" by (meson surj_pair)
  then show ?thesis using assms Inl by (cases c) (auto simp: ssd_run_def matchP_def split: if_splits)
qed


definition demo_ssd_run :: "(demo_stop + unit) \<times> (bytes list, unit backend_state) manager" where
  "demo_ssd_run = ssd_run answering (rustcrypto toy_prims demo_fill) copying demo_config demo_cap_config DEFAULT_SSD_AID
     (manager_new (map snd demo_discovery) (backend_new ()))"


end
