(* ===== verification/Scll_CardDemos.thy ===== *)
theory Scll_CardDemos
  imports Scll_Demo Scll_Lifecycle
begin

text \<open>
  The programs that look at a card: \<open>card-info.rs\<close>, \<open>card-status.rs\<close> and \<open>workflow-free.rs\<close> of
  \<open>examples/src/bin\<close>. The first two use the card manager; the relations \<open>reader_step\<close> and \<open>status_step\<close>
  list the calls they may make. The third threads the session through the free functions by hand,
  and is shown to do what the manager does.
\<close>

section \<open>Reading a card\<close>

definition transport_name_of :: "endpoint \<Rightarrow> transport_name" where
  "transport_name_of e = (case e of EPcsc _ \<Rightarrow> Pcsc | EJcsim _ \<Rightarrow> Jcsim)"

text \<open>\<open>pick_scp\<close> and \<open>key_kind_for\<close>, whose assertion is a panic.\<close>

definition choose_isd :: "config \<Rightarrow> card_info \<Rightarrow> demo_stop + (scp_variant \<times> key_kind)" where
  "choose_isd cfg info =
     rbind (map_err Failed (pick_scp info)) (\<lambda>scp.
     rbind (ok_or Panic (key_kind_for scp (length (cfg_isd_enc cfg)))) (\<lambda>kind.
     Inr (scp, kind)))"

definition open_reported ::
    "'t transport \<Rightarrow> 'b backend_ops \<Rightarrow> config \<Rightarrow> card_info \<Rightarrow> scp_variant \<Rightarrow> key_triple \<Rightarrow> ('t, 'b, open_scp_report) mgr_method" where
  "open_reported T B cfg info scp isd =
     open_isd_original T B (as_bytes (inf_isd_aid info)) isd (inf_scp_supported info) scp (cfg_isd_kvn cfg)
       (map ks_kvn (inf_isd_keysets info)) None (security_level (cfg_endpoint cfg) RoleIsd)"

definition assert_open :: "(('t, 'b) manager, demo_stop, unit) prog" where
  "assert_open m = (if is_channel_open m then Inr () else Inl Panic, m)"

definition card_info_run ::
    "'t transport \<Rightarrow> 'r backend_state backend_ops \<Rightarrow> config \<Rightarrow> (('t, 'r backend_state) manager, demo_stop, unit) prog" where
  "card_info_run T B cfg =
     bindP (map_errP Failed (mgr_probe T (transport_name_of (cfg_endpoint cfg)))) (\<lambda>_.
     bindP (map_errP Failed (mgr_discover T None)) (\<lambda>info.
     let isd_aid = as_bytes (inf_isd_aid info) in
     bindP (map_errP Failed (mgr_discover T (Some isd_aid))) (\<lambda>info2.
     bindP (liftR (choose_isd cfg info)) (\<lambda>chosen.
     bindP (map_errP Failed (import_isd (snd chosen) cfg)) (\<lambda>isd.
     bindP (map_errP Failed (open_reported T B cfg info (fst chosen) isd)) (\<lambda>p.
     thenP assert_open
     (map_errP Failed
       (thenP (mgr_get_card_status T B isd_aid)
       (thenP (mgr_get_card_inventory T B isd_aid)
       (thenP (closeP B)
       (thenP (mgr_open_scp T B \<lparr>osa_target_aid = isd_aid, osa_target_kind = SecurityDomainAid, osa_sd_keys = triple_keys isd,
         osa_advertised = inf_scp_supported info, osa_force_scp = None, osa_kvn = osr_kvn_requested p,
         osa_requested_level = security_level (cfg_endpoint cfg) RoleIsd\<rparr>)
       (closeP B))))))))))))"

section \<open>The life-cycle state\<close>

definition illegal_without_force :: "card_life_cycle \<Rightarrow> card_life_cycle" where
  "illegal_without_force current = (case current of OpReady \<Rightarrow> Secured | _ \<Rightarrow> OpReady)"

definition illegal_even_with_force :: "card_life_cycle \<Rightarrow> card_life_cycle" where
  "illegal_even_with_force current = (case current of OpReady \<Rightarrow> CardLocked | _ \<Rightarrow> OpReady)"

text \<open>A call that is expected to be refused with this error.\<close>

definition refused :: "scll_error \<Rightarrow> ('t, 'b, 'a) mgr_method \<Rightarrow> ('t, 'b, unit) mgr_method" where
  "refused e p = matchP p (\<lambda>rep. throw e) (\<lambda>other. if other = e then ret () else throw other)"

definition set_status_to ::
    "'t transport \<Rightarrow> 'b backend_ops \<Rightarrow> bytes \<Rightarrow> card_life_cycle \<Rightarrow> card_life_cycle option \<Rightarrow> bool \<Rightarrow> ('t, 'b, set_card_status_report) mgr_method" where
  "set_status_to T B isd_aid target current force = mgr_set_card_status T B
     \<lparr>sca_target_state = target, sca_current_state = current, sca_force = force, sca_isd_aid = isd_aid\<rparr>"

definition status_advance ::
    "'t transport \<Rightarrow> 'b backend_ops \<Rightarrow> config \<Rightarrow> bool \<Rightarrow> bytes \<Rightarrow> card_life_cycle \<Rightarrow> ('t, 'b, unit) mgr_method" where
  "status_advance T B cfg opt_in isd_aid current =
    (if \<not> opt_in then ret ()
     else (case cfg_endpoint cfg of
        EPcsc _ \<Rightarrow> ret ()
      | EJcsim _ \<Rightarrow>
         if current = OpReady then
           thenP (set_status_to T B isd_aid Initialized (Some current) False)
           (bindP (mgr_get_card_status T B isd_aid) (\<lambda>after.
            if gcs_state after \<noteq> Initialized then throw IllegalLifecycleTransition else ret ()))
         else ret ()))"

definition status_flow :: "'t transport \<Rightarrow> 'b backend_ops \<Rightarrow> config \<Rightarrow> bool \<Rightarrow> bytes \<Rightarrow> ('t, 'b, unit) mgr_method" where
  "status_flow T B cfg opt_in isd_aid =
     bindP (bindP (mgr_get_card_status T B isd_aid) (\<lambda>st.
       bindP (set_status_to T B isd_aid (gcs_state st) None False) (\<lambda>noop. ret (gcs_state st)))) (\<lambda>current.
     thenP (refused IllegalLifecycleTransition (set_status_to T B isd_aid (illegal_without_force current) (Some current) False))
     (thenP (refused IllegalLifecycleTransition (set_status_to T B isd_aid (illegal_even_with_force current) (Some current) True))
     (thenP (refused TerminateOutOfScope (set_status_to T B isd_aid Terminated (Some current) True))
     (thenP (status_advance T B cfg opt_in isd_aid current)
     (closeP B)))))"

definition card_status_run ::
    "'t transport \<Rightarrow> 'r backend_state backend_ops \<Rightarrow> config \<Rightarrow> bool \<Rightarrow> (('t, 'r backend_state) manager, demo_stop, unit) prog" where
  "card_status_run T B cfg opt_in =
     bindP (map_errP Failed (mgr_probe T (transport_name_of (cfg_endpoint cfg)))) (\<lambda>_.
     bindP (map_errP Failed (mgr_discover T None)) (\<lambda>info.
     bindP (liftR (choose_isd cfg info)) (\<lambda>chosen.
     bindP (map_errP Failed (import_isd (snd chosen) cfg)) (\<lambda>isd.
     map_errP Failed
      (thenP (open_reported T B cfg info (fst chosen) isd)
      (status_flow T B cfg opt_in (as_bytes (inf_isd_aid info))))))))"

subsection \<open>The refusals are made by the library\<close>

lemma illegal_targets:
  "check_transition c (illegal_without_force c) False = Inl IllegalLifecycleTransition"
  "check_transition c (illegal_even_with_force c) True = Inl IllegalLifecycleTransition"
  "check_transition c Terminated f = Inl TerminateOutOfScope"
  by (cases c; simp add: check_transition_matrix illegal_without_force_def illegal_even_with_force_def)+

lemma refused_silently:
  assumes "check_transition c t f = Inl e" "m_session m \<noteq> None"
  shows "refused e (set_status_to T B isd_aid t (Some c) f) m = (Inr (), m)"
  using assms
  by (auto simp: refused_def matchP_def set_status_to_def mgr_set_card_status_def in_session_def on_parts_def
      set_card_status_def current_state_def bindP_def liftR_def throw_def ret_def)

lemma keeps_session_open:
  "mgr_get_card_status T B aid m = (r1, m1) \<Longrightarrow> m_session m1 = m_session m"
  "mgr_set_card_status T B a m = (r2, m2) \<Longrightarrow> m_session m2 = m_session m"
  by (auto simp: mgr_get_card_status_def mgr_set_card_status_def in_session_def on_parts_def split: option.splits prod.splits)

text \<open>With an open channel the three refusals always come, and they reach neither the card nor the
  backend: the program is the one without them.\<close>

lemma status_flow_eq:
  assumes "m_session m \<noteq> None"
  shows "status_flow T B cfg opt_in isd_aid m =
    bindP (bindP (mgr_get_card_status T B isd_aid) (\<lambda>st.
       bindP (set_status_to T B isd_aid (gcs_state st) None False) (\<lambda>noop. ret (gcs_state st)))) (\<lambda>current.
     thenP (status_advance T B cfg opt_in isd_aid current) (closeP B)) m"
proof -
  let ?p = "bindP (mgr_get_card_status T B isd_aid) (\<lambda>st.
       bindP (set_status_to T B isd_aid (gcs_state st) None False) (\<lambda>noop. ret (gcs_state st)))"
  obtain r m1 where p: "?p m = (r, m1)" by (meson surj_pair)
  show ?thesis
  proof (cases r)
    case (Inl e)
    then show ?thesis using p by (simp add: status_flow_def bindP_def)
  next
    case (Inr c)
    obtain st m0 noop where "mgr_get_card_status T B isd_aid m = (Inr st, m0)"
      "set_status_to T B isd_aid (gcs_state st) None False m0 = (Inr noop, m1)"
      using p Inr by (auto simp: bindP_eq_Inr)
    then have "m_session m1 \<noteq> None"
      using assms keeps_session_open unfolding set_status_to_def by metis
    note q = refused_silently [OF illegal_targets(1) this] refused_silently [OF illegal_targets(2) this]
      refused_silently [OF illegal_targets(3) this]
    show ?thesis using p Inr by (simp add: status_flow_def bindP_def thenP_def q)
  qed
qed

subsection \<open>The calls\<close>

text \<open>Reading: the configured keys are the only ones imported and used.\<close>

inductive reader_step ::
    "'t transport \<Rightarrow> 'r backend_state backend_ops \<Rightarrow> config \<Rightarrow> ('t, 'r backend_state) manager \<Rightarrow> ('t, 'r backend_state) manager \<Rightarrow> bool"
  for T B cfg where
  RdProbe: "mgr_probe T n m = (r1, m') \<Longrightarrow> reader_step T B cfg m m'"
| RdDiscover: "mgr_discover T x m = (r2, m') \<Longrightarrow> reader_step T B cfg m m'"
| RdImport: "k \<in> {fst (isd_values cfg), fst (snd (isd_values cfg)), snd (snd (isd_values cfg))} \<Longrightarrow>
    import_on kind k m = (r3, m') \<Longrightarrow> reader_step T B cfg m m'"
| RdOpen: "named (m_backend m) t (isd_values cfg) \<Longrightarrow> osa_sd_keys a = triple_keys t \<Longrightarrow>
    mgr_open_scp T B a m = (r4, m') \<Longrightarrow> reader_step T B cfg m m'"
| RdStatus: "mgr_get_card_status T B aid m = (r5, m') \<Longrightarrow> reader_step T B cfg m m'"
| RdInventory: "mgr_get_card_inventory T B aid m = (r6, m') \<Longrightarrow> reader_step T B cfg m m'"
| RdClose: "closeP B m = (r7, m') \<Longrightarrow> reader_step T B cfg m m'"

text \<open>Two calls that may write the life-cycle state: to the state that has just been read, without force;
  and, on the simulator and only when asked to, from \<open>OP_READY\<close> to \<open>INITIALIZED\<close>.\<close>

inductive status_step ::
    "'t transport \<Rightarrow> 'r backend_state backend_ops \<Rightarrow> config \<Rightarrow> bool \<Rightarrow> ('t, 'r backend_state) manager \<Rightarrow> ('t, 'r backend_state) manager \<Rightarrow> bool"
  for T B cfg opt_in where
  StRead: "reader_step T B cfg m m' \<Longrightarrow> status_step T B cfg opt_in m m'"
| StSameState: "mgr_get_card_status T B aid m0 = (Inr st, m) \<Longrightarrow> set_status_to T B aid (gcs_state st) None False m = (r1, m') \<Longrightarrow>
    status_step T B cfg opt_in m m'"
| StAdvance: "opt_in \<Longrightarrow> cfg_endpoint cfg = EJcsim addr \<Longrightarrow> set_status_to T B aid Initialized (Some OpReady) False m = (r2, m') \<Longrightarrow>
    status_step T B cfg opt_in m m'"

lemma reader_step_keys:
  assumes "reader_step T (rustcrypto P fill) cfg m m'" "length (bs_keys (m_backend m)) \<le> 65536"
  shows "keys_kept (m_backend m) (m_backend m')"
  using assms(1)
proof (cases rule: reader_step.cases)
  case RdImport
  then show ?thesis using import_on_key(1) [OF assms(2)] by (auto simp: more_keys_def)
qed (auto intro: mgr_open_scp_keys manager_call_keys)

lemma status_step_keys:
  assumes "status_step T (rustcrypto P fill) cfg opt_in m m'" "length (bs_keys (m_backend m)) \<le> 65536"
  shows "keys_kept (m_backend m) (m_backend m')"
  using assms
  by (cases rule: status_step.cases) (auto simp: set_status_to_def intro: reader_step_keys manager_call_keys)

interpretation reader: key_client "reader_step T (rustcrypto P fill) cfg" "{isd_values cfg}"
  by unfold_locales (auto intro: reader_step_keys RdImport)

interpretation status: key_client "status_step T (rustcrypto P fill) cfg opt_in" "{isd_values cfg}"
  by unfold_locales (auto intro: status_step_keys StRead RdImport)

text \<open>The calls of both programs, for a relation that includes the reading steps.\<close>

lemma reader_calls:
  "calls (reader_step T (rustcrypto P fill) cfg) (holds tvs) (mgr_probe T n)"
  "calls (reader_step T (rustcrypto P fill) cfg) (holds tvs) (mgr_discover T x)"
  "calls (reader_step T (rustcrypto P fill) cfg) (holds tvs) (mgr_get_card_status T (rustcrypto P fill) aid)"
  "calls (reader_step T (rustcrypto P fill) cfg) (holds tvs) (mgr_get_card_inventory T (rustcrypto P fill) aid)"
  "calls (reader_step T (rustcrypto P fill) cfg) (holds tvs) (closeP (rustcrypto P fill))"
  by (rule reader.only_step, blast intro: reader_step.intros)+

lemma reader_open:
  assumes "(t, isd_values cfg) \<in> set tvs" "osa_sd_keys a = triple_keys t"
  shows "calls (reader_step T (rustcrypto P fill) cfg) (holds tvs) (mgr_open_scp T (rustcrypto P fill) a)"
proof (rule reader.only_step)
  fix m r m' assume "holds tvs m" "mgr_open_scp T (rustcrypto P fill) a m = (r, m')"
  then show "reader_step T (rustcrypto P fill) cfg m m'" using assms by (auto simp: holds_def intro: RdOpen)
qed

lemma reader_open_reported:
  "(t, isd_values cfg) \<in> set tvs \<Longrightarrow>
     calls (reader_step T (rustcrypto P fill) cfg) (holds tvs) (open_reported T (rustcrypto P fill) cfg info scp t)"
  unfolding open_reported_def open_isd_original_def ex_open_def
  by (rule calls_open_first) (rule reader_open, auto)

lemma calls_mono:
  assumes "calls R K p" "\<And>m m'. R m m' \<Longrightarrow> S m m'"
  shows "calls S K p"
proof (rule callsI)
  fix m r m' assume "K m" "p m = (r, m')"
  then have "R\<^sup>*\<^sup>* m m'" "K m'" using callsD [OF assms(1)] by blast+
  then show "S\<^sup>*\<^sup>* m m' \<and> K m'" using assms(2) by (auto elim: mono_rtranclp [rule_format, rotated])
qed

lemmas status_calls = reader_calls [THEN calls_mono, OF StRead] reader_open_reported [THEN calls_mono, OF _ StRead]

lemma card_info_calls: "calls (reader_step T (rustcrypto P fill) cfg) (holds tvs) (card_info_run T (rustcrypto P fill) cfg)"
proof -
  have a: "calls (reader_step T (rustcrypto P fill) cfg) (holds tvs) assert_open" for tvs
    by (rule callsI) (auto simp: assert_open_def)
  show ?thesis
    unfolding card_info_run_def Let_def
    by (intro calls_combine reader_calls reader.only_import_isd reader_open_reported reader_open a) simp_all
qed

lemma open_reported_open: "open_reported T B cfg info scp t m = (Inr r, m') \<Longrightarrow> m_session m' \<noteq> None"
  unfolding open_reported_def open_isd_original_def
  by (drule open_first_opened) (auto simp: ex_open_def mgr_open_scp_def bindP_eq_Inr)

lemma status_flow_calls:
  assumes "holds tvs m" "m_session m \<noteq> None" "status_flow T (rustcrypto P fill) cfg opt_in aid m = (r, m')"
  shows "(status_step T (rustcrypto P fill) cfg opt_in)\<^sup>*\<^sup>* m m' \<and> holds tvs m'"
proof -
  let ?R = "status_step T (rustcrypto P fill) cfg opt_in" and ?B = "rustcrypto P fill"
  have same: "calls ?R (holds tvs) (bindP (mgr_get_card_status T ?B aid) (\<lambda>st.
       bindP (set_status_to T ?B aid (gcs_state st) None False) (\<lambda>noop. ret (gcs_state st))))"
  proof (rule status.only_after [where Q = "\<lambda>st m. \<exists>m0. mgr_get_card_status T ?B aid m0 = (Inr st, m)"])
    fix st m r m' assume "\<exists>m0. mgr_get_card_status T ?B aid m0 = (Inr st, m)"
      "bindP (set_status_to T ?B aid (gcs_state st) None False) (\<lambda>noop. ret (gcs_state st)) m = (r, m')"
    then show "?R m m'" by (auto simp: bindP_def ret_def split: prod.splits sum.splits intro: StSameState)
  qed (auto intro: status_calls)
  have adv: "calls ?R (holds tvs) (status_advance T ?B cfg opt_in aid c)" for c
  proof (cases "opt_in \<and> (\<exists>a. cfg_endpoint cfg = EJcsim a) \<and> c = OpReady")
    case True
    then obtain a where e: "cfg_endpoint cfg = EJcsim a" and t: "opt_in" "c = OpReady" by blast
    have "calls ?R (holds tvs) (set_status_to T ?B aid Initialized (Some OpReady) False)"
      by (rule status.only_step) (rule StAdvance [OF t(1) e])
    then show ?thesis
      by (simp add: status_advance_def e t) (intro calls_combine status_calls)
  qed (auto simp: status_advance_def calls_combine split: endpoint.split)
  have "calls ?R (holds tvs) (bindP (bindP (mgr_get_card_status T ?B aid) (\<lambda>st.
       bindP (set_status_to T ?B aid (gcs_state st) None False) (\<lambda>noop. ret (gcs_state st)))) (\<lambda>current.
    thenP (status_advance T ?B cfg opt_in aid current) (closeP ?B)))"
    by (rule calls_bindP [OF same]) (intro calls_combine adv status_calls)
  then show ?thesis using assms(1,3) unfolding status_flow_eq [OF assms(2)] calls_def by blast
qed

lemma card_status_calls: "calls (status_step T (rustcrypto P fill) cfg opt_in) (holds tvs) (card_status_run T (rustcrypto P fill) cfg opt_in)"
proof -
  have open_flow: "calls (status_step T (rustcrypto P fill) cfg opt_in) (holds tvs)
      (thenP (open_reported T (rustcrypto P fill) cfg info scp t) (status_flow T (rustcrypto P fill) cfg opt_in aid))"
    if "(t, isd_values cfg) \<in> set tvs" for tvs info scp t aid
    unfolding thenP_def
  proof (rule calls_bind_post [where K' = "\<lambda>_ m. holds tvs m \<and> m_session m \<noteq> None"])
    show o: "calls (status_step T (rustcrypto P fill) cfg opt_in) (holds tvs) (open_reported T (rustcrypto P fill) cfg info scp t)"
      by (rule status_calls(6) [OF that])
    show "holds tvs m' \<and> m_session m' \<noteq> None"
      if "holds tvs m" "open_reported T (rustcrypto P fill) cfg info scp t m = (Inr x, m')" for m x m'
      using callsD [OF o that] open_reported_open [OF that(2)] by simp
  qed (use status_flow_calls in blast)
  show ?thesis
    unfolding card_status_run_def
    by (intro calls_combine status_calls status.only_import_isd open_flow) simp_all
qed

lemma assertion_holds: "open_reported T B cfg info scp t m = (Inr p, m') \<Longrightarrow> assert_open m' = (Inr (), m')"
  using open_reported_open by (simp add: assert_open_def is_channel_open_def)

text \<open>What the two programs do to a card, whatever it answers: the first reads only; the second writes the
  life-cycle state only by the two calls above. A run that succeeds leaves no channel open.\<close>

lemma card_info_safe:
  assumes "length (bs_keys (m_backend m)) \<le> 65536" "card_info_run T (rustcrypto P fill) cfg m = (r, m')"
  shows "(reader_step T (rustcrypto P fill) cfg)\<^sup>*\<^sup>* m m'" "r = Inr () \<Longrightarrow> m_session m' = None"
proof -
  show "(reader_step T (rustcrypto P fill) cfg)\<^sup>*\<^sup>* m m'"
    using callsD [OF card_info_calls [where tvs = "[]"] _ assms(2)] assms(1) by (simp add: holds_def)
  show "m_session m' = None" if "r = Inr ()"
    using assms(2) that
    by (auto simp: card_info_run_def Let_def bindP_eq_Inr thenP_eq_Inr map_errP_Inr simp del: map_errP_apply dest: closeP_closed)
qed

lemma card_status_safe:
  assumes "length (bs_keys (m_backend m)) \<le> 65536" "card_status_run T (rustcrypto P fill) cfg opt_in m = (r, m')"
  shows "(status_step T (rustcrypto P fill) cfg opt_in)\<^sup>*\<^sup>* m m'" "r = Inr () \<Longrightarrow> m_session m' = None"
proof -
  show "(status_step T (rustcrypto P fill) cfg opt_in)\<^sup>*\<^sup>* m m'"
    using callsD [OF card_status_calls [where tvs = "[]"] _ assms(2)] assms(1) by (simp add: holds_def)
  show "m_session m' = None" if "r = Inr ()"
    using assms(2) that
    by (auto simp: card_status_run_def status_flow_def bindP_eq_Inr thenP_eq_Inr map_errP_Inr simp del: map_errP_apply dest: closeP_closed)
qed

text \<open>The write to the same state sends nothing as long as the card gives the same answer again: the library
  reads the state a second time.\<close>

lemma same_state_silent:
  assumes "set_status_to T B aid t None False m = (Inr rep, m')"
  shows "\<exists>st m1. mgr_get_card_status T B aid m = (Inr st, m1) \<and> scr_state_before rep = gcs_state st
    \<and> (gcs_state st = t \<longrightarrow> scr_was_no_op rep \<and> m' = m1)
    \<and> (gcs_state st \<noteq> t \<longrightarrow> transition_p2 (gcs_state st) t False \<noteq> None \<and> \<not> scr_was_no_op rep)"
proof -
  let ?a = "\<lparr>sca_target_state = t, sca_current_state = None, sca_force = False, sca_isd_aid = aid\<rparr>"
  obtain s t1 b1 where s: "m_session m = Some s" and run: "set_card_status T B s ?a (m_transport m, m_backend m) = (Inr rep, (t1, b1))"
    and m': "m' = m\<lparr>m_transport := t1, m_backend := b1\<rparr>"
    using assms by (auto simp: set_status_to_def mgr_set_card_status_def in_session_def on_parts_def split: option.splits prod.splits)
  obtain st t0 b0 plan no_op p2 w where g: "get_card_status T B s aid (m_transport m, m_backend m) = (Inr st, (t0, b0))"
    and p: "check_transition (gcs_state st) t False = Inr plan" and r: "run_plan T B s ?a plan (t0, b0) = (Inr (no_op, p2, w), (t1, b1))"
    and rep: "scr_state_before rep = gcs_state st" "scr_was_no_op rep = no_op"
    using run by (auto simp: set_card_status_def current_state_def bindP_eq_Inr Let_def split: prod.splits)
  have "mgr_get_card_status T B aid m = (Inr st, m\<lparr>m_transport := t0, m_backend := b0\<rparr>)"
    using s g by (simp add: mgr_get_card_status_def in_session_def on_parts_def)
  moreover have "gcs_state st = t \<longrightarrow> no_op \<and> (t1, b1) = (t0, b0)" "gcs_state st \<noteq> t \<longrightarrow> transition_p2 (gcs_state st) t False \<noteq> None \<and> \<not> no_op"
    using p r by (auto simp: check_transition_def bindP_eq_Inr success_simps split: if_splits option.splits prod.splits)
  ultimately show ?thesis using rep m' by auto
qed

section \<open>Without the manager\<close>

definition import_free :: "key_kind \<Rightarrow> bytes \<Rightarrow> ('t, 'r backend_state, key_handle) workflow" where
  "import_free kind k = on_snd (map_errP Backend (import_key kind k))"

definition import_triple_free :: "key_kind \<Rightarrow> config \<Rightarrow> ('t, 'r backend_state, key_triple) workflow" where
  "import_triple_free kind cfg =
     bindP (import_free kind (cfg_isd_enc cfg)) (\<lambda>e. bindP (import_free kind (cfg_isd_mac cfg)) (\<lambda>m.
     bindP (import_free kind (cfg_isd_dek cfg)) (\<lambda>d. ret \<lparr>tr_enc = e, tr_mac = m, tr_dek = d\<rparr>)))"

text \<open>\<open>dedup\<close> drops repetitions next to each other only.\<close>

definition free_candidates :: "u8 \<Rightarrow> u8 list \<Rightarrow> u8 list" where
  "free_candidates isd_kvn reported =
    (let selector = (\<lambda>k. if k \<le> 0x7F then k else 0x00);
         candidates = (if isd_kvn \<noteq> 0 then [selector isd_kvn] else []);
         candidates = candidates @ map selector reported;
         candidates = candidates @ [0x00] in
     remdups_adj candidates)"

definition free_open_args :: "config \<Rightarrow> card_info \<Rightarrow> scp_variant \<Rightarrow> key_triple \<Rightarrow> u8 \<Rightarrow> open_scp_args" where
  "free_open_args cfg info scp isd kvn =
     \<lparr>osa_target_aid = as_bytes (inf_isd_aid info), osa_target_kind = SecurityDomainAid, osa_sd_keys = triple_keys isd,
      osa_advertised = inf_scp_supported info, osa_force_scp = Some scp, osa_kvn = kvn,
      osa_requested_level = security_level (cfg_endpoint cfg) RoleIsd\<rparr>"

definition free_close :: "'b backend_ops \<Rightarrow> scp_session \<Rightarrow> ('t, 'b, unit) workflow" where
  "free_close B session = (\<lambda>(t, b). (Inr (), (t, case session of
       Scp03S s \<Rightarrow> b_scp03_close_session B (st3_session s) b
     | Scp02S s \<Rightarrow> b_scp02_close_session B (st2_session s) b)))"

definition free_flow :: "'t transport \<Rightarrow> 'r backend_state backend_ops \<Rightarrow> config \<Rightarrow> ('t \<times> 'r backend_state, demo_stop, unit) prog" where
  "free_flow T B cfg =
     bindP (map_errP Failed (discover_card T None)) (\<lambda>info.
     let isd_aid = as_bytes (inf_isd_aid info) in
     bindP (liftR (choose_isd cfg info)) (\<lambda>chosen.
     map_errP Failed
      (bindP (import_triple_free (snd chosen) cfg) (\<lambda>isd.
       bindP (open_first (\<lambda>kvn. open_scp T B (free_open_args cfg info (fst chosen) isd kvn))
         (free_candidates (cfg_isd_kvn cfg) (map ks_kvn (inf_isd_keysets info))) (Some ScpProtocolUnsupported)) (\<lambda>report.
       let session = osr_session report in
       thenP (get_card_status T B session isd_aid)
       (thenP (get_card_inventory T B session isd_aid)
       (free_close B session)))))))"

definition workflow_free_run ::
    "'t transport \<Rightarrow> 'r backend_state backend_ops \<Rightarrow> config \<Rightarrow> transport_name \<Rightarrow> ('t \<times> 'r backend_state, demo_stop, unit) prog" where
  "workflow_free_run T B cfg name = (\<lambda>(t, b).
     case mgr_probe T name (manager_new t b) of
       (Inl e, m) \<Rightarrow> (Inl (Failed e), (m_transport m, m_backend m))
     | (Inr _, m) \<Rightarrow>
        (case t_reset T (m_transport m) of (atr, t') \<Rightarrow> free_flow T B cfg (into_parts B (m\<lparr>m_transport := t'\<rparr>))))"

text \<open>The same through the card manager.\<close>

definition managed_flow ::
    "'t transport \<Rightarrow> 'r backend_state backend_ops \<Rightarrow> config \<Rightarrow> (('t, 'r backend_state) manager, demo_stop, unit) prog" where
  "managed_flow T B cfg =
     bindP (map_errP Failed (mgr_discover T None)) (\<lambda>info.
     let isd_aid = as_bytes (inf_isd_aid info) in
     bindP (liftR (choose_isd cfg info)) (\<lambda>chosen.
     map_errP Failed
      (bindP (import_isd (snd chosen) cfg) (\<lambda>isd.
       bindP (open_first (\<lambda>kvn. mgr_open_scp T B (free_open_args cfg info (fst chosen) isd kvn))
         (free_candidates (cfg_isd_kvn cfg) (map ks_kvn (inf_isd_keysets info))) (Some ScpProtocolUnsupported)) (\<lambda>report.
       thenP (mgr_get_card_status T B isd_aid)
       (thenP (mgr_get_card_inventory T B isd_aid)
       (closeP B)))))))"

text \<open>From managers with \<open>C\<close>, the second program does to transport and backend what the first does, with
  the same result.\<close>

definition mirrors :: "(('t, 'b) manager \<Rightarrow> bool) \<Rightarrow> ('t \<times> 'b, 'e, 'a) prog \<Rightarrow> (('t, 'b) manager, 'e, 'a) prog \<Rightarrow> bool" where
  "mirrors C p q = (\<forall>m r m'. C m \<longrightarrow> q m = (r, m') \<longrightarrow> p (parts m) = (r, parts m'))"

lemma mirrorsI: "(\<And>m r m'. C m \<Longrightarrow> q m = (r, m') \<Longrightarrow> p (parts m) = (r, parts m')) \<Longrightarrow> mirrors C p q"
  by (simp add: mirrors_def)

lemma mirrorsD: "mirrors C p q \<Longrightarrow> C m \<Longrightarrow> q m = (r, m') \<Longrightarrow> p (parts m) = (r, parts m')"
  by (simp add: mirrors_def)

lemma mirrors_bind:
  assumes p: "mirrors C p q" and post: "\<And>m x m'. C m \<Longrightarrow> q m = (Inr x, m') \<Longrightarrow> D x m'" and f: "\<And>x. mirrors (D x) (f x) (g x)"
  shows "mirrors C (bindP p f) (bindP q g)"
proof (rule mirrorsI)
  fix m r m' assume C: "C m" and run: "bindP q g m = (r, m')"
  obtain r1 m1 where r1: "q m = (r1, m1)" by (meson surj_pair)
  note p1 = mirrorsD [OF p C r1]
  show "bindP p f (parts m) = (r, parts m')"
  proof (cases r1)
    case (Inl e)
    then show ?thesis using run r1 p1 by (auto simp: bindP_def)
  next
    case (Inr x)
    then have "g x m1 = (r, m')" using run r1 by (simp add: bindP_def)
    from mirrorsD [OF f post this] show ?thesis using C r1 p1 Inr by (auto simp: bindP_def)
  qed
qed

lemma mirrors_simple:
  "mirrors C (ret x) (ret x)"
  "mirrors C (liftR e) (liftR e)"
  "mirrors C p q \<Longrightarrow> mirrors C (map_errP h p) (map_errP h q)"
  "mirrors C w (on_parts w)"
  "mirrors C (open_scp T B a) (mgr_open_scp T B a)"
  "mirrors C (discover_card T expected) (mgr_discover T expected)"
  "mirrors C (import_free kind k) (import_on kind k)"
  by (auto simp: mirrors_def parts_def on_parts_def mgr_open_scp_def mgr_discover_def import_free_def import_on_def bindP_def
      on_snd_def map_errP_def split: prod.splits sum.splits)

lemma mirrors_session:
  "mirrors (\<lambda>m. m_session m = Some s) (w s) (in_session w)"
  "mirrors (\<lambda>m. m_session m = Some s) (free_close B s) (closeP B)"
  by (auto simp: mirrors_def parts_def on_parts_def in_session_def free_close_def closeP_def close_channel_def split: prod.splits scp_session.splits)

lemma mirrors_open_first:
  assumes "\<And>k. mirrors (\<lambda>_. True) (f k) (g k)"
  shows "mirrors (\<lambda>_. True) (open_first f ks err) (open_first g ks err)"
proof (induction ks arbitrary: err)
  case (Cons k ks)
  show ?case
  proof (rule mirrorsI)
    fix m r m' assume run: "open_first g (k # ks) err m = (r, m')"
    obtain r1 m1 where r1: "g k m = (r1, m1)" by (meson surj_pair)
    have "f k (parts m) = (r1, parts m1)" using mirrorsD [OF assms _ r1] by simp
    then show "open_first f (k # ks) err (parts m) = (r, parts m')"
      using run r1 mirrorsD [OF Cons.IH] by (cases r1) auto
  qed
qed (simp add: mirrors_def throw_def)

text \<open>Threading the session by hand does what the manager does: on every path, with the same result, the
  same exchanges with the card and the same backend.\<close>

lemma free_flow_is_managed:
  assumes "managed_flow T B cfg m = (r, m')"
  shows "free_flow T B cfg (m_transport m, m_backend m) = (r, (m_transport m', m_backend m'))"
proof -
  have imp: "mirrors (\<lambda>_. True) (import_triple_free kind cfg) (import_isd kind cfg)" for kind
    unfolding import_triple_free_def import_isd_def import_triple_def
    by (rule mirrors_bind [where D = "\<lambda>_ _. True"] mirrors_simple TrueI)+
  have op: "mirrors (\<lambda>_. True) (open_first (\<lambda>kvn. open_scp T B (a kvn)) ks err) (open_first (\<lambda>kvn. mgr_open_scp T B (a kvn)) ks err)" for a ks err
    by (rule mirrors_open_first) (rule mirrors_simple)
  have use: "mirrors (\<lambda>m. m_session m = Some s)
      (thenP (get_card_status T B s aid) (thenP (get_card_inventory T B s aid) (free_close B s)))
      (thenP (mgr_get_card_status T B aid) (thenP (mgr_get_card_inventory T B aid) (closeP B)))" for s aid
    unfolding thenP_def mgr_get_card_status_def mgr_get_card_inventory_def
    by (rule mirrors_bind [where D = "\<lambda>_ m. m_session m = Some s"] mirrors_session
        | force simp: in_session_def on_parts_def split: prod.splits)+
  have sess: "m_session m' = Some (osr_session x)" if "open_first (\<lambda>kvn. mgr_open_scp T B (a kvn)) ks err m = (Inr x, m')" for a ks err m x m'
    using open_first_opened [OF that] by (auto simp: mgr_open_scp_def bindP_eq_Inr)
  have "mirrors (\<lambda>_. True) (free_flow T B cfg) (managed_flow T B cfg)"
    unfolding free_flow_def managed_flow_def Let_def
    by (intro mirrors_simple mirrors_bind [where D = "\<lambda>_ _. True"] TrueI imp
        mirrors_bind [where D = "\<lambda>x m. m_session m = Some (osr_session x)", OF op] use) (rule sess)
  from mirrorsD [OF this _ assms] show ?thesis by (simp add: parts_def)
qed

lemma workflow_free_parts:
  "workflow_free_run T B cfg name (t, b) =
    (if t_is_connected T t then free_flow T B cfg (snd (t_reset T t), b) else (Inl (Failed TransportUnavailable), (t, b)))"
  by (simp add: workflow_free_run_def mgr_probe_def on_parts_def probe_def manager_new_def into_parts_def close_channel_def Let_def
      split: prod.split)

text \<open>Its key versions are tried in another order than those of the manager's clients: the card's choice
  comes last, and repetitions that are not neighbours stay.\<close>

lemma free_candidates_order:
  "free_candidates 0 [0x30] = [0x30, 0]" "kvn_candidates 0 [0x30] None = [0, 0x30]"
  "free_candidates 0x30 [0xFF, 0x30] = [0x30, 0, 0x30, 0]"
  by (simp_all add: free_candidates_def kvn_candidates_def push_new_def Let_def ISD_KVN_1_def ISD_KVN_2_def JCSIM_FACTORY_KVN_def)

end
