(* ===== verification/Scll_KeyTools.thy ===== *)
theory Scll_KeyTools
  imports Scll_Demo
begin

text \<open>
  \<open>examples/src/bin/key-tools.rs\<close>: the key operations of the software backend, without a card. Every
  kind of key is generated, exported and imported again, and the check values of both copies are
  compared; two check values are compared with known answers.
\<close>

section \<open>The program\<close>

definition GP_DEFAULT_KEY :: bytes where
  "GP_DEFAULT_KEY = [0x40, 0x41, 0x42, 0x43, 0x44, 0x45, 0x46, 0x47, 0x48, 0x49, 0x4A, 0x4B, 0x4C, 0x4D, 0x4E, 0x4F]"
definition KCV_3DES_REF :: bytes where "KCV_3DES_REF = [0x8B, 0xAF, 0x47]"
definition KCV_AES128_REF :: bytes where "KCV_AES128_REF = [0x50, 0x4A, 0x77]"
definition KINDS :: "key_kind list" where "KINDS = [KindAes128, KindAes192, KindAes256, TripleDesDouble]"

text \<open>A call of the backend with \<open>?\<close>.\<close>

definition keyP :: "('r, 'a) backend \<Rightarrow> ('r backend_state, scll_error, 'a) prog" where
  "keyP m = map_errP Backend m"

definition known_answer :: "prims \<Rightarrow> key_kind \<Rightarrow> bytes \<Rightarrow> ('r backend_state, scll_error, unit) prog" where
  "known_answer P kind expected =
     bindP (keyP (import_key kind GP_DEFAULT_KEY)) (\<lambda>h.
     bindP (keyP (compute_kcv P h)) (\<lambda>kcv.
     if \<not> ct_eq kcv expected then throw KeyCheckValueMismatch else ret ()))"

definition key_round_trip :: "prims \<Rightarrow> 'r fill \<Rightarrow> key_kind \<Rightarrow> ('r backend_state, scll_error, unit) prog" where
  "key_round_trip P fill kind =
     bindP (keyP (generate_key fill kind)) (\<lambda>g.
     bindP (keyP (export_key_dangerous g)) (\<lambda>exported.
     if length exported \<noteq> clear_len kind then throw KeyCheckValueMismatch
     else
       bindP (keyP (compute_kcv P g)) (\<lambda>kcv_generated.
       bindP (keyP (import_key kind exported)) (\<lambda>reimported.
       bindP (keyP (compute_kcv P reimported)) (\<lambda>kcv_reimported.
       if \<not> ct_eq kcv_generated kcv_reimported then throw KeyCheckValueMismatch else ret ())))))"

definition key_tools_run :: "prims \<Rightarrow> 'r fill \<Rightarrow> ('r backend_state, scll_error, unit) prog" where
  "key_tools_run P fill =
     thenP (known_answer P TripleDesDouble KCV_3DES_REF)
     (thenP (known_answer P KindAes128 KCV_AES128_REF)
     (thenP (each (key_round_trip P fill) KINDS)
     (case exported_from_slice GP_DEFAULT_KEY of
        None \<Rightarrow> throw KeyCheckValueMismatch
      | Some ek \<Rightarrow> bindP (keyP (random_bytes fill 8)) (\<lambda>challenge. ret ()))))"

section \<open>What it shows\<close>

text \<open>The check value of a key: the first octets of a block of ones under AES, of zeros under DES.\<close>

definition kcv_of :: "prims \<Rightarrow> key_kind \<Rightarrow> bytes \<Rightarrow> bytes" where
  "kcv_of P kind k = take 3 (if kind = TripleDesDouble then p_tdes_cbc_enc P k (replicate 8 0) (replicate 8 0)
     else p_aes_cbc_enc P k (replicate 16 0) (replicate 16 1))"

text \<open>A backend with room for \<open>n\<close> more keys.\<close>

definition room :: "nat \<Rightarrow> 'r backend_state \<Rightarrow> bool" where
  "room n st = (length (bs_keys st) = MAX_KEY_SLOTS \<and> card (slots.live (bs_keys st)) + n \<le> MAX_KEY_SLOTS)"

lemma store_key_room:
  assumes "room (Suc n) st"
  shows "\<exists>h st'. store_key kind k st = (Inr h, st') \<and> room n st' \<and> bs_rng st' = bs_rng st
    \<and> key_at st' h kind k \<and> keys_kept st st'"
proof -
  let ?v = "\<lparr>ksl_kind = kind, ksl_key = k\<rparr>"
  have len: "length (bs_keys st) = MAX_KEY_SLOTS" using assms by (simp add: room_def)
  obtain i ks where a: "alloc_slot ?v (bs_keys st) = Some (i, ks)"
    using slots.alloc_iff [OF len, of ?v] assms by (auto simp: room_def)
  note g = alloc_get [OF a]
  have i: "unat (of_nat i :: u16) = i" using g len by (simp add: unat_of_nat limit_simps)
  have "card (slots.live ks) = Suc (card (slots.live (bs_keys st)))" by (rule slots.card_alloc [OF len a])
  then have "room n (st\<lparr>bs_keys := ks\<rparr>)" using g len assms by (simp add: room_def)
  moreover have "key_at (st\<lparr>bs_keys := ks\<rparr>) (of_nat i) kind k" using g i by (simp add: key_at_def)
  moreover have "keys_kept st (st\<lparr>bs_keys := ks\<rparr>)" using g by (auto simp: keys_kept_def key_at_def)
  ultimately show ?thesis by (simp add: store_key_def a)
qed

lemma key_len_clear: "key_len kind = Some (clear_len kind)"
  by (cases kind) (simp_all add: key_len_def)

lemma import_room:
  "room (Suc n) st \<Longrightarrow> length k = clear_len kind \<Longrightarrow>
     \<exists>h st'. import_key kind k st = (Inr h, st') \<and> room n st' \<and> bs_rng st' = bs_rng st \<and> key_at st' h kind k \<and> keys_kept st st'"
  using store_key_room by (simp add: import_key_def key_len_clear)

lemma kcv_at:
  assumes "prims_ok P" "key_at st h kind k" "length k = clear_len kind"
  shows "compute_kcv P h st = (Inr (kcv_of P kind k), st)"
proof -
  have "aes_key_len k \<or> kind = TripleDesDouble" using assms(3) by (cases kind) (auto simp: aes_key_len_def)
  then show ?thesis
    using assms prims_okD(2) [OF assms(1), of k "replicate 16 0" "replicate 16 1"]
    by (auto simp: compute_kcv_def key_at_def kcv_of_def aes_ecb_block_def tdes_ecb_block_def aes_cbc_encrypt_def per_aes_def
        tdes_cbc_encrypt_def block_consts aes_key_len_def)
qed

lemma known_answer_eq:
  assumes "prims_ok P" "room (Suc n) st" "clear_len kind = 16"
  shows "\<exists>st'. known_answer P kind expected st
     = (if kcv_of P kind GP_DEFAULT_KEY = expected then Inr () else Inl KeyCheckValueMismatch, st') \<and> room n st'"
proof -
  have len: "length GP_DEFAULT_KEY = clear_len kind" using assms(3) by (simp add: GP_DEFAULT_KEY_def)
  obtain h st' where i: "import_key kind GP_DEFAULT_KEY st = (Inr h, st')" "room n st'" "key_at st' h kind GP_DEFAULT_KEY"
    using import_room [OF assms(2) len] by blast
  then show ?thesis using kcv_at [OF assms(1) i(3) len]
    by (simp add: known_answer_def keyP_def bindP_def ct_eq_correct_eq)
qed

text \<open>A generated key survives export and import, whatever the generator gives.\<close>

lemma key_round_trip_ok:
  assumes "prims_ok P" "fill_ok fill" "room (Suc (Suc n)) st"
  shows "\<exists>st'. key_round_trip P fill kind st = (Inr (), st') \<and> room n st'"
proof -
  obtain k rng where k: "fill (bs_rng st) (clear_len kind) = (k, rng)" by (meson surj_pair)
  have len: "length k = clear_len kind" using assms(2) k unfolding fill_ok_def by (metis fst_conv)
  have "room (Suc (Suc n)) (st\<lparr>bs_rng := rng\<rparr>)" using assms(3) by (simp add: room_def)
  from store_key_room [OF this, of kind k] obtain g st1 where 1: "store_key kind k (st\<lparr>bs_rng := rng\<rparr>) = (Inr g, st1)"
    "room (Suc n) st1" "key_at st1 g kind k" by blast
  have gen: "generate_key fill kind st = (Inr g, st1)" by (simp add: generate_key_def key_len_clear k 1(1))
  have exp: "export_key_dangerous g st1 = (Inr k, st1)"
    using 1(3) len by (cases kind) (simp_all add: export_key_dangerous_def key_at_def exported_from_slice_def limit_simps)
  obtain h st2 where 2: "import_key kind k st1 = (Inr h, st2)" "room n st2" "key_at st2 h kind k"
    using import_room [OF 1(2) len] by blast
  show ?thesis
    using 2 len kcv_at [OF assms(1) 1(3) len] kcv_at [OF assms(1) 2(3) len]
    by (simp add: key_round_trip_def keyP_def bindP_def gen exp ct_eq_correct_eq)
qed

text \<open>The outcome of the program depends on the two known answers only: every other step succeeds for
  every kind of key and every generator, and the ten keys fit.\<close>

lemma key_tools_outcome:
  assumes "prims_ok P" "fill_ok fill"
  shows "fst (key_tools_run P fill (backend_new rng)) =
    (if kcv_of P TripleDesDouble GP_DEFAULT_KEY = KCV_3DES_REF \<and> kcv_of P KindAes128 GP_DEFAULT_KEY = KCV_AES128_REF
     then Inr () else Inl KeyCheckValueMismatch)"
proof -
  let ?b = "backend_new rng :: 'a backend_state"
  have "slots.live (bs_keys ?b) = {}" by (simp add: backend_new_def slots.live_def get_slot_eq)
  then have r: "room 10 ?b" by (simp add: room_def) (simp add: backend_new_def limit_simps)
  obtain b1 where 1: "known_answer P TripleDesDouble KCV_3DES_REF ?b
     = (if kcv_of P TripleDesDouble GP_DEFAULT_KEY = KCV_3DES_REF then Inr () else Inl KeyCheckValueMismatch, b1)" "room 9 b1"
    using known_answer_eq [OF assms(1), of 9 ?b TripleDesDouble KCV_3DES_REF] r by auto
  obtain b2 where 2: "known_answer P KindAes128 KCV_AES128_REF b1
     = (if kcv_of P KindAes128 GP_DEFAULT_KEY = KCV_AES128_REF then Inr () else Inl KeyCheckValueMismatch, b2)" "room 8 b2"
    using known_answer_eq [OF assms(1), of 8 b1 KindAes128 KCV_AES128_REF] 1(2) by auto
  have rt: "\<exists>st' xs. each (key_round_trip P fill) kinds st = (Inr xs, st')" if "room (2 * length kinds) st"
    for kinds and st :: "'a backend_state"
    using that
  proof (induction kinds arbitrary: st)
    case (Cons kind kinds)
    then obtain st1 where 1: "key_round_trip P fill kind st = (Inr (), st1)" "room (2 * length kinds) st1"
      using key_round_trip_ok [OF assms, of "2 * length kinds" st kind] by auto
    from Cons.IH [OF this(2)] 1(1) show ?case by (auto simp: bindP_def)
  qed simp
  obtain b3 xs where 3: "each (key_round_trip P fill) KINDS b2 = (Inr xs, b3)"
    using rt [of KINDS b2] 2(2) by (auto simp: KINDS_def)
  have s: "exported_from_slice GP_DEFAULT_KEY = Some GP_DEFAULT_KEY"
    by (simp add: exported_from_slice_def GP_DEFAULT_KEY_def limit_simps)
  show ?thesis
    by (simp add: key_tools_run_def thenP_def bindP_def 1(1) 2(1) 3 s keyP_def random_bytes_def split: prod.splits)
qed

end
