(* ===== verification/Scll_Format.thy ===== *)
theory Scll_Format
  imports Scll_Examples Scll_Fixtures
begin

text \<open>
  Text for people: \<open>scll-core/src/hexfmt.rs\<close> and its users in \<open>aid.rs\<close> and \<open>model.rs\<close>, and the parts of
  \<open>scll-test-util\<close> that read the environment, gate a test on it, or print octets and privileges. A
  \<open>Formatter\<close> is the text written to it.
\<close>

section \<open>Octets\<close>

definition fmt_hex_bytes :: "bytes \<Rightarrow> ustr" where
  "fmt_hex_bytes bs = [0x22] @ concat (map (\<lambda>b. ex_to_hex [b]) bs) @ [0x22]"

definition fmt_hex_byte :: "u8 \<Rightarrow> ustr" where
  "fmt_hex_byte b = ustr ''0x'' @ ex_to_hex [b]"

definition fmt_aid :: "aid \<Rightarrow> ustr" where
  "fmt_aid a = ustr ''Aid('' @ fmt_hex_bytes (as_bytes a) @ ustr '')''"

text \<open>\<open>{:02X?}\<close> of a slice.\<close>

definition fmt_hex_slice :: "bytes \<Rightarrow> ustr" where
  "fmt_hex_slice bs = ustr ''['' @ (case bs of [] \<Rightarrow> []
     | b # bs \<Rightarrow> ex_to_hex [b] @ concat (map (\<lambda>b. ustr '', '' @ ex_to_hex [b]) bs)) @ ustr '']''"

definition hex_slice_eq :: "bytes \<Rightarrow> bytes \<Rightarrow> bool" where
  "hex_slice_eq a b = (a = b)"

definition fmt_privileges :: "bytes \<Rightarrow> ustr" where
  "fmt_privileges p = ustr ''Privileges('' @ ex_to_hex [p ! 0] @ ustr '' '' @ ex_to_hex [p ! 1] @ ustr '' '' @ ex_to_hex [p ! 2]
     @ ustr '': '' @ ustr (priv_display p) @ ustr '')''"

section \<open>The environment of a test\<close>

text \<open>The octets of a \<open>str\<close>.\<close>

definition utf8_char :: "nat \<Rightarrow> bytes" where
  "utf8_char c =
    (if c < 0x80 then [of_nat c]
     else if c < 0x800 then [of_nat (0xC0 + c div 64), of_nat (0x80 + c mod 64)]
     else if c < 0x10000 then [of_nat (0xE0 + c div 4096), of_nat (0x80 + c div 64 mod 64), of_nat (0x80 + c mod 64)]
     else [of_nat (0xF0 + c div 262144), of_nat (0x80 + c div 4096 mod 64), of_nat (0x80 + c div 64 mod 64), of_nat (0x80 + c mod 64)])"

definition str_bytes :: "ustr \<Rightarrow> bytes" where
  "str_bytes s = concat (map utf8_char s)"

definition env_nonempty :: "environment \<Rightarrow> string \<Rightarrow> ustr option" where
  "env_nonempty env name = (case env name of Some s \<Rightarrow> if s \<noteq> [] then Some s else None | None \<Rightarrow> None)"

definition jcsim_addr :: "environment \<Rightarrow> ustr option" where
  "jcsim_addr env = env_nonempty env ''SCLL_JCSIM_ADDR''"

definition pcsc_spec :: "environment \<Rightarrow> ustr option" where
  "pcsc_spec env = env_nonempty env ''SCLL_PCSC''"

type_synonym key_set = "bytes list \<times> usize"

definition missing_names :: "string list \<Rightarrow> ustr option list \<Rightarrow> string" where
  "missing_names names vals = foldl (\<lambda>missing (name, val).
     if val = None then (if missing \<noteq> [] then missing @ '', '' else missing) @ name else missing) [] (zip names vals)"

definition required_role_key_set :: "environment \<Rightarrow> string \<Rightarrow> (string + key_set) option" where
  "required_role_key_set env base =
    (let names = [base @ ''_ENC'', base @ ''_MAC'', base @ ''_DEK'']; vals = map (env_nonempty env) names in
     case vals of
       [None, None, None] \<Rightarrow> None
     | [Some enc, Some mac, Some dek] \<Rightarrow> Some (decode_key_set (str_bytes enc) (str_bytes mac) (str_bytes dek))
     | _ \<Rightarrow> Some (Inl (''all three of '' @ base @ ''_ENC/_MAC/_DEK are required; not set: '' @ missing_names names vals)))"

text \<open>What the macros \<open>skip_unless_*\<close> do to the calling test.\<close>

datatype 'a test_gate = RunWith 'a | SkipTest | PanicTest string

definition skip_unless :: "ustr option \<Rightarrow> ustr test_gate" where
  "skip_unless v = (case v of Some s \<Rightarrow> RunWith s | None \<Rightarrow> SkipTest)"

definition skip_unless_key :: "environment \<Rightarrow> string \<Rightarrow> key_set test_gate" where
  "skip_unless_key env base = (case required_role_key_set env base of
     Some (Inr keys) \<Rightarrow> RunWith keys
   | Some (Inl e) \<Rightarrow> PanicTest (base @ ''_ENC/_MAC/_DEK invalid: '' @ e)
   | None \<Rightarrow> SkipTest)"

section \<open>Properties\<close>

lemma ex_to_hex_single: "concat (map (\<lambda>b. ex_to_hex [b]) bs) = ex_to_hex bs"
  by (induction bs) (simp_all add: ex_to_hex_def)

text \<open>The text between the quotes is read back by \<open>from_hex\<close>; so no two octet strings, AIDs or slices have
  the same text, and a failed comparison always shows a difference.\<close>

lemma fmt_hex_bytes_read: "fmt_hex_bytes bs = [0x22] @ ex_to_hex bs @ [0x22]" "from_hex (ex_to_hex bs) = Inr bs"
  by (simp_all add: fmt_hex_bytes_def ex_to_hex_single from_hex_to_hex)

lemma ex_to_hex_inj: "ex_to_hex a = ex_to_hex b \<longleftrightarrow> a = b"
  by (metis from_hex_to_hex sum.inject(2))

lemma fmt_hex_bytes_inj: "fmt_hex_bytes a = fmt_hex_bytes b \<longleftrightarrow> a = b"
  by (simp add: fmt_hex_bytes_read ex_to_hex_inj)

lemma fmt_aid_inj: "fmt_aid a = fmt_aid b \<longleftrightarrow> a = b"
  by (cases a; cases b) (simp add: fmt_aid_def fmt_hex_bytes_inj)

lemma length_ex_to_hex: "length (ex_to_hex bs) = 2 * length bs"
  by (induction bs) (simp_all add: ex_to_hex_def)

lemma fmt_hex_slice_inj: "fmt_hex_slice a = fmt_hex_slice b \<longleftrightarrow> a = b"
proof
  define rest where "rest xs = concat (map (\<lambda>b. ustr '', '' @ ex_to_hex [b]) xs)" for xs
  have cons: "ex_to_hex [x] @ xs = ex_to_hex [y] @ ys \<longleftrightarrow> x = y \<and> xs = ys" for x y xs ys
    by (simp add: append_eq_append_conv length_ex_to_hex ex_to_hex_inj)
  have rest: "rest xs = rest ys \<Longrightarrow> xs = ys" for xs ys
  proof (induction xs arbitrary: ys)
    case Nil
    then show ?case by (cases ys) (simp_all add: rest_def ustr_def)
  next
    case (Cons x xs)
    then obtain y zs where ys: "ys = y # zs" by (cases ys) (simp_all add: rest_def ustr_def)
    from Cons.prems have "ex_to_hex [x] @ rest xs = ex_to_hex [y] @ rest zs" by (simp add: ys rest_def)
    then have "x = y" "rest xs = rest zs" unfolding cons by blast+
    then show ?case using Cons.IH ys by simp
  qed
  assume eq: "fmt_hex_slice a = fmt_hex_slice b"
  have shown: "fmt_hex_slice (x # xs) = ustr ''['' @ (ex_to_hex [x] @ rest xs) @ ustr '']''" for x xs
    by (simp add: fmt_hex_slice_def rest_def)
  have ne: "fmt_hex_slice (x # xs) \<noteq> fmt_hex_slice []" for x xs
  proof
    assume "fmt_hex_slice (x # xs) = fmt_hex_slice []"
    then have "length (fmt_hex_slice (x # xs)) = length (fmt_hex_slice [])" by simp
    then show False by (simp add: shown length_ex_to_hex) (simp add: fmt_hex_slice_def ustr_def)
  qed
  show "a = b"
  proof (cases a; cases b)
    fix x xs y ys assume ab: "a = x # xs" "b = y # ys"
    from eq have "ex_to_hex [x] @ rest xs = ex_to_hex [y] @ rest ys" unfolding ab shown by simp
    then show ?thesis unfolding cons using rest ab by simp
  qed (use eq ne ne [symmetric] in auto)
qed simp

text \<open>The octets of a text are as many as \<open>str::len\<close> counts.\<close>

lemma length_str_bytes: "length (str_bytes s) = str_len s"
  by (induction s) (simp_all add: str_bytes_def str_len_def utf8_char_def utf8_len_def)

lemma env_nonempty_eq: "env_nonempty env name = env_opt env name"
  by (simp add: env_nonempty_def env_opt_def split: option.split)

text \<open>A test that needs keys is run only with three configured keys of one length, skipped only when none is
  configured, and stopped otherwise; there is no default.\<close>

lemma skip_unless_key_cases:
  defines "set_of env base \<equiv> {s \<in> {''_ENC'', ''_MAC'', ''_DEK''}. env_opt env (base @ s) \<noteq> None}"
  shows "skip_unless_key env base = SkipTest \<longleftrightarrow> set_of env base = {}"
    and "skip_unless_key env base = RunWith ks \<longleftrightarrow> (\<exists>e m d. env_opt env (base @ ''_ENC'') = Some e \<and> env_opt env (base @ ''_MAC'') = Some m
      \<and> env_opt env (base @ ''_DEK'') = Some d \<and> decode_key_set (str_bytes e) (str_bytes m) (str_bytes d) = Inr ks)"
  by (cases "env_opt env (base @ ''_ENC'')"; cases "env_opt env (base @ ''_MAC'')"; cases "env_opt env (base @ ''_DEK'')";
      auto simp: skip_unless_key_def required_role_key_set_def env_nonempty_eq Let_def set_of_def split: sum.splits)+

lemma missing_names_example:
  "required_role_key_set (\<lambda>n. if n = ''K_MAC'' then Some (ustr ''00'') else None) ''K''
     = Some (Inl ''all three of K_ENC/_MAC/_DEK are required; not set: K_ENC, K_DEK'')"
  by (simp add: required_role_key_set_def env_nonempty_def ustr_def missing_names_def)

end
