(* ===== verification/Spec2Isabelle.thy ===== *)
theory Spec2Isabelle
  imports Scll_Lifecycle Scll_Transports Scll_Fixtures Scll_Bounds Scll_Compose Scll_Fuzz Scll_IsdDemo Scll_SsdDemo
    Scll_CardDemos Scll_KeyTools Scll_Format
begin

text \<open>
  A verification library of \<^emph>\<open>scll-rust\<close>, the GlobalPlatform secure channel and card management
  library. It models the crates under \<open>src/crates\<close> from the octets of the protocols up to the card
  manager, and proves what makes each layer correct.

  \<^bold>\<open>The program.\<close> \<open>scll-core\<close> is free of allocation, input/output and cryptography: bounded vectors,
  a BER-TLV codec, command builders, response decoders, the CAP file reader, the decisions of the
  secure channel protocols and the workflows. Workflows reach the card through the trait
  \<open>Transport\<close> and keys and sessions through the backend traits. \<open>scll-backend-rustcrypto\<close> implements
  the backends over fixed slot tables; \<open>scll-transport-jcsim\<close> and \<open>scll-transport-pcsc\<close> implement
  the transport; \<open>scll\<close> ties them together in \<open>CardManager\<close>.

  \<^bold>\<open>Conventions.\<close> A fallible pure function returns \<open>error + 'a\<close>; stateful code is a \<open>prog\<close>, a
  function from a state to a result and a state, composed by \<open>bindP\<close> and \<open>thenP\<close> as the source
  composes with \<open>?\<close>. Fixed-width integers are words and wrap; \<open>usize\<close> is \<open>nat\<close>, with the 64-bit
  bound written out where the source checks it. \<open>heapless::Vec\<close> of capacity \<open>n\<close> is a list, and every
  push goes through \<open>vec_push\<close> or \<open>vec_extend\<close> with \<open>n\<close>. The state of a workflow is the pair of
  the transport's and the backend's state. Cryptographic primitives, DEFLATE, the random generator,
  the socket, the \<open>pcsc\<close> crate and the card are parameters.

  \<^bold>\<open>The theories\<close>, in the order they build on each other:

  \<^item> \<open>Scll_Prelude\<close>: results, programs and their run rules, the invariant combinator \<open>keeps\<close>, bounded
    vectors, big-endian octets. \<open>Scll_Limits\<close>: \<open>limits.rs\<close>.
  \<^item> \<open>Scll_Tlv\<close>: \<open>tlv.rs\<close>. \<open>parse\<close> accepts exactly the BER encodings, \<open>encode\<close> writes the canonical
    ones, and they are inverse on well-formed tags. \<open>Scll_Model\<close>: \<open>error.rs\<close>, \<open>aid.rs\<close>, \<open>model.rs\<close>,
    \<open>transport.rs\<close>.
  \<^item> \<open>Scll_Lifecycle\<close>: \<open>lifecycle.rs\<close>, with the transitions as a step relation and the one-way
    invariant over all reachable states.
  \<^item> \<open>Scll_Command\<close>: the builders of \<open>command/\<close>, as an inductive set of short APDUs with their
    layouts. \<open>Scll_Response\<close>: the decoders of \<open>response.rs\<close>.
  \<^item> \<open>Scll_Scp\<close>: the pure part of \<open>scp/\<close>: INITIALIZE UPDATE parsing, level capping, selection.
  \<^item> \<open>Scll_Slots\<close>: the slot tables, with the locale \<open>slot_table\<close> of what their users rely on.
    \<open>Scll_Crypto\<close>: \<open>crypto.rs\<close> over the record \<open>prims\<close> of primitives: padding, CBC, KDF, MACs.
  \<^item> \<open>Scll_Channel\<close>: the locales \<open>command_channel\<close> and \<open>duplex_channel\<close>, the abstract contract of a
    secure channel: a dialogue over it delivers every command and every answer.
  \<^item> \<open>Scll_Backend\<close>, \<open>Scll_Backend03\<close>, \<open>Scll_Backend02\<close>: \<open>lib.rs\<close>, \<open>key.rs\<close>, \<open>scp03.rs\<close> and
    \<open>scp02.rs\<close> of the software backend: closed forms of wrapping and unwrapping, a card's end of
    each protocol, and the interpretations of the channel contract on both.
  \<^item> \<open>Scll_Session\<close>: the traits and \<open>workflow/session.rs\<close>, \<open>transmit.rs\<close>, \<open>probe.rs\<close>.
    \<open>Scll_Handshake\<close>: \<open>begin\<close> of both protocols and \<open>workflow/open_scp.rs\<close>: which cards are opened
    over SCP03, and what a refusal leaves behind. \<open>Scll_Handshake02\<close>: the same for SCP02.
  \<^item> \<open>Scll_Cap\<close>, \<open>Scll_Lfdb\<close>: \<open>cap/\<close>: the ZIP walk, the component tables, and the streamed Load
    File Data Block, a refinement of header and component contents for any block size.
  \<^item> \<open>Scll_Replay\<close>, \<open>Scll_Fixtures\<close>: the scripted transport, stub backend and card answers of
    \<open>scll-test-support\<close>, and the helpers of \<open>scll-test-util\<close>. They also serve as the concrete
    environments of examples.
  \<^item> \<open>Scll_Provision\<close>, \<open>Scll_Load\<close>, \<open>Scll_Status\<close>, \<open>Scll_Discover\<close>: the workflows \<open>keys.rs\<close>,
    \<open>ssd.rs\<close>, \<open>applet.rs\<close>, \<open>card_status.rs\<close>, \<open>discover.rs\<close>, with exact success conditions, the
    commands they send and the reports they return.
  \<^item> \<open>Scll_Manager\<close>: \<open>manager.rs\<close>. The locale \<open>session_invariant\<close> states what a workflow over a
    session can touch; its interpretations give the isolation of sessions and the silence of dead
    ones for any sequence of calls (the relation \<open>channel_call\<close>).
  \<^item> \<open>Scll_Compose\<close>: workflow and channel together. The locale \<open>session_simulation\<close> carries a
    simulation of single exchanges to every workflow; its sublocale \<open>session_channel\<close> gives such a
    simulation for any session over a channel with the laws of \<open>duplex_channel\<close>. It is interpreted for
    SCP03 and SCP02: a workflow over either channel does to the card's application what it does in
    plain.
  \<^item> \<open>Scll_Fuzz\<close>: the fuzz targets that drive the backend, as programs; what they assert, for every
    input, and which inputs reach the assertions; and the target that drains a CAP file.
    \<open>Scll_Format\<close>: \<open>hexfmt.rs\<close> and the environment and texts of \<open>scll-test-util\<close>.
  \<^item> \<open>Scll_Examples\<close>: the shared library of the example programs. \<open>Scll_Demo\<close>: control flow and key
    import of the lifecycle programs, and the judgement \<open>calls\<close>, "this program makes steps of this
    relation only", with the locale \<open>key_client\<close> of clients that keep the keys they import.
    \<open>Scll_IsdDemo\<close>, \<open>Scll_SsdDemo\<close>: the programs \<open>isd-lifecycle\<close> and \<open>ssd-lifecycle\<close>,
    clients of the card manager; the relations \<open>demo_step\<close> and \<open>ssd_step\<close> list the calls they may
    make. \<open>Scll_CardDemos\<close>: \<open>card-info\<close>, \<open>card-status\<close> and \<open>workflow-free\<close>, which read a card; the last
    is shown to do what the manager does. \<open>Scll_KeyTools\<close>: \<open>key-tools\<close>, the key operations alone.
  \<^item> \<open>Scll_Bounds\<close>: the number of exchanges of every manager method, for any card.
  \<^item> \<open>Scll_Transports\<close>: the two transport adapters; the simulator's framing refines the card.

  \<^bold>\<open>Hypotheses.\<close> \<open>prims_ok\<close> states the lengths of the primitives' outputs and that decryption inverts
  encryption; \<open>tdes_inverse\<close> the same for DES; \<open>state_ok\<close> is the backend's own invariant;
  \<open>inflating\<close> says that the decompressor produces the given contents; \<open>bridges\<close> is the framing
  protocol of the simulator bridge. Each theorem that uses one has an instance at concrete
  functions.

  \<^bold>\<open>Bounds and fuel.\<close> No definition has artificial fuel. \<open>scope_loop\<close> counts down from
  \<open>MAX_STATUS_PAGES\<close> as the source's \<open>for\<close> loop does; the other loops recurse on the input or on a
  measure. \<open>load_loop\<close> ends because every block it sends is not empty, at the latest at the announced
  length. The session tables have 16 slots; handles are 16-bit indices.

  \<^bold>\<open>Not modelled.\<close> The renderings that list the fields of a struct, zeroizing of memory and the mutex
  (a backend method is one atomic step); the primitives of the RustCrypto crates, \<open>miniz_oxide\<close>,
  \<open>pcsc\<close> and \<open>std::net\<close> themselves; connecting, printing and exit codes of the example programs, the
  fuzz target of the response decoders (which only calls them) and the tests.
\<close>

end
